(* ===== verification/Mosq_Prelude.thy ===== *)
theory Mosq_Prelude
  imports Main "HOL-Library.Word"
begin

text \<open>
  What every theory of the development shares: the machine integers and C strings, the result
  type of code that can fail or touch memory out of bounds, the return codes of
  \<^verbatim>\<open>include/mosquitto.h\<close>, the collections of simplification rules, and
  lemmas on lists that the components use.
\<close>

unbundle bit_operations_syntax

section \<open>Machine types\<close>

text \<open>
  Unsigned C integers are words of their width. Signed \<open>int\<close>, \<open>long\<close>,
  \<open>ssize_t\<close> and \<open>time_t\<close> values are \<^typ>\<open>int\<close>: signed overflow is undefined
  in C, and the counters that use these types are bounded by the number of messages held.
  A C string is its characters up to the terminating NUL; a Isabelle \<^typ>\<open>char\<close> is one byte.
\<close>

type_synonym u8 = "8 word"
type_synonym u16 = "16 word"
type_synonym u32 = "32 word"
type_synonym u64 = "64 word"
type_synonym bytes = "8 word list"

definition byte_of_char :: "char \<Rightarrow> u8" where
  "byte_of_char c = word_of_nat (of_char c)"

definition char_of_byte :: "u8 \<Rightarrow> char" where
  "char_of_byte b = char_of (unat b)"

definition bytes_of_string :: "string \<Rightarrow> bytes" where
  "bytes_of_string s = map byte_of_char s"

definition string_of_bytes :: "bytes \<Rightarrow> string" where
  "string_of_bytes bs = map char_of_byte bs"

lemma of_char_less_256: "(of_char c :: nat) < 256"
  using of_char_mod_256 [of c, where 'a = nat] by (metis mod_less_divisor zero_less_numeral)

lemma unat_byte_of_char [simp]: "unat (byte_of_char c) = of_char c"
  using of_char_less_256 [of c] by (simp add: byte_of_char_def unat_of_nat take_bit_nat_eq_self)

lemma char_of_byte_of_char [simp]: "char_of_byte (byte_of_char c) = c"
  by (simp add: char_of_byte_def)

lemma byte_of_char_of_byte [simp]: "byte_of_char (char_of_byte b) = b"
proof -
  have "unat b < 256" using unsigned_less [of b] by simp
  then show ?thesis by (simp add: byte_of_char_def char_of_byte_def)
qed

lemma string_of_bytes_of_string [simp]: "string_of_bytes (bytes_of_string s) = s"
  by (simp add: string_of_bytes_def bytes_of_string_def comp_def)

lemma bytes_of_string_of_bytes [simp]: "bytes_of_string (string_of_bytes bs) = bs"
  by (simp add: string_of_bytes_def bytes_of_string_def comp_def)

lemma length_bytes_of_string [simp]: "length (bytes_of_string s) = length s"
  by (simp add: bytes_of_string_def)

lemma length_string_of_bytes [simp]: "length (string_of_bytes s) = length s"
  by (simp add: string_of_bytes_def)

lemma unat_u8_less: "unat (w :: u8) < 256"
  using unsigned_less [of w, where 'a = nat] by simp

lemma unat_u16_less: "unat (w :: u16) < 65536"
  using unsigned_less [of w, where 'a = nat] by simp

lemma unat_u32_less: "unat (w :: u32) < 4294967296"
  using unsigned_less [of w, where 'a = nat] by simp

lemma unat_ucast_u8_u32: "unat (ucast (w :: u8) :: u32) = unat w"
  using unat_u8_less [of w] by (simp add: unsigned_ucast_eq take_bit_nat_eq_self)

lemma unat_ucast_u16_u32: "unat (ucast (w :: u16) :: u32) = unat w"
  using unat_u16_less [of w] by (simp add: unsigned_ucast_eq take_bit_nat_eq_self)

section \<open>Results\<close>

text \<open>
  \<open>Err rc\<close> is a return with the code \<open>rc\<close>; \<open>Fault\<close> is a failed
  \<open>assert\<close>, an access outside a buffer or to memory that has been freed. No theorem about a \<open>Fault\<close> is hidden:
  that the code never reaches one is proved where the buffers are well formed.
\<close>

datatype 'a res = Ok 'a | Err int | Fault

fun res_bind :: "'a res \<Rightarrow> ('a \<Rightarrow> 'b res) \<Rightarrow> 'b res" where
  "res_bind (Ok x) f = f x"
| "res_bind (Err e) f = Err e"
| "res_bind Fault f = Fault"

lemma res_bind_Ok_iff: "res_bind r f = Ok y \<longleftrightarrow> (\<exists>x. r = Ok x \<and> f x = Ok y)"
  by (cases r) auto

lemma res_bind_OkE:
  assumes "res_bind r f = Ok y"
  obtains x where "r = Ok x" and "f x = Ok y"
  using assms by (auto simp: res_bind_Ok_iff)

lemma res_bind_Fault_iff: "res_bind r f = Fault \<longleftrightarrow> r = Fault \<or> (\<exists>x. r = Ok x \<and> f x = Fault)"
  by (cases r) auto

lemma res_bind_assoc: "res_bind (res_bind r f) g = res_bind r (\<lambda>x. res_bind (f x) g)"
  by (cases r) auto

text \<open>
  What holds of the value of a program whenever it returns one. The rules follow the text of a
  program: the proof that all its paths are good is their repeated application, down to the
  operations that it calls.
\<close>

locale outcome =
  fixes good :: "'a res \<Rightarrow> bool" and fits :: "'a \<Rightarrow> bool"
  assumes good_iff: "good r \<longleftrightarrow> (\<forall>x. r = Ok x \<longrightarrow> fits x)"
begin

lemma good_error: "good (Err e)" "good Fault"
  by (simp_all add: good_iff)

lemma good_if: "(c \<Longrightarrow> good x) \<Longrightarrow> (\<not> c \<Longrightarrow> good y) \<Longrightarrow> good (if c then x else y)"
  by simp

lemma good_let: "good (f x) \<Longrightarrow> good (let y = x in f y)"
  by simp

lemma good_prod: "(\<And>a b. x = (a, b) \<Longrightarrow> good (f a b)) \<Longrightarrow> good (case x of (a, b) \<Rightarrow> f a b)"
  by (cases x) simp

lemma good_option:
  "(x = None \<Longrightarrow> good f) \<Longrightarrow> (\<And>y. x = Some y \<Longrightarrow> good (g y)) \<Longrightarrow> good (case x of None \<Rightarrow> f | Some y \<Rightarrow> g y)"
  by (cases x) simp_all

lemma good_res:
  "(\<And>y. x = Ok y \<Longrightarrow> good (f y)) \<Longrightarrow> (\<And>e. x = Err e \<Longrightarrow> good (g e)) \<Longrightarrow> good h \<Longrightarrow>
   good (case x of Ok y \<Rightarrow> f y | Err e \<Rightarrow> g e | Fault \<Rightarrow> h)"
  by (cases x) simp_all

lemma good_sum:
  "(\<And>y. x = Inl y \<Longrightarrow> good (f y)) \<Longrightarrow> (\<And>y. x = Inr y \<Longrightarrow> good (g y)) \<Longrightarrow> good (case x of Inl y \<Rightarrow> f y | Inr y \<Rightarrow> g y)"
  by (cases x) simp_all

lemma good_bind: "(\<And>x. r = Ok x \<Longrightarrow> good (f x)) \<Longrightarrow> good (res_bind r f)"
  by (auto simp: good_iff res_bind_Ok_iff)

lemmas good_cases = good_error good_if good_let good_prod good_option good_res good_sum

end

section \<open>Return codes (include/mosquitto.h)\<close>

type_synonym rc = int

abbreviation MOSQ_ERR_NO_SUBSCRIBERS :: rc where "MOSQ_ERR_NO_SUBSCRIBERS \<equiv> -3"
abbreviation MOSQ_ERR_SUB_EXISTS :: rc where "MOSQ_ERR_SUB_EXISTS \<equiv> -2"
abbreviation MOSQ_ERR_SUCCESS :: rc where "MOSQ_ERR_SUCCESS \<equiv> 0"
abbreviation MOSQ_ERR_NOMEM :: rc where "MOSQ_ERR_NOMEM \<equiv> 1"
abbreviation MOSQ_ERR_PROTOCOL :: rc where "MOSQ_ERR_PROTOCOL \<equiv> 2"
abbreviation MOSQ_ERR_INVAL :: rc where "MOSQ_ERR_INVAL \<equiv> 3"
abbreviation MOSQ_ERR_NO_CONN :: rc where "MOSQ_ERR_NO_CONN \<equiv> 4"
abbreviation MOSQ_ERR_NOT_FOUND :: rc where "MOSQ_ERR_NOT_FOUND \<equiv> 6"
abbreviation MOSQ_ERR_CONN_LOST :: rc where "MOSQ_ERR_CONN_LOST \<equiv> 7"
abbreviation MOSQ_ERR_PAYLOAD_SIZE :: rc where "MOSQ_ERR_PAYLOAD_SIZE \<equiv> 9"
abbreviation MOSQ_ERR_ACL_DENIED :: rc where "MOSQ_ERR_ACL_DENIED \<equiv> 12"
abbreviation MOSQ_ERR_ERRNO :: rc where "MOSQ_ERR_ERRNO \<equiv> 14"
abbreviation MOSQ_ERR_MALFORMED_UTF8 :: rc where "MOSQ_ERR_MALFORMED_UTF8 \<equiv> 18"
abbreviation MOSQ_ERR_MALFORMED_PACKET :: rc where "MOSQ_ERR_MALFORMED_PACKET \<equiv> 21"
abbreviation MOSQ_ERR_DUPLICATE_PROPERTY :: rc where "MOSQ_ERR_DUPLICATE_PROPERTY \<equiv> 22"
abbreviation MOSQ_ERR_QOS_NOT_SUPPORTED :: rc where "MOSQ_ERR_QOS_NOT_SUPPORTED \<equiv> 24"
abbreviation MOSQ_ERR_OVERSIZE_PACKET :: rc where "MOSQ_ERR_OVERSIZE_PACKET \<equiv> 25"
abbreviation MOSQ_ERR_AUTH_CONTINUE :: rc where "MOSQ_ERR_AUTH_CONTINUE \<equiv> -4"
abbreviation MOSQ_ERR_NOT_SUPPORTED :: rc where "MOSQ_ERR_NOT_SUPPORTED \<equiv> 10"
abbreviation MOSQ_ERR_AUTH :: rc where "MOSQ_ERR_AUTH \<equiv> 11"
abbreviation MOSQ_ERR_UNKNOWN :: rc where "MOSQ_ERR_UNKNOWN \<equiv> 13"
abbreviation MOSQ_ERR_KEEPALIVE :: rc where "MOSQ_ERR_KEEPALIVE \<equiv> 19"

section \<open>Shared rule collections and list lemmas\<close>

named_theorems res_simps \<open>unfolding results of fallible code\<close>
named_theorems wire_simps \<open>byte-level encoders and decoders\<close>
named_theorems frame_simps \<open>fields an operation leaves alone\<close>

declare res_bind_Ok_iff [res_simps] res_bind_Fault_iff [res_simps] res_bind_assoc [res_simps]

text \<open>Writing a block into a buffer at a position.\<close>

definition blit :: "'a list \<Rightarrow> nat \<Rightarrow> 'a list \<Rightarrow> 'a list" where
  "blit buf i xs = take i buf @ xs @ drop (i + length xs) buf"

lemma length_blit [simp]: "i + length xs \<le> length buf \<Longrightarrow> length (blit buf i xs) = length buf"
  by (simp add: blit_def)

lemma blit_Nil [simp]: "blit buf i [] = buf"
  by (simp add: blit_def)

lemma list_update_blit: "i < length buf \<Longrightarrow> buf[i := x] = blit buf i [x]"
  by (simp add: blit_def upd_conv_take_nth_drop)

lemma take_blit:
  "i + length xs \<le> length buf \<Longrightarrow> take (i + length xs) (blit buf i xs) = take i buf @ xs"
  by (simp add: blit_def)

lemma drop_blit:
  "i + length xs \<le> length buf \<Longrightarrow> drop (i + length xs) (blit buf i xs) = drop (i + length xs) buf"
  by (simp add: blit_def)

lemma blit_blit:
  "i + length xs + length ys \<le> length buf \<Longrightarrow>
   blit (blit buf i xs) (i + length xs) ys = blit buf i (xs @ ys)"
  by (simp add: blit_def add.assoc add.commute add.left_commute)

end
