(* ===== verification/Mosq_Types.thy ===== *)
theory Mosq_Types
  imports Mosq_Prelude
begin

text \<open>
  The data of the broker, from \<^verbatim>\<open>lib/mosquitto_internal.h\<close> and
  \<^verbatim>\<open>src/mosquitto_broker_internal.h\<close>, as built by \<^verbatim>\<open>config.mk\<close>
  (\<open>WITH_BROKER\<close>, \<open>WITH_BRIDGE\<close>, \<open>WITH_PERSISTENCE\<close>, no websockets) and
  with \<open>WITH_A_THRESHOLD\<close> defined by \<^verbatim>\<open>include/mqtt_protocol.h\<close>.
  A field \<open>f\<close> of a struct carries a prefix that names the struct: \<open>pk_\<close> for
  \<open>mosquitto__packet\<close>, \<open>ms_\<close> for \<open>mosquitto_msg_store\<close>, \<open>cm_\<close>
  for \<open>mosquitto_client_msg\<close>, \<open>md_\<close> for \<open>mosquitto_msg_data\<close>,
  \<open>mq_\<close> for \<open>struct mosquitto\<close>, \<open>br_\<close> and \<open>bt_\<close> for the bridge,
  \<open>cf_\<close> for \<open>mosquitto__config\<close> and \<open>db_\<close> for \<open>mosquitto_db\<close>.
  A pointer to a stored message is its address (\<open>store_ptr\<close>); the doubly linked lists of
  client messages are lists, and the \<open>*_count\<close> of an array is the length of its list.
\<close>

section \<open>Enumerations\<close>

datatype mosquitto_msg_direction = mosq_md_in | mosq_md_out

datatype transfer_mode = normal_mode | slow_mode

datatype mosquitto_msg_state =
    mosq_ms_invalid
  | mosq_ms_publish_qos0
  | mosq_ms_publish_qos1
  | mosq_ms_wait_for_puback
  | mosq_ms_publish_qos2
  | mosq_ms_wait_for_pubrec
  | mosq_ms_resend_pubrel
  | mosq_ms_wait_for_pubrel
  | mosq_ms_resend_pubcomp
  | mosq_ms_wait_for_pubcomp
  | mosq_ms_send_pubrec
  | mosq_ms_queued
  | mosq_ms_storage

datatype mosquitto_client_state =
    mosq_cs_new
  | mosq_cs_connected
  | mosq_cs_disconnecting
  | mosq_cs_active
  | mosq_cs_connect_pending
  | mosq_cs_connect_srv
  | mosq_cs_disconnect_ws
  | mosq_cs_disconnected
  | mosq_cs_socks5_new
  | mosq_cs_socks5_start
  | mosq_cs_socks5_request
  | mosq_cs_socks5_reply
  | mosq_cs_socks5_auth_ok
  | mosq_cs_socks5_userpass_reply
  | mosq_cs_socks5_send_userpass
  | mosq_cs_expiring
  | mosq_cs_duplicate
  | mosq_cs_disconnect_with_will
  | mosq_cs_disused
  | mosq_cs_authenticating
  | mosq_cs_reauthenticating

datatype mosquitto_protocol =
  mosq_p_invalid | mosq_p_mqtt31 | mosq_p_mqtt311 | mosq_p_mqtts | mosq_p_mqtt5

datatype mosquitto_msg_origin = mosq_mo_client | mosq_mo_broker

datatype bridge_direction = bd_out | bd_in | bd_both

datatype bridge_start_type = bst_automatic | bst_lazy | bst_manual | bst_once

section \<open>Reason codes (include/mqtt_protocol.h)\<close>

abbreviation MQTT_RC_DISCONNECT_WITH_WILL_MSG :: u8 where "MQTT_RC_DISCONNECT_WITH_WILL_MSG \<equiv> 4"
abbreviation MQTT_RC_NO_MATCHING_SUBSCRIBERS :: u8 where "MQTT_RC_NO_MATCHING_SUBSCRIBERS \<equiv> 16"
abbreviation MQTT_RC_CONTINUE_AUTHENTICATION :: u8 where "MQTT_RC_CONTINUE_AUTHENTICATION \<equiv> 24"
abbreviation MQTT_RC_UNSPECIFIED :: u8 where "MQTT_RC_UNSPECIFIED \<equiv> 128"
abbreviation MQTT_RC_MALFORMED_PACKET :: u8 where "MQTT_RC_MALFORMED_PACKET \<equiv> 129"
abbreviation MQTT_RC_PROTOCOL_ERROR :: u8 where "MQTT_RC_PROTOCOL_ERROR \<equiv> 130"
abbreviation MQTT_RC_BAD_USERNAME_OR_PASSWORD :: u8 where "MQTT_RC_BAD_USERNAME_OR_PASSWORD \<equiv> 134"
abbreviation MQTT_RC_NOT_AUTHORIZED :: u8 where "MQTT_RC_NOT_AUTHORIZED \<equiv> 135"
abbreviation MQTT_RC_BAD_AUTHENTICATION_METHOD :: u8 where "MQTT_RC_BAD_AUTHENTICATION_METHOD \<equiv> 140"
abbreviation MQTT_RC_TOPIC_ALIAS_INVALID :: u8 where "MQTT_RC_TOPIC_ALIAS_INVALID \<equiv> 148"
abbreviation MQTT_RC_PACKET_TOO_LARGE :: u8 where "MQTT_RC_PACKET_TOO_LARGE \<equiv> 149"
abbreviation MQTT_RC_QUOTA_EXCEEDED :: u8 where "MQTT_RC_QUOTA_EXCEEDED \<equiv> 151"
abbreviation MQTT_RC_RETAIN_NOT_SUPPORTED :: u8 where "MQTT_RC_RETAIN_NOT_SUPPORTED \<equiv> 154"
abbreviation MQTT_RC_QOS_NOT_SUPPORTED :: u8 where "MQTT_RC_QOS_NOT_SUPPORTED \<equiv> 155"
abbreviation CONNACK_ACCEPTED :: u8 where "CONNACK_ACCEPTED \<equiv> 0"
abbreviation CONNACK_REFUSED_PROTOCOL_VERSION :: u8 where "CONNACK_REFUSED_PROTOCOL_VERSION \<equiv> 1"
abbreviation CONNACK_REFUSED_IDENTIFIER_REJECTED :: u8 where "CONNACK_REFUSED_IDENTIFIER_REJECTED \<equiv> 2"
abbreviation CONNACK_REFUSED_NOT_AUTHORIZED :: u8 where "CONNACK_REFUSED_NOT_AUTHORIZED \<equiv> 5"

section \<open>Clocks and the socket\<close>

record timespec =
  tv_sec :: int
  tv_nsec :: int

text \<open>
  One call of \<open>net__write\<close>: the value it returns and the value of \<open>errno\<close> after
  it. The socket is outside the program; what its next calls answer is part of the input.
\<close>

datatype errno = EAGAIN | COMPAT_EWOULDBLOCK | COMPAT_ECONNRESET | COMPAT_EINTR | EOTHER

type_synonym net_result = "int \<times> errno"

text \<open>
  What \<open>net__read\<close> finds at the socket: bytes, of which a call takes as many as it asks for and
  leaves the rest to the next one, the end of the stream, or an error. The list of these is the
  input of the socket; when it is used up the socket would block.
\<close>

datatype net_read = Chunk bytes | Closed | Failed errno

section \<open>Properties (lib/property_mosq.h)\<close>

text \<open>
  The members of the union \<open>value\<close> are fields of their own: a property is zeroed when it
  is made, and every function reads only the member that \<open>identifier\<close> selects. A
  string is the bytes at its \<open>v\<close> without the NUL, or \<^const>\<open>None\<close> for a \<open>NULL\<close>
  pointer; its \<open>len\<close> is a field of its own.
\<close>

record mosquitto_property =
  pr_identifier :: int
  pr_i8 :: u8
  pr_i16 :: u16
  pr_i32 :: u32
  pr_varint :: u32
  pr_bin :: bytes
  pr_bin_len :: u16
  pr_s :: "bytes option"
  pr_s_len :: u16
  pr_name :: "bytes option"
  pr_name_len :: u16
  pr_client_generated :: bool

definition property_zero :: mosquitto_property where
  "property_zero = \<lparr> pr_identifier = 0, pr_i8 = 0, pr_i16 = 0, pr_i32 = 0, pr_varint = 0,
     pr_bin = [], pr_bin_len = 0, pr_s = None, pr_s_len = 0, pr_name = None, pr_name_len = 0,
     pr_client_generated = False \<rparr>"

section \<open>Packets\<close>

type_synonym store_ptr = nat

record packet =
  pk_payload :: bytes
  pk_payload_store :: "store_ptr option"
  pk_payload_length :: u32
  pk_pub_or_not :: u8
  pk_remaining_mult :: u32
  pk_remaining_length :: u32
  pk_packet_length :: u32
  pk_to_process :: u32
  pk_pos :: u32
  pk_mid :: u16
  pk_command :: u8
  pk_remaining_count :: int

definition packet_zero :: packet where
  "packet_zero = \<lparr> pk_payload = [], pk_payload_store = None, pk_payload_length = 0,
     pk_pub_or_not = 0, pk_remaining_mult = 0, pk_remaining_length = 0, pk_packet_length = 0,
     pk_to_process = 0, pk_pos = 0, pk_mid = 0, pk_command = 0, pk_remaining_count = 0 \<rparr>"

section \<open>Messages\<close>

record mosquitto_msg_store =
  ms_db_id :: u64
  ms_source_id :: string
  ms_source_username :: "string option"
  ms_dest_ids :: "string list"
  ms_ref_count :: int
  ms_topic :: "string option"
  ms_properties :: "mosquitto_property list"
  ms_payload :: bytes
  ms_message_expiry_time :: int
  ms_payloadlen :: u32
  ms_origin :: mosquitto_msg_origin
  ms_source_mid :: u16
  ms_mid :: u16
  ms_qos :: u8
  ms_retain :: bool

record mosquitto_client_msg =
  cm_store :: store_ptr
  cm_properties :: "mosquitto_property list"
  cm_timestamp :: int
  cm_mid :: u16
  cm_qos :: u8
  cm_retain :: bool
  cm_direction :: mosquitto_msg_direction
  cm_state :: mosquitto_msg_state
  cm_dup :: bool
  cm_storage_time :: timespec

record mosquitto_msg_data =
  md_inflight :: "mosquitto_client_msg list"
  md_queued :: "mosquitto_client_msg list"
  md_storage :: "mosquitto_client_msg list"
  md_msg_bytes :: int
  md_msg_bytes12 :: int
  md_msg_count :: int
  md_msg_count12 :: int
  md_inflight_quota :: int
  md_inflight_maximum :: u16

section \<open>Clients\<close>

record bridge_topic =
  bt_local_prefix :: "string option"
  bt_remote_prefix :: "string option"
  bt_local_topic :: string
  bt_remote_topic :: string
  bt_direction :: bridge_direction

record bridge =
  br_clean_start :: bool
  br_clean_start_local :: bool
  br_topics :: "bridge_topic list"
  br_topic_remapping :: bool
  br_start_type :: bridge_start_type
  br_threshold :: int
  br_lazy_reconnect :: bool
  br_idle_timeout :: int

text \<open>
  A subscription in the list that a client keeps. The pointer to a node of the subscription tree
  is the path to it, the one to a share group its name.
\<close>

record client_sub =
  cs_topic_filter :: string
  cs_hier :: "string list"
  cs_shared :: "string option"

text \<open>
  \<open>mq_sock_writes\<close> is the input of the socket (what its next \<open>net__write\<close> calls
  answer: for a positive number \<open>n\<close> the call takes \<open>n\<close> bytes, or all it is given
  if these are fewer; when the list is used up the socket would block) and \<open>mq_wire\<close> its output (the bytes it has taken so far).
  \<open>mq_current_out_packet\<close> and \<open>mq_out_packet\<close> are the packet being written and
  the list after it; \<open>out_packet_last\<close> is the end of that list. \<open>mq_mount_point\<close> and
  \<open>mq_max_topic_alias\<close> are fields of the listener, without a value when there is no listener
  (or, the first, when the listener has no mount point).
\<close>

text \<open>
  The last will of a client, \<open>struct mosquitto_message_all\<close>, and what the handler of CONNECT
  reads of a listener.
\<close>

record will_message =
  wm_topic :: "string option"
  wm_payload :: bytes
  wm_payloadlen :: int
  wm_qos :: u8
  wm_retain :: bool
  wm_properties :: "mosquitto_property list"
  wm_expiry_interval :: u32

record listener =
  li_max_qos :: u8
  li_allow_zero_length_clientid :: bool
  li_allow_anonymous :: bool
  li_auto_id_prefix :: "string option"
  li_use_username_as_clientid :: bool

text \<open>
  \<open>mq_sock_reads\<close> is what the peer sends. \<open>mq_expiry_list_item\<close> and
  \<open>mq_will_delay_entry\<close> tell whether these pointers are set. \<open>mq_listener\<close> has the fields of
  the listener that only CONNECT uses.
\<close>

record mosquitto =
  mq_sock :: int
  mq_maximum_packet_size :: u32
  mq_protocol :: mosquitto_protocol
  mq_id :: "string option"
  mq_username :: "string option"
  mq_keepalive :: u16
  mq_last_mid :: u16
  mq_state :: mosquitto_client_state
  mq_last_msg_in :: int
  mq_next_msg_out :: int
  mq_ping_t :: int
  mq_lat_pre :: "int list"
  mq_count_for_lat :: int
  mq_latency_t :: timespec
  mq_send_time :: timespec
  mq_threshold_l :: u32
  mq_mode :: transfer_mode
  mq_slow_mode_time :: int
  mq_in_packet :: packet
  mq_current_out_packet :: "packet option"
  mq_out_packet :: "packet list"
  mq_out_packet_count :: int
  mq_clean_start :: bool
  mq_is_dropping :: bool
  mq_bridge :: "bridge option"
  mq_msgs_in :: mosquitto_msg_data
  mq_msgs_out :: mosquitto_msg_data
  mq_subs :: "client_sub option list"
  mq_aliases :: "(u16 \<times> string) list"
  mq_max_topic_alias :: "u16 option"
  mq_is_bridge :: bool
  mq_mount_point :: "string option"
  mq_max_qos :: u8
  mq_retain_available :: bool
  mq_sock_writes :: "net_result list"
  mq_wire :: bytes
  mq_sock_reads :: "net_read list"
  mq_listener :: "listener option"
  mq_password :: "bytes option"
  mq_auth_method :: "string option"
  mq_assigned_id :: bool
  mq_will :: "will_message option"
  mq_will_delay_interval :: u32
  mq_will_delay_time :: int
  mq_will_delay_entry :: bool
  mq_session_expiry_interval :: u32
  mq_session_expiry_time :: int
  mq_expiry_list_item :: bool
  mq_removed_from_by_id :: bool

text \<open>The memory of a client as \<open>calloc\<close> gives it.\<close>

definition msg_data_zero :: mosquitto_msg_data where
  "msg_data_zero = \<lparr> md_inflight = [], md_queued = [], md_storage = [], md_msg_bytes = 0,
     md_msg_bytes12 = 0, md_msg_count = 0, md_msg_count12 = 0, md_inflight_quota = 0,
     md_inflight_maximum = 0 \<rparr>"

definition mosquitto_zero :: mosquitto where
  "mosquitto_zero = \<lparr> mq_sock = 0, mq_maximum_packet_size = 0, mq_protocol = mosq_p_invalid,
     mq_id = None, mq_username = None, mq_keepalive = 0, mq_last_mid = 0, mq_state = mosq_cs_new,
     mq_last_msg_in = 0, mq_next_msg_out = 0, mq_ping_t = 0, mq_lat_pre = [0, 0, 0, 0, 0],
     mq_count_for_lat = 0, mq_latency_t = \<lparr> tv_sec = 0, tv_nsec = 0 \<rparr>,
     mq_send_time = \<lparr> tv_sec = 0, tv_nsec = 0 \<rparr>, mq_threshold_l = 0, mq_mode = normal_mode,
     mq_slow_mode_time = 0, mq_in_packet = packet_zero, mq_current_out_packet = None,
     mq_out_packet = [], mq_out_packet_count = 0, mq_clean_start = False, mq_is_dropping = False,
     mq_bridge = None, mq_msgs_in = msg_data_zero, mq_msgs_out = msg_data_zero,
     mq_subs = [], mq_aliases = [], mq_max_topic_alias = None, mq_is_bridge = False, mq_mount_point = None,
     mq_max_qos = 0, mq_retain_available = False, mq_sock_writes = [],
     mq_wire = [], mq_sock_reads = [], mq_listener = None, mq_password = None, mq_auth_method = None,
     mq_assigned_id = False, mq_will = None, mq_will_delay_interval = 0, mq_will_delay_time = 0,
     mq_will_delay_entry = False, mq_session_expiry_interval = 0, mq_session_expiry_time = 0,
     mq_expiry_list_item = False, mq_removed_from_by_id = False \<rparr>"

text \<open>
  What belongs to the session of a client rather than to its traffic: no delivery of a message and
  no acknowledgement changes it.
\<close>

definition session :: "mosquitto \<Rightarrow> (string option \<times> mosquitto_client_state \<times> int \<times> bool \<times> bool) \<times>
    (will_message option \<times> u32 \<times> int \<times> bool) \<times> (u32 \<times> int \<times> bool \<times> bool)" where
  "session m = ((mq_id m, mq_state m, mq_sock m, mq_clean_start m, mq_bridge m = None),
     (mq_will m, mq_will_delay_interval m, mq_will_delay_time m, mq_will_delay_entry m),
     (mq_session_expiry_interval m, mq_session_expiry_time m, mq_expiry_list_item m, mq_removed_from_by_id m))"

lemma session_updates [simp]:
  "session (m\<lparr>mq_maximum_packet_size := x_maximum_packet_size\<rparr>) = session m"
  "session (m\<lparr>mq_protocol := x_protocol\<rparr>) = session m"
  "session (m\<lparr>mq_username := x_username\<rparr>) = session m"
  "session (m\<lparr>mq_keepalive := x_keepalive\<rparr>) = session m"
  "session (m\<lparr>mq_last_mid := x_last_mid\<rparr>) = session m"
  "session (m\<lparr>mq_last_msg_in := x_last_msg_in\<rparr>) = session m"
  "session (m\<lparr>mq_next_msg_out := x_next_msg_out\<rparr>) = session m"
  "session (m\<lparr>mq_ping_t := x_ping_t\<rparr>) = session m"
  "session (m\<lparr>mq_lat_pre := x_lat_pre\<rparr>) = session m"
  "session (m\<lparr>mq_count_for_lat := x_count_for_lat\<rparr>) = session m"
  "session (m\<lparr>mq_latency_t := x_latency_t\<rparr>) = session m"
  "session (m\<lparr>mq_send_time := x_send_time\<rparr>) = session m"
  "session (m\<lparr>mq_threshold_l := x_threshold_l\<rparr>) = session m"
  "session (m\<lparr>mq_mode := x_mode\<rparr>) = session m"
  "session (m\<lparr>mq_slow_mode_time := x_slow_mode_time\<rparr>) = session m"
  "session (m\<lparr>mq_in_packet := x_in_packet\<rparr>) = session m"
  "session (m\<lparr>mq_current_out_packet := x_current_out_packet\<rparr>) = session m"
  "session (m\<lparr>mq_out_packet := x_out_packet\<rparr>) = session m"
  "session (m\<lparr>mq_out_packet_count := x_out_packet_count\<rparr>) = session m"
  "session (m\<lparr>mq_is_dropping := x_is_dropping\<rparr>) = session m"
  "session (m\<lparr>mq_msgs_in := x_msgs_in\<rparr>) = session m"
  "session (m\<lparr>mq_msgs_out := x_msgs_out\<rparr>) = session m"
  "session (m\<lparr>mq_subs := x_subs\<rparr>) = session m"
  "session (m\<lparr>mq_aliases := x_aliases\<rparr>) = session m"
  "session (m\<lparr>mq_max_topic_alias := x_max_topic_alias\<rparr>) = session m"
  "session (m\<lparr>mq_is_bridge := x_is_bridge\<rparr>) = session m"
  "session (m\<lparr>mq_mount_point := x_mount_point\<rparr>) = session m"
  "session (m\<lparr>mq_max_qos := x_max_qos\<rparr>) = session m"
  "session (m\<lparr>mq_retain_available := x_retain_available\<rparr>) = session m"
  "session (m\<lparr>mq_sock_writes := x_sock_writes\<rparr>) = session m"
  "session (m\<lparr>mq_wire := x_wire\<rparr>) = session m"
  "session (m\<lparr>mq_sock_reads := x_sock_reads\<rparr>) = session m"
  "session (m\<lparr>mq_password := x_password\<rparr>) = session m"
  "session (m\<lparr>mq_auth_method := x_auth_method\<rparr>) = session m"
  "session (m\<lparr>mq_assigned_id := x_assigned_id\<rparr>) = session m"
  by (simp_all add: session_def)

lemma session_bridge [simp]: "mq_bridge m \<noteq> None \<Longrightarrow> session (m\<lparr>mq_bridge := Some br\<rparr>) = session m"
  by (simp add: session_def)

abbreviation INVALID_SOCKET :: int where "INVALID_SOCKET \<equiv> -1"

section \<open>The broker\<close>

record config =
  cf_allow_duplicate_messages :: bool
  cf_max_inflight_bytes :: u64
  cf_max_queued_bytes :: u64
  cf_max_queued_messages :: int
  cf_max_inflight_messages :: u16
  cf_queue_qos0_messages :: bool
  cf_retain_available :: bool
  cf_threshold_s :: u64
  cf_msg_store_timeout :: int
  cf_upgrade_outgoing_qos :: bool
  cf_check_retain_source :: bool
  cf_per_listener_settings :: bool
  cf_message_size_limit :: u32
  cf_max_packet_size :: u32
  cf_max_keepalive :: u16
  cf_persistent_client_expiration :: int
  cf_clientid_prefixes :: "string option"
  cf_allow_zero_length_clientid :: bool
  cf_allow_anonymous :: bool
  cf_auto_id_prefix :: "string option"

text \<open>
  \<open>db_msg_store\<close> is the linked list \<open>db.msg_store\<close> with the address of each
  element. \<open>db_monotonic\<close> and \<open>db_realtime\<close> are the readings of
  \<open>clock_gettime(CLOCK_MONOTONIC)\<close> and of \<open>gettimeofday\<close> (its seconds) while an
  event is handled.
\<close>

record db =
  db_last_db_id :: u64
  db_msg_store :: "(store_ptr \<times> mosquitto_msg_store) list"
  db_next_ptr :: store_ptr
  db_now_s :: int
  db_now_real_s :: int
  db_monotonic :: timespec
  db_realtime :: int
  db_msg_store_count :: int
  db_msg_store_bytes :: u64
  db_config :: config
  db_persistence_changes :: int
  db_msgs_dropped :: int

text \<open>Dereferencing a pointer to a stored message.\<close>

definition store_at :: "db \<Rightarrow> store_ptr \<Rightarrow> mosquitto_msg_store option" where
  "store_at d p = map_of (db_msg_store d) p"

definition msg_store_zero :: mosquitto_msg_store where
  "msg_store_zero = \<lparr> ms_db_id = 0, ms_source_id = [], ms_source_username = None, ms_dest_ids = [],
     ms_ref_count = 0, ms_topic = None, ms_properties = [], ms_payload = [],
     ms_message_expiry_time = 0, ms_payloadlen = 0, ms_origin = mosq_mo_client, ms_source_mid = 0,
     ms_mid = 0, ms_qos = 0, ms_retain = False \<rparr>"

definition config_zero :: config where
  "config_zero = \<lparr> cf_allow_duplicate_messages = False, cf_max_inflight_bytes = 0,
     cf_max_queued_bytes = 0, cf_max_queued_messages = 0, cf_max_inflight_messages = 0,
     cf_queue_qos0_messages = False, cf_retain_available = False, cf_threshold_s = 0,
     cf_msg_store_timeout = 0, cf_upgrade_outgoing_qos = False, cf_check_retain_source = False,
     cf_per_listener_settings = False, cf_message_size_limit = 0,
     cf_max_packet_size = 0, cf_max_keepalive = 0, cf_persistent_client_expiration = 0,
     cf_clientid_prefixes = None, cf_allow_zero_length_clientid = False, cf_allow_anonymous = False,
     cf_auto_id_prefix = None \<rparr>"

definition db_zero :: db where
  "db_zero = \<lparr> db_last_db_id = 0, db_msg_store = [], db_next_ptr = 0, db_now_s = 0,
     db_now_real_s = 0, db_monotonic = \<lparr> tv_sec = 0, tv_nsec = 0 \<rparr>, db_realtime = 0,
     db_msg_store_count = 0, db_msg_store_bytes = 0, db_config = config_zero,
     db_persistence_changes = 0, db_msgs_dropped = 0 \<rparr>"

end
