(* ===== verification/Utf8.thy ===== *)
theory Utf8
  imports Mosq_Prelude
begin

text \<open>
  \<open>mosquitto_validate_utf8\<close> of \<^verbatim>\<open>lib/utf8_mosq.c\<close>, over the buffer it is
  given, and the proof that on a string with its terminating NUL it never reads outside the
  buffer and accepts exactly the concatenations of UTF-8 encodings of the code points that MQTT
  allows. The check \<open>i == len-codelen+1\<close> leaves some truncated sequences to the NUL
  behind the string, which is why the buffer is part of the model.
\<close>

section \<open>The validator\<close>

text \<open>
  The chain of tests on the first byte of a sequence: the length of the sequence and the bits of
  the code point in this byte, or \<open>None\<close> where the code returns
  \<open>MOSQ_ERR_MALFORMED_UTF8\<close>.
\<close>

definition utf8_lead :: "nat \<Rightarrow> (nat \<times> nat) option" where
  "utf8_lead b =
     (if b = 0 then None
      else if b \<le> 0x7f then Some (1, b)
      else if b AND 0xE0 = 0xC0 then
        (if b = 0xC0 \<or> b = 0xC1 then None else Some (2, b AND 0x1F))
      else if b AND 0xF0 = 0xE0 then Some (3, b AND 0x0F)
      else if b AND 0xF8 = 0xF0 then
        (if b > 0xF4 then None else Some (4, b AND 0x07))
      else None)"

text \<open>The inner loop: \<open>k\<close> more continuation bytes, \<open>i\<close> the current index.\<close>

fun utf8_cont :: "bytes \<Rightarrow> nat \<Rightarrow> nat \<Rightarrow> nat \<Rightarrow> (nat \<times> nat) res" where
  "utf8_cont ustr 0 i cp = Ok (i, cp)"
| "utf8_cont ustr (Suc k) i cp =
     (if Suc i < length ustr then
        (if unat (ustr ! Suc i) AND 0xC0 \<noteq> 0x80 then Err MOSQ_ERR_MALFORMED_UTF8
         else utf8_cont ustr k (Suc i) (push_bit 6 cp OR (unat (ustr ! Suc i) AND 0x3F)))
      else Fault)"

text \<open>The checks on a reconstructed code point, \<open>True\<close> where none of them returns.\<close>

definition utf8_codepoint_ok :: "nat \<Rightarrow> nat \<Rightarrow> bool" where
  "utf8_codepoint_ok codelen cp \<longleftrightarrow>
     \<not> (cp \<ge> 0xD800 \<and> cp \<le> 0xDFFF) \<and>
     \<not> (codelen = 3 \<and> cp < 0x0800) \<and>
     \<not> (codelen = 4 \<and> (cp < 0x10000 \<or> cp > 0x10FFFF)) \<and>
     \<not> (cp \<ge> 0xFDD0 \<and> cp \<le> 0xFDEF) \<and>
     \<not> (cp AND 0xFFFF = 0xFFFE \<or> cp AND 0xFFFF = 0xFFFF) \<and>
     \<not> (cp \<le> 0x001F \<or> (cp \<ge> 0x007F \<and> cp \<le> 0x009F))"

lemma utf8_cont_index: "utf8_cont ustr k i cp = Ok (i', cp') \<Longrightarrow> i' = i + k"
  by (induction ustr k i cp rule: utf8_cont.induct) (auto split: if_splits)

function utf8_loop :: "bytes \<Rightarrow> nat \<Rightarrow> nat \<Rightarrow> unit res" where
  "utf8_loop ustr len i =
     (if i < len then
        (if i < length ustr then
          (case utf8_lead (unat (ustr ! i)) of
             None \<Rightarrow> Err MOSQ_ERR_MALFORMED_UTF8
           | Some (codelen, cp0) \<Rightarrow>
               if int i = int len - int codelen + 1 then Err MOSQ_ERR_MALFORMED_UTF8
               else case utf8_cont ustr (codelen - 1) i cp0 of
                      Fault \<Rightarrow> Fault
                    | Err e \<Rightarrow> Err e
                    | Ok (i', cp) \<Rightarrow>
                        if utf8_codepoint_ok codelen cp then utf8_loop ustr len (Suc i')
                        else Err MOSQ_ERR_MALFORMED_UTF8)
         else Fault)
      else Ok ())"
  by pat_completeness auto
termination
  by (relation "measure (\<lambda>(ustr, len, i). len - i)") (auto dest!: utf8_cont_index)

declare utf8_loop.simps [simp del]

definition mosquitto_validate_utf8 :: "bytes \<Rightarrow> int \<Rightarrow> unit res" where
  "mosquitto_validate_utf8 ustr len =
     (if len < 0 \<or> len > 65536 then Err MOSQ_ERR_INVAL else utf8_loop ustr (nat len) 0)"

section \<open>What it should accept\<close>

definition utf8_encode :: "nat \<Rightarrow> nat list" where
  "utf8_encode c =
     (if c < 0x80 then [c]
      else if c < 0x800 then [0xC0 + c div 64, 0x80 + c mod 64]
      else if c < 0x10000 then [0xE0 + c div 4096, 0x80 + c div 64 mod 64, 0x80 + c mod 64]
      else [0xF0 + c div 262144, 0x80 + c div 4096 mod 64, 0x80 + c div 64 mod 64, 0x80 + c mod 64])"

definition utf8_allowed :: "nat \<Rightarrow> bool" where
  "utf8_allowed c \<longleftrightarrow>
     c \<le> 0x10FFFF \<and> c \<notin> {0xD800..0xDFFF} \<and> c \<notin> {0xFDD0..0xFDEF} \<and>
     c mod 0x10000 \<notin> {0xFFFE, 0xFFFF} \<and> c \<notin> {0..0x1F} \<and> c \<notin> {0x7F..0x9F}"

definition valid_utf8 :: "bytes \<Rightarrow> bool" where
  "valid_utf8 bs \<longleftrightarrow> (\<exists>cs. list_all utf8_allowed cs \<and> map unat bs = concat (map utf8_encode cs))"

section \<open>Proof\<close>

lemma valid_utf8_Nil [simp]: "valid_utf8 []"
  unfolding valid_utf8_def by (rule exI [of _ "[]"]) simp

lemma valid_utf8_step:
  "bs \<noteq> [] \<Longrightarrow> valid_utf8 bs \<longleftrightarrow>
   (\<exists>c n. utf8_allowed c \<and> map unat (take n bs) = utf8_encode c \<and> n \<le> length bs \<and>
          valid_utf8 (drop n bs))"
proof
  assume "bs \<noteq> []" and "valid_utf8 bs"
  then obtain c cs where c: "utf8_allowed c" "list_all utf8_allowed cs"
    and m: "map unat bs = utf8_encode c @ concat (map utf8_encode cs)"
    unfolding valid_utf8_def by (metis (no_types, lifting) concat.simps(1) list.map_disc_iff
        list.pred_inject(2) list.simps(8) list.simps(9) concat.simps(2) neq_Nil_conv)
  then have "map unat (take (length (utf8_encode c)) bs) = utf8_encode c"
    and "map unat (drop (length (utf8_encode c)) bs) = concat (map utf8_encode cs)"
    by (simp_all add: take_map [symmetric] drop_map [symmetric])
  moreover have "length (utf8_encode c) \<le> length bs"
    using arg_cong [OF m, of length] by simp
  ultimately show "\<exists>c n. utf8_allowed c \<and> map unat (take n bs) = utf8_encode c \<and>
      n \<le> length bs \<and> valid_utf8 (drop n bs)"
    using c unfolding valid_utf8_def by blast
next
  assume "\<exists>c n. utf8_allowed c \<and> map unat (take n bs) = utf8_encode c \<and> n \<le> length bs \<and>
      valid_utf8 (drop n bs)"
  then obtain c n cs where "utf8_allowed c" "map unat (take n bs) = utf8_encode c"
    "list_all utf8_allowed cs" "map unat (drop n bs) = concat (map utf8_encode cs)"
    unfolding valid_utf8_def by blast
  then have "list_all utf8_allowed (c # cs)"
    and "map unat bs = concat (map utf8_encode (c # cs))"
    by (simp, metis append_take_drop_id concat.simps(2) list.simps(9) map_append)
  then show "valid_utf8 bs" unfolding valid_utf8_def by blast
qed

text \<open>The byte tests of the code as ranges.\<close>

lemma and_push_bit: "(b :: nat) AND push_bit k c = push_bit k (drop_bit k b AND c)"
  by (rule bit_eqI) (auto simp: bit_simps)

lemma and_mask_mod: "(b :: nat) AND mask k = b mod 2 ^ k"
  using take_bit_eq_mask [of k b] by (simp add: take_bit_eq_mod)

lemma and_high_bits: "(b :: nat) AND push_bit k (mask m) = b div 2 ^ k mod 2 ^ m * 2 ^ k"
  unfolding and_push_bit and_mask_mod drop_bit_eq_div by (rule push_bit_eq_mult)

lemma byte_masks:
  assumes "b < (256 :: nat)"
  shows "b AND 0xE0 = b div 32 * 32" "b AND 0xF0 = b div 16 * 16" "b AND 0xF8 = b div 8 * 8"
    "b AND 0xC0 = b div 64 * 64"
proof -
  have "b div 32 < 8" "b div 16 < 16" "b div 8 < 32" "b div 64 < 4"
    using assms by (simp_all add: div_less_iff_less_mult)
  then show "b AND 0xE0 = b div 32 * 32" "b AND 0xF0 = b div 16 * 16"
    "b AND 0xF8 = b div 8 * 8" "b AND 0xC0 = b div 64 * 64"
    using and_high_bits [of b 5 3] and_high_bits [of b 4 4] and_high_bits [of b 3 5]
      and_high_bits [of b 6 2]
    by (simp_all add: mask_eq_exp_minus_1)
qed

lemma byte_low_masks:
  "(b :: nat) AND 0x1F = b mod 32" "b AND 0x0F = b mod 16" "b AND 0x07 = b mod 8"
  "b AND 0x3F = b mod 64" "b AND 0xFFFF = b mod 65536"
  using and_mask_mod [of b 5] and_mask_mod [of b 4] and_mask_mod [of b 3] and_mask_mod [of b 6]
    and_mask_mod [of b 16]
  by (simp_all add: mask_eq_exp_minus_1)

definition utf8_lead_ranges :: "nat \<Rightarrow> (nat \<times> nat) option" where
  "utf8_lead_ranges b =
     (if b = 0 then None else if b < 0x80 then Some (1, b)
      else if b < 0xC2 then None else if b < 0xE0 then Some (2, b - 0xC0)
      else if b < 0xF0 then Some (3, b - 0xE0)
      else if b < 0xF5 then Some (4, b - 0xF0) else None)"

lemma div_mult_eq_iff: "0 < k \<Longrightarrow> (b :: nat) div k * k = q * k \<longleftrightarrow> q * k \<le> b \<and> b < q * k + k"
  by (metis add.commute div_nat_eqI div_times_less_eq_dividend dividend_less_div_times mult.commute
      mult_Suc_right mult_cancel2 not_gr_zero)

lemma mod_range:
  assumes "q * k \<le> b" and "b < q * k + k"
  shows "b mod k = (b :: nat) - q * k"
proof -
  have "b = q * k + (b - q * k)" using assms(1) by simp
  then have "b mod k = (b - q * k) mod k" by (metis mod_mult_self3)
  with assms show ?thesis by simp
qed

lemma utf8_lead_eq:
  assumes "b < 256"
  shows "utf8_lead b = utf8_lead_ranges b"
proof -
  have "b AND 0xE0 = 0xC0 \<longleftrightarrow> 0xC0 \<le> b \<and> b < 0xE0"
    "b AND 0xF0 = 0xE0 \<longleftrightarrow> 0xE0 \<le> b \<and> b < 0xF0" "b AND 0xF8 = 0xF0 \<longleftrightarrow> 0xF0 \<le> b \<and> b < 0xF8"
    using div_mult_eq_iff [of 32 b 6] div_mult_eq_iff [of 16 b 14] div_mult_eq_iff [of 8 b 30]
    by (simp_all add: byte_masks [OF assms])
  moreover have "0xC0 \<le> b \<and> b < 0xE0 \<Longrightarrow> b mod 32 = b - 0xC0"
    "0xE0 \<le> b \<and> b < 0xF0 \<Longrightarrow> b mod 16 = b - 0xE0" "0xF0 \<le> b \<and> b < 0xF8 \<Longrightarrow> b mod 8 = b - 0xF0"
    using mod_range [of 6 32 b] mod_range [of 14 16 b] mod_range [of 30 8 b] by simp_all
  ultimately show ?thesis
    unfolding utf8_lead_def utf8_lead_ranges_def byte_low_masks by simp
qed

lemma utf8_trail_eq: "b < 256 \<Longrightarrow> ((b :: nat) AND 0xC0 = 0x80) = (0x80 \<le> b \<and> b < 0xC0)"
  using div_mult_eq_iff [of 64 b 2] by (simp add: byte_masks)

lemma shift_or: "push_bit 6 a OR (b AND 0x3F) = a * 64 + b mod (64 :: nat)"
proof -
  have "push_bit 6 a AND take_bit 6 b = 0"
    by (simp add: bit_eq_iff bit_simps)
  then have "push_bit 6 a OR take_bit 6 b = push_bit 6 a + take_bit 6 b"
    by (rule disjunctive_add_eq_or [symmetric])
  then show ?thesis
    by (simp add: push_bit_eq_mult take_bit_eq_mod byte_low_masks)
qed

text \<open>The loops on the part of the string not yet read.\<close>

fun trail :: "nat \<Rightarrow> bytes \<Rightarrow> nat \<Rightarrow> nat option" where
  "trail 0 t cp = Some cp"
| "trail (Suc k) [] cp = None"
| "trail (Suc k) (c # t) cp =
     (if 0x80 \<le> unat c \<and> unat c < 0xC0 then trail k t (cp * 64 + (unat c - 0x80)) else None)"

lemma trail_length: "trail k t cp = Some cp' \<Longrightarrow> k \<le> length t"
  by (induction k t cp rule: trail.induct) (auto split: if_splits)

lemma utf8_cont_trail:
  "i < length s \<Longrightarrow>
   utf8_cont (s @ [0]) k i cp =
     (case trail k (drop (Suc i) s) cp of None \<Rightarrow> Err MOSQ_ERR_MALFORMED_UTF8
      | Some cp' \<Rightarrow> Ok (i + k, cp'))"
proof (induction k arbitrary: i cp)
  case 0
  then show ?case by simp
next
  case (Suc k)
  show ?case
  proof (cases "Suc i < length s")
    case True
    let ?c = "unat (s ! Suc i)"
    have d: "drop (Suc i) s = s ! Suc i # drop (Suc (Suc i)) s"
      using True by (simp add: Cons_nth_drop_Suc)
    have "?c mod 64 = ?c - 0x80" if "0x80 \<le> ?c \<and> ?c < 0xC0"
      using that mod_range [of 2 64 ?c] by simp
    then show ?thesis
      using True Suc.IH [OF True] utf8_trail_eq [OF unat_u8_less, of "s ! Suc i"]
      by (auto simp: d nth_append shift_or split: option.split)
  next
    case False
    with Suc.prems have i: "Suc i = length s" by simp
    then show ?thesis by (simp add: nth_append)
  qed
qed

function valid_from :: "bytes \<Rightarrow> bool" where
  "valid_from [] = True"
| "valid_from (b # t) =
     (case utf8_lead_ranges (unat b) of None \<Rightarrow> False
      | Some (n, cp0) \<Rightarrow>
          (case trail (n - 1) t cp0 of None \<Rightarrow> False
           | Some cp \<Rightarrow> utf8_codepoint_ok n cp \<and> valid_from (drop (n - 1) t)))"
  by pat_completeness auto
termination by (relation "measure length") auto

declare valid_from.simps(2) [simp del]

lemma utf8_lead_ranges_pos: "utf8_lead_ranges b = Some (n, cp) \<Longrightarrow> 1 \<le> n"
  by (auto simp: utf8_lead_ranges_def split: if_splits)

lemma utf8_loop_valid_from:
  "i \<le> length s \<Longrightarrow>
   utf8_loop (s @ [0]) (length s) i =
     (if valid_from (drop i s) then Ok () else Err MOSQ_ERR_MALFORMED_UTF8)"
proof (induction "length s - i" arbitrary: i rule: less_induct)
  case less
  show ?case
  proof (cases "i < length s")
    case False
    with less.prems show ?thesis by (simp add: utf8_loop.simps)
  next
    case True
    let ?b = "s ! i" and ?t = "drop (Suc i) s"
    have d: "drop i s = ?b # ?t" using True by (simp add: Cons_nth_drop_Suc)
    have b: "(s @ [0]) ! i = ?b" using True by (simp add: nth_append)
    show ?thesis
    proof (cases "utf8_lead_ranges (unat ?b)")
      case None
      with True b d show ?thesis
        by (subst utf8_loop.simps) (simp add: utf8_lead_eq [OF unat_u8_less] valid_from.simps)
    next
      case (Some ncp)
      then obtain n cp0 where l: "utf8_lead_ranges (unat ?b) = Some (n, cp0)" by (cases ncp) auto
      have n: "1 \<le> n" by (rule utf8_lead_ranges_pos [OF l])
      show ?thesis
      proof (cases "trail (n - 1) ?t cp0")
        case None
        with True b d l show ?thesis
          by (subst utf8_loop.simps)
             (simp add: utf8_lead_eq [OF unat_u8_less] valid_from.simps utf8_cont_trail)
      next
        case (Some cp)
        then have len: "n - 1 \<le> length s - Suc i" using trail_length by fastforce
        have "int i \<noteq> int (length s) - int n + 1" using True n len by linarith
        moreover have "utf8_loop (s @ [0]) (length s) (Suc (i + (n - 1))) =
          (if valid_from (drop (Suc (i + (n - 1))) s) then Ok () else Err MOSQ_ERR_MALFORMED_UTF8)"
          using True n len by (intro less.hyps) auto
        moreover have "drop (n - 1) ?t = drop (Suc (i + (n - 1))) s" by (simp add: add.commute)
        ultimately show ?thesis
          using True b d l Some
          by (subst utf8_loop.simps)
             (simp add: utf8_lead_eq [OF unat_u8_less] valid_from.simps utf8_cont_trail)
      qed
    qed
  qed
qed

lemma codepoint_ok_allowed:
  "utf8_codepoint_ok n cp \<Longrightarrow> cp \<le> 0x10FFFF \<Longrightarrow> utf8_allowed cp"
  "utf8_allowed cp \<Longrightarrow> n = length (utf8_encode cp) \<Longrightarrow> utf8_codepoint_ok n cp"
  by (auto simp: utf8_codepoint_ok_def utf8_allowed_def byte_low_masks utf8_encode_def
      split: if_splits)

lemma digits64:
  "(x * 64 + y) div 64 = x" "(x * 64 + y) mod 64 = y"
  "((x * 64 + y) * 64 + z) div 4096 = x" "((x * 64 + y) * 64 + z) div 64 = x * 64 + y"
  "(((x * 64 + y) * 64 + z) * 64 + w) div 262144 = x"
  "(((x * 64 + y) * 64 + z) * 64 + w) div 4096 = x * 64 + y"
  if "y < (64 :: nat)" "z < 64" "w < 64"
proof -
  have d: "(a * 64 + r) div 64 = a" "(a * 64 + r) mod 64 = r" if "r < 64" for a r :: nat
    using that by simp_all
  have e: "n div 4096 = n div 64 div 64" "n div 262144 = n div 64 div 64 div 64" for n :: nat
    by (simp_all add: div_mult2_eq [symmetric])
  from that show "(x * 64 + y) div 64 = x" "(x * 64 + y) mod 64 = y"
    "((x * 64 + y) * 64 + z) div 4096 = x" "((x * 64 + y) * 64 + z) div 64 = x * 64 + y"
    "(((x * 64 + y) * 64 + z) * 64 + w) div 262144 = x"
    "(((x * 64 + y) * 64 + z) * 64 + w) div 4096 = x * 64 + y"
    by (simp_all only: d e)
qed

lemma trail_some_iff:
  "trail 0 t cp = Some cp' \<longleftrightarrow> cp' = cp"
  "trail (Suc k) t cp = Some cp' \<longleftrightarrow>
     (\<exists>y t'. t = of_nat (0x80 + y) # t' \<and> y < 64 \<and> trail k t' (cp * 64 + y) = Some cp')"
proof -
  show "trail 0 t cp = Some cp' \<longleftrightarrow> cp' = cp" by auto
  show "trail (Suc k) t cp = Some cp' \<longleftrightarrow>
     (\<exists>y t'. t = of_nat (0x80 + y) # t' \<and> y < 64 \<and> trail k t' (cp * 64 + y) = Some cp')"
    (is "?L \<longleftrightarrow> ?R")
  proof
    assume ?L
    then obtain c t' where t: "t = c # t'" "0x80 \<le> unat c" "unat c < 0xC0"
      "trail k t' (cp * 64 + (unat c - 0x80)) = Some cp'"
      by (cases t) (auto split: if_splits)
    moreover have "c = of_nat (0x80 + (unat c - 0x80))" using t(2) by simp
    moreover have "unat c - 0x80 < 64" using t(2,3) by linarith
    ultimately show ?R by blast
  next
    assume ?R
    then obtain y t' where "t = of_nat (0x80 + y) # t'" "y < 64" "trail k t' (cp * 64 + y) = Some cp'"
      by blast
    moreover from this have "unat (of_nat (0x80 + y) :: u8) = 0x80 + y"
      by (simp only: unat_of_nat) (simp add: take_bit_nat_eq_self)
    ultimately show ?L by simp
  qed
qed

lemma unat_trail_byte: "y < 64 \<Longrightarrow> unat (of_nat (0x80 + y) :: u8) = 0x80 + y"
  by (simp only: unat_of_nat) (simp add: take_bit_nat_eq_self)

lemma unat_trail_byte': "y < 64 \<Longrightarrow> unat (128 + of_nat y :: u8) = 128 + y"
  using unat_trail_byte by simp

lemma lead_cases:
  assumes "utf8_lead_ranges b = Some (n, cp0)"
  shows "n = 1 \<and> cp0 = b \<and> 0 < b \<and> b < 0x80 \<or> n = 2 \<and> b = 0xC0 + cp0 \<and> 2 \<le> cp0 \<and> cp0 < 0x20 \<or>
    n = 3 \<and> b = 0xE0 + cp0 \<and> cp0 < 0x10 \<or> n = 4 \<and> b = 0xF0 + cp0 \<and> cp0 < 5"
  using assms by (auto simp: utf8_lead_ranges_def split: if_splits)

lemma decoded_is_encoding:
  assumes l: "utf8_lead_ranges (unat b) = Some (n, cp0)" and t: "trail (n - 1) t cp0 = Some cp"
    and ok: "utf8_codepoint_ok n cp"
  shows "utf8_allowed cp \<and> map unat (take n (b # t)) = utf8_encode cp"
proof -
  consider (one) "n = 1" "cp0 = unat b" "0 < unat b" "unat b < 0x80"
    | (two) "n = 2" "unat b = 0xC0 + cp0" "2 \<le> cp0" "cp0 < 0x20"
    | (three) "n = 3" "unat b = 0xE0 + cp0" "cp0 < 0x10"
    | (four) "n = 4" "unat b = 0xF0 + cp0" "cp0 < 5"
    using lead_cases [OF l] by metis
  then have "cp \<le> 0x10FFFF \<and> map unat (take n (b # t)) = utf8_encode cp"
  proof cases
    case one
    with t show ?thesis by (simp add: utf8_encode_def)
  next
    case two
    with t obtain y t' where "t = of_nat (0x80 + y) # t'" and y: "y < 64" and cp: "cp = cp0 * 64 + y"
      by (auto simp: trail_some_iff)
    moreover from two(3,4) y have "\<not> cp < 0x80" "cp < 0x800" by (auto simp: cp)
    ultimately show ?thesis
      using two by (simp add: utf8_encode_def unat_trail_byte' digits64 numeral_2_eq_2 [symmetric])
  next
    case three
    with t obtain y z t' where t': "t = of_nat (0x80 + y) # of_nat (0x80 + z) # t'"
      and y: "y < 64" "z < 64" and cp: "cp = (cp0 * 64 + y) * 64 + z"
      by (auto simp: trail_some_iff numeral_2_eq_2)
    from ok three have "\<not> cp < 0x800" by (auto simp: utf8_codepoint_ok_def)
    moreover have "cp < 0x10000" using three(3) y by (auto simp: cp)
    moreover have "cp div 4096 = cp0" "cp div 64 mod 64 = y" "cp mod 64 = z"
      unfolding cp using y by (simp_all only: digits64)
    ultimately show ?thesis
      using three y t' by (simp add: utf8_encode_def unat_trail_byte')
  next
    case four
    with t obtain y z w t' where t': "t = of_nat (0x80 + y) # of_nat (0x80 + z) # of_nat (0x80 + w) # t'"
      and y: "y < 64" "z < 64" "w < 64" and cp: "cp = ((cp0 * 64 + y) * 64 + z) * 64 + w"
      by (auto simp: trail_some_iff numeral_3_eq_3)
    from ok four have "\<not> cp < 0x10000" "cp \<le> 0x10FFFF"
      by (auto simp: utf8_codepoint_ok_def)
    moreover have "cp div 262144 = cp0" "cp div 4096 mod 64 = y" "cp div 64 mod 64 = z" "cp mod 64 = w"
      unfolding cp using y by (simp_all only: digits64)
    ultimately show ?thesis
      using four y t' by (simp add: utf8_encode_def unat_trail_byte')
  qed
  then show ?thesis using codepoint_ok_allowed(1) [OF ok] by simp
qed

lemma encoding_is_decoded:
  assumes a: "utf8_allowed cp" and m: "map unat (take n (b # t)) = utf8_encode cp"
    and n: "n \<le> length (b # t)"
  shows "\<exists>cp0. utf8_lead_ranges (unat b) = Some (n, cp0) \<and> trail (n - 1) t cp0 = Some cp \<and>
    utf8_codepoint_ok n cp"
proof -
  have len: "n = length (utf8_encode cp)" using n arg_cong [OF m, of length] by simp
  have ok: "utf8_codepoint_ok n cp" by (rule codepoint_ok_allowed(2) [OF a len])
  have le: "cp \<le> 0x10FFFF" and pos: "0x1F < cp" using a by (auto simp: utf8_allowed_def not_le)
  have e: "k div 4096 = k div 64 div 64" "k div 262144 = k div 64 div 64 div 64" for k :: nat
    by (simp_all add: div_mult2_eq [symmetric])
  consider (one) "cp < 0x80" | (two) "\<not> cp < 0x80" "cp < 0x800"
    | (three) "\<not> cp < 0x80" "\<not> cp < 0x800" "cp < 0x10000" | (four) "\<not> cp < 0x10000" by linarith
  then have "\<exists>cp0. utf8_lead_ranges (unat b) = Some (n, cp0) \<and> trail (n - 1) t cp0 = Some cp"
  proof cases
    case one
    then have "n = 1" using len by (simp add: utf8_encode_def)
    moreover from this m one have "unat b = cp" by (simp add: utf8_encode_def)
    ultimately show ?thesis using one pos by (simp add: utf8_lead_ranges_def)
  next
    case two
    then have n2: "n = 2" using len by (simp add: utf8_encode_def)
    with m two n obtain c t' where t: "t = c # t'" and b: "unat b = 0xC0 + cp div 64"
      and c: "unat c = 0x80 + cp mod 64"
      by (cases t) (auto simp: utf8_encode_def)
    have "2 \<le> cp div 64" "cp div 64 < 0x20"
      using two by (simp_all add: div_less_iff_less_mult less_eq_div_iff_mult_less_eq)
    then have "utf8_lead_ranges (unat b) = Some (n, cp div 64)"
      by (simp add: utf8_lead_ranges_def b n2)
    moreover have "trail (n - 1) t (cp div 64) = Some cp" by (simp add: n2 t c)
    ultimately show ?thesis by blast
  next
    case three
    then have n3: "n = 3" using len by (simp add: utf8_encode_def)
    with m three n obtain c d t' where t: "t = c # d # t'" and b: "unat b = 0xE0 + cp div 4096"
      and c: "unat c = 0x80 + cp div 64 mod 64" "unat d = 0x80 + cp mod 64"
      by (cases t; cases "tl t") (auto simp: utf8_encode_def)
    have "cp div 4096 < 0x10" using three by (simp add: div_less_iff_less_mult)
    then have "utf8_lead_ranges (unat b) = Some (n, cp div 4096)"
      by (simp add: utf8_lead_ranges_def b n3)
    moreover have "trail (n - 1) t (cp div 4096) = Some cp"
      by (simp add: n3 t c e numeral_2_eq_2)
    ultimately show ?thesis by blast
  next
    case four
    then have n4: "n = 4" using len by (simp add: utf8_encode_def)
    with m four n obtain c d f t' where t: "t = c # d # f # t'" and b: "unat b = 0xF0 + cp div 262144"
      and c: "unat c = 0x80 + cp div 4096 mod 64" "unat d = 0x80 + cp div 64 mod 64"
        "unat f = 0x80 + cp mod 64"
      by (cases t; cases "tl t"; cases "tl (tl t)") (auto simp: utf8_encode_def)
    have "cp div 262144 < 5" using le by (simp add: div_less_iff_less_mult)
    then have "utf8_lead_ranges (unat b) = Some (n, cp div 262144)"
      by (simp add: utf8_lead_ranges_def b n4)
    moreover have "trail (n - 1) t (cp div 262144) = Some cp"
      by (simp add: n4 t c e numeral_3_eq_3)
    ultimately show ?thesis by blast
  qed
  with ok show ?thesis by blast
qed

lemma valid_from_valid_utf8: "valid_from bs \<longleftrightarrow> valid_utf8 bs"
proof (induction bs rule: length_induct)
  case (1 bs)
  show ?case
  proof (cases bs)
    case Nil
    then show ?thesis by simp
  next
    case (Cons b t)
    have IH: "valid_from (drop (n - 1) t) \<longleftrightarrow> valid_utf8 (drop (n - 1) t)" for n
      using 1 Cons by simp
    have "valid_from bs \<longleftrightarrow> (\<exists>n cp0 cp. utf8_lead_ranges (unat b) = Some (n, cp0) \<and>
        trail (n - 1) t cp0 = Some cp \<and> utf8_codepoint_ok n cp \<and> valid_utf8 (drop (n - 1) t))"
      by (auto simp: Cons valid_from.simps IH [simplified] split: option.splits)
    also have "\<dots> \<longleftrightarrow> (\<exists>c n. utf8_allowed c \<and> map unat (take n bs) = utf8_encode c \<and>
        n \<le> length bs \<and> valid_utf8 (drop n bs))"
      (is "?L \<longleftrightarrow> ?R")
    proof
      assume ?L
      then obtain n cp0 cp where s: "utf8_lead_ranges (unat b) = Some (n, cp0)"
        "trail (n - 1) t cp0 = Some cp" "utf8_codepoint_ok n cp" "valid_utf8 (drop (n - 1) t)"
        by blast
      moreover have "1 \<le> n" by (rule utf8_lead_ranges_pos [OF s(1)])
      moreover have "n - 1 \<le> length t" by (rule trail_length [OF s(2)])
      ultimately have "n \<le> length bs" "valid_utf8 (drop n bs)" by (simp_all add: Cons drop_Cons')
      with decoded_is_encoding [OF s(1-3)] show ?R unfolding Cons by blast
    next
      assume ?R
      then obtain c n where r: "utf8_allowed c" "map unat (take n (b # t)) = utf8_encode c"
        "n \<le> length (b # t)" "valid_utf8 (drop n (b # t))"
        using Cons by blast
      from encoding_is_decoded [OF r(1-3)] obtain cp0 where
        s: "utf8_lead_ranges (unat b) = Some (n, cp0)" "trail (n - 1) t cp0 = Some c"
          "utf8_codepoint_ok n c" by blast
      then show ?L using r(4) utf8_lead_ranges_pos [OF s(1)]
        by (auto simp: drop_Cons')
    qed
    also have "\<dots> \<longleftrightarrow> valid_utf8 bs" using valid_utf8_step [of bs] Cons by simp
    finally show ?thesis .
  qed
qed

lemma validate_utf8_eq:
  "length s \<le> 65536 \<Longrightarrow> mosquitto_validate_utf8 (s @ [0]) (int (length s)) =
    (if valid_utf8 s then Ok () else Err MOSQ_ERR_MALFORMED_UTF8)"
  using utf8_loop_valid_from [of 0 s]
  by (simp add: mosquitto_validate_utf8_def valid_from_valid_utf8)

section \<open>Properties\<close>

text \<open>
  C15: on a string of at most 65536 bytes that is followed by its NUL, the validator reads only
  inside the buffer and returns success exactly when the string is a concatenation of UTF-8
  encodings of code points that are no surrogates, no non-characters and no control characters.
\<close>

theorem mosquitto_validate_utf8_exact:
  assumes "length s \<le> 65536"
  shows "mosquitto_validate_utf8 (s @ [0]) (int (length s)) =
    (if valid_utf8 s then Ok () else Err MOSQ_ERR_MALFORMED_UTF8)"
  using assms by (rule validate_utf8_eq)

theorem mosquitto_validate_utf8_exact_witness:
  "length [0xE2 :: u8, 0x82, 0xAC] \<le> 65536 \<and>
   mosquitto_validate_utf8 ([0xE2, 0x82, 0xAC] @ [0]) (int (length [0xE2 :: u8, 0x82, 0xAC])) = Ok ()"
proof -
  have "valid_utf8 [0xE2, 0x82, 0xAC]"
    unfolding valid_utf8_def
    by (rule exI [of _ "[0x20AC]"]) (simp add: utf8_allowed_def utf8_encode_def)
  then show ?thesis
    using mosquitto_validate_utf8_exact [of "[0xE2, 0x82, 0xAC]"] by simp
qed

end
