(* ===== verification/Packet_Datatypes.thy ===== *)
theory Packet_Datatypes
  imports Mosq_Types Utf8
begin

text \<open>
  The readers and writers of \<^verbatim>\<open>lib/packet_datatypes.c\<close>: bytes, 16 and 32 bit
  integers, length-prefixed binary data and variable byte integers. Each reader and writer is
  translated over the packet's buffer, position and lengths, with the wrap-around of its
  \<open>uint32_t\<close> sums; an access outside the buffer or a failed \<open>assert\<close> is
  \<open>Fault\<close>. The locales \<open>packet_reader\<close>, \<open>packet_writer\<close> and
  \<open>packet_codec\<close> state what each of them promises: a reader decodes the unread bytes, a
  writer appends an encoding, and a codec reads back what it wrote.
\<close>

section \<open>Operations\<close>

text \<open>\<open>payload[pos]; pos++\<close> on the read and on the write side.\<close>

definition pk_fetch :: "packet \<Rightarrow> (u8 \<times> packet) res" where
  "pk_fetch p =
     (if unat (pk_pos p) < length (pk_payload p)
      then Ok (pk_payload p ! unat (pk_pos p), p\<lparr>pk_pos := pk_pos p + 1\<rparr>)
      else Fault)"

definition packet__read_byte :: "packet \<Rightarrow> (u8 \<times> packet) res" where
  "packet__read_byte p =
     (if pk_pos p + 1 > pk_remaining_length p then Err MOSQ_ERR_MALFORMED_PACKET
      else pk_fetch p)"

definition packet__write_byte :: "packet \<Rightarrow> u8 \<Rightarrow> packet res" where
  "packet__write_byte p b =
     (if \<not> pk_pos p + 1 \<le> pk_packet_length p then Fault
      else if unat (pk_pos p) < length (pk_payload p)
      then Ok (p\<lparr>pk_payload := (pk_payload p)[unat (pk_pos p) := b], pk_pos := pk_pos p + 1\<rparr>)
      else Fault)"

text \<open>\<open>memcpy(bytes, &payload[pos], count); pos += count\<close>, as the readers do it.\<close>

definition pk_copy_out :: "packet \<Rightarrow> u32 \<Rightarrow> (bytes \<times> packet) res" where
  "pk_copy_out p count =
     (if unat (pk_pos p) + unat count \<le> length (pk_payload p)
      then Ok (take (unat count) (drop (unat (pk_pos p)) (pk_payload p)),
               p\<lparr>pk_pos := pk_pos p + count\<rparr>)
      else Fault)"

definition packet__read_bytes :: "packet \<Rightarrow> u32 \<Rightarrow> (bytes \<times> packet) res" where
  "packet__read_bytes p count =
     (if pk_pos p + count > pk_remaining_length p then Err MOSQ_ERR_MALFORMED_PACKET
      else pk_copy_out p count)"

definition packet__write_bytes :: "packet \<Rightarrow> bytes \<Rightarrow> u32 \<Rightarrow> packet res" where
  "packet__write_bytes p bs count =
     (if \<not> pk_pos p + count \<le> pk_packet_length p then Fault
      else if unat (pk_pos p) + unat count \<le> length (pk_payload p) \<and> unat count \<le> length bs
      then Ok (p\<lparr>pk_payload := blit (pk_payload p) (unat (pk_pos p)) (take (unat count) bs),
                 pk_pos := pk_pos p + count\<rparr>)
      else Fault)"

definition packet__read_uint16 :: "packet \<Rightarrow> (u16 \<times> packet) res" where
  "packet__read_uint16 p =
     (if pk_pos p + 2 > pk_remaining_length p then Err MOSQ_ERR_MALFORMED_PACKET
      else res_bind (pk_fetch p) (\<lambda>(msb, p).
           res_bind (pk_fetch p) (\<lambda>(lsb, p).
             Ok (push_bit 8 (ucast msb) + ucast lsb, p))))"

text \<open>\<open>MOSQ_MSB\<close> and \<open>MOSQ_LSB\<close> of \<^verbatim>\<open>lib/net_mosq.h\<close>.\<close>

definition MOSQ_MSB :: "u16 \<Rightarrow> u8" where
  "MOSQ_MSB w = ucast (drop_bit 8 (w AND 0xFF00))"

definition MOSQ_LSB :: "u16 \<Rightarrow> u8" where
  "MOSQ_LSB w = ucast (w AND 0x00FF)"

definition packet__write_uint16 :: "packet \<Rightarrow> u16 \<Rightarrow> packet res" where
  "packet__write_uint16 p w =
     res_bind (packet__write_byte p (MOSQ_MSB w)) (\<lambda>p. packet__write_byte p (MOSQ_LSB w))"

text \<open>The loop of \<open>packet__read_uint32\<close>, with the number of bytes still to take.\<close>

fun read_uint32_loop :: "nat \<Rightarrow> u32 \<Rightarrow> packet \<Rightarrow> (u32 \<times> packet) res" where
  "read_uint32_loop 0 val p = Ok (val, p)"
| "read_uint32_loop (Suc i) val p =
     res_bind (pk_fetch p) (\<lambda>(b, p). read_uint32_loop i (push_bit 8 val + ucast b) p)"

definition packet__read_uint32 :: "packet \<Rightarrow> (u32 \<times> packet) res" where
  "packet__read_uint32 p =
     (if pk_pos p + 4 > pk_remaining_length p then Err MOSQ_ERR_MALFORMED_PACKET
      else read_uint32_loop 4 0 p)"

definition packet__write_uint32 :: "packet \<Rightarrow> u32 \<Rightarrow> packet res" where
  "packet__write_uint32 p w =
     res_bind (packet__write_byte p (ucast (drop_bit 24 (w AND 0xFF000000)))) (\<lambda>p.
     res_bind (packet__write_byte p (ucast (drop_bit 16 (w AND 0x00FF0000)))) (\<lambda>p.
     res_bind (packet__write_byte p (ucast (drop_bit 8 (w AND 0x0000FF00)))) (\<lambda>p.
       packet__write_byte p (ucast (w AND 0x000000FF)))))"

text \<open>
  A zero length gives the \<open>NULL\<close> data of length 0; both are the empty list here, since
  the length always comes with the data.
\<close>

definition packet__read_binary :: "packet \<Rightarrow> (bytes \<times> packet) res" where
  "packet__read_binary p =
     res_bind (packet__read_uint16 p) (\<lambda>(slen, p).
       if slen = 0 then Ok ([], p)
       else if pk_pos p + ucast slen > pk_remaining_length p then Err MOSQ_ERR_MALFORMED_PACKET
       else pk_copy_out p (ucast slen))"

text \<open>
  The data of \<open>packet__read_binary\<close> has a NUL behind it, which the validator relies on.
\<close>

definition packet__read_string :: "packet \<Rightarrow> (bytes \<times> packet) res" where
  "packet__read_string p =
     res_bind (packet__read_binary p) (\<lambda>(str, p).
       if length str = 0 then Ok (str, p)
       else case mosquitto_validate_utf8 (str @ [0]) (int (length str)) of
              Ok _ \<Rightarrow> Ok (str, p)
            | Err _ \<Rightarrow> Err MOSQ_ERR_MALFORMED_UTF8
            | Fault \<Rightarrow> Fault)"

definition packet__write_string :: "packet \<Rightarrow> bytes \<Rightarrow> u16 \<Rightarrow> packet res" where
  "packet__write_string p str len =
     res_bind (packet__write_uint16 p len) (\<lambda>p. packet__write_bytes p str (ucast len))"

text \<open>
  The \<open>for\<close> loop of \<open>packet__read_varint\<close>: the iterations left, then
  \<open>remaining_mult\<close>, \<open>lword\<close> and \<open>lbytes\<close>. The result carries the value,
  the number of bytes and the packet.
\<close>

fun read_varint_loop :: "nat \<Rightarrow> u32 \<Rightarrow> u32 \<Rightarrow> u8 \<Rightarrow> packet \<Rightarrow> ((u32 \<times> u8) \<times> packet) res" where
  "read_varint_loop 0 mult lword lbytes p = Err MOSQ_ERR_MALFORMED_PACKET"
| "read_varint_loop (Suc i) mult lword lbytes p =
     (if pk_pos p < pk_remaining_length p then
        res_bind (pk_fetch p) (\<lambda>(byte, p).
          let lbytes = lbytes + 1;
              lword = lword + ucast (byte AND 127) * mult;
              mult = mult * 128
          in if byte AND 128 = 0 then
               (if lbytes > 1 \<and> byte = 0 then Err MOSQ_ERR_MALFORMED_PACKET
                else Ok ((lword, lbytes), p))
             else read_varint_loop i mult lword lbytes p)
      else Err MOSQ_ERR_MALFORMED_PACKET)"

definition packet__read_varint :: "packet \<Rightarrow> ((u32 \<times> u8) \<times> packet) res" where
  "packet__read_varint p = read_varint_loop 4 1 0 0 p"

text \<open>
  The \<open>do ... while\<close> loop of \<open>packet__write_varint\<close>, which stops after five
  bytes: the bytes still allowed and the count so far. The \<open>int\<close> result is the return
  code.
\<close>

fun write_varint_loop :: "nat \<Rightarrow> nat \<Rightarrow> packet \<Rightarrow> u32 \<Rightarrow> (packet \<times> rc) res" where
  "write_varint_loop 0 count p w =
     Ok (p, if count = 5 then MOSQ_ERR_MALFORMED_PACKET else MOSQ_ERR_SUCCESS)"
| "write_varint_loop (Suc i) count p w =
     (let byte = (ucast (w mod 128) :: u8);
          w = w div 128;
          byte = (if w > 0 then byte OR 0x80 else byte)
      in res_bind (packet__write_byte p byte) (\<lambda>p.
           let count = count + 1
           in if w > 0 \<and> count < 5 then write_varint_loop i count p w
              else Ok (p, if count = 5 then MOSQ_ERR_MALFORMED_PACKET else MOSQ_ERR_SUCCESS)))"

definition packet__write_varint :: "packet \<Rightarrow> u32 \<Rightarrow> (packet \<times> rc) res" where
  "packet__write_varint p w = write_varint_loop 5 0 p w"

definition packet__varint_bytes :: "u32 \<Rightarrow> u32" where
  "packet__varint_bytes w =
     (if w < 128 then 1 else if w < 16384 then 2 else if w < 2097152 then 3
      else if w < 268435456 then 4 else 5)"


section \<open>Byte-level encodings\<close>

definition enc_u16 :: "u16 \<Rightarrow> bytes" where
  "enc_u16 w = [MOSQ_MSB w, MOSQ_LSB w]"

definition enc_u32 :: "u32 \<Rightarrow> bytes" where
  "enc_u32 w = [ucast (drop_bit 24 w), ucast (drop_bit 16 w), ucast (drop_bit 8 w), ucast w]"

fun enc_varint :: "nat \<Rightarrow> bytes" where
  "enc_varint n =
     (if n < 128 then [of_nat n] else of_nat (n mod 128 + 128) # enc_varint (n div 128))"

declare enc_varint.simps [simp del]

definition enc_binary :: "bytes \<Rightarrow> bytes" where
  "enc_binary bs = enc_u16 (of_nat (length bs)) @ bs"

text \<open>The decoders of a byte sequence: an error code, or the value and the bytes used.\<close>

type_synonym 'a dec = "bytes \<Rightarrow> int + 'a \<times> nat"

definition dec_byte :: "u8 dec" where
  "dec_byte bs = (case bs of [] \<Rightarrow> Inl MOSQ_ERR_MALFORMED_PACKET | b # _ \<Rightarrow> Inr (b, 1))"

definition dec_u16 :: "u16 dec" where
  "dec_u16 bs = (case bs of a # b # _ \<Rightarrow> Inr (push_bit 8 (ucast a) + ucast b, 2)
                 | _ \<Rightarrow> Inl MOSQ_ERR_MALFORMED_PACKET)"

definition dec_u32 :: "u32 dec" where
  "dec_u32 bs = (case bs of
     a # b # c # d # _ \<Rightarrow>
       Inr (push_bit 8 (push_bit 8 (push_bit 8 (ucast a) + ucast b) + ucast c) + ucast d, 4)
   | _ \<Rightarrow> Inl MOSQ_ERR_MALFORMED_PACKET)"

definition dec_binary :: "bytes dec" where
  "dec_binary bs = (case dec_u16 bs of Inl e \<Rightarrow> Inl e
     | Inr (w, _) \<Rightarrow>
         if unat w \<le> length bs - 2 then Inr (take (unat w) (drop 2 bs), 2 + unat w)
         else Inl MOSQ_ERR_MALFORMED_PACKET)"

text \<open>
  \<open>dec_varint_upto i k bs\<close>: at most \<open>i\<close> more bytes, \<open>k\<close> taken before.
\<close>

fun dec_varint_upto :: "nat \<Rightarrow> nat \<Rightarrow> bytes \<Rightarrow> (nat \<times> nat) option" where
  "dec_varint_upto 0 k bs = None"
| "dec_varint_upto (Suc i) k [] = None"
| "dec_varint_upto (Suc i) k (b # bs) =
     (if unat b < 128 then (if 0 < k \<and> b = 0 then None else Some (unat b, 1))
      else map_option (\<lambda>(v, n). (unat b mod 128 + 128 * v, Suc n)) (dec_varint_upto i (Suc k) bs))"

definition dec_varint :: "(u32 \<times> u8) dec" where
  "dec_varint bs = (case dec_varint_upto 4 0 bs of None \<Rightarrow> Inl MOSQ_ERR_MALFORMED_PACKET
     | Some (v, n) \<Rightarrow> Inr ((of_nat v, of_nat n), n))"

section \<open>Readers\<close>

text \<open>
  A packet that has arrived whole: \<open>packet__read\<close> allocates \<open>remaining_length\<close>
  bytes, at most what four length bytes can say.
\<close>

definition in_wf :: "packet \<Rightarrow> bool" where
  "in_wf p \<longleftrightarrow> length (pk_payload p) = unat (pk_remaining_length p) \<and>
     pk_pos p \<le> pk_remaining_length p \<and> unat (pk_remaining_length p) < 268435456"

definition rest :: "packet \<Rightarrow> bytes" where
  "rest p = drop (unat (pk_pos p)) (pk_payload p)"

definition adv :: "packet \<Rightarrow> nat \<Rightarrow> packet" where
  "adv p n = p\<lparr>pk_pos := pk_pos p + of_nat n\<rparr>"

lemma in_wf_pos: "in_wf p \<Longrightarrow> unat (pk_pos p) + length (rest p) = unat (pk_remaining_length p)"
  by (simp add: in_wf_def rest_def word_le_nat_alt)

lemma unat_pos_add:
  assumes "in_wf p" and "n \<le> 65537"
  shows "unat (pk_pos p + of_nat n) = unat (pk_pos p) + n"
proof -
  have "unat (pk_pos p) < 268435456"
    using assms(1) by (simp add: in_wf_def word_le_nat_alt)
  with assms(2) show ?thesis
    by (simp add: unat_word_ariths unat_of_nat take_bit_nat_eq_self)
qed

lemma pos_check:
  assumes "in_wf p" and "n \<le> 65537"
  shows "pk_pos p + of_nat n > pk_remaining_length p \<longleftrightarrow> length (rest p) < n"
proof -
  have "pk_pos p + of_nat n > pk_remaining_length p \<longleftrightarrow>
        unat (pk_remaining_length p) < unat (pk_pos p) + n"
    by (simp only: word_less_nat_alt unat_pos_add [OF assms])
  with in_wf_pos [OF assms(1)] show ?thesis by linarith
qed

lemma unat_pos_adv:
  assumes "in_wf p" and "n \<le> length (rest p)"
  shows "unat (pk_pos (adv p n)) = unat (pk_pos p) + n"
proof -
  have "unat (pk_pos p) + n < 268435456"
    using assms in_wf_pos [OF assms(1)] by (simp add: in_wf_def)
  then show ?thesis
    by (simp add: adv_def unat_word_ariths unat_of_nat take_bit_nat_eq_self)
qed

lemma in_wf_adv:
  assumes "in_wf p" and "n \<le> length (rest p)"
  shows "in_wf (adv p n)" and "rest (adv p n) = drop n (rest p)"
proof -
  have u: "unat (pk_pos (adv p n)) = unat (pk_pos p) + n"
    by (rule unat_pos_adv [OF assms])
  with in_wf_pos [OF assms(1)] assms show "in_wf (adv p n)"
    by (simp add: in_wf_def word_le_nat_alt adv_def)
  show "rest (adv p n) = drop n (rest p)"
    using u by (simp add: rest_def adv_def add.commute)
qed

lemma adv_adv [simp]: "adv (adv p m) n = adv p (m + n)"
  by (simp add: adv_def)

lemma adv_0 [simp]: "adv p 0 = p"
  by (simp add: adv_def)

lemma adv_sel [simp]:
  "pk_payload (adv p n) = pk_payload p" "pk_remaining_length (adv p n) = pk_remaining_length p"
  "pk_command (adv p n) = pk_command p" "pk_packet_length (adv p n) = pk_packet_length p"
  by (simp_all add: adv_def)

lemma pk_fetch_rest:
  assumes "in_wf p"
  shows "pk_fetch p = (case rest p of [] \<Rightarrow> Fault | b # _ \<Rightarrow> Ok (b, adv p 1))"
proof (cases "unat (pk_pos p) < length (pk_payload p)")
  case True
  then show ?thesis
    by (simp add: pk_fetch_def rest_def adv_def Cons_nth_drop_Suc [symmetric])
next
  case False
  then show ?thesis by (simp add: pk_fetch_def rest_def)
qed

text \<open>
  The contract of a reader: on a packet that has arrived whole it decodes the unread bytes,
  moves past exactly the bytes of the value, and never leaves the buffer.
\<close>

locale packet_reader =
  fixes rd :: "packet \<Rightarrow> ('a \<times> packet) res"
    and dec :: "'a dec"
  assumes rd_dec: "in_wf p \<Longrightarrow>
      rd p = (case dec (rest p) of Inl e \<Rightarrow> Err e | Inr (v, n) \<Rightarrow> Ok (v, adv p n))"
    and dec_length: "dec bs = Inr (v, n) \<Longrightarrow> n \<le> length bs"
begin

lemma no_fault: "in_wf p \<Longrightarrow> rd p \<noteq> Fault"
  by (auto simp: rd_dec split: sum.splits)

lemma reads:
  assumes "in_wf p" and "rd p = Ok (v, p')"
  obtains n where "dec (rest p) = Inr (v, n)" and "p' = adv p n" and "n \<le> length (rest p)"
  using assms dec_length by (auto simp: rd_dec split: sum.splits prod.splits)

lemma keeps_wf:
  assumes "in_wf p" and "rd p = Ok (v, p')"
  shows "in_wf p'"
  using reads [OF assms] in_wf_adv(1) [OF assms(1)] by metis

lemma reads_suffix:
  assumes "in_wf p" and "rd p = Ok (v, p')"
  shows "\<exists>n. dec (rest p) = Inr (v, n) \<and> rest p' = drop n (rest p)"
  using reads [OF assms] in_wf_adv(2) [OF assms(1)] by metis

end

interpretation byte_rd: packet_reader packet__read_byte dec_byte
proof
  fix p :: packet
  assume wf: "in_wf p"
  have "pk_pos p + 1 > pk_remaining_length p \<longleftrightarrow> length (rest p) < 1"
    using pos_check [OF wf, of 1] by simp
  then show "packet__read_byte p =
      (case dec_byte (rest p) of Inl e \<Rightarrow> Err e | Inr (v, n) \<Rightarrow> Ok (v, adv p n))"
    by (auto simp: packet__read_byte_def dec_byte_def pk_fetch_rest [OF wf] split: list.splits)
qed (auto simp: dec_byte_def split: list.splits)

interpretation u16_rd: packet_reader packet__read_uint16 dec_u16
proof
  fix p :: packet
  assume wf: "in_wf p"
  have c: "pk_pos p + 2 > pk_remaining_length p \<longleftrightarrow> length (rest p) < 2"
    using pos_check [OF wf, of 2] by simp
  show "packet__read_uint16 p =
      (case dec_u16 (rest p) of Inl e \<Rightarrow> Err e | Inr (v, n) \<Rightarrow> Ok (v, adv p n))"
  proof (cases "length (rest p) < 2")
    case True
    with c show ?thesis
      by (auto simp: packet__read_uint16_def dec_u16_def split: list.splits)
  next
    case False
    then obtain a b r where r: "rest p = a # b # r"
      by (metis One_nat_def Suc_1 length_Suc_conv not_less_eq not_less_zero list.exhaust
          list.size(3) zero_less_Suc)
    then have "in_wf (adv p 1)" "rest (adv p 1) = b # r"
      using in_wf_adv [OF wf, of 1] by simp_all
    with c r False show ?thesis
      by (simp add: packet__read_uint16_def dec_u16_def pk_fetch_rest wf numeral_2_eq_2)
  qed
qed (auto simp: dec_u16_def split: list.splits)

lemma pk_fetch_Cons:
  assumes "in_wf p" and "rest p = b # r"
  shows "pk_fetch p = Ok (b, adv p (Suc 0))" and "in_wf (adv p (Suc 0))"
    and "rest (adv p (Suc 0)) = r"
  using assms in_wf_adv [OF assms(1), of 1] by (simp_all add: pk_fetch_rest)

lemma read_uint32_loop_rest:
  "in_wf p \<Longrightarrow> rest p = bs @ r \<Longrightarrow>
   read_uint32_loop (length bs) val p =
     Ok (foldl (\<lambda>v b. push_bit 8 v + ucast b) val bs, adv p (length bs))"
proof (induction bs arbitrary: val p)
  case Nil
  then show ?case by simp
next
  case (Cons b bs)
  then have "rest p = b # (bs @ r)" by simp
  note f = pk_fetch_Cons [OF Cons.prems(1) this]
  show ?case using Cons.IH [OF f(2,3)] f(1) by simp
qed

interpretation u32_rd: packet_reader packet__read_uint32 dec_u32
proof
  fix p :: packet
  assume wf: "in_wf p"
  have c: "pk_pos p + 4 > pk_remaining_length p \<longleftrightarrow> length (rest p) < 4"
    using pos_check [OF wf, of 4] by simp
  show "packet__read_uint32 p =
      (case dec_u32 (rest p) of Inl e \<Rightarrow> Err e | Inr (v, n) \<Rightarrow> Ok (v, adv p n))"
  proof (cases "length (rest p) < 4")
    case True
    with c show ?thesis
      by (auto simp: packet__read_uint32_def dec_u32_def split: list.splits)
  next
    case False
    then obtain x y z w r where r: "rest p = [x, y, z, w] @ r"
      by (cases "rest p"; cases "tl (rest p)"; cases "tl (tl (rest p))";
          cases "tl (tl (tl (rest p)))") auto
    from read_uint32_loop_rest [OF wf r, of 0] c r False show ?thesis
      by (simp add: packet__read_uint32_def dec_u32_def eval_nat_numeral)
  qed
qed (auto simp: dec_u32_def split: list.splits)

lemma pk_copy_out_rest:
  assumes "in_wf p" and "unat c \<le> length (rest p)"
  shows "pk_copy_out p c = Ok (take (unat c) (rest p), adv p (unat c))"
proof -
  have "unat (pk_pos p) \<le> length (pk_payload p)"
    using assms(1) by (simp add: in_wf_def word_le_nat_alt)
  with assms show ?thesis
    by (auto simp: pk_copy_out_def rest_def adv_def)
qed

interpretation binary_rd: packet_reader packet__read_binary dec_binary
proof
  fix p :: packet
  assume wf: "in_wf p"
  show "packet__read_binary p =
      (case dec_binary (rest p) of Inl e \<Rightarrow> Err e | Inr (v, n) \<Rightarrow> Ok (v, adv p n))"
  proof (cases "dec_u16 (rest p)")
    case (Inl e)
    then show ?thesis
      by (simp add: packet__read_binary_def dec_binary_def u16_rd.rd_dec [OF wf])
  next
    case (Inr vn)
    then obtain w where w: "dec_u16 (rest p) = Inr (w, 2)" and len: "2 \<le> length (rest p)"
      by (auto simp: dec_u16_def split: list.splits)
    let ?q = "adv p 2"
    have q: "in_wf ?q" "rest ?q = drop 2 (rest p)"
      using in_wf_adv [OF wf len] .
    have u: "unat (ucast w :: u32) = unat w" by (rule unat_ucast_u16_u32)
    have "unat w \<le> 65537" using unat_u16_less [of w] by simp
    from pos_check [OF q(1) this]
    have c: "pk_pos ?q + ucast w > pk_remaining_length ?q \<longleftrightarrow> length (rest ?q) < unat w"
      by simp
    have "packet__read_binary p =
      (if w = 0 then Ok ([], ?q)
       else if pk_pos ?q + ucast w > pk_remaining_length ?q then Err MOSQ_ERR_MALFORMED_PACKET
       else pk_copy_out ?q (ucast w))"
      by (simp add: packet__read_binary_def u16_rd.rd_dec [OF wf] w)
    moreover have "pk_copy_out ?q (ucast w) = Ok (take (unat w) (drop 2 (rest p)), adv p (2 + unat w))"
      if "unat w \<le> length (rest ?q)"
      using pk_copy_out_rest [OF q(1), of "ucast w"] that unfolding u by (simp only: q(2) adv_adv)
    ultimately show ?thesis
      using c q(2) by (cases "w = 0") (auto simp: dec_binary_def w not_less numeral_2_eq_2)
  qed
next
  fix bs v n
  assume "dec_binary bs = Inr (v, n)"
  then show "n \<le> length bs"
    by (auto simp: dec_binary_def dec_u16_def split: list.splits sum.splits if_splits)
qed

section \<open>Variable byte integers\<close>

lemma unat_and_127: "unat ((b :: u8) AND 127) = unat b mod 128"
proof -
  have "b AND 127 = take_bit 7 b"
    by (simp add: take_bit_eq_mask mask_eq_exp_minus_1)
  then have "unat (b AND 127) = take_bit 7 (unat b)"
    by (simp only: unsigned_take_bit_eq)
  then show ?thesis by (simp add: take_bit_eq_mod)
qed

lemma and_128_eq_0: "(b :: u8) AND 128 = 0 \<longleftrightarrow> unat b < 128"
proof -
  have "b AND 128 = 0 \<longleftrightarrow> \<not> bit b 7"
    using and_exp_eq_0_iff_not_bit [of b 7] by simp
  also have "\<dots> \<longleftrightarrow> \<not> bit (unat b) 7"
    by (simp add: bit_unsigned_iff)
  also have "\<dots> \<longleftrightarrow> even (unat b div 128)"
    by (simp add: bit_iff_odd)
  also have "\<dots> \<longleftrightarrow> unat b < 128"
  proof -
    have "unat b div 128 < 2" using unat_u8_less [of b] by (intro less_mult_imp_div_less) simp
    then have "even (unat b div 128) \<longleftrightarrow> unat b div 128 = 0" by (auto simp: less_2_cases_iff)
    then show ?thesis by (simp add: div_eq_0_iff)
  qed
  finally show ?thesis .
qed

lemma ucast_and_127: "(ucast ((b :: u8) AND 127) :: u32) = of_nat (unat b mod 128)"
  by (metis unat_and_127 of_nat_unat)

lemma read_varint_loop_rest:
  "in_wf p \<Longrightarrow> k + i \<le> 4 \<Longrightarrow>
   read_varint_loop i mult lword (of_nat k) p =
     (case dec_varint_upto i k (rest p) of None \<Rightarrow> Err MOSQ_ERR_MALFORMED_PACKET
      | Some (v, n) \<Rightarrow> Ok ((lword + of_nat v * mult, of_nat (k + n)), adv p n))"
proof (induction i arbitrary: k mult lword p)
  case 0
  then show ?case by simp
next
  case (Suc i)
  have c: "pk_pos p < pk_remaining_length p \<longleftrightarrow> rest p \<noteq> []"
    using Suc.prems(1) by (auto simp: in_wf_def rest_def word_less_nat_alt word_le_nat_alt)
  show ?case
  proof (cases "rest p")
    case Nil
    with c show ?thesis by simp
  next
    case (Cons b r)
    note f = pk_fetch_Cons [OF Suc.prems(1) Cons]
    have k: "(of_nat k + 1 :: u8) > 1 \<longleftrightarrow> 0 < k"
    proof -
      have "unat (of_nat k + 1 :: u8) = k + 1"
        using Suc.prems(2) by (simp add: unat_word_ariths unat_of_nat take_bit_nat_eq_self)
      then show ?thesis by (simp add: word_less_nat_alt)
    qed
    have "read_varint_loop i (mult * 128) (lword + ucast (b AND 127) * mult)
            (of_nat (Suc k)) (adv p (Suc 0)) =
          (case dec_varint_upto i (Suc k) r of None \<Rightarrow> Err MOSQ_ERR_MALFORMED_PACKET
           | Some (v, n) \<Rightarrow> Ok ((lword + ucast (b AND 127) * mult + of_nat v * (mult * 128),
                              of_nat (Suc k + n)), adv (adv p (Suc 0)) n))"
      using Suc.IH [OF f(2), of "Suc k"] Suc.prems(2) by (simp add: f(3))
    with c Cons f(1) k show ?thesis
      by (auto simp: Let_def and_128_eq_0 ucast_and_127 algebra_simps
          simp del: of_nat_mod split: option.splits)
  qed
qed

interpretation varint_rd: packet_reader packet__read_varint dec_varint
proof
  fix p :: packet
  assume wf: "in_wf p"
  from read_varint_loop_rest [OF wf, of 0 4 1 0]
  show "packet__read_varint p =
      (case dec_varint (rest p) of Inl e \<Rightarrow> Err e | Inr (v, n) \<Rightarrow> Ok (v, adv p n))"
    by (auto simp: packet__read_varint_def dec_varint_def split: option.splits)
next
  fix bs :: bytes and v n
  have len: "dec_varint_upto i k bs = Some (x, m) \<Longrightarrow> m \<le> length bs" for i k x m
    by (induction i k bs arbitrary: x m rule: dec_varint_upto.induct) (auto split: if_splits)
  assume "dec_varint bs = Inr (v, n)"
  then show "n \<le> length bs"
    by (auto simp: dec_varint_def dest: len split: option.splits)
qed

section \<open>Writers\<close>

text \<open>
  A packet being built: the buffer holds \<open>n\<close> more bytes and is no longer than
  \<open>packet_length\<close>. \<open>put\<close> appends bytes at the position.
\<close>

definition can_write :: "packet \<Rightarrow> nat \<Rightarrow> bool" where
  "can_write p n \<longleftrightarrow> unat (pk_pos p) + n \<le> length (pk_payload p) \<and>
     length (pk_payload p) \<le> unat (pk_packet_length p)"

definition put :: "packet \<Rightarrow> bytes \<Rightarrow> packet" where
  "put p bs = p\<lparr>pk_payload := blit (pk_payload p) (unat (pk_pos p)) bs,
                pk_pos := pk_pos p + of_nat (length bs)\<rparr>"

lemma can_write_unat:
  assumes "can_write p n" and "k \<le> n"
  shows "unat (pk_pos p + of_nat k) = unat (pk_pos p) + k"
proof -
  have "unat (pk_pos p) + k < 4294967296"
    using assms unat_u32_less [of "pk_packet_length p"] by (simp add: can_write_def)
  then show ?thesis by (simp add: unat_word_ariths unat_of_nat take_bit_nat_eq_self)
qed

lemma can_write_check:
  assumes "can_write p n" and "k \<le> n"
  shows "pk_pos p + of_nat k \<le> pk_packet_length p"
  using assms by (simp add: word_le_nat_alt can_write_unat [OF assms] can_write_def)

lemma put_sel [simp]:
  "pk_packet_length (put p bs) = pk_packet_length p" "pk_command (put p bs) = pk_command p"
  "pk_remaining_length (put p bs) = pk_remaining_length p" "pk_mid (put p bs) = pk_mid p"
  "pk_payload_store (put p bs) = pk_payload_store p"
  "pk_payload_length (put p bs) = pk_payload_length p"
  "pk_pub_or_not (put p bs) = pk_pub_or_not p"
  by (simp_all add: put_def)

lemma unat_pos_put: "can_write p (length bs) \<Longrightarrow> unat (pk_pos (put p bs)) = unat (pk_pos p) + length bs"
  by (simp add: put_def can_write_unat)

lemma length_payload_put:
  "can_write p (length bs) \<Longrightarrow> length (pk_payload (put p bs)) = length (pk_payload p)"
  by (simp add: put_def can_write_def)

lemma can_write_put: "can_write p (length bs + n) \<Longrightarrow> can_write (put p bs) n"
proof -
  assume a: "can_write p (length bs + n)"
  then have "can_write p (length bs)" by (simp add: can_write_def)
  from unat_pos_put [OF this] length_payload_put [OF this] a show ?thesis
    by (simp add: can_write_def)
qed

lemma put_put:
  assumes "can_write p (length xs + length ys)"
  shows "put (put p xs) ys = put p (xs @ ys)"
proof -
  have "can_write p (length xs)" using assms by (simp add: can_write_def)
  from unat_pos_put [OF this]
  have "blit (blit (pk_payload p) (unat (pk_pos p)) xs) (unat (pk_pos (put p xs))) ys =
        blit (pk_payload p) (unat (pk_pos p)) (xs @ ys)"
    using assms by (simp add: blit_blit can_write_def)
  then show ?thesis by (simp add: put_def add.assoc)
qed

lemma put_Nil [simp]: "put p [] = p"
  by (simp add: put_def)

lemma can_write_mono: "can_write p n \<Longrightarrow> m \<le> n \<Longrightarrow> can_write p m"
  by (simp add: can_write_def)

text \<open>\<open>emits w bs\<close>: where \<open>bs\<close> fits, \<open>w\<close> appends it and changes nothing else.\<close>

definition emits :: "(packet \<Rightarrow> packet res) \<Rightarrow> bytes \<Rightarrow> bool" where
  "emits w bs \<longleftrightarrow> (\<forall>p. can_write p (length bs) \<longrightarrow> w p = Ok (put p bs))"

lemma emitsD: "emits w bs \<Longrightarrow> can_write p (length bs) \<Longrightarrow> w p = Ok (put p bs)"
  by (simp add: emits_def)

lemma emits_bind: "emits w xs \<Longrightarrow> emits w' ys \<Longrightarrow> emits (\<lambda>p. res_bind (w p) w') (xs @ ys)"
proof (unfold emits_def [of "\<lambda>p. res_bind (w p) w'"], intro allI impI)
  fix p
  assume w: "emits w xs" and w': "emits w' ys" and c: "can_write p (length (xs @ ys))"
  then have "can_write p (length xs)" and "can_write (put p xs) (length ys)"
    by (auto intro: can_write_mono can_write_put)
  with w w' c show "res_bind (w p) w' = Ok (put p (xs @ ys))"
    by (simp add: emitsD put_put)
qed

lemma emits_Ok: "emits Ok []"
  by (simp add: emits_def)

lemma emits_if: "(b \<Longrightarrow> emits w xs) \<Longrightarrow> (\<not> b \<Longrightarrow> emits w' ys) \<Longrightarrow>
   emits (\<lambda>p. if b then w p else w' p) (if b then xs else ys)"
  by simp

text \<open>The contract of a writer.\<close>

locale packet_writer =
  fixes wr :: "packet \<Rightarrow> 'a \<Rightarrow> packet res"
    and enc :: "'a \<Rightarrow> bytes"
    and ok :: "'a \<Rightarrow> bool"
  assumes wr_emits: "ok v \<Longrightarrow> emits (\<lambda>p. wr p v) (enc v)"
begin

lemma wr_put: "ok v \<Longrightarrow> can_write p (length (enc v)) \<Longrightarrow> wr p v = Ok (put p (enc v))"
  using wr_emits by (simp add: emits_def)

lemma writes_in_bounds: "ok v \<Longrightarrow> can_write p (length (enc v)) \<Longrightarrow> wr p v \<noteq> Fault"
  by (simp add: wr_put)

end

interpretation byte_wr: packet_writer packet__write_byte "\<lambda>b. [b]" "\<lambda>_. True"
proof
  fix v :: u8
  have "packet__write_byte p v = Ok (put p [v])" if "can_write p 1" for p
    using that can_write_check [of p 1 1]
    by (auto simp: packet__write_byte_def put_def can_write_def list_update_blit)
  then show "emits (\<lambda>p. packet__write_byte p v) [v]" by (simp add: emits_def)
qed

lemma write_bytes_emits: "emits (\<lambda>p. packet__write_bytes p bs (of_nat (length bs))) bs"
proof (unfold emits_def, intro allI impI)
  fix p
  assume c: "can_write p (length bs)"
  have "length bs < 4294967296"
    using c unat_u32_less [of "pk_packet_length p"] by (simp add: can_write_def)
  then have "unat (of_nat (length bs) :: u32) = length bs"
    by (simp add: unat_of_nat take_bit_nat_eq_self)
  with c can_write_check [OF c order_refl]
  show "packet__write_bytes p bs (of_nat (length bs)) = Ok (put p bs)"
    by (simp add: packet__write_bytes_def put_def can_write_def)
qed

interpretation u16_wr: packet_writer packet__write_uint16 enc_u16 "\<lambda>_. True"
proof
  fix v
  show "emits (\<lambda>p. packet__write_uint16 p v) (enc_u16 v)"
    using emits_bind [OF byte_wr.wr_emits byte_wr.wr_emits, of "MOSQ_MSB v" "MOSQ_LSB v"]
    by (simp add: packet__write_uint16_def [abs_def] enc_u16_def)
qed

lemma ucast_and_255: "(ucast ((w :: 'a :: len word) AND 255) :: u8) = ucast w"
proof -
  have "w AND 255 = take_bit 8 w"
    by (simp add: take_bit_eq_mask mask_eq_exp_minus_1)
  then have "(ucast (w AND 255) :: u8) = ucast (take_bit 8 w)" by (rule arg_cong)
  also have "\<dots> = ucast w" by (rule bit_word_eqI) (simp add: bit_simps)
  finally show ?thesis .
qed

lemma u32_byte:
  "(ucast (drop_bit 24 (w AND 0xFF000000)) :: u8) = ucast (drop_bit 24 (w :: u32))"
  "(ucast (drop_bit 16 (w AND 0x00FF0000)) :: u8) = ucast (drop_bit 16 w)"
  "(ucast (drop_bit 8 (w AND 0x0000FF00)) :: u8) = ucast (drop_bit 8 w)"
  using ucast_and_255 [of "drop_bit 24 w"] ucast_and_255 [of "drop_bit 16 w"]
    ucast_and_255 [of "drop_bit 8 w"]
  by (simp_all add: drop_bit_and)

interpretation u32_wr: packet_writer packet__write_uint32 enc_u32 "\<lambda>_. True"
proof
  fix v
  have "emits (\<lambda>p. packet__write_uint32 p v)
    ([ucast (drop_bit 24 v)] @ [ucast (drop_bit 16 v)] @ [ucast (drop_bit 8 v)] @ [ucast v])"
    unfolding packet__write_uint32_def u32_byte ucast_and_255
    by (intro emits_bind byte_wr.wr_emits TrueI)
  then show "emits (\<lambda>p. packet__write_uint32 p v) (enc_u32 v)"
    by (simp add: enc_u32_def)
qed

lemma ucast_of_nat_u16: "n < 65536 \<Longrightarrow> ucast (of_nat n :: u16) = (of_nat n :: u32)"
  by (simp add: word_unat_eq_iff unat_ucast_u16_u32 unat_of_nat take_bit_nat_eq_self)

interpretation string_wr: packet_writer
  "\<lambda>p bs. packet__write_string p bs (of_nat (length bs))" enc_binary "\<lambda>bs. length bs < 65536"
proof
  fix v :: bytes
  assume "length v < 65536"
  then show "emits (\<lambda>p. packet__write_string p v (of_nat (length v))) (enc_binary v)"
    using emits_bind [OF u16_wr.wr_emits write_bytes_emits, of "of_nat (length v)" v]
    by (simp add: packet__write_string_def [abs_def] enc_binary_def ucast_of_nat_u16)
qed

lemma enc_varint_small: "n < 128 \<Longrightarrow> enc_varint n = [of_nat n]"
  by (simp add: enc_varint.simps)

lemma enc_varint_big:
  "128 \<le> n \<Longrightarrow> enc_varint n = of_nat (n mod 128 + 128) # enc_varint (n div 128)"
  by (simp add: enc_varint.simps [of n])

lemma unat_of_nat_u8: "n < 256 \<Longrightarrow> unat (of_nat n :: u8) = n"
  by (simp add: unat_of_nat take_bit_nat_eq_self)

lemma varint_low_byte:
  "(ucast ((w :: u32) mod 128) :: u8) = of_nat (unat w mod 128)"
proof -
  have "unat w mod 128 < 256" by (simp add: less_trans [of _ 128])
  then show ?thesis
    by (simp add: word_unat_eq_iff unsigned_ucast_eq unat_mod_distrib unat_of_nat take_bit_nat_eq_self)
qed

lemma varint_more_byte:
  "(ucast ((w :: u32) mod 128) :: u8) OR 0x80 = of_nat (unat w mod 128 + 128)"
proof -
  let ?b = "of_nat (unat w mod 128) :: u8"
  have "unat ?b < 128" by (subst unat_of_nat_u8) (simp_all add: less_trans [of _ 128])
  then have "?b AND 128 = 0" by (simp only: and_128_eq_0)
  then have "?b OR 128 = ?b + 128" by (rule disjunctive_add_eq_or [symmetric])
  then show ?thesis by (simp add: varint_low_byte)
qed

lemma write_varint_loop_put:
  "count + Suc (Suc j) = 5 \<Longrightarrow> unat w < 128 ^ Suc j \<Longrightarrow>
   can_write p (length (enc_varint (unat w))) \<Longrightarrow>
   write_varint_loop (Suc (Suc j)) count p w = Ok (put p (enc_varint (unat w)), MOSQ_ERR_SUCCESS)"
proof (induction j arbitrary: count p w)
  case 0
  then have "unat w < 128" by simp
  then have "w div 128 = 0" and "enc_varint (unat w) = [ucast (w mod 128)]"
    by (simp_all add: word_unat_eq_iff unat_div_distrib varint_low_byte enc_varint_small)
  with 0 show ?case by (simp add: byte_wr.wr_put)
next
  case (Suc j)
  have d: "unat (w div 128) = unat w div 128" by (simp add: unat_div_distrib)
  show ?case
  proof (cases "unat w < 128")
    case True
    then have "w div 128 = 0" and "enc_varint (unat w) = [ucast (w mod 128)]"
      by (simp_all add: word_unat_eq_iff unat_div_distrib varint_low_byte enc_varint_small)
    with Suc.prems show ?thesis by (simp add: byte_wr.wr_put)
  next
    case False
    then have pos: "w div 128 > 0" by (simp add: word_less_nat_alt d)
    have e: "enc_varint (unat w) = (ucast (w mod 128) OR 0x80) # enc_varint (unat (w div 128))"
      using False by (simp add: enc_varint_big varint_more_byte d)
    let ?p = "put p [ucast (w mod 128) OR 0x80]"
    have c: "can_write p 1" "can_write ?p (length (enc_varint (unat (w div 128))))"
      using Suc.prems(3) can_write_put [of p "[ucast (w mod 128) OR 0x80]"]
      by (auto simp: e intro: can_write_mono)
    have "unat (w div 128) < 128 ^ Suc j"
      using Suc.prems(2) unfolding d by (intro less_mult_imp_div_less) (simp add: mult.commute)
    from Suc.IH [OF _ this c(2), of "count + 1"] Suc.prems(1)
    have "write_varint_loop (Suc (Suc j)) (count + 1) ?p (w div 128) =
      Ok (put p (enc_varint (unat w)), MOSQ_ERR_SUCCESS)"
      using Suc.prems(3) put_put [of p "[ucast (w mod 128) OR 0x80]"] by (simp add: e)
    with pos c(1) Suc.prems(1) show ?thesis
      by (subst write_varint_loop.simps) (simp add: Let_def byte_wr.wr_put)
  qed
qed

definition write_varint_checked :: "packet \<Rightarrow> u32 \<Rightarrow> packet res" where
  "write_varint_checked p w =
     res_bind (packet__write_varint p w) (\<lambda>(p, rc). if rc = MOSQ_ERR_SUCCESS then Ok p else Err rc)"

interpretation varint_wr: packet_writer write_varint_checked "\<lambda>w. enc_varint (unat w)"
    "\<lambda>w. unat w < 268435456"
proof
  fix w :: u32
  assume "unat w < 268435456"
  then have "packet__write_varint p w = Ok (put p (enc_varint (unat w)), MOSQ_ERR_SUCCESS)"
    if "can_write p (length (enc_varint (unat w)))" for p
    using that write_varint_loop_put [of 0 3 w p] by (simp add: packet__write_varint_def)
  then show "emits (\<lambda>p. write_varint_checked p w) (enc_varint (unat w))"
    by (simp add: emits_def write_varint_checked_def)
qed

lemma dec_varint_upto_enc:
  "n < 128 ^ i \<Longrightarrow> 0 < i \<Longrightarrow> k = 0 \<or> 0 < n \<Longrightarrow>
   dec_varint_upto i k (enc_varint n @ r) = Some (n, length (enc_varint n))"
proof (induction i arbitrary: k n)
  case 0
  then show ?case by simp
next
  case (Suc i)
  show ?case
  proof (cases "n < 128")
    case True
    then have u: "unat (of_nat n :: u8) = n" by (simp add: unat_of_nat_u8)
    have "\<not> (0 < k \<and> (of_nat n :: u8) = 0)" using Suc.prems(3) u by (metis less_irrefl unat_0)
    with True u show ?thesis by (simp add: enc_varint_small)
  next
    case False
    have "unat (of_nat (n mod 128 + 128) :: u8) = n mod 128 + 128"
      by (rule unat_of_nat_u8) (simp add: add_strict_right_mono [of _ 128 128, simplified])
    moreover have "n div 128 < 128 ^ i" "0 < n div 128"
      using Suc.prems(1) False by (auto intro!: less_mult_imp_div_less simp: mult.commute)
    moreover from this have "0 < i" by (cases i) auto
    ultimately show ?thesis
      using False Suc.IH [of "n div 128" "Suc k"] by (simp add: enc_varint_big)
  qed
qed

lemma dec_varint_upto_canonical:
  "dec_varint_upto i k bs = Some (v, m) \<Longrightarrow>
   take m bs = enc_varint v \<and> v < 128 ^ i \<and> (0 < k \<longrightarrow> 0 < v)"
proof (induction i k bs arbitrary: v m rule: dec_varint_upto.induct)
  case (3 i k b bs)
  show ?case
  proof (cases "unat b < 128")
    case True
    with 3 have "v = unat b" "m = 1" "0 < k \<Longrightarrow> b \<noteq> 0" by (auto split: if_splits)
    moreover have "unat b < 128 ^ Suc i" using True by (simp add: less_le_trans [of _ 128])
    ultimately show ?thesis using True by (simp add: enc_varint_small unat_gt_0)
  next
    case False
    with 3 obtain v' m' where d: "dec_varint_upto i (Suc k) bs = Some (v', m')"
      and v: "v = unat b mod 128 + 128 * v'" and m: "m = Suc m'"
      by auto
    from 3(1) [OF False d] have IH: "take m' bs = enc_varint v'" "v' < 128 ^ i" "0 < v'" by auto
    have "unat b mod 128 + 128 = unat b"
      using False unat_u8_less [of b] by (simp add: le_mod_geq)
    then have "of_nat (v mod 128 + 128) = b"
      by (simp only: v mod_mult_self2 mod_mod_trivial) simp
    moreover have "\<not> v < 128" "v div 128 = v'" using v IH(3) by auto
    ultimately have "enc_varint v = b # enc_varint v'" by (simp add: enc_varint_big)
    moreover have "v < 128 ^ Suc i"
    proof -
      have "v < 128 * (v' + 1)" using v by simp
      also have "\<dots> \<le> 128 * 128 ^ i" using IH(2) by (intro mult_le_mono2) simp
      finally show ?thesis by simp
    qed
    ultimately show ?thesis using IH v m by simp
  qed
qed auto

section \<open>Codecs\<close>

text \<open>
  A reader and a writer of the same encoding. The packet that was written, rewound to where the
  value starts, gives the value back and ends where the writer ended.
\<close>

locale packet_codec = packet_reader rd dec + packet_writer wr enc ok
  for rd :: "packet \<Rightarrow> ('a \<times> packet) res" and dec :: "'a dec"
    and wr :: "packet \<Rightarrow> 'a \<Rightarrow> packet res" and enc :: "'a \<Rightarrow> bytes" and ok :: "'a \<Rightarrow> bool" +
  assumes dec_enc: "ok v \<Longrightarrow> dec (enc v @ r) = Inr (v, length (enc v))"
begin

lemma reads_encoding:
  assumes "ok v" and "in_wf p" and "rest p = enc v @ r"
  shows "rd p = Ok (v, adv p (length (enc v)))"
  using assms by (simp add: rd_dec dec_enc)

lemma read_back:
  assumes "ok v" and "can_write p (length (enc v))" and "wr p v = Ok p'"
    and "in_wf (p'\<lparr>pk_pos := pk_pos p\<rparr>)"
  shows "rd (p'\<lparr>pk_pos := pk_pos p\<rparr>) = Ok (v, p')"
proof -
  have p': "p' = put p (enc v)" using assms(1-3) by (simp add: wr_put)
  have "rest (p'\<lparr>pk_pos := pk_pos p\<rparr>) =
        enc v @ drop (unat (pk_pos p) + length (enc v)) (pk_payload p)"
    using assms(2) by (simp add: p' rest_def put_def blit_def can_write_def)
  from reads_encoding [OF assms(1,4) this] show ?thesis
    by (simp add: p' adv_def put_def)
qed

end

interpretation byte_codec: packet_codec packet__read_byte dec_byte packet__write_byte "\<lambda>b. [b]"
    "\<lambda>_. True"
  by standard (simp add: dec_byte_def)

lemma unat_ucast_drop_bit:
  "unat (ucast (drop_bit k (w :: 'a :: len word)) :: u8) = unat w div 2 ^ k mod 256"
  by (simp only: unsigned_ucast_eq unsigned_drop_bit_eq) (simp add: drop_bit_eq_div take_bit_eq_mod)

lemma MSB_LSB: "(push_bit 8 (ucast (MOSQ_MSB w)) + ucast (MOSQ_LSB w) :: u16) = w"
proof -
  have "unat (MOSQ_MSB w) = unat w div 256"
  proof -
    have "MOSQ_MSB w = ucast (drop_bit 8 w)"
      using ucast_and_255 [of "drop_bit 8 w"] by (simp add: MOSQ_MSB_def drop_bit_and)
    moreover have "unat w div 256 < 256"
      using unat_u16_less [of w] by (intro less_mult_imp_div_less) simp
    ultimately show ?thesis
      using unat_ucast_drop_bit [of 8 w] by (simp only:) simp
  qed
  moreover have "unat (MOSQ_LSB w) = unat w mod 256"
    by (simp add: MOSQ_LSB_def ucast_and_255 unsigned_ucast_eq take_bit_eq_mod)
  moreover have "push_bit 8 (ucast (MOSQ_MSB w)) + ucast (MOSQ_LSB w) =
      (of_nat (unat (MOSQ_MSB w) * 256 + unat (MOSQ_LSB w)) :: u16)"
    by (simp add: push_bit_eq_mult)
  ultimately show ?thesis by (simp only: div_mult_mod_eq) simp
qed

interpretation u16_codec: packet_codec packet__read_uint16 dec_u16 packet__write_uint16 enc_u16
    "\<lambda>_. True"
  by standard (simp add: dec_u16_def enc_u16_def MSB_LSB)

lemma nat_base_256:
  "((n div 16777216 * 256 + n div 65536 mod 256) * 256 + n div 256 mod 256) * 256 + n mod 256
   = (n :: nat)"
proof -
  have "n div 65536 = n div 256 div 256" "n div 16777216 = n div 256 div 256 div 256"
    by (simp_all add: div_mult2_eq [symmetric])
  then show ?thesis by (simp only: div_mult_mod_eq)
qed

lemma enc_u32_value:
  "push_bit 8 (push_bit 8 (push_bit 8 (ucast (ucast (drop_bit 24 w) :: u8)) +
     ucast (ucast (drop_bit 16 w) :: u8)) + ucast (ucast (drop_bit 8 w) :: u8)) +
     ucast (ucast w :: u8) = (w :: u32)"
proof -
  note b = unat_ucast_drop_bit [of _ w]
  have "unat w div 16777216 < 256"
    using unat_u32_less [of w] by (intro less_mult_imp_div_less) simp
  then have "unat (ucast (drop_bit 24 w) :: u8) = unat w div 16777216"
    "unat (ucast (drop_bit 16 w) :: u8) = unat w div 65536 mod 256"
    "unat (ucast (drop_bit 8 w) :: u8) = unat w div 256 mod 256"
    "unat (ucast w :: u8) = unat w mod 256"
    using b [of 24] b [of 16] b [of 8] b [of 0] by (simp_all only:) simp_all
  note n = this
  have "push_bit 8 (push_bit 8 (push_bit 8 (ucast a) + ucast b) + ucast c) + ucast d =
    (of_nat (((unat a * 256 + unat b) * 256 + unat c) * 256 + unat d) :: u32)" for a b c d :: u8
    by (simp add: push_bit_eq_mult)
  then show ?thesis by (simp only: n nat_base_256) simp
qed

interpretation u32_codec: packet_codec packet__read_uint32 dec_u32 packet__write_uint32 enc_u32
    "\<lambda>_. True"
  by standard (simp add: dec_u32_def enc_u32_def enc_u32_value)

lemma length_enc_u16 [simp]: "length (enc_u16 w) = 2"
  by (simp add: enc_u16_def)

lemma length_enc_u32 [simp]: "length (enc_u32 w) = 4"
  by (simp add: enc_u32_def)

lemma length_enc_binary [simp]: "length (enc_binary bs) = 2 + length bs"
  by (simp add: enc_binary_def)

interpretation binary_codec: packet_codec packet__read_binary dec_binary
    "\<lambda>p bs. packet__write_string p bs (of_nat (length bs))" enc_binary "\<lambda>bs. length bs < 65536"
proof
  fix v r :: bytes
  assume len: "length v < 65536"
  have "dec_u16 (enc_u16 (of_nat (length v)) @ v @ r) = Inr (of_nat (length v), 2)"
    using u16_codec.dec_enc by simp
  moreover have "unat (of_nat (length v) :: u16) = length v"
    using len by (simp add: unat_of_nat take_bit_nat_eq_self)
  ultimately show "dec_binary (enc_binary v @ r) = Inr (v, length (enc_binary v))"
    by (simp add: dec_binary_def enc_binary_def)
qed

text \<open>Strings are binary data that must be valid UTF-8.\<close>

definition dec_string :: "bytes dec" where
  "dec_string bs = (case dec_binary bs of Inl e \<Rightarrow> Inl e
     | Inr (v, n) \<Rightarrow> if valid_utf8 v then Inr (v, n) else Inl MOSQ_ERR_MALFORMED_UTF8)"

lemma dec_binary_length: "dec_binary bs = Inr (v, n) \<Longrightarrow> length v < 65536"
  using unat_u16_less by (auto simp: dec_binary_def split: sum.splits if_splits intro: le_less_trans)

interpretation string_codec: packet_codec packet__read_string dec_string
    "\<lambda>p bs. packet__write_string p bs (of_nat (length bs))" enc_binary
    "\<lambda>bs. length bs < 65536 \<and> valid_utf8 bs"
proof unfold_locales
  fix p
  assume wf: "in_wf p"
  show "packet__read_string p =
      (case dec_string (rest p) of Inl e \<Rightarrow> Err e | Inr (v, n) \<Rightarrow> Ok (v, adv p n))"
  proof (cases "dec_binary (rest p)")
    case (Inl e)
    then show ?thesis by (simp add: packet__read_string_def dec_string_def binary_rd.rd_dec [OF wf])
  next
    case (Inr vn)
    then obtain v n where v: "dec_binary (rest p) = Inr (v, n)" by (cases vn) auto
    have "length v \<le> 65536" using dec_binary_length [OF v] by simp
    then show ?thesis
      using v by (simp add: packet__read_string_def dec_string_def binary_rd.rd_dec [OF wf]
          validate_utf8_eq)
  qed
next
  fix bs v n
  show "dec_string bs = Inr (v, n) \<Longrightarrow> n \<le> length bs"
    by (auto simp: dec_string_def dest: binary_rd.dec_length split: sum.splits if_splits)
next
  fix v r :: bytes
  assume "length v < 65536 \<and> valid_utf8 v"
  then show "dec_string (enc_binary v @ r) = Inr (v, length (enc_binary v))"
    using binary_codec.dec_enc [of v r] by (simp add: dec_string_def)
qed (simp add: string_wr.wr_emits)

text \<open>
  A codec with one encoding per value: what the reader accepts is exactly what the writer
  writes, so a reader that succeeds determines the bytes it has taken.
\<close>

locale packet_bijective = packet_codec +
  assumes dec_canonical: "dec bs = Inr (v, n) \<Longrightarrow> ok v \<and> take n bs = enc v"
begin

lemma dec_iff: "dec bs = Inr (v, n) \<longleftrightarrow> ok v \<and> n = length (enc v) \<and> (\<exists>r. bs = enc v @ r)"
proof
  assume d: "dec bs = Inr (v, n)"
  then have "n \<le> length bs" by (rule dec_length)
  then have "n = length (take n bs)" by simp
  with dec_canonical [OF d] show "ok v \<and> n = length (enc v) \<and> (\<exists>r. bs = enc v @ r)"
    by (metis append_take_drop_id)
qed (auto simp: dec_enc)

lemma reads_iff:
  assumes "in_wf p"
  shows "rd p = Ok (v, p') \<longleftrightarrow>
    ok v \<and> (\<exists>r. rest p = enc v @ r) \<and> p' = adv p (length (enc v))"
proof -
  have "rd p = Ok (v, p') \<longleftrightarrow> (\<exists>n. dec (rest p) = Inr (v, n) \<and> p' = adv p n)"
    using assms by (auto simp: rd_dec split: sum.splits)
  then show ?thesis by (auto simp: dec_iff)
qed

end

interpretation byte_bij: packet_bijective packet__read_byte dec_byte packet__write_byte "\<lambda>b. [b]"
    "\<lambda>_. True"
  by standard (auto simp: dec_byte_def split: list.splits)

lemma unat_be_sum:
  "unat (push_bit 8 (ucast (a :: u8)) + ucast (b :: u8) :: u16) = unat a * 256 + unat b"
proof -
  have "push_bit 8 (ucast a) + ucast b = (of_nat (unat a * 256 + unat b) :: u16)"
    by (simp add: push_bit_eq_mult)
  moreover have "unat a * 256 + unat b < 65536"
    using unat_u8_less [of a] unat_u8_less [of b] by simp
  ultimately show ?thesis by (simp only: unat_of_nat) (simp add: take_bit_nat_eq_self)
qed

lemma enc_u16_be: "enc_u16 (push_bit 8 (ucast (a :: u8)) + ucast (b :: u8)) = [a, b]"
proof -
  let ?w = "push_bit 8 (ucast a) + ucast b :: u16"
  have "MOSQ_MSB ?w = ucast (drop_bit 8 ?w)"
    using ucast_and_255 [of "drop_bit 8 ?w"] by (simp add: MOSQ_MSB_def drop_bit_and)
  then have "unat (MOSQ_MSB ?w) = unat a"
    using unat_ucast_drop_bit [of 8 ?w] unat_be_sum [of a b] unat_u8_less [of b] unat_u8_less [of a]
    by simp
  moreover have "unat (MOSQ_LSB ?w) = unat b"
    using unat_be_sum [of a b] unat_u8_less [of b]
    by (simp add: MOSQ_LSB_def ucast_and_255 unsigned_ucast_eq take_bit_eq_mod)
  ultimately show ?thesis by (simp add: enc_u16_def word_unat_eq_iff)
qed

interpretation u16_bij: packet_bijective packet__read_uint16 dec_u16 packet__write_uint16 enc_u16
    "\<lambda>_. True"
  by standard (auto simp: dec_u16_def enc_u16_be split: list.splits)

lemma enc_u32_eqI:
  assumes "unat w div 256 mod 256 = unat c" and "unat w div 65536 mod 256 = unat b"
    and "unat w div 16777216 mod 256 = unat a" and "unat w mod 256 = unat d"
  shows "enc_u32 w = [a, b, c, d]"
  using assms unat_ucast_drop_bit [of 24 w] unat_ucast_drop_bit [of 16 w]
    unat_ucast_drop_bit [of 8 w] unat_ucast_drop_bit [of 0 w]
  by (simp add: enc_u32_def word_unat_eq_iff)

lemma enc_u32_be:
  fixes a b c d :: u8
  shows "enc_u32 (push_bit 8 (push_bit 8 (push_bit 8 (ucast a) + ucast b) + ucast c) + ucast d) =
    [a, b, c, d]"
proof -
  let ?n = "((unat a * 256 + unat b) * 256 + unat c) * 256 + unat d"
  let ?w = "push_bit 8 (push_bit 8 (push_bit 8 (ucast a) + ucast b) + ucast c) + ucast d :: u32"
  have l: "unat a < 256" "unat b < 256" "unat c < 256" "unat d < 256" by (rule unat_u8_less)+
  have "?w = of_nat ?n" by (simp add: push_bit_eq_mult)
  moreover have "?n < 4294967296" using l by simp
  ultimately have n: "unat ?w = ?n" by (simp only: unat_of_nat) (simp add: take_bit_nat_eq_self)
  have q: "(y * 256 + x) div 256 = y" "(y * 256 + x) mod 256 = x" if "x < 256" for x y :: nat
    using that by simp_all
  have "?n div 65536 = ?n div 256 div 256" "?n div 16777216 = ?n div 256 div 256 div 256"
    by (simp_all only: div_mult2_eq [symmetric]) simp_all
  then have "?n div 256 mod 256 = unat c" "?n div 65536 mod 256 = unat b"
    "?n div 16777216 mod 256 = unat a" "?n mod 256 = unat d"
    using l by (simp_all only: q mod_less)
  then show ?thesis by (intro enc_u32_eqI) (simp_all only: n)
qed

interpretation u32_bij: packet_bijective packet__read_uint32 dec_u32 packet__write_uint32 enc_u32
    "\<lambda>_. True"
  by standard (auto simp: dec_u32_def enc_u32_be split: list.splits)

interpretation binary_bij: packet_bijective packet__read_binary dec_binary
    "\<lambda>p bs. packet__write_string p bs (of_nat (length bs))" enc_binary "\<lambda>bs. length bs < 65536"
proof
  fix bs v n
  assume d: "dec_binary bs = Inr (v, n)"
  then obtain w where w: "dec_u16 bs = Inr (w, 2)" and u: "unat w \<le> length bs - 2"
    and v: "v = take (unat w) (drop 2 bs)" and n: "n = 2 + unat w"
    by (auto simp: dec_binary_def dec_u16_def split: sum.splits if_splits list.splits)
  have "take 2 bs = enc_u16 w" using u16_bij.dec_canonical [OF w] by simp
  moreover have "of_nat (length v) = w" using u by (simp add: v)
  ultimately show "length v < 65536 \<and> take n bs = enc_binary v"
    using unat_u16_less [of w] u by (simp only: v n enc_binary_def take_add) simp
qed

interpretation string_bij: packet_bijective packet__read_string dec_string
    "\<lambda>p bs. packet__write_string p bs (of_nat (length bs))" enc_binary
    "\<lambda>bs. length bs < 65536 \<and> valid_utf8 bs"
  by standard (auto simp: dec_string_def dest: binary_bij.dec_canonical split: sum.splits if_splits)

lemma dec_varint_enc:
  assumes "unat w < 268435456"
  shows "dec_varint (enc_varint (unat w) @ r) =
    Inr ((w, of_nat (length (enc_varint (unat w)))), length (enc_varint (unat w)))"
  using assms dec_varint_upto_enc [of "unat w" 4 0 r] by (simp add: dec_varint_def)

lemma length_enc_varint:
  "length (enc_varint n) = (if n < 128 then 1 else Suc (length (enc_varint (n div 128))))"
  by (simp add: enc_varint.simps [of n])

lemma unat_varint_bytes:
  "unat w < 268435456 \<Longrightarrow> unat (packet__varint_bytes w) = length (enc_varint (unat w))"
proof -
  assume w: "unat w < 268435456"
  have d: "unat w div 128 div 128 = unat w div 16384"
      "unat w div 16384 div 128 = unat w div 2097152"
    by (simp_all add: div_mult2_eq [symmetric])
  have e: "unat w div 128 < 128 \<longleftrightarrow> unat w < 16384"
      "unat w div 16384 < 128 \<longleftrightarrow> unat w < 2097152" "unat w div 2097152 < 128"
    using w by (simp_all add: div_less_iff_less_mult)
  have l: "length (enc_varint (unat w)) =
    (if unat w < 128 then 1 else if unat w < 16384 then 2 else if unat w < 2097152 then 3 else 4)"
    by (simp add: length_enc_varint [of "unat w"] length_enc_varint [of "unat w div 128"]
        length_enc_varint [of "unat w div 16384"] length_enc_varint [of "unat w div 2097152"] d e)
  have c: "w < 128 \<longleftrightarrow> unat w < 128" "w < 16384 \<longleftrightarrow> unat w < 16384"
      "w < 2097152 \<longleftrightarrow> unat w < 2097152" "w < 268435456 \<longleftrightarrow> unat w < 268435456"
    by (simp_all add: word_less_nat_alt)
  show ?thesis using w by (simp add: packet__varint_bytes_def c l)
qed

section \<open>Properties\<close>

text \<open>
  C17: \<open>packet__read_varint\<close> on a packet that has arrived whole accepts exactly the canonical
  encodings: it returns \<open>w\<close> with byte count \<open>n\<close> if and only if the unread bytes
  start with the shortest encoding of \<open>w\<close>, \<open>w\<close> is below 268435456, and it has
  moved past exactly these bytes. Overlong and five-byte encodings are refused.
\<close>

theorem packet__read_varint_exact:
  assumes "in_wf p"
  shows "packet__read_varint p = Ok ((w, n), p') \<longleftrightarrow>
    unat w < 268435456 \<and> (\<exists>r. rest p = enc_varint (unat w) @ r) \<and>
    n = of_nat (length (enc_varint (unat w))) \<and> p' = adv p (length (enc_varint (unat w)))"
    (is "?L \<longleftrightarrow> ?R")
proof
  assume ?L
  then obtain v m where d: "dec_varint_upto 4 0 (rest p) = Some (v, m)" and w: "w = of_nat v"
    and n: "n = of_nat m" and p': "p' = adv p m"
    using varint_rd.rd_dec [OF assms] by (auto simp: dec_varint_def split: option.splits)
  from dec_varint_upto_canonical [OF d]
  have c: "take m (rest p) = enc_varint v" and v: "v < 268435456" by simp_all
  have u: "unat w = v" using v w by (simp add: unat_of_nat take_bit_nat_eq_self)
  have "m \<le> length (rest p)"
    using varint_rd.dec_length [of "rest p"] d by (simp add: dec_varint_def)
  then have "m = length (enc_varint v)" using c by (metis length_take min.absorb2)
  with c u v n p' show ?R by (metis append_take_drop_id)
next
  assume ?R
  then show ?L using varint_rd.rd_dec [OF assms] by (auto simp: dec_varint_enc)
qed

theorem packet__read_varint_exact_witness:
  "in_wf (packet_zero\<lparr>pk_payload := [0xC1, 0x02, 7], pk_remaining_length := 3\<rparr>) \<and>
   (packet__read_varint (packet_zero\<lparr>pk_payload := [0xC1, 0x02, 7], pk_remaining_length := 3\<rparr>) =
      Ok ((321, 2), adv (packet_zero\<lparr>pk_payload := [0xC1, 0x02, 7], pk_remaining_length := 3\<rparr>) 2))"
proof -
  let ?p = "packet_zero\<lparr>pk_payload := [0xC1, 0x02, 7], pk_remaining_length := 3\<rparr>"
  have wf: "in_wf ?p" by (simp add: in_wf_def packet_zero_def)
  have e: "enc_varint 321 = [0xC1, 2]" by (simp add: enc_varint.simps)
  then have len: "length (enc_varint 321) = 2" by simp
  have ex: "\<exists>r. rest ?p = enc_varint 321 @ r" by (simp add: e rest_def packet_zero_def)
  show ?thesis
    using wf packet__read_varint_exact [OF wf, of 321 2 "adv ?p 2"] ex by (simp add: len)
qed

text \<open>
  C18: writing a variable byte integer below 268435456 succeeds where its encoding fits, writes as
  many bytes as \<open>packet__varint_bytes\<close> announces, and the packet rewound to the start of
  the value reads it back.
\<close>

theorem packet__varint_roundtrip:
  assumes "unat w < 268435456" and "can_write p (unat (packet__varint_bytes w))"
  shows "\<exists>p'. packet__write_varint p w = Ok (p', MOSQ_ERR_SUCCESS) \<and>
     unat (pk_pos p') = unat (pk_pos p) + unat (packet__varint_bytes w) \<and>
     (in_wf (p'\<lparr>pk_pos := pk_pos p\<rparr>) \<longrightarrow>
        packet__read_varint (p'\<lparr>pk_pos := pk_pos p\<rparr>) =
          Ok ((w, ucast (packet__varint_bytes w)), p'))"
proof (intro exI conjI impI)
  let ?e = "enc_varint (unat w)"
  let ?p' = "put p ?e"
  have len: "unat (packet__varint_bytes w) = length ?e" by (rule unat_varint_bytes [OF assms(1)])
  with assms(2) have c: "can_write p (length ?e)" by simp
  show "packet__write_varint p w = Ok (?p', MOSQ_ERR_SUCCESS)"
    using assms(1) c write_varint_loop_put [of 0 3 w p] by (simp add: packet__write_varint_def)
  show "unat (pk_pos ?p') = unat (pk_pos p) + unat (packet__varint_bytes w)"
    by (simp add: len unat_pos_put [OF c])
  assume wf: "in_wf (?p'\<lparr>pk_pos := pk_pos p\<rparr>)"
  have "rest (?p'\<lparr>pk_pos := pk_pos p\<rparr>) =
        ?e @ drop (unat (pk_pos p) + length ?e) (pk_payload p)"
    using c by (simp add: rest_def put_def blit_def can_write_def)
  moreover have "(of_nat (length ?e) :: u8) = ucast (packet__varint_bytes w)"
    by (simp add: len [symmetric])
  moreover have "adv (?p'\<lparr>pk_pos := pk_pos p\<rparr>) (length ?e) = ?p'"
    by (simp add: adv_def put_def)
  ultimately show "packet__read_varint (?p'\<lparr>pk_pos := pk_pos p\<rparr>) =
      Ok ((w, ucast (packet__varint_bytes w)), ?p')"
    using varint_rd.rd_dec [OF wf] dec_varint_enc [OF assms(1)] by simp
qed

theorem packet__varint_roundtrip_witness:
  "\<exists>p'. packet__write_varint (packet_zero\<lparr>pk_payload := [0, 0, 0], pk_packet_length := 3,
        pk_remaining_length := 3\<rparr>) 16384 = Ok (p', MOSQ_ERR_SUCCESS)"
  using packet__varint_roundtrip [of 16384 "packet_zero\<lparr>pk_payload := [0, 0, 0],
      pk_packet_length := 3, pk_remaining_length := 3\<rparr>"]
  by (auto simp: can_write_def packet_zero_def packet__varint_bytes_def)

text \<open>
  C19: a 32 bit integer written into a packet where it fits, and read back from the same place, is
  the same integer, and the reader ends where the writer did. This is how a CONNECT packet
  carries \<open>threshold_l\<close>.
\<close>

theorem packet__uint32_read_back:
  assumes "can_write p 4" and "packet__write_uint32 p w = Ok p'"
    and "in_wf (p'\<lparr>pk_pos := pk_pos p\<rparr>)"
  shows "packet__read_uint32 (p'\<lparr>pk_pos := pk_pos p\<rparr>) = Ok (w, p')"
  using u32_codec.read_back [of p w p'] assms by simp

theorem packet__uint32_read_back_witness:
  "packet__read_uint32 (packet_zero\<lparr>pk_payload := [0, 0, 1, 44], pk_packet_length := 4,
      pk_remaining_length := 4\<rparr>) =
   Ok (300, packet_zero\<lparr>pk_payload := [0, 0, 1, 44], pk_packet_length := 4,
      pk_remaining_length := 4, pk_pos := 4\<rparr>)"
proof -
  let ?p = "packet_zero\<lparr>pk_payload := [0, 0, 0, 0], pk_packet_length := 4, pk_remaining_length := 4\<rparr>"
  let ?p' = "packet_zero\<lparr>pk_payload := [0, 0, 1, 44], pk_packet_length := 4,
      pk_remaining_length := 4, pk_pos := 4\<rparr>"
  have c: "can_write ?p 4" by (simp add: can_write_def packet_zero_def)
  have w: "packet__write_uint32 ?p 300 = Ok ?p'"
    by (simp add: packet__write_uint32_def packet__write_byte_def packet_zero_def)
  show ?thesis
    using packet__uint32_read_back [OF c w] by (simp add: in_wf_def packet_zero_def)
qed

end
