(* ===== verification/Properties.thy ===== *)
theory Properties
  imports Packet_Datatypes
begin

text \<open>
  MQTT v5 properties, from \<^verbatim>\<open>lib/property_mosq.c\<close>: reading them from a packet,
  their lengths, writing them, the checks on them, and the functions that build and search a
  list of them. A list of properties is a list; \<open>property__free\<close> and
  \<open>mosquitto_property_free_all\<close> only release memory and have no counterpart, and an
  allocation that fails is not modelled.
\<close>

section \<open>Identifiers and commands (include/mqtt_protocol.h)\<close>

abbreviation MQTT_PROP_PAYLOAD_FORMAT_INDICATOR :: int where "MQTT_PROP_PAYLOAD_FORMAT_INDICATOR \<equiv> 1"
abbreviation MQTT_PROP_MESSAGE_EXPIRY_INTERVAL :: int where "MQTT_PROP_MESSAGE_EXPIRY_INTERVAL \<equiv> 2"
abbreviation MQTT_PROP_CONTENT_TYPE :: int where "MQTT_PROP_CONTENT_TYPE \<equiv> 3"
abbreviation MQTT_PROP_RESPONSE_TOPIC :: int where "MQTT_PROP_RESPONSE_TOPIC \<equiv> 8"
abbreviation MQTT_PROP_CORRELATION_DATA :: int where "MQTT_PROP_CORRELATION_DATA \<equiv> 9"
abbreviation MQTT_PROP_SUBSCRIPTION_IDENTIFIER :: int where "MQTT_PROP_SUBSCRIPTION_IDENTIFIER \<equiv> 11"
abbreviation MQTT_PROP_SESSION_EXPIRY_INTERVAL :: int where "MQTT_PROP_SESSION_EXPIRY_INTERVAL \<equiv> 17"
abbreviation MQTT_PROP_ASSIGNED_CLIENT_IDENTIFIER :: int where "MQTT_PROP_ASSIGNED_CLIENT_IDENTIFIER \<equiv> 18"
abbreviation MQTT_PROP_SERVER_KEEP_ALIVE :: int where "MQTT_PROP_SERVER_KEEP_ALIVE \<equiv> 19"
abbreviation MQTT_PROP_AUTHENTICATION_METHOD :: int where "MQTT_PROP_AUTHENTICATION_METHOD \<equiv> 21"
abbreviation MQTT_PROP_AUTHENTICATION_DATA :: int where "MQTT_PROP_AUTHENTICATION_DATA \<equiv> 22"
abbreviation MQTT_PROP_REQUEST_PROBLEM_INFORMATION :: int where "MQTT_PROP_REQUEST_PROBLEM_INFORMATION \<equiv> 23"
abbreviation MQTT_PROP_WILL_DELAY_INTERVAL :: int where "MQTT_PROP_WILL_DELAY_INTERVAL \<equiv> 24"
abbreviation MQTT_PROP_REQUEST_RESPONSE_INFORMATION :: int where "MQTT_PROP_REQUEST_RESPONSE_INFORMATION \<equiv> 25"
abbreviation MQTT_PROP_RESPONSE_INFORMATION :: int where "MQTT_PROP_RESPONSE_INFORMATION \<equiv> 26"
abbreviation MQTT_PROP_SERVER_REFERENCE :: int where "MQTT_PROP_SERVER_REFERENCE \<equiv> 28"
abbreviation MQTT_PROP_REASON_STRING :: int where "MQTT_PROP_REASON_STRING \<equiv> 31"
abbreviation MQTT_PROP_RECEIVE_MAXIMUM :: int where "MQTT_PROP_RECEIVE_MAXIMUM \<equiv> 33"
abbreviation MQTT_PROP_TOPIC_ALIAS_MAXIMUM :: int where "MQTT_PROP_TOPIC_ALIAS_MAXIMUM \<equiv> 34"
abbreviation MQTT_PROP_TOPIC_ALIAS :: int where "MQTT_PROP_TOPIC_ALIAS \<equiv> 35"
abbreviation MQTT_PROP_MAXIMUM_QOS :: int where "MQTT_PROP_MAXIMUM_QOS \<equiv> 36"
abbreviation MQTT_PROP_RETAIN_AVAILABLE :: int where "MQTT_PROP_RETAIN_AVAILABLE \<equiv> 37"
abbreviation MQTT_PROP_USER_PROPERTY :: int where "MQTT_PROP_USER_PROPERTY \<equiv> 38"
abbreviation MQTT_PROP_MAXIMUM_PACKET_SIZE :: int where "MQTT_PROP_MAXIMUM_PACKET_SIZE \<equiv> 39"
abbreviation MQTT_PROP_WILDCARD_SUB_AVAILABLE :: int where "MQTT_PROP_WILDCARD_SUB_AVAILABLE \<equiv> 40"
abbreviation MQTT_PROP_SUBSCRIPTION_ID_AVAILABLE :: int where "MQTT_PROP_SUBSCRIPTION_ID_AVAILABLE \<equiv> 41"
abbreviation MQTT_PROP_SHARED_SUB_AVAILABLE :: int where "MQTT_PROP_SHARED_SUB_AVAILABLE \<equiv> 42"

abbreviation CMD_CONNECT :: int where "CMD_CONNECT \<equiv> 0x10"
abbreviation CMD_CONNACK :: int where "CMD_CONNACK \<equiv> 0x20"
abbreviation CMD_PUBLISH :: int where "CMD_PUBLISH \<equiv> 0x30"
abbreviation CMD_PUBACK :: int where "CMD_PUBACK \<equiv> 0x40"
abbreviation CMD_PUBREC :: int where "CMD_PUBREC \<equiv> 0x50"
abbreviation CMD_PUBREL :: int where "CMD_PUBREL \<equiv> 0x60"
abbreviation CMD_PUBCOMP :: int where "CMD_PUBCOMP \<equiv> 0x70"
abbreviation CMD_SUBSCRIBE :: int where "CMD_SUBSCRIBE \<equiv> 0x80"
abbreviation CMD_UNSUBSCRIBE :: int where "CMD_UNSUBSCRIBE \<equiv> 0xA0"
abbreviation CMD_PINGREQ :: int where "CMD_PINGREQ \<equiv> 0xC0"
abbreviation CMD_PINGRESP :: int where "CMD_PINGRESP \<equiv> 0xD0"
abbreviation CMD_DISCONNECT :: int where "CMD_DISCONNECT \<equiv> 0xE0"
abbreviation CMD_AUTH :: int where "CMD_AUTH \<equiv> 0xF0"
abbreviation CMD_WILL :: int where "CMD_WILL \<equiv> 0x100"

text \<open>
  The groups of \<open>case\<close> labels that the switches of \<open>property__read\<close>,
  \<open>property__get_length\<close>, \<open>property__write\<close>, \<open>mosquitto_property_copy_all\<close>
  and the identifier checks of the \<open>add\<close> and \<open>read\<close> functions share.
\<close>

datatype prop_class =
  PC_byte | PC_uint16 | PC_uint32 | PC_varint | PC_string | PC_binary | PC_string_pair | PC_other

definition prop_class :: "int \<Rightarrow> prop_class" where
  "prop_class i =
    (if i \<in> {MQTT_PROP_PAYLOAD_FORMAT_INDICATOR, MQTT_PROP_REQUEST_PROBLEM_INFORMATION,
             MQTT_PROP_REQUEST_RESPONSE_INFORMATION, MQTT_PROP_MAXIMUM_QOS,
             MQTT_PROP_RETAIN_AVAILABLE, MQTT_PROP_WILDCARD_SUB_AVAILABLE,
             MQTT_PROP_SUBSCRIPTION_ID_AVAILABLE, MQTT_PROP_SHARED_SUB_AVAILABLE} then PC_byte
     else if i \<in> {MQTT_PROP_SERVER_KEEP_ALIVE, MQTT_PROP_RECEIVE_MAXIMUM,
             MQTT_PROP_TOPIC_ALIAS_MAXIMUM, MQTT_PROP_TOPIC_ALIAS} then PC_uint16
     else if i \<in> {MQTT_PROP_MESSAGE_EXPIRY_INTERVAL, MQTT_PROP_SESSION_EXPIRY_INTERVAL,
             MQTT_PROP_WILL_DELAY_INTERVAL, MQTT_PROP_MAXIMUM_PACKET_SIZE} then PC_uint32
     else if i = MQTT_PROP_SUBSCRIPTION_IDENTIFIER then PC_varint
     else if i \<in> {MQTT_PROP_CONTENT_TYPE, MQTT_PROP_RESPONSE_TOPIC,
             MQTT_PROP_ASSIGNED_CLIENT_IDENTIFIER, MQTT_PROP_AUTHENTICATION_METHOD,
             MQTT_PROP_RESPONSE_INFORMATION, MQTT_PROP_SERVER_REFERENCE,
             MQTT_PROP_REASON_STRING} then PC_string
     else if i \<in> {MQTT_PROP_AUTHENTICATION_DATA, MQTT_PROP_CORRELATION_DATA} then PC_binary
     else if i = MQTT_PROP_USER_PROPERTY then PC_string_pair
     else PC_other)"

section \<open>Checks\<close>

definition mosquitto_property_check_command :: "int \<Rightarrow> int \<Rightarrow> rc" where
  "mosquitto_property_check_command command identifier =
    (if identifier \<in> {MQTT_PROP_PAYLOAD_FORMAT_INDICATOR, MQTT_PROP_MESSAGE_EXPIRY_INTERVAL,
          MQTT_PROP_CONTENT_TYPE, MQTT_PROP_RESPONSE_TOPIC, MQTT_PROP_CORRELATION_DATA} then
       (if command \<noteq> CMD_PUBLISH \<and> command \<noteq> CMD_WILL then MOSQ_ERR_PROTOCOL else MOSQ_ERR_SUCCESS)
     else if identifier = MQTT_PROP_SUBSCRIPTION_IDENTIFIER then
       (if command \<noteq> CMD_PUBLISH \<and> command \<noteq> CMD_SUBSCRIBE then MOSQ_ERR_PROTOCOL
        else MOSQ_ERR_SUCCESS)
     else if identifier = MQTT_PROP_SESSION_EXPIRY_INTERVAL then
       (if command \<noteq> CMD_CONNECT \<and> command \<noteq> CMD_CONNACK \<and> command \<noteq> CMD_DISCONNECT
        then MOSQ_ERR_PROTOCOL else MOSQ_ERR_SUCCESS)
     else if identifier \<in> {MQTT_PROP_AUTHENTICATION_METHOD, MQTT_PROP_AUTHENTICATION_DATA} then
       (if command \<noteq> CMD_CONNECT \<and> command \<noteq> CMD_CONNACK \<and> command \<noteq> CMD_AUTH
        then MOSQ_ERR_PROTOCOL else MOSQ_ERR_SUCCESS)
     else if identifier \<in> {MQTT_PROP_ASSIGNED_CLIENT_IDENTIFIER, MQTT_PROP_SERVER_KEEP_ALIVE,
          MQTT_PROP_RESPONSE_INFORMATION, MQTT_PROP_MAXIMUM_QOS, MQTT_PROP_RETAIN_AVAILABLE,
          MQTT_PROP_WILDCARD_SUB_AVAILABLE, MQTT_PROP_SUBSCRIPTION_ID_AVAILABLE,
          MQTT_PROP_SHARED_SUB_AVAILABLE} then
       (if command \<noteq> CMD_CONNACK then MOSQ_ERR_PROTOCOL else MOSQ_ERR_SUCCESS)
     else if identifier = MQTT_PROP_WILL_DELAY_INTERVAL then
       (if command \<noteq> CMD_WILL then MOSQ_ERR_PROTOCOL else MOSQ_ERR_SUCCESS)
     else if identifier \<in> {MQTT_PROP_REQUEST_PROBLEM_INFORMATION,
          MQTT_PROP_REQUEST_RESPONSE_INFORMATION} then
       (if command \<noteq> CMD_CONNECT then MOSQ_ERR_PROTOCOL else MOSQ_ERR_SUCCESS)
     else if identifier = MQTT_PROP_SERVER_REFERENCE then
       (if command \<noteq> CMD_CONNACK \<and> command \<noteq> CMD_DISCONNECT then MOSQ_ERR_PROTOCOL
        else MOSQ_ERR_SUCCESS)
     else if identifier = MQTT_PROP_REASON_STRING then
       (if command = CMD_CONNECT \<or> command = CMD_PUBLISH \<or> command = CMD_SUBSCRIBE \<or>
           command = CMD_UNSUBSCRIBE then MOSQ_ERR_PROTOCOL else MOSQ_ERR_SUCCESS)
     else if identifier \<in> {MQTT_PROP_RECEIVE_MAXIMUM, MQTT_PROP_TOPIC_ALIAS_MAXIMUM,
          MQTT_PROP_MAXIMUM_PACKET_SIZE} then
       (if command \<noteq> CMD_CONNECT \<and> command \<noteq> CMD_CONNACK then MOSQ_ERR_PROTOCOL
        else MOSQ_ERR_SUCCESS)
     else if identifier = MQTT_PROP_TOPIC_ALIAS then
       (if command \<noteq> CMD_PUBLISH then MOSQ_ERR_PROTOCOL else MOSQ_ERR_SUCCESS)
     else if identifier = MQTT_PROP_USER_PROPERTY then MOSQ_ERR_SUCCESS
     else MOSQ_ERR_PROTOCOL)"

text \<open>The outer loop of \<open>mosquitto_property_check_all\<close>; the inner one looks for the
  identifier in the rest of the list.\<close>

fun mosquitto_property_check_all :: "int \<Rightarrow> mosquitto_property list \<Rightarrow> rc" where
  "mosquitto_property_check_all command [] = MOSQ_ERR_SUCCESS"
| "mosquitto_property_check_all command (p # tail) =
    (if pr_identifier p \<in> {MQTT_PROP_REQUEST_PROBLEM_INFORMATION,
          MQTT_PROP_PAYLOAD_FORMAT_INDICATOR, MQTT_PROP_REQUEST_RESPONSE_INFORMATION,
          MQTT_PROP_MAXIMUM_QOS, MQTT_PROP_RETAIN_AVAILABLE, MQTT_PROP_WILDCARD_SUB_AVAILABLE,
          MQTT_PROP_SUBSCRIPTION_ID_AVAILABLE, MQTT_PROP_SHARED_SUB_AVAILABLE} \<and> pr_i8 p > 1
     then MOSQ_ERR_PROTOCOL
     else if pr_identifier p = MQTT_PROP_MAXIMUM_PACKET_SIZE \<and> pr_i32 p = 0
     then MOSQ_ERR_PROTOCOL
     else if (pr_identifier p = MQTT_PROP_RECEIVE_MAXIMUM \<or>
              pr_identifier p = MQTT_PROP_TOPIC_ALIAS) \<and> pr_i16 p = 0
     then MOSQ_ERR_PROTOCOL
     else let rc = mosquitto_property_check_command command (pr_identifier p) in
       if rc \<noteq> 0 then rc
       else if pr_identifier p \<noteq> MQTT_PROP_USER_PROPERTY \<and>
               (\<exists>q \<in> set tail. pr_identifier p = pr_identifier q)
       then MOSQ_ERR_DUPLICATE_PROPERTY
       else mosquitto_property_check_all command tail)"

section \<open>Reading\<close>

text \<open>The pointer that \<open>packet__read_string\<close> sets: \<open>NULL\<close> for a length of 0.\<close>

definition str_ptr :: "bytes \<Rightarrow> bytes option" where
  "str_ptr bs = (if bs = [] then None else Some bs)"

text \<open>\<open>property__read\<close> with the length still to read, \<open>*len\<close>, before and after.\<close>

definition property__read :: "packet \<Rightarrow> u32 \<Rightarrow> ((mosquitto_property \<times> u32) \<times> packet) res" where
  "property__read packet len =
    res_bind (packet__read_varint packet) (\<lambda>((property_identifier, _), packet).
      let len = len - 1;
          property = property_zero\<lparr>pr_identifier := uint property_identifier\<rparr>
      in case prop_class (uint property_identifier) of
        PC_byte \<Rightarrow> res_bind (packet__read_byte packet) (\<lambda>(byte, packet).
          Ok ((property\<lparr>pr_i8 := byte\<rparr>, len - 1), packet))
      | PC_uint16 \<Rightarrow> res_bind (packet__read_uint16 packet) (\<lambda>(uint16, packet).
          Ok ((property\<lparr>pr_i16 := uint16\<rparr>, len - 2), packet))
      | PC_uint32 \<Rightarrow> res_bind (packet__read_uint32 packet) (\<lambda>(uint32, packet).
          Ok ((property\<lparr>pr_i32 := uint32\<rparr>, len - 4), packet))
      | PC_varint \<Rightarrow> res_bind (packet__read_varint packet) (\<lambda>((varint, byte_count), packet).
          Ok ((property\<lparr>pr_varint := varint\<rparr>, len - ucast byte_count), packet))
      | PC_string \<Rightarrow> res_bind (packet__read_string packet) (\<lambda>(str1, packet).
          Ok ((property\<lparr>pr_s := str_ptr str1, pr_s_len := of_nat (length str1)\<rparr>,
               len - 2 - of_nat (length str1)), packet))
      | PC_binary \<Rightarrow> res_bind (packet__read_binary packet) (\<lambda>(str1, packet).
          Ok ((property\<lparr>pr_bin := str1, pr_bin_len := of_nat (length str1)\<rparr>,
               len - 2 - of_nat (length str1)), packet))
      | PC_string_pair \<Rightarrow> res_bind (packet__read_string packet) (\<lambda>(str1, packet).
          let len = len - 2 - of_nat (length str1) in
          res_bind (packet__read_string packet) (\<lambda>(str2, packet).
          Ok ((property\<lparr>pr_name := str_ptr str1, pr_name_len := of_nat (length str1),
                 pr_s := str_ptr str2, pr_s_len := of_nat (length str2)\<rparr>,
               len - 2 - of_nat (length str2)), packet)))
      | PC_other \<Rightarrow> Err MOSQ_ERR_MALFORMED_PACKET)"

text \<open>
  The loop \<open>while(proplen > 0)\<close>. Every pass takes at least one byte of the packet, but
  \<open>proplen\<close> itself may wrap below zero, so the loop carries fuel: one pass per byte left
  and one to see the end. \<open>property__read_all_in_bounds\<close> below shows it is enough.
\<close>

fun property_read_loop ::
    "nat \<Rightarrow> packet \<Rightarrow> u32 \<Rightarrow> mosquitto_property list \<Rightarrow> (mosquitto_property list \<times> packet) res" where
  "property_read_loop fuel packet proplen properties =
    (if proplen > 0 then
       (case fuel of 0 \<Rightarrow> Fault
        | Suc fuel \<Rightarrow> res_bind (property__read packet proplen) (\<lambda>((p, proplen), packet).
            property_read_loop fuel packet proplen (properties @ [p])))
     else Ok (properties, packet))"

declare property_read_loop.simps [simp del]

definition property__read_all :: "int \<Rightarrow> packet \<Rightarrow> (mosquitto_property list \<times> packet) res" where
  "property__read_all command packet =
    res_bind (packet__read_varint packet) (\<lambda>((proplen, _), packet).
      res_bind (property_read_loop (length (pk_payload packet) + 1) packet proplen [])
        (\<lambda>(properties, packet).
          let rc = mosquitto_property_check_all command properties in
          if rc \<noteq> 0 then Err rc else Ok (properties, packet)))"

section \<open>Lengths and writing\<close>

definition property__get_length :: "mosquitto_property \<Rightarrow> u32" where
  "property__get_length property =
    (case prop_class (pr_identifier property) of
       PC_byte \<Rightarrow> 2
     | PC_uint16 \<Rightarrow> 3
     | PC_uint32 \<Rightarrow> 5
     | PC_varint \<Rightarrow>
         (if pr_varint property < 128 then 2
          else if pr_varint property < 16384 then 3
          else if pr_varint property < 2097152 then 4
          else if pr_varint property < 268435456 then 5
          else 0)
     | PC_binary \<Rightarrow> 3 + ucast (pr_bin_len property)
     | PC_string \<Rightarrow> 3 + ucast (pr_s_len property)
     | PC_string_pair \<Rightarrow> 5 + ucast (pr_s_len property) + ucast (pr_name_len property)
     | PC_other \<Rightarrow> 0)"

fun property__get_length_all :: "mosquitto_property list \<Rightarrow> u32" where
  "property__get_length_all [] = 0"
| "property__get_length_all (p # ps) = property__get_length p + property__get_length_all ps"

definition property__get_remaining_length :: "mosquitto_property list \<Rightarrow> u32" where
  "property__get_remaining_length props =
    (let proplen = property__get_length_all props;
         varbytes = packet__varint_bytes proplen
     in proplen + varbytes)"

text \<open>What the pointer of a string points to.\<close>

definition str_bytes :: "bytes option \<Rightarrow> bytes" where
  "str_bytes v = (case v of None \<Rightarrow> [] | Some bs \<Rightarrow> bs)"

text \<open>The writers that return nothing are followed by the \<open>return\<close> of the function.\<close>

definition then_success :: "packet res \<Rightarrow> (packet \<times> rc) res" where
  "then_success r = res_bind r (\<lambda>p. Ok (p, MOSQ_ERR_SUCCESS))"

definition property__write :: "packet \<Rightarrow> mosquitto_property \<Rightarrow> (packet \<times> rc) res" where
  "property__write packet property =
    res_bind (packet__write_varint packet (word_of_int (pr_identifier property))) (\<lambda>(packet, rc).
      if rc \<noteq> 0 then Ok (packet, rc) else
      case prop_class (pr_identifier property) of
        PC_byte \<Rightarrow> then_success (packet__write_byte packet (pr_i8 property))
      | PC_uint16 \<Rightarrow> then_success (packet__write_uint16 packet (pr_i16 property))
      | PC_uint32 \<Rightarrow> then_success (packet__write_uint32 packet (pr_i32 property))
      | PC_varint \<Rightarrow> packet__write_varint packet (pr_varint property)
      | PC_string \<Rightarrow>
          then_success (packet__write_string packet (str_bytes (pr_s property)) (pr_s_len property))
      | PC_binary \<Rightarrow>
          then_success (res_bind (packet__write_uint16 packet (pr_bin_len property)) (\<lambda>packet.
            packet__write_bytes packet (pr_bin property) (ucast (pr_bin_len property))))
      | PC_string_pair \<Rightarrow>
          then_success (res_bind
            (packet__write_string packet (str_bytes (pr_name property)) (pr_name_len property))
            (\<lambda>packet. packet__write_string packet (str_bytes (pr_s property)) (pr_s_len property)))
      | PC_other \<Rightarrow> Ok (packet, MOSQ_ERR_INVAL))"

fun property_write_loop :: "packet \<Rightarrow> mosquitto_property list \<Rightarrow> (packet \<times> rc) res" where
  "property_write_loop packet [] = Ok (packet, MOSQ_ERR_SUCCESS)"
| "property_write_loop packet (p # ps) =
     res_bind (property__write packet p) (\<lambda>(packet, rc).
       if rc \<noteq> 0 then Ok (packet, rc) else property_write_loop packet ps)"

definition property__write_all ::
    "packet \<Rightarrow> mosquitto_property list \<Rightarrow> bool \<Rightarrow> (packet \<times> rc) res" where
  "property__write_all packet properties write_len =
    (if write_len then
       res_bind (packet__write_varint packet (property__get_length_all properties))
         (\<lambda>(packet, rc). if rc \<noteq> 0 then Ok (packet, rc) else property_write_loop packet properties)
     else property_write_loop packet properties)"

section \<open>The decoder of a property\<close>

text \<open>Decoders in sequence.\<close>

definition dec_bind :: "'a dec \<Rightarrow> ('a \<Rightarrow> 'b dec) \<Rightarrow> 'b dec" where
  "dec_bind d f bs = (case d bs of Inl e \<Rightarrow> Inl e
     | Inr (v, n) \<Rightarrow> (case f v (drop n bs) of Inl e \<Rightarrow> Inl e | Inr (w, m) \<Rightarrow> Inr (w, n + m)))"

definition dec_ret :: "'a \<Rightarrow> 'a dec" where
  "dec_ret v bs = Inr (v, 0)"

text \<open>The decoder of one property: the value that the identifier selects.\<close>

definition dec_prop_value :: "int \<Rightarrow> mosquitto_property dec" where
  "dec_prop_value i = (let pr = property_zero\<lparr>pr_identifier := i\<rparr> in
     case prop_class i of
       PC_byte \<Rightarrow> dec_bind dec_byte (\<lambda>v. dec_ret (pr\<lparr>pr_i8 := v\<rparr>))
     | PC_uint16 \<Rightarrow> dec_bind dec_u16 (\<lambda>v. dec_ret (pr\<lparr>pr_i16 := v\<rparr>))
     | PC_uint32 \<Rightarrow> dec_bind dec_u32 (\<lambda>v. dec_ret (pr\<lparr>pr_i32 := v\<rparr>))
     | PC_varint \<Rightarrow> dec_bind dec_varint (\<lambda>(v, _). dec_ret (pr\<lparr>pr_varint := v\<rparr>))
     | PC_string \<Rightarrow> dec_bind dec_string (\<lambda>s.
         dec_ret (pr\<lparr>pr_s := str_ptr s, pr_s_len := of_nat (length s)\<rparr>))
     | PC_binary \<Rightarrow> dec_bind dec_binary (\<lambda>s.
         dec_ret (pr\<lparr>pr_bin := s, pr_bin_len := of_nat (length s)\<rparr>))
     | PC_string_pair \<Rightarrow> dec_bind dec_string (\<lambda>s. dec_bind dec_string (\<lambda>t.
         dec_ret (pr\<lparr>pr_name := str_ptr s, pr_name_len := of_nat (length s),
           pr_s := str_ptr t, pr_s_len := of_nat (length t)\<rparr>)))
     | PC_other \<Rightarrow> (\<lambda>_. Inl MOSQ_ERR_MALFORMED_PACKET))"

definition dec_property :: "mosquitto_property dec" where
  "dec_property = dec_bind dec_varint (\<lambda>(i, _). dec_prop_value (uint i))"

text \<open>The same decoder with the length that is left, as \<open>property__read\<close> counts it.\<close>

definition dec_counted :: "'a dec \<Rightarrow> u32 \<Rightarrow> ('a \<times> u32) dec" where
  "dec_counted d len bs = (case d bs of Inl e \<Rightarrow> Inl e
     | Inr (v, n) \<Rightarrow> Inr ((v, len - of_nat n), n))"

lemma prop_class_range: "prop_class i \<noteq> PC_other \<Longrightarrow> 0 < i \<and> i < 128"
  by (auto simp: prop_class_def split: if_splits)

lemma dec_varint_Inr:
  assumes "dec_varint bs = Inr ((w, c), n)"
  shows "n = length (enc_varint (unat w))" and "c = of_nat n" and "unat w < 268435456"
    and "take n bs = enc_varint (unat w)" and "0 < n" and "n \<le> 4"
proof -
  obtain v where d: "dec_varint_upto 4 0 bs = Some (v, n)" and w: "w = of_nat v" and c: "c = of_nat n"
    using assms by (auto simp: dec_varint_def split: option.splits)
  have t: "take n bs = enc_varint v" and v: "v < 268435456"
    using dec_varint_upto_canonical [OF d] by simp_all
  have u: "unat w = v" using v w by (simp add: unat_of_nat take_bit_nat_eq_self)
  have "n \<le> length bs" using varint_rd.dec_length [OF assms] .
  with t u show n: "n = length (enc_varint (unat w))" by (metis length_take min.absorb2)
  show "c = of_nat n" by (rule c)
  show l: "unat w < 268435456" using u v by simp
  show "take n bs = enc_varint (unat w)" using t u by simp
  show "0 < n" by (simp add: n length_enc_varint [of "unat w"])
  have "packet__varint_bytes w \<le> 4" using l by (simp add: packet__varint_bytes_def word_less_nat_alt)
  then show "n \<le> 4" using unat_varint_bytes [OF l] n by (simp add: word_le_nat_alt)
qed

lemma dec_binary_used: "dec_binary bs = Inr (v, n) \<Longrightarrow> n = 2 + length v"
  using binary_rd.dec_length [of bs v n]
  by (auto simp: dec_binary_def split: sum.splits if_splits)

lemma dec_string_used: "dec_string bs = Inr (v, n) \<Longrightarrow> n = 2 + length v"
  by (auto simp: dec_string_def dest: dec_binary_used split: sum.splits if_splits)

lemma dec_byte_used: "dec_byte bs = Inr (v, n) \<Longrightarrow> n = 1"
  by (auto simp: dec_byte_def split: list.splits)

lemma dec_u16_used: "dec_u16 bs = Inr (v, n) \<Longrightarrow> n = 2"
  by (auto simp: dec_u16_def split: list.splits)

lemma dec_u32_used: "dec_u32 bs = Inr (v, n) \<Longrightarrow> n = 4"
  by (auto simp: dec_u32_def split: list.splits)

lemmas dec_prop_simps = dec_property_def dec_bind_def dec_prop_value_def dec_counted_def dec_ret_def

lemma property__read_dec:
  assumes wf: "in_wf p"
  shows "property__read p len = (case dec_counted dec_property len (rest p) of
           Inl e \<Rightarrow> Err e | Inr (v, n) \<Rightarrow> Ok (v, adv p n))"
proof (cases "dec_varint (rest p)")
  case (Inl e)
  then show ?thesis
    by (simp add: property__read_def varint_rd.rd_dec [OF wf] dec_prop_simps)
next
  case (Inr x)
  then obtain i c n where i: "dec_varint (rest p) = Inr ((i, c), n)" by (cases x) auto
  note wf' = in_wf_adv [OF wf varint_rd.dec_length [OF i]]
  let ?c = "prop_class (uint i)"
  have n: "n = Suc 0" if "?c \<noteq> PC_other"
  proof -
    have "uint i = int (unat i)" by simp
    then have "unat i < 128" using prop_class_range [OF that] by linarith
    then show ?thesis using dec_varint_Inr(1) [OF i] by (simp add: enc_varint_small)
  qed
  show ?thesis
  proof (cases "?c = PC_other")
    case True
    then show ?thesis
      by (simp add: property__read_def varint_rd.rd_dec [OF wf] i Let_def dec_prop_simps)
  next
    case False
    note wf1 = wf' [unfolded n [OF False]]
    note rd = property__read_def varint_rd.rd_dec [OF wf] i [unfolded n [OF False]] Let_def wf1(2)
      dec_prop_simps
    show ?thesis
    proof (cases ?c)
      case PC_byte
      then show ?thesis
        by (auto simp: rd byte_rd.rd_dec [OF wf1(1)] dest: dec_byte_used split: sum.splits)
    next
      case PC_uint16
      then show ?thesis
        by (auto simp: rd u16_rd.rd_dec [OF wf1(1)] dest: dec_u16_used split: sum.splits)
    next
      case PC_uint32
      then show ?thesis
        by (auto simp: rd u32_rd.rd_dec [OF wf1(1)] dest: dec_u32_used split: sum.splits)
    next
      case PC_varint
      have "c' = of_nat m \<and> m \<le> 4" if "dec_varint (drop (Suc 0) (rest p)) = Inr ((v, c'), m)" for v c' m
        using dec_varint_Inr [OF that] by simp
      moreover have "m \<le> 4 \<Longrightarrow> ucast (of_nat m :: u8) = (of_nat m :: u32)" for m
        by (simp add: unsigned_of_nat take_bit_nat_eq_self)
      ultimately show ?thesis using PC_varint
        by (auto simp: rd varint_rd.rd_dec [OF wf1(1)] split: sum.splits)
    next
      case PC_string
      then show ?thesis
        by (auto simp: rd string_codec.rd_dec [OF wf1(1)] dest!: dec_string_used split: sum.splits)
    next
      case PC_binary
      then show ?thesis
        by (auto simp: rd binary_rd.rd_dec [OF wf1(1)] dest!: dec_binary_used split: sum.splits)
    next
      case PC_string_pair
      show ?thesis
      proof (cases "dec_string (drop (Suc 0) (rest p))")
        case (Inl e)
        then show ?thesis by (simp add: rd PC_string_pair string_codec.rd_dec [OF wf1(1)])
      next
        case (Inr y)
        then obtain s m where s: "dec_string (drop (Suc 0) (rest p)) = Inr (s, m)" by (cases y) auto
        have "m \<le> length (rest (adv p (Suc 0)))" using string_codec.dec_length [OF s] by (simp add: wf1(2))
        then have wf2: "in_wf (adv p (Suc m))" "rest (adv p (Suc m)) = drop (Suc m) (rest p)"
          using in_wf_adv [OF wf1(1), of m] by (simp_all add: wf1(2))
        show ?thesis
        proof (cases "dec_string (drop (Suc m) (rest p))")
          case (Inr z)
          then obtain t k where t: "dec_string (drop (Suc m) (rest p)) = Inr (t, k)"
            by (cases z) auto
          show ?thesis
            by (simp add: rd PC_string_pair string_codec.rd_dec wf1 wf2 s t)
               (simp add: dec_string_used [OF s] dec_string_used [OF t])
        qed (simp add: rd PC_string_pair string_codec.rd_dec wf1 wf2 s)
      qed
    qed (use False in simp)
  qed
qed

section \<open>The encoding of a property\<close>

definition enc_prop_value :: "mosquitto_property \<Rightarrow> bytes" where
  "enc_prop_value pr = (case prop_class (pr_identifier pr) of
       PC_byte \<Rightarrow> [pr_i8 pr]
     | PC_uint16 \<Rightarrow> enc_u16 (pr_i16 pr)
     | PC_uint32 \<Rightarrow> enc_u32 (pr_i32 pr)
     | PC_varint \<Rightarrow> enc_varint (unat (pr_varint pr))
     | PC_string \<Rightarrow> enc_binary (str_bytes (pr_s pr))
     | PC_binary \<Rightarrow> enc_binary (pr_bin pr)
     | PC_string_pair \<Rightarrow> enc_binary (str_bytes (pr_name pr)) @ enc_binary (str_bytes (pr_s pr))
     | PC_other \<Rightarrow> [])"

definition enc_property :: "mosquitto_property \<Rightarrow> bytes" where
  "enc_property pr = word_of_int (pr_identifier pr) # enc_prop_value pr"

definition enc_property_list :: "mosquitto_property list \<Rightarrow> bytes" where
  "enc_property_list ps = concat (map enc_property ps)"

text \<open>The properties that can be written: lengths that fit their fields.\<close>

definition writable_prop :: "mosquitto_property \<Rightarrow> bool" where
  "writable_prop pr = (case prop_class (pr_identifier pr) of
       PC_varint \<Rightarrow> unat (pr_varint pr) < 268435456
     | PC_string \<Rightarrow> length (str_bytes (pr_s pr)) < 65536 \<and>
         pr_s_len pr = of_nat (length (str_bytes (pr_s pr)))
     | PC_binary \<Rightarrow> length (pr_bin pr) < 65536 \<and> pr_bin_len pr = of_nat (length (pr_bin pr))
     | PC_string_pair \<Rightarrow> length (str_bytes (pr_s pr)) < 65536 \<and>
         pr_s_len pr = of_nat (length (str_bytes (pr_s pr))) \<and>
         length (str_bytes (pr_name pr)) < 65536 \<and>
         pr_name_len pr = of_nat (length (str_bytes (pr_name pr)))
     | PC_other \<Rightarrow> False
     | _ \<Rightarrow> True)"

text \<open>
  What a reader makes of the bytes of a property: the members the identifier does not select
  are zero, an empty string is a \<open>NULL\<close> pointer and strings are valid UTF-8.
\<close>

definition as_read :: "mosquitto_property \<Rightarrow> mosquitto_property" where
  "as_read pr = (let z = property_zero\<lparr>pr_identifier := pr_identifier pr\<rparr> in
     case prop_class (pr_identifier pr) of
       PC_byte \<Rightarrow> z\<lparr>pr_i8 := pr_i8 pr\<rparr>
     | PC_uint16 \<Rightarrow> z\<lparr>pr_i16 := pr_i16 pr\<rparr>
     | PC_uint32 \<Rightarrow> z\<lparr>pr_i32 := pr_i32 pr\<rparr>
     | PC_varint \<Rightarrow> z\<lparr>pr_varint := pr_varint pr\<rparr>
     | PC_string \<Rightarrow> z\<lparr>pr_s := str_ptr (str_bytes (pr_s pr)), pr_s_len := pr_s_len pr\<rparr>
     | PC_binary \<Rightarrow> z\<lparr>pr_bin := pr_bin pr, pr_bin_len := pr_bin_len pr\<rparr>
     | PC_string_pair \<Rightarrow> z\<lparr>pr_name := str_ptr (str_bytes (pr_name pr)), pr_name_len := pr_name_len pr,
         pr_s := str_ptr (str_bytes (pr_s pr)), pr_s_len := pr_s_len pr\<rparr>
     | PC_other \<Rightarrow> z)"

definition utf8_prop :: "mosquitto_property \<Rightarrow> bool" where
  "utf8_prop pr = (case prop_class (pr_identifier pr) of
       PC_string \<Rightarrow> valid_utf8 (str_bytes (pr_s pr))
     | PC_string_pair \<Rightarrow> valid_utf8 (str_bytes (pr_s pr)) \<and> valid_utf8 (str_bytes (pr_name pr))
     | _ \<Rightarrow> True)"

definition readable_prop :: "mosquitto_property \<Rightarrow> bool" where
  "readable_prop pr \<longleftrightarrow> writable_prop pr \<and> utf8_prop pr \<and> as_read pr = pr"

lemma str_bytes_ptr [simp]: "str_bytes (str_ptr bs) = bs"
  by (simp add: str_bytes_def str_ptr_def)

lemma property_zero_sel [simp]:
  "pr_client_generated property_zero = False" "pr_identifier property_zero = 0"
  by (simp_all add: property_zero_def)

lemma enc_property_as_read [simp]:
  "pr_identifier (as_read pr) = pr_identifier pr" "enc_property (as_read pr) = enc_property pr"
  by (simp_all add: enc_property_def as_read_def enc_prop_value_def Let_def split: prop_class.split)

lemma readable_as_read:
  assumes "writable_prop pr" and "utf8_prop pr"
  shows "readable_prop (as_read pr)"
  using assms
  by (cases "prop_class (pr_identifier pr)")
     (simp_all add: readable_prop_def writable_prop_def utf8_prop_def as_read_def Let_def)

lemma dec_bind_iff:
  "dec_bind d f bs = Inr (w, k) \<longleftrightarrow>
   (\<exists>v n m. d bs = Inr (v, n) \<and> f v (drop n bs) = Inr (w, m) \<and> k = n + m)"
  by (auto simp: dec_bind_def split: sum.splits)

lemma dec_varint_iff:
  "dec_varint bs = Inr ((w, c), n) \<longleftrightarrow>
   unat w < 268435456 \<and> n = length (enc_varint (unat w)) \<and> c = of_nat n \<and>
   (\<exists>r. bs = enc_varint (unat w) @ r)"
proof
  assume d: "dec_varint bs = Inr ((w, c), n)"
  note v = dec_varint_Inr [OF d]
  have "bs = enc_varint (unat w) @ drop n bs" using v(4) by (metis append_take_drop_id)
  with v show "unat w < 268435456 \<and> n = length (enc_varint (unat w)) \<and> c = of_nat n \<and>
     (\<exists>r. bs = enc_varint (unat w) @ r)" by blast
qed (auto simp: dec_varint_enc)

lemmas dec_iffs = byte_bij.dec_iff u16_bij.dec_iff u32_bij.dec_iff binary_bij.dec_iff
  string_bij.dec_iff

lemmas prop_defs = readable_prop_def writable_prop_def utf8_prop_def as_read_def
  enc_prop_value_def Let_def

lemma dec_prop_value_sound:
  assumes "dec_prop_value i bs = Inr (pr, n)"
  shows "readable_prop pr \<and> pr_identifier pr = i \<and> n = length (enc_prop_value pr) \<and>
    (\<exists>r. bs = enc_prop_value pr @ r)"
  using assms
  by (cases "prop_class i")
     (auto simp: dec_prop_value_def dec_bind_iff dec_ret_def dec_iffs dec_varint_iff prop_defs)

lemma dec_prop_value_complete:
  assumes "readable_prop pr"
  shows "dec_prop_value (pr_identifier pr) (enc_prop_value pr @ r) =
    Inr (pr, length (enc_prop_value pr))"
proof -
  have a: "as_read pr = pr" "writable_prop pr" "utf8_prop pr"
    using assms by (simp_all add: readable_prop_def)
  have "dec_prop_value (pr_identifier pr) (enc_prop_value pr @ r) =
      Inr (as_read pr, length (enc_prop_value pr))"
    using a(2,3)
    by (cases "prop_class (pr_identifier pr)")
       (simp_all add: dec_prop_value_def dec_bind_def dec_ret_def dec_byte_def
         u16_codec.dec_enc u32_codec.dec_enc dec_varint_enc string_codec.dec_enc
         binary_codec.dec_enc prop_defs split: sum.split)
  then show ?thesis by (simp only: a(1))
qed

lemma enc_ident:
  assumes "prop_class i \<noteq> PC_other"
  shows "enc_varint (unat (word_of_int i :: u32)) = [word_of_int i]"
    and "uint (word_of_int i :: u32) = i"
proof -
  have r: "0 < i" "i < 128" using prop_class_range [OF assms] by simp_all
  then show u: "uint (word_of_int i :: u32) = i"
    by (simp add: uint_word_of_int)
  then have "unat (word_of_int i :: u32) = nat i" by (simp only: unat_eq_nat_uint)
  with r show "enc_varint (unat (word_of_int i :: u32)) = [word_of_int i]"
    by (simp add: enc_varint_small nat_less_iff)
qed

text \<open>
  \<open>dec_property\<close> accepts exactly the encodings of readable properties.
\<close>

lemma dec_property_iff:
  "dec_property bs = Inr (pr, n) \<longleftrightarrow>
   readable_prop pr \<and> n = length (enc_property pr) \<and> (\<exists>r. bs = enc_property pr @ r)"
proof
  assume "dec_property bs = Inr (pr, n)"
  then obtain i c k m where i: "dec_varint bs = Inr ((i, c), k)"
    and v: "dec_prop_value (uint i) (drop k bs) = Inr (pr, m)" and n: "n = k + m"
    by (auto simp: dec_property_def dec_bind_iff)
  note s = dec_prop_value_sound [OF v]
  then have o: "prop_class (pr_identifier pr) \<noteq> PC_other"
    by (auto simp: readable_prop_def writable_prop_def)
  obtain r where r: "bs = enc_varint (unat i) @ r" and k: "k = length (enc_varint (unat i))"
    using i by (auto simp: dec_varint_iff)
  have "i = word_of_int (pr_identifier pr)" using s by auto
  then have e: "enc_varint (unat i) = [word_of_int (pr_identifier pr)]"
    using enc_ident(1) [OF o] by simp
  then show "readable_prop pr \<and> n = length (enc_property pr) \<and> (\<exists>r. bs = enc_property pr @ r)"
    using s r k n by (auto simp: enc_property_def)
next
  assume a: "readable_prop pr \<and> n = length (enc_property pr) \<and> (\<exists>r. bs = enc_property pr @ r)"
  then obtain r where bs: "bs = enc_property pr @ r" by blast
  let ?i = "pr_identifier pr"
  have "prop_class ?i \<noteq> PC_other" using a by (auto simp: readable_prop_def writable_prop_def)
  note i = enc_ident [OF this]
  have "unat (word_of_int ?i :: u32) < 268435456"
    using prop_class_range [OF \<open>prop_class ?i \<noteq> PC_other\<close>] i(2) by (simp add: unat_eq_nat_uint nat_less_iff)
  from dec_varint_enc [OF this, of "enc_prop_value pr @ r"]
  have "dec_varint bs = Inr ((word_of_int ?i, 1), 1)" by (simp add: i bs enc_property_def)
  then show "dec_property bs = Inr (pr, n)"
    using a dec_prop_value_complete [of pr r] i(2)
    by (simp add: dec_property_def dec_bind_def bs enc_property_def)
qed

interpretation prop_rd: packet_reader "\<lambda>p. property__read p len" "dec_counted dec_property len"
    for len
proof
  fix bs v n
  assume "dec_counted dec_property len bs = Inr (v, n)"
  then show "n \<le> length bs"
    by (auto simp: dec_counted_def dec_property_iff split: sum.splits)
qed (simp add: property__read_dec)

section \<open>The loop over the properties\<close>

lemma enc_property_list_Cons [simp]:
  "enc_property_list (p # ps) = enc_property p @ enc_property_list ps"
  by (simp add: enc_property_list_def)

lemma enc_property_list_Nil [simp]: "enc_property_list [] = []"
  by (simp add: enc_property_list_def)

lemma length_enc_property_pos: "0 < length (enc_property pr)"
  by (simp add: enc_property_def)

lemma property__read_Ok:
  assumes "in_wf p"
  shows "property__read p len = Ok ((pr, len'), p') \<longleftrightarrow>
    readable_prop pr \<and> (\<exists>r. rest p = enc_property pr @ r) \<and>
    len' = len - of_nat (length (enc_property pr)) \<and> p' = adv p (length (enc_property pr))"
proof -
  have "property__read p len = Ok ((pr, len'), p') \<longleftrightarrow>
      (\<exists>n. dec_property (rest p) = Inr (pr, n) \<and> len' = len - of_nat n \<and> p' = adv p n)"
    by (auto simp: prop_rd.rd_dec [OF assms] dec_counted_def split: sum.splits)
  then show ?thesis by (auto simp: dec_property_iff)
qed

lemma adv_append:
  assumes "in_wf p" and "rest p = xs @ r"
  shows "in_wf (adv p (length xs))" and "rest (adv p (length xs)) = r"
  using in_wf_adv [OF assms(1), of "length xs"] assms(2) by simp_all

lemma property_read_loop_sound:
  "in_wf p \<Longrightarrow> property_read_loop fuel p len acc = Ok (props, p') \<Longrightarrow>
   \<exists>ps r. props = acc @ ps \<and> (\<forall>pr \<in> set ps. readable_prop pr) \<and> rest p = enc_property_list ps @ r \<and>
     len = of_nat (length (enc_property_list ps)) \<and> p' = adv p (length (enc_property_list ps))"
proof (induction fuel arbitrary: p len acc)
  case 0
  then have "len = 0" "props = acc" "p' = p"
    by (simp_all add: property_read_loop.simps [of 0] split: if_splits) (use word_neq_0_conv in blast)
  then show ?case by (intro exI [of _ "[]"] exI [of _ "rest p"]) simp
next
  case (Suc fuel)
  show ?case
  proof (cases "len > 0")
    case True
    then obtain pr len' p1 where r: "property__read p len = Ok ((pr, len'), p1)"
      and l: "property_read_loop fuel p1 len' (acc @ [pr]) = Ok (props, p')"
      using Suc.prems(2)
      by (auto simp: property_read_loop.simps [of "Suc fuel"] res_bind_Ok_iff)
    from r obtain r where pr: "readable_prop pr" "rest p = enc_property pr @ r"
      and len': "len' = len - of_nat (length (enc_property pr))"
      and p1: "p1 = adv p (length (enc_property pr))"
      by (auto simp: property__read_Ok [OF Suc.prems(1)])
    note a = adv_append [OF Suc.prems(1) pr(2)]
    from Suc.IH [OF a(1) l [unfolded p1]] obtain ps r' where "props = acc @ pr # ps"
      "\<forall>pr \<in> set ps. readable_prop pr" "r = enc_property_list ps @ r'"
      "len' = of_nat (length (enc_property_list ps))"
      "p' = adv p1 (length (enc_property_list ps))"
      by (auto simp: p1 a(2))
    then show ?thesis
      using pr len' p1 by (intro exI [of _ "pr # ps"] exI [of _ r']) (auto simp: algebra_simps)
  next
    case False
    then have "len = 0" "props = acc" "p' = p"
      using Suc.prems(2) by (simp_all add: property_read_loop.simps [of "Suc fuel"] word_gt_0)
    then show ?thesis by (intro exI [of _ "[]"] exI [of _ "rest p"]) simp
  qed
qed

lemma property_read_loop_complete:
  "in_wf p \<Longrightarrow> \<forall>pr \<in> set ps. readable_prop pr \<Longrightarrow> rest p = enc_property_list ps @ r \<Longrightarrow>
   length ps \<le> fuel \<Longrightarrow>
   property_read_loop fuel p (of_nat (length (enc_property_list ps))) acc =
     Ok (acc @ ps, adv p (length (enc_property_list ps)))"
proof (induction ps arbitrary: p fuel acc)
  case Nil
  then show ?case by (simp add: property_read_loop.simps [of fuel])
next
  case (Cons pr ps)
  let ?e = "length (enc_property pr)" and ?l = "length (enc_property_list ps)"
  obtain f where f: "fuel = Suc f" "length ps \<le> f" using Cons.prems(4) by (cases fuel) auto
  have e: "rest p = enc_property pr @ (enc_property_list ps @ r)" using Cons.prems(3) by simp
  note a = adv_append [OF Cons.prems(1) e]
  have "?e + ?l < 268435456"
    using in_wf_pos [OF Cons.prems(1)] Cons.prems(1,3) by (simp add: in_wf_def)
  then have "unat (of_nat (?e + ?l) :: u32) = ?e + ?l"
    by (simp only: unat_of_nat) (simp add: take_bit_nat_eq_self)
  then have pos: "(of_nat (?e + ?l) :: u32) > 0"
    using length_enc_property_pos [of pr] by (simp add: word_less_nat_alt)
  have "property__read p (of_nat (?e + ?l)) = Ok ((pr, of_nat ?l), adv p ?e)"
    using Cons.prems(2) e by (subst property__read_Ok [OF Cons.prems(1)]) auto
  then have "property_read_loop fuel p (of_nat (?e + ?l)) acc =
      property_read_loop f (adv p ?e) (of_nat ?l) (acc @ [pr])"
    using pos by (simp add: property_read_loop.simps [of "Suc f"] f(1) del: of_nat_add)
  then show ?case
    using Cons.IH [OF a(1) _ a(2) f(2)] Cons.prems(2) by simp
qed

lemma property_read_loop_no_fault:
  "in_wf p \<Longrightarrow> length (rest p) < fuel \<Longrightarrow> property_read_loop fuel p len acc \<noteq> Fault"
proof (induction fuel arbitrary: p len acc)
  case (Suc fuel)
  show ?case
  proof (cases "\<exists>pr len' p1. property__read p len = Ok ((pr, len'), p1)")
    case True
    then obtain pr len' p1 where r: "property__read p len = Ok ((pr, len'), p1)" by blast
    then obtain r where e: "rest p = enc_property pr @ r" and p1: "p1 = adv p (length (enc_property pr))"
      by (auto simp: property__read_Ok [OF Suc.prems(1)])
    note a = adv_append [OF Suc.prems(1) e]
    have "length (rest p1) < fuel"
      using Suc.prems(2) length_enc_property_pos [of pr] unfolding e p1 a(2) length_append by linarith
    from Suc.IH [OF _ this] a(1) r show ?thesis
      by (simp add: property_read_loop.simps [of "Suc fuel"] p1)
  next
    case False
    moreover have "property__read p len \<noteq> Fault" by (rule prop_rd.no_fault [OF Suc.prems(1)])
    ultimately obtain e where "property__read p len = Err e"
      by (cases "property__read p len") auto
    then show ?thesis by (simp add: property_read_loop.simps [of "Suc fuel"])
  qed
qed simp

section \<open>Writing and lengths\<close>

definition emits_rc :: "(packet \<Rightarrow> (packet \<times> rc) res) \<Rightarrow> bytes \<Rightarrow> bool" where
  "emits_rc w bs \<longleftrightarrow> (\<forall>p. can_write p (length bs) \<longrightarrow> w p = Ok (put p bs, MOSQ_ERR_SUCCESS))"

lemma emits_rcD: "emits_rc w bs \<Longrightarrow> can_write p (length bs) \<Longrightarrow> w p = Ok (put p bs, MOSQ_ERR_SUCCESS)"
  by (simp add: emits_rc_def)

lemma emits_then_success: "emits w bs \<Longrightarrow> emits_rc (\<lambda>p. then_success (w p)) bs"
  by (simp add: emits_rc_def emits_def then_success_def)

lemma emits_rc_bind:
  assumes "emits_rc w xs" and "emits_rc w' ys"
  shows "emits_rc (\<lambda>p. res_bind (w p) (\<lambda>(p, rc). if rc \<noteq> 0 then Ok (p, rc) else w' p)) (xs @ ys)"
  unfolding emits_rc_def [of _ "xs @ ys"]
proof (intro allI impI)
  fix p
  assume c: "can_write p (length (xs @ ys))"
  then have "can_write p (length xs)" and "can_write (put p xs) (length ys)"
    by (auto intro: can_write_mono can_write_put)
  with assms c show "res_bind (w p) (\<lambda>(p, rc). if rc \<noteq> 0 then Ok (p, rc) else w' p) =
      Ok (put p (xs @ ys), MOSQ_ERR_SUCCESS)"
    by (simp add: emits_rcD put_put)
qed

lemma write_varint_emits:
  "unat w < 268435456 \<Longrightarrow> emits_rc (\<lambda>p. packet__write_varint p w) (enc_varint (unat w))"
  using write_varint_loop_put [of 0 3 w] by (simp add: emits_rc_def packet__write_varint_def)

lemma write_string_emits:
  "length bs < 65536 \<Longrightarrow> len = of_nat (length bs) \<Longrightarrow>
   emits (\<lambda>p. packet__write_string p bs len) (enc_binary bs)"
  using string_wr.wr_emits by simp

lemma property_value_emits:
  assumes "writable_prop pr"
  shows "emits_rc (\<lambda>packet. case prop_class (pr_identifier pr) of
        PC_byte \<Rightarrow> then_success (packet__write_byte packet (pr_i8 pr))
      | PC_uint16 \<Rightarrow> then_success (packet__write_uint16 packet (pr_i16 pr))
      | PC_uint32 \<Rightarrow> then_success (packet__write_uint32 packet (pr_i32 pr))
      | PC_varint \<Rightarrow> packet__write_varint packet (pr_varint pr)
      | PC_string \<Rightarrow> then_success (packet__write_string packet (str_bytes (pr_s pr)) (pr_s_len pr))
      | PC_binary \<Rightarrow>
          then_success (res_bind (packet__write_uint16 packet (pr_bin_len pr)) (\<lambda>packet.
            packet__write_bytes packet (pr_bin pr) (ucast (pr_bin_len pr))))
      | PC_string_pair \<Rightarrow>
          then_success (res_bind (packet__write_string packet (str_bytes (pr_name pr)) (pr_name_len pr))
            (\<lambda>packet. packet__write_string packet (str_bytes (pr_s pr)) (pr_s_len pr)))
      | PC_other \<Rightarrow> Ok (packet, MOSQ_ERR_INVAL)) (enc_prop_value pr)"
proof -
  have b: "emits (\<lambda>p. res_bind (packet__write_uint16 p (of_nat (length bs))) (\<lambda>p.
      packet__write_bytes p bs (ucast (of_nat (length bs) :: u16)))) (enc_binary bs)"
    if "length bs < 65536" for bs
    using write_string_emits [OF that refl] by (simp add: packet__write_string_def)
  show ?thesis
    using assms
    by (cases "prop_class (pr_identifier pr)")
       (auto simp: writable_prop_def enc_prop_value_def
         intro!: emits_then_success write_varint_emits emits_bind write_string_emits b
           byte_wr.wr_emits u16_wr.wr_emits u32_wr.wr_emits)
qed

lemma property__write_emits:
  assumes "writable_prop pr"
  shows "emits_rc (\<lambda>p. property__write p pr) (enc_property pr)"
proof -
  let ?i = "pr_identifier pr"
  have o: "prop_class ?i \<noteq> PC_other" using assms by (auto simp: writable_prop_def)
  note e = enc_ident [OF o]
  have "unat (word_of_int ?i :: u32) < 268435456"
    using prop_class_range [OF o] e(2) by (simp add: unat_eq_nat_uint nat_less_iff)
  from emits_rc_bind [OF write_varint_emits [OF this] property_value_emits [OF assms]]
  show ?thesis by (simp add: property__write_def enc_property_def e(1))
qed

lemma property_write_loop_emits:
  "\<forall>pr \<in> set ps. writable_prop pr \<Longrightarrow> emits_rc (\<lambda>p. property_write_loop p ps) (enc_property_list ps)"
proof (induction ps)
  case Nil
  then show ?case by (simp add: emits_rc_def)
next
  case (Cons pr ps)
  then show ?case
    using emits_rc_bind [OF property__write_emits [of pr] Cons.IH] by simp
qed

lemma unat_get_length:
  assumes "writable_prop pr"
  shows "unat (property__get_length pr) = length (enc_property pr)"
proof (cases "prop_class (pr_identifier pr)")
  case PC_varint
  then have v: "unat (pr_varint pr) < 268435456" using assms by (simp add: writable_prop_def)
  have "property__get_length pr = 1 + packet__varint_bytes (pr_varint pr)"
    using v PC_varint
    by (auto simp: property__get_length_def packet__varint_bytes_def word_less_nat_alt)
  moreover have "packet__varint_bytes (pr_varint pr) \<le> 5"
    by (simp add: packet__varint_bytes_def)
  ultimately have "unat (property__get_length pr) = 1 + unat (packet__varint_bytes (pr_varint pr))"
    by (simp add: unat_word_ariths word_le_nat_alt)
  then show ?thesis
    using unat_varint_bytes [OF v] PC_varint by (simp add: enc_property_def enc_prop_value_def)
qed (use assms in \<open>auto simp: property__get_length_def enc_property_def enc_prop_value_def
      writable_prop_def unat_word_ariths unat_ucast_u16_u32 unat_of_nat take_bit_nat_eq_self\<close>)

lemma unat_get_length_all:
  "\<forall>pr \<in> set ps. writable_prop pr \<Longrightarrow> length (enc_property_list ps) < 4294967296 \<Longrightarrow>
   unat (property__get_length_all ps) = length (enc_property_list ps)"
  by (induction ps) (auto simp: unat_word_ariths unat_get_length)

text \<open>The properties of a packet with the length in front of them.\<close>

definition enc_properties :: "mosquitto_property list \<Rightarrow> bytes" where
  "enc_properties ps = enc_varint (length (enc_property_list ps)) @ enc_property_list ps"

lemma property__write_all_emits:
  assumes "\<forall>pr \<in> set ps. writable_prop pr" and "length (enc_property_list ps) < 268435456"
  shows "emits_rc (\<lambda>p. property__write_all p ps True) (enc_properties ps)"
    and "emits_rc (\<lambda>p. property__write_all p ps False) (enc_property_list ps)"
proof -
  have u: "unat (property__get_length_all ps) = length (enc_property_list ps)"
    using assms by (intro unat_get_length_all) auto
  have "unat (property__get_length_all ps) < 268435456" using u assms(2) by simp
  from emits_rc_bind [OF write_varint_emits [OF this] property_write_loop_emits [OF assms(1)]]
  show "emits_rc (\<lambda>p. property__write_all p ps True) (enc_properties ps)"
    by (simp add: property__write_all_def enc_properties_def u)
  show "emits_rc (\<lambda>p. property__write_all p ps False) (enc_property_list ps)"
    using property_write_loop_emits [OF assms(1)] by (simp add: property__write_all_def)
qed

lemma varint_bytes_le: "packet__varint_bytes w \<le> 5"
  by (simp add: packet__varint_bytes_def)

lemma unat_remaining_length:
  assumes "\<forall>pr \<in> set ps. writable_prop pr" and "length (enc_property_list ps) < 268435456"
  shows "unat (property__get_remaining_length ps) = length (enc_properties ps)"
proof -
  have u: "unat (property__get_length_all ps) = length (enc_property_list ps)"
    using assms by (intro unat_get_length_all) auto
  then have "unat (packet__varint_bytes (property__get_length_all ps)) =
      length (enc_varint (length (enc_property_list ps)))"
    using unat_varint_bytes [of "property__get_length_all ps"] assms(2) by simp
  moreover have "unat (packet__varint_bytes (property__get_length_all ps)) \<le> 5"
    using varint_bytes_le [of "property__get_length_all ps"] by (simp add: word_le_nat_alt)
  ultimately show ?thesis
    using u assms(2)
    by (simp add: property__get_remaining_length_def enc_properties_def unat_word_ariths Let_def)
qed

lemma property__read_all_Ok:
  assumes "in_wf p"
  shows "property__read_all command p = Ok (props, p') \<longleftrightarrow>
    (\<forall>pr \<in> set props. readable_prop pr) \<and>
    mosquitto_property_check_all command props = MOSQ_ERR_SUCCESS \<and>
    length (enc_property_list props) < 268435456 \<and>
    (\<exists>r. rest p = enc_properties props @ r) \<and> p' = adv p (length (enc_properties props))"
    (is "?L \<longleftrightarrow> ?R")
proof
  assume ?L
  then obtain w c p1 where v: "packet__read_varint p = Ok ((w, c), p1)"
    and l: "property_read_loop (length (pk_payload p1) + 1) p1 w [] = Ok (props, p')"
    and k: "mosquitto_property_check_all command props = MOSQ_ERR_SUCCESS"
    by (auto simp: property__read_all_def res_bind_Ok_iff Let_def split: if_splits)
  from v obtain n where "dec_varint (rest p) = Inr ((w, c), n)" and p1: "p1 = adv p n"
    by (auto simp: varint_rd.rd_dec [OF assms] split: sum.splits)
  then obtain r where w: "unat w < 268435456" and n: "n = length (enc_varint (unat w))"
    and r: "rest p = enc_varint (unat w) @ r"
    by (auto simp: dec_varint_iff)
  note a = adv_append [OF assms r]
  from property_read_loop_sound [OF _ l] a obtain r' where
    pr: "\<forall>pr \<in> set props. readable_prop pr" and r': "r = enc_property_list props @ r'"
    and wl: "w = of_nat (length (enc_property_list props))"
    and p': "p' = adv p1 (length (enc_property_list props))"
    by (auto simp: p1 n)
  have "length (enc_property_list props) < 268435456"
    using in_wf_pos [OF assms] assms r r' by (simp add: in_wf_def)
  then have "unat w = length (enc_property_list props)"
    by (simp add: wl unat_of_nat take_bit_nat_eq_self)
  with pr k w r r' p' p1 n show ?R by (auto simp: enc_properties_def)
next
  assume R: ?R
  let ?n = "length (enc_property_list props)" and ?w = "of_nat (length (enc_property_list props)) :: u32"
  have u: "unat ?w = ?n" using R by (simp add: unat_of_nat take_bit_nat_eq_self)
  obtain r where r: "rest p = enc_varint ?n @ (enc_property_list props @ r)"
    using R by (auto simp: enc_properties_def)
  note a = adv_append [OF assms r]
  have "dec_varint (rest p) = Inr ((?w, of_nat (length (enc_varint ?n))), length (enc_varint ?n))"
    using R r by (simp add: dec_varint_iff u)
  then have v: "packet__read_varint p =
      Ok ((?w, of_nat (length (enc_varint ?n))), adv p (length (enc_varint ?n)))"
    by (simp add: varint_rd.rd_dec [OF assms])
  have "length ps \<le> length (enc_property_list ps)" for ps
    by (induction ps) (simp_all add: enc_property_def)
  moreover have "?n \<le> length (pk_payload p)"
    using r by (metis le_add1 length_append length_drop rest_def add.commute add_leD2 diff_le_self le_trans)
  ultimately have f: "length props \<le> length (pk_payload p) + 1" by (meson le_trans trans_le_add1)
  show ?L
    using R property_read_loop_complete [OF a(1) _ a(2), of "length (pk_payload p) + 1" "[]"] f
    by (simp add: property__read_all_def v enc_properties_def)
qed

lemma property__read_all_no_fault:
  assumes "in_wf p"
  shows "property__read_all command p \<noteq> Fault"
proof
  assume f: "property__read_all command p = Fault"
  moreover have "packet__read_varint p \<noteq> Fault" by (rule varint_rd.no_fault [OF assms])
  ultimately obtain w c p1 where v: "packet__read_varint p = Ok ((w, c), p1)"
    and l: "property_read_loop (length (pk_payload p1) + 1) p1 w [] = Fault"
    by (auto simp: property__read_all_def res_bind_Fault_iff Let_def split: if_splits)
  have "in_wf p1" using varint_rd.keeps_wf [OF assms v] .
  then show False using property_read_loop_no_fault [of p1] l by (simp add: rest_def)
qed

lemma property__read_all_wf:
  assumes "in_wf p" "property__read_all command p = Ok (props, p')"
  shows "in_wf p'"
  using property__read_all_Ok [OF assms(1)] assms adv_append(1) [OF assms(1)] by metis

section \<open>Properties\<close>

text \<open>
  C11: \<open>property__read_all\<close> on a packet that has arrived whole returns a list of properties if
  and only if the unread bytes start with the encoding of that list: the announced length is
  exactly the bytes of the properties, each is in the form the identifier requires with valid
  UTF-8 strings, and the list passes the checks of the command. The unsigned counter
  \<open>proplen\<close> may wrap below zero on a property that overruns the announced length, and no
  such packet is accepted. The loop always ends and never leaves the packet.
\<close>

theorem property__read_all_exact:
  assumes "in_wf p"
  shows "(property__read_all command p = Ok (props, p') \<longleftrightarrow>
      (\<forall>pr \<in> set props. readable_prop pr) \<and>
      mosquitto_property_check_all command props = MOSQ_ERR_SUCCESS \<and>
      length (enc_property_list props) < 268435456 \<and>
      (\<exists>r. rest p = enc_properties props @ r) \<and> p' = adv p (length (enc_properties props))) \<and>
    property__read_all command p \<noteq> Fault"
  using property__read_all_Ok [OF assms] property__read_all_no_fault [OF assms] by blast

text \<open>The bytes of a PUBLISH with a payload format indicator and the topic alias 5.\<close>

theorem property__read_all_exact_witness:
  "let p = packet_zero\<lparr>pk_payload := [5, 1, 1, 35, 0, 5, 9], pk_remaining_length := 7\<rparr>
   in in_wf p \<and> property__read_all CMD_PUBLISH p =
      Ok ([property_zero\<lparr>pr_identifier := 1, pr_i8 := 1\<rparr>,
           property_zero\<lparr>pr_identifier := 35, pr_i16 := 5\<rparr>], adv p 6)"
proof -
  let ?p = "packet_zero\<lparr>pk_payload := [5, 1, 1, 35, 0, 5, 9], pk_remaining_length := 7\<rparr>"
  let ?ps = "[property_zero\<lparr>pr_identifier := 1, pr_i8 := 1\<rparr>,
              property_zero\<lparr>pr_identifier := 35, pr_i16 := 5\<rparr>]"
  have wf: "in_wf ?p" by (simp add: in_wf_def packet_zero_def)
  have l: "enc_property_list ?ps = [1, 1, 35, 0, 5]"
    by (simp add: enc_property_def enc_prop_value_def prop_class_def enc_u16_def MOSQ_MSB_def
        MOSQ_LSB_def)
  have e: "enc_properties ?ps = [5, 1, 1, 35, 0, 5]"
    by (simp only: enc_properties_def l) (simp add: enc_varint_small)
  have "\<forall>pr \<in> set ?ps. readable_prop pr"
    by (simp add: prop_defs prop_class_def)
  moreover have "mosquitto_property_check_all CMD_PUBLISH ?ps = MOSQ_ERR_SUCCESS"
    by (simp add: mosquitto_property_check_command_def)
  moreover have "length (enc_property_list ?ps) < 268435456" by (simp only: l) simp
  moreover have "rest ?p = enc_properties ?ps @ [9]"
    by (simp only: e) (simp add: rest_def packet_zero_def)
  moreover have "length (enc_properties ?ps) = 6" by (simp only: e) simp
  ultimately have "property__read_all CMD_PUBLISH ?p = Ok (?ps, adv ?p 6)"
    using property__read_all_exact [OF wf, of CMD_PUBLISH ?ps "adv ?p 6"] by metis
  with wf show ?thesis unfolding Let_def by blast
qed



end
