(* ===== verification/Util_Mosq.thy ===== *)
theory Util_Mosq
  imports Mosq_Types
begin

text \<open>
  The small operations on a client of \<^verbatim>\<open>lib/util_mosq.c\<close>: message identifiers, the
  quotas of messages in flight, and the state and transfer mode. The mutexes are empty macros in
  the broker.
\<close>

section \<open>Operations\<close>

definition mosquitto__mid_generate :: "mosquitto \<Rightarrow> u16 \<times> mosquitto" where
  "mosquitto__mid_generate mosq =
    (let last_mid = mq_last_mid mosq + 1;
         last_mid = (if last_mid = 0 then last_mid + 1 else last_mid)
     in (last_mid, mosq\<lparr>mq_last_mid := last_mid\<rparr>))"

definition util__increment_receive_quota :: "mosquitto \<Rightarrow> mosquitto" where
  "util__increment_receive_quota mosq =
    (let m = mq_msgs_in mosq in
     if md_inflight_quota m < uint (md_inflight_maximum m)
     then mosq\<lparr>mq_msgs_in := m\<lparr>md_inflight_quota := md_inflight_quota m + 1\<rparr>\<rparr> else mosq)"

definition util__increment_send_quota :: "mosquitto \<Rightarrow> mosquitto" where
  "util__increment_send_quota mosq =
    (let m = mq_msgs_out mosq in
     if md_inflight_quota m < uint (md_inflight_maximum m)
     then mosq\<lparr>mq_msgs_out := m\<lparr>md_inflight_quota := md_inflight_quota m + 1\<rparr>\<rparr> else mosq)"

definition util__decrement_receive_quota :: "mosquitto \<Rightarrow> mosquitto" where
  "util__decrement_receive_quota mosq =
    (let m = mq_msgs_in mosq in
     if md_inflight_quota m > 0
     then mosq\<lparr>mq_msgs_in := m\<lparr>md_inflight_quota := md_inflight_quota m - 1\<rparr>\<rparr> else mosq)"

definition util__decrement_send_quota :: "mosquitto \<Rightarrow> mosquitto" where
  "util__decrement_send_quota mosq =
    (let m = mq_msgs_out mosq in
     if md_inflight_quota m > 0
     then mosq\<lparr>mq_msgs_out := m\<lparr>md_inflight_quota := md_inflight_quota m - 1\<rparr>\<rparr> else mosq)"

definition mosquitto__set_state :: "mosquitto \<Rightarrow> mosquitto_client_state \<Rightarrow> mosquitto" where
  "mosquitto__set_state mosq state =
    (if mq_state mosq \<noteq> mosq_cs_disused then mosq\<lparr>mq_state := state\<rparr> else mosq)"

definition mosquitto__get_state :: "mosquitto \<Rightarrow> mosquitto_client_state" where
  "mosquitto__get_state mosq = mq_state mosq"

definition mosquitto__set_mode :: "mosquitto \<Rightarrow> transfer_mode \<Rightarrow> mosquitto" where
  "mosquitto__set_mode mosq mode =
    (if mq_state mosq \<noteq> mosq_cs_disused then mosq\<lparr>mq_mode := mode\<rparr> else mosq)"

definition mosquitto__get_mode :: "mosquitto \<Rightarrow> transfer_mode" where
  "mosquitto__get_mode mosq = mq_mode mosq"

section \<open>Message identifiers\<close>

text \<open>
  The identifiers generated one after the other, and the number of the \<open>k\<close>-th: they run
  through 1 to 65535 and around.
\<close>

fun mid_sequence :: "nat \<Rightarrow> mosquitto \<Rightarrow> u16 list" where
  "mid_sequence 0 mosq = []"
| "mid_sequence (Suc k) mosq =
     (let (mid, mosq) = mosquitto__mid_generate mosq in mid # mid_sequence k mosq)"

lemma unat_mid_generate:
  "unat (fst (mosquitto__mid_generate m)) = unat (mq_last_mid m) mod 65535 + 1"
proof (cases "mq_last_mid m = 65535")
  case True
  then show ?thesis by (simp add: mosquitto__mid_generate_def)
next
  case False
  then have "unat (mq_last_mid m) \<noteq> 65535" by (simp add: word_unat_eq_iff)
  then have l: "unat (mq_last_mid m) < 65535" using unat_u16_less [of "mq_last_mid m"] by simp
  then have u: "unat (mq_last_mid m + 1) = unat (mq_last_mid m) + 1"
    by (simp add: unat_word_ariths)
  then have "mq_last_mid m + 1 \<noteq> 0" by (metis add_is_0 one_neq_zero unat_0)
  with u l show ?thesis by (simp add: mosquitto__mid_generate_def Let_def)
qed

lemma mid_generate_last:
  "mosquitto__mid_generate m = (mid, m') \<Longrightarrow> mq_last_mid m' = mid"
  by (auto simp: mosquitto__mid_generate_def Let_def)

lemma unat_mid_sequence:
  "k < n \<Longrightarrow> unat (mid_sequence n m ! k) = (unat (mq_last_mid m) + k) mod 65535 + 1"
proof (induction n arbitrary: m k)
  case (Suc n)
  obtain mid m' where g: "mosquitto__mid_generate m = (mid, m')" by fastforce
  have u: "unat mid = unat (mq_last_mid m) mod 65535 + 1" using unat_mid_generate [of m] g by simp
  show ?case
  proof (cases k)
    case 0
    then show ?thesis using u g by simp
  next
    case (Suc j)
    then have "unat (mid_sequence n m' ! j) = (unat mid + j) mod 65535 + 1"
      using Suc.IH [of j m'] Suc.prems mid_generate_last [OF g] by simp
    moreover have "(unat mid + j) mod 65535 = (unat (mq_last_mid m) + k) mod 65535"
      using mod_add_left_eq [of "unat (mq_last_mid m)" 65535 k] by (simp add: u Suc)
    ultimately show ?thesis using Suc g by simp
  qed
qed simp

lemma length_mid_sequence [simp]: "length (mid_sequence n m) = n"
  by (induction n arbitrary: m) (simp_all add: Let_def case_prod_unfold)

section \<open>Quotas\<close>

text \<open>A quota lies between 0 and its maximum; the four operations keep it there.\<close>

definition quota_ok :: "mosquitto_msg_data \<Rightarrow> bool" where
  "quota_ok m \<longleftrightarrow> 0 \<le> md_inflight_quota m \<and> md_inflight_quota m \<le> uint (md_inflight_maximum m)"

lemmas quota_defs = util__increment_receive_quota_def util__increment_send_quota_def
  util__decrement_receive_quota_def util__decrement_send_quota_def

lemma quota_ops_ok [simp]:
  "quota_ok (mq_msgs_out m) \<Longrightarrow> quota_ok (mq_msgs_out (util__increment_send_quota m))"
  "quota_ok (mq_msgs_out m) \<Longrightarrow> quota_ok (mq_msgs_out (util__decrement_send_quota m))"
  "quota_ok (mq_msgs_in m) \<Longrightarrow> quota_ok (mq_msgs_in (util__increment_receive_quota m))"
  "quota_ok (mq_msgs_in m) \<Longrightarrow> quota_ok (mq_msgs_in (util__decrement_receive_quota m))"
  by (auto simp: quota_ok_def quota_defs Let_def)

section \<open>Properties\<close>

text \<open>
  C20: message identifiers are never 0, and two of the identifiers a client generates are equal
  only when the number of calls between them is a multiple of 65535: the counter passes over 0
  when it wraps and reuses an identifier only after all the others.
\<close>

theorem mosquitto__mid_generate_distinct:
  assumes "i < j" and "j < n"
  shows "mid_sequence n m ! i \<noteq> 0 \<and>
    (mid_sequence n m ! i = mid_sequence n m ! j \<longleftrightarrow> 65535 dvd (j - i))"
proof
  have i: "i < n" using assms by simp
  note u = unat_mid_sequence [OF i, of m] unat_mid_sequence [OF assms(2), of m]
  show "mid_sequence n m ! i \<noteq> 0" using u(1) by (metis add_is_0 one_neq_zero unat_0)
  have "mid_sequence n m ! i = mid_sequence n m ! j \<longleftrightarrow>
      (unat (mq_last_mid m) + i) mod 65535 = (unat (mq_last_mid m) + j) mod 65535"
    by (simp add: word_unat_eq_iff u)
  also have "\<dots> \<longleftrightarrow> 65535 dvd (unat (mq_last_mid m) + j) - (unat (mq_last_mid m) + i)"
    using assms(1) by (subst eq_commute, subst mod_eq_iff_dvd_symdiff_nat) (simp add: nat_diff_distrib)
  finally show "mid_sequence n m ! i = mid_sequence n m ! j \<longleftrightarrow> 65535 dvd (j - i)" by simp
qed

theorem mosquitto__mid_generate_distinct_witness:
  "mid_sequence 3 (mosquitto_zero\<lparr>mq_last_mid := 65534\<rparr>) = [65535, 1, 2] \<and>
   mid_sequence 3 (mosquitto_zero\<lparr>mq_last_mid := 65534\<rparr>) ! 0 \<noteq>
   mid_sequence 3 (mosquitto_zero\<lparr>mq_last_mid := 65534\<rparr>) ! 2"
  using mosquitto__mid_generate_distinct [of 0 2 3 "mosquitto_zero\<lparr>mq_last_mid := 65534\<rparr>"]
  by (simp add: numeral_3_eq_3 mosquitto__mid_generate_def)

end
