(* ===== verification/Packet_Mosq.thy ===== *)
theory Packet_Mosq
  imports Properties Util_Mosq
begin

text \<open>
  Outgoing packets of the broker, from \<^verbatim>\<open>lib/packet_mosq.c\<close>: allocation with the
  fixed header, the queue of outgoing packets and \<open>packet__write\<close>, which writes them to
  the socket. A PUBLISH packet does not hold its payload: \<open>payload_store\<close> points into
  the stored message, and \<open>packet__write\<close> joins header and payload each time it takes the
  packet up. Statistics counters (\<open>G_*_INC\<close>), the registration with the poll loop
  (\<open>mux__add_out\<close>, \<open>mux__remove_out\<close>) and failing allocations are not modelled.
\<close>

section \<open>Allocation\<close>

text \<open>The bytes of the remaining length, at most five.\<close>

fun alloc_length_loop :: "nat \<Rightarrow> u32 \<Rightarrow> bytes" where
  "alloc_length_loop 0 remaining_length = []"
| "alloc_length_loop (Suc i) remaining_length =
    (let byte = (ucast (remaining_length mod 128) :: u8);
         remaining_length = remaining_length div 128;
         byte = (if remaining_length > 0 then byte OR 0x80 else byte)
     in byte # (if remaining_length > 0 then alloc_length_loop i remaining_length else []))"

text \<open>
  \<open>malloc\<close> gives memory of that size; what is in it is the parameter of no theorem, and
  zero here. A size that underflows (a payload longer than the packet) cannot be allocated.
\<close>

definition packet__alloc :: "packet \<Rightarrow> (rc \<times> packet) res" where
  "packet__alloc packet =
    (let remaining_bytes = alloc_length_loop 5 (pk_remaining_length packet);
         packet = packet\<lparr>pk_payload := [], pk_remaining_count := int (length remaining_bytes)\<rparr>
     in if pk_remaining_count packet = 5 then Ok (MOSQ_ERR_PAYLOAD_SIZE, packet)
        else
          let packet = packet\<lparr>pk_packet_length :=
                pk_remaining_length packet + 1 + of_nat (length remaining_bytes)\<rparr>
          in if pk_pub_or_not packet = 4 \<and> pk_payload_length packet > pk_packet_length packet
             then Ok (MOSQ_ERR_NOMEM, packet)
             else
               let size = (if pk_pub_or_not packet = 4
                           then unat (pk_packet_length packet) - unat (pk_payload_length packet)
                           else unat (pk_packet_length packet));
                   payload = blit (replicate size 0) 0 (pk_command packet # remaining_bytes)
               in if size < 1 + length remaining_bytes then Fault
                  else Ok (MOSQ_ERR_SUCCESS, packet\<lparr>pk_payload := payload,
                     pk_pos := 1 + of_nat (length remaining_bytes)\<rparr>))"

definition packet__cleanup :: "packet \<Rightarrow> packet" where
  "packet__cleanup packet = packet\<lparr>pk_command := 0, pk_remaining_count := 0,
     pk_remaining_mult := 1, pk_remaining_length := 0, pk_payload := [], pk_pub_or_not := 0,
     pk_payload_length := 0, pk_payload_store := None, pk_to_process := 0, pk_pos := 0\<rparr>"

definition packet__cleanup_all :: "mosquitto \<Rightarrow> mosquitto" where
  "packet__cleanup_all mosq =
     mosq\<lparr>mq_current_out_packet := None, mq_out_packet := [], mq_out_packet_count := 0,
          mq_in_packet := packet__cleanup (mq_in_packet mosq)\<rparr>"

definition packet__check_oversize :: "mosquitto \<Rightarrow> u32 \<Rightarrow> rc" where
  "packet__check_oversize mosq remaining_length =
    (if mq_maximum_packet_size mosq = 0 then MOSQ_ERR_SUCCESS
     else let len = remaining_length + packet__varint_bytes remaining_length in
       if len > mq_maximum_packet_size mosq then MOSQ_ERR_OVERSIZE_PACKET else MOSQ_ERR_SUCCESS)"

section \<open>Writing to the socket\<close>

text \<open>
  \<open>memcpy\<close> from \<open>payload_store\<close>: the first \<open>n\<close> bytes of the payload of the
  stored message. Reading a message that has been freed is a fault.
\<close>

definition payload_bytes :: "db \<Rightarrow> store_ptr option \<Rightarrow> u32 \<Rightarrow> bytes res" where
  "payload_bytes d ptr n =
    (if n = 0 then Ok []
     else case ptr of None \<Rightarrow> Fault
     | Some p \<Rightarrow> (case store_at d p of None \<Rightarrow> Fault
         | Some st \<Rightarrow> if unat n \<le> length (ms_payload st) then Ok (take (unat n) (ms_payload st))
                     else Fault))"

text \<open>The reassembly of a PUBLISH packet at the top of the loop.\<close>

definition packet_assemble :: "db \<Rightarrow> packet \<Rightarrow> packet res" where
  "packet_assemble d packet =
    (if pk_pub_or_not packet = 4 then
       (let header = unat (pk_packet_length packet) - unat (pk_payload_length packet) in
        if pk_payload_length packet > pk_packet_length packet \<or> length (pk_payload packet) < header
        then Fault
        else res_bind (payload_bytes d (pk_payload_store packet) (pk_payload_length packet))
          (\<lambda>bs. Ok (packet\<lparr>pk_payload := take header (pk_payload packet) @ bs\<rparr>)))
     else Ok packet)"

text \<open>
  \<open>while(packet->to_process > 0)\<close>, on what the socket will answer. The result is the
  packet, the remaining answers, the bytes the socket has taken, and \<^const>\<open>None\<close> when the
  packet is finished or the return code.
\<close>

definition write_error :: "errno \<Rightarrow> rc" where
  "write_error e = (case e of EAGAIN \<Rightarrow> MOSQ_ERR_SUCCESS | COMPAT_EWOULDBLOCK \<Rightarrow> MOSQ_ERR_SUCCESS
     | COMPAT_ECONNRESET \<Rightarrow> MOSQ_ERR_CONN_LOST | COMPAT_EINTR \<Rightarrow> MOSQ_ERR_SUCCESS
     | EOTHER \<Rightarrow> MOSQ_ERR_ERRNO)"

fun packet_send_loop ::
    "net_result list \<Rightarrow> packet \<Rightarrow> bytes \<Rightarrow> (packet \<times> net_result list \<times> bytes \<times> rc option) res" where
  "packet_send_loop [] packet wire =
    (if pk_to_process packet > 0 then Ok (packet, [], wire, Some MOSQ_ERR_SUCCESS)
     else Ok (packet, [], wire, None))"
| "packet_send_loop ((n, e) # answers) packet wire =
    (if pk_to_process packet > 0 then
       (if unat (pk_pos packet) + unat (pk_to_process packet) > length (pk_payload packet) then Fault
        else if n > 0 then
          let write_length = min (nat n) (unat (pk_to_process packet)) in
          packet_send_loop answers
            (packet\<lparr>pk_to_process := pk_to_process packet - of_nat write_length,
                    pk_pos := pk_pos packet + of_nat write_length\<rparr>)
            (wire @ take write_length (drop (unat (pk_pos packet)) (pk_payload packet)))
        else Ok (packet, answers, wire, Some (write_error e)))
     else Ok (packet, (n, e) # answers, wire, None))"

text \<open>
  Taking the next packet off \<open>out_packet\<close>, before the loop and at the end of each pass.
\<close>

definition next_out_packet :: "mosquitto \<Rightarrow> mosquitto" where
  "next_out_packet mosq =
    (case mq_out_packet mosq of
       [] \<Rightarrow> mosq\<lparr>mq_current_out_packet := None\<rparr>
     | packet # ps \<Rightarrow> mosq\<lparr>mq_current_out_packet := Some packet, mq_out_packet := ps,
                          mq_out_packet_count := mq_out_packet_count mosq - 1\<rparr>)"

function packet_write_loop :: "db \<Rightarrow> mosquitto \<Rightarrow> (rc \<times> mosquitto) res" where
  "packet_write_loop d mosq =
    (case mq_current_out_packet mosq of
       None \<Rightarrow> Ok (MOSQ_ERR_SUCCESS, mosq)
     | Some packet \<Rightarrow>
         (case packet_assemble d packet of Fault \<Rightarrow> Fault | Err e \<Rightarrow> Err e
          | Ok packet \<Rightarrow>
         (case packet_send_loop (mq_sock_writes mosq) packet (mq_wire mosq) of
            Fault \<Rightarrow> Fault | Err e \<Rightarrow> Err e
          | Ok (packet, answers, wire, ret) \<Rightarrow>
              (case ret of
                 Some rc \<Rightarrow> Ok (rc, mosq\<lparr>mq_sock_writes := answers, mq_wire := wire,
                                  mq_current_out_packet := Some packet\<rparr>)
               | None \<Rightarrow> packet_write_loop d
                   ((next_out_packet (mosq\<lparr>mq_sock_writes := answers, mq_wire := wire\<rparr>))
                      \<lparr>mq_next_msg_out := db_now_s d + uint (mq_keepalive mosq)\<rparr>)))))"
  by pat_completeness auto
termination
  by (relation "measure (\<lambda>(d, m). length (mq_out_packet m) +
        (case mq_current_out_packet m of None \<Rightarrow> 0 | Some _ \<Rightarrow> 1))")
     (auto simp: next_out_packet_def split: list.split)

declare packet_write_loop.simps [simp del]

definition packet__write :: "db \<Rightarrow> mosquitto \<Rightarrow> (rc \<times> mosquitto) res" where
  "packet__write d mosq =
    (if mq_sock mosq = INVALID_SOCKET then Ok (MOSQ_ERR_NO_CONN, mosq)
     else
       let mosq = (if mq_out_packet mosq \<noteq> [] \<and> mq_current_out_packet mosq = None
                   then next_out_packet mosq else mosq)
       in if mosquitto__get_state mosq = mosq_cs_connect_pending then Ok (MOSQ_ERR_SUCCESS, mosq)
          else packet_write_loop d mosq)"

definition packet__queue :: "db \<Rightarrow> mosquitto \<Rightarrow> packet \<Rightarrow> (rc \<times> mosquitto) res" where
  "packet__queue d mosq packet =
    (let packet = packet\<lparr>pk_pos := 0, pk_to_process := pk_packet_length packet\<rparr>
     in packet__write d (mosq\<lparr>mq_out_packet := mq_out_packet mosq @ [packet],
                              mq_out_packet_count := mq_out_packet_count mosq + 1\<rparr>))"

section \<open>The byte stream\<close>

text \<open>
  \<open>packet_bytes d pk\<close> is the packet as it goes over the wire, and \<open>out_stream\<close> the
  bytes that all pending packets still have to send. A packet is well formed when its parts are
  there and it has \<open>to_process\<close> bytes left from \<open>pos\<close> on.
\<close>

definition packet_bytes :: "db \<Rightarrow> packet \<Rightarrow> bytes" where
  "packet_bytes d pk = (case packet_assemble d pk of Ok q \<Rightarrow> pk_payload q | _ \<Rightarrow> [])"

definition pending_bytes :: "db \<Rightarrow> packet \<Rightarrow> bytes" where
  "pending_bytes d pk = drop (unat (pk_pos pk)) (packet_bytes d pk)"

definition packet_wf :: "db \<Rightarrow> packet \<Rightarrow> bool" where
  "packet_wf d pk \<longleftrightarrow> (case packet_assemble d pk of
     Ok q \<Rightarrow> length (pk_payload q) = unat (pk_packet_length pk) \<and>
            unat (pk_pos pk) + unat (pk_to_process pk) = unat (pk_packet_length pk)
   | _ \<Rightarrow> False)"

definition out_packets :: "mosquitto \<Rightarrow> packet list" where
  "out_packets m = (case mq_current_out_packet m of None \<Rightarrow> [] | Some pk \<Rightarrow> [pk]) @ mq_out_packet m"

definition out_stream :: "db \<Rightarrow> mosquitto \<Rightarrow> bytes" where
  "out_stream d m = concat (map (pending_bytes d) (out_packets m))"

definition out_wf :: "db \<Rightarrow> mosquitto \<Rightarrow> bool" where
  "out_wf d m \<longleftrightarrow> (\<forall>pk \<in> set (out_packets m). packet_wf d pk)"

lemma packet_assemble_fields:
  assumes "packet_assemble d pk = Ok q"
  shows "q = pk\<lparr>pk_payload := pk_payload q\<rparr>"
  using assms
  by (auto simp: packet_assemble_def Let_def res_bind_Ok_iff split: if_splits)

lemma payload_bytes_length:
  "payload_bytes d ptr n = Ok bs \<Longrightarrow> length bs = unat n"
  by (auto simp: payload_bytes_def split: if_splits option.splits)

lemma packet_assemble_again:
  assumes a: "packet_assemble d pk = Ok q"
  shows "packet_assemble d (q\<lparr>pk_to_process := t, pk_pos := i\<rparr>) =
    Ok (q\<lparr>pk_to_process := t, pk_pos := i\<rparr>)"
proof (cases "pk_pub_or_not pk = 4")
  case True
  let ?h = "unat (pk_packet_length pk) - unat (pk_payload_length pk)"
  from a True obtain bs where le: "pk_payload_length pk \<le> pk_packet_length pk"
    and h: "?h \<le> length (pk_payload pk)"
    and bs: "payload_bytes d (pk_payload_store pk) (pk_payload_length pk) = Ok bs"
    and q: "q = pk\<lparr>pk_payload := take ?h (pk_payload pk) @ bs\<rparr>"
    by (auto simp: packet_assemble_def Let_def res_bind_Ok_iff not_less split: if_splits)
  show ?thesis
    using True le h bs by (simp add: packet_assemble_def Let_def q)
next
  case False
  then show ?thesis using a by (simp add: packet_assemble_def)
qed

lemma packet_send_loop_stream:
  assumes "length (pk_payload pk) = unat (pk_packet_length pk)"
    and "unat (pk_pos pk) + unat (pk_to_process pk) = unat (pk_packet_length pk)"
  shows "\<exists>t i answers' wire' ret.
    packet_send_loop answers pk wire =
      Ok (pk\<lparr>pk_to_process := t, pk_pos := i\<rparr>, answers', wire', ret) \<and>
    unat i + unat t = unat (pk_packet_length pk) \<and>
    wire' @ drop (unat i) (pk_payload pk) = wire @ drop (unat (pk_pos pk)) (pk_payload pk) \<and>
    (ret = None \<longrightarrow> t = 0)"
  using assms
proof (induction answers pk wire rule: packet_send_loop.induct)
  case (1 pk wire)
  then show ?case
    by (intro exI [of _ "pk_to_process pk"] exI [of _ "pk_pos pk"]) (auto simp: word_gt_0)
next
  case (2 n e answers pk wire)
  show ?case
  proof (cases "pk_to_process pk > 0 \<and> n > 0")
    case False
    then show ?thesis
      using 2(2,3)
      by (intro exI [of _ "pk_to_process pk"] exI [of _ "pk_pos pk"]) (auto simp: word_gt_0)
  next
    case True
    let ?w = "min (nat n) (unat (pk_to_process pk))"
    let ?pk = "pk\<lparr>pk_to_process := pk_to_process pk - of_nat ?w, pk_pos := pk_pos pk + of_nat ?w\<rparr>"
    have len: "unat (pk_pos pk) + unat (pk_to_process pk) \<le> length (pk_payload pk)"
      using 2(2,3) by simp
    have w: "unat (of_nat ?w :: u32) = ?w"
      using unat_u32_less [of "pk_to_process pk"]
      by (simp only: unat_of_nat) (simp add: take_bit_nat_eq_self min.strict_coboundedI2)
    have t: "unat (pk_to_process pk - of_nat ?w) = unat (pk_to_process pk) - ?w"
      using w by (simp add: unat_sub word_le_nat_alt)
    have i: "unat (pk_pos pk + of_nat ?w) = unat (pk_pos pk) + ?w"
      using 2(3) unat_u32_less [of "pk_packet_length pk"] w by (simp add: unat_word_ariths)
    have u: "packet_send_loop ((n, e) # answers) pk wire =
        packet_send_loop answers ?pk (wire @ take ?w (drop (unat (pk_pos pk)) (pk_payload pk)))"
      using True len by (simp add: Let_def)
    have "\<exists>t i answers' wire' ret.
        packet_send_loop answers ?pk (wire @ take ?w (drop (unat (pk_pos pk)) (pk_payload pk))) =
          Ok (?pk\<lparr>pk_to_process := t, pk_pos := i\<rparr>, answers', wire', ret) \<and>
        unat i + unat t = unat (pk_packet_length pk) \<and>
        wire' @ drop (unat i) (pk_payload pk) =
          (wire @ take ?w (drop (unat (pk_pos pk)) (pk_payload pk))) @
          drop (unat (pk_pos pk + of_nat ?w)) (pk_payload pk) \<and>
        (ret = None \<longrightarrow> t = 0)"
      using 2(1) [of "?w"] True len 2(2,3) t i by simp
    moreover have "take ?w (drop j xs) @ drop (j + ?w) xs = drop j xs" for j and xs :: bytes
      by (metis add.commute append_take_drop_id drop_drop)
    ultimately show ?thesis
      unfolding u i append_assoc by simp
  qed
qed

lemma packet_wf_assemble:
  assumes "packet_wf d pk"
  obtains q where "packet_assemble d pk = Ok q" and "q = pk\<lparr>pk_payload := pk_payload q\<rparr>"
    and "length (pk_payload q) = unat (pk_packet_length q)"
    and "unat (pk_pos q) + unat (pk_to_process q) = unat (pk_packet_length q)"
    and "packet_bytes d pk = pk_payload q"
proof -
  obtain q where q: "packet_assemble d pk = Ok q"
    using assms by (cases "packet_assemble d pk") (auto simp: packet_wf_def)
  have e: "q = pk\<lparr>pk_payload := pk_payload q\<rparr>" by (rule packet_assemble_fields [OF q])
  have "pk_pos q = pk_pos pk" "pk_to_process q = pk_to_process pk"
    "pk_packet_length q = pk_packet_length pk"
    using arg_cong [OF e, of pk_pos] arg_cong [OF e, of pk_to_process]
      arg_cong [OF e, of pk_packet_length] by simp_all
  with q e assms that show thesis by (simp add: packet_wf_def packet_bytes_def)
qed

text \<open>
  One pass of the loop over a well-formed packet: it ends with a return and the rest of the
  packet pending, or with the packet sent.
\<close>

lemma packet_pass:
  assumes "packet_wf d pk"
  obtains q pk' answers' wire' ret where "packet_assemble d pk = Ok q"
    and "packet_send_loop answers q wire = Ok (pk', answers', wire', ret)"
    and "packet_wf d pk'" and "wire' @ pending_bytes d pk' = wire @ pending_bytes d pk"
    and "ret = None \<Longrightarrow> pending_bytes d pk' = []"
proof -
  obtain q where q: "packet_assemble d pk = Ok q" and e: "q = pk\<lparr>pk_payload := pk_payload q\<rparr>"
    and l: "length (pk_payload q) = unat (pk_packet_length q)"
    and p: "unat (pk_pos q) + unat (pk_to_process q) = unat (pk_packet_length q)"
    and b: "packet_bytes d pk = pk_payload q"
    using packet_wf_assemble [OF assms] by metis
  have pos: "pk_pos q = pk_pos pk" by (subst e) simp
  obtain t i answers' wire' ret where s: "packet_send_loop answers q wire =
      Ok (q\<lparr>pk_to_process := t, pk_pos := i\<rparr>, answers', wire', ret)"
    and it: "unat i + unat t = unat (pk_packet_length q)"
    and w: "wire' @ drop (unat i) (pk_payload q) = wire @ drop (unat (pk_pos q)) (pk_payload q)"
    and r: "ret = None \<longrightarrow> t = 0"
    using packet_send_loop_stream [OF l p, of answers wire] by blast
  let ?pk = "q\<lparr>pk_to_process := t, pk_pos := i\<rparr>"
  have a: "packet_assemble d ?pk = Ok ?pk" by (rule packet_assemble_again [OF q])
  have "packet_wf d ?pk" using a l it by (simp add: packet_wf_def)
  moreover have pb: "pending_bytes d ?pk = drop (unat i) (pk_payload q)"
    using a by (simp add: pending_bytes_def packet_bytes_def)
  moreover have "pending_bytes d pk = drop (unat (pk_pos q)) (pk_payload q)"
    by (simp add: pending_bytes_def b pos)
  moreover have "ret = None \<Longrightarrow> drop (unat i) (pk_payload q) = []"
    using r it l by simp
  ultimately show thesis using that q s w by simp
qed

lemma next_out_packet_packets [simp]:
  "mq_current_out_packet m = None \<Longrightarrow> out_packets (next_out_packet m) = out_packets m"
  by (simp add: out_packets_def next_out_packet_def split: list.split)

lemma out_packets_next:
  "out_packets (next_out_packet m) = mq_out_packet m"
  by (simp add: out_packets_def next_out_packet_def split: list.split)

lemma out_packets_update [simp]:
  "out_packets (m\<lparr>mq_next_msg_out := x\<rparr>) = out_packets m"
  "out_packets (m\<lparr>mq_sock_writes := y\<rparr>) = out_packets m"
  "out_packets (m\<lparr>mq_wire := z\<rparr>) = out_packets m"
  by (simp_all add: out_packets_def)

definition count_gap :: "mosquitto \<Rightarrow> int" where
  "count_gap m = mq_out_packet_count m - int (length (mq_out_packet m))"

lemma count_gap_update [simp]:
  "count_gap (m\<lparr>mq_next_msg_out := x\<rparr>) = count_gap m"
  "count_gap (m\<lparr>mq_sock_writes := y\<rparr>) = count_gap m"
  "count_gap (m\<lparr>mq_wire := z\<rparr>) = count_gap m"
  "count_gap (m\<lparr>mq_current_out_packet := c\<rparr>) = count_gap m"
  by (simp_all add: count_gap_def)

lemma next_out_packet_fields [simp]:
  "mq_wire (next_out_packet m) = mq_wire m" "count_gap (next_out_packet m) = count_gap m"
  by (simp_all add: next_out_packet_def count_gap_def split: list.split)

lemma packet_write_loop_stream:
  "out_wf d m \<Longrightarrow> \<exists>rc m'. packet_write_loop d m = Ok (rc, m') \<and> out_wf d m' \<and>
     mq_wire m' @ out_stream d m' = mq_wire m @ out_stream d m \<and> count_gap m' = count_gap m"
proof (induction d m rule: packet_write_loop.induct)
  case (1 d m)
  show ?case
  proof (cases "mq_current_out_packet m")
    case None
    then show ?thesis using "1.prems" by (simp add: packet_write_loop.simps [of d m])
  next
    case (Some pk)
    then have wf: "packet_wf d pk" and rest: "\<forall>pk \<in> set (mq_out_packet m). packet_wf d pk"
      using "1.prems" by (simp_all add: out_wf_def out_packets_def)
    obtain q pk' answers' wire' ret where q: "packet_assemble d pk = Ok q"
      and s: "packet_send_loop (mq_sock_writes m) q (mq_wire m) = Ok (pk', answers', wire', ret)"
      and wf': "packet_wf d pk'"
      and w: "wire' @ pending_bytes d pk' = mq_wire m @ pending_bytes d pk"
      and r: "ret = None \<Longrightarrow> pending_bytes d pk' = []"
      using packet_pass [OF wf] by metis
    have st: "out_stream d m = pending_bytes d pk @ concat (map (pending_bytes d) (mq_out_packet m))"
      by (simp add: out_stream_def out_packets_def Some)
    show ?thesis
    proof (cases ret)
      case None
      let ?m = "(next_out_packet (m\<lparr>mq_sock_writes := answers', mq_wire := wire'\<rparr>))
          \<lparr>mq_next_msg_out := db_now_s d + uint (mq_keepalive m)\<rparr>"
      have l: "packet_write_loop d m = packet_write_loop d ?m"
        by (simp add: packet_write_loop.simps [of d m] Some q s None)
      have "out_wf d ?m" using rest by (simp add: out_wf_def out_packets_next)
      from "1.IH" [OF Some q s refl refl refl None this]
      show ?thesis using w r [OF None] None
        by (simp add: l st) (simp add: out_stream_def out_packets_next)
    next
      case (Some rc)
      then show ?thesis
        using wf' rest w \<open>mq_current_out_packet m = Some pk\<close>
        by (simp add: packet_write_loop.simps [of d m] q s st out_wf_def)
           (simp add: out_stream_def out_packets_def)
    qed
  qed
qed

section \<open>What the writer leaves alone\<close>

text \<open>
  Writing changes only the outgoing packets, the time of the next message and the socket.
\<close>

definition out_strip :: "mosquitto \<Rightarrow> mosquitto" where
  "out_strip m = m\<lparr>mq_current_out_packet := None, mq_out_packet := [], mq_out_packet_count := 0,
     mq_next_msg_out := 0, mq_sock_writes := [], mq_wire := []\<rparr>"

definition out_frame :: "mosquitto \<Rightarrow> mosquitto \<Rightarrow> bool" where
  "out_frame m m' \<longleftrightarrow> out_strip m' = out_strip m"

lemma out_frame_refl [simp]: "out_frame m m"
  by (simp add: out_frame_def)

lemma out_frame_trans: "out_frame a b \<Longrightarrow> out_frame b c \<Longrightarrow> out_frame a c"
  by (simp add: out_frame_def)

lemma out_frame_fields:
  assumes "out_frame m m'"
  shows "mq_msgs_out m' = mq_msgs_out m" "mq_msgs_in m' = mq_msgs_in m" "mq_mode m' = mq_mode m"
    "mq_sock m' = mq_sock m" "mq_state m' = mq_state m" "mq_id m' = mq_id m"
    "mq_threshold_l m' = mq_threshold_l m" "mq_send_time m' = mq_send_time m"
    "mq_slow_mode_time m' = mq_slow_mode_time m" "mq_protocol m' = mq_protocol m"
    "mq_lat_pre m' = mq_lat_pre m" "mq_max_qos m' = mq_max_qos m" "mq_bridge m' = mq_bridge m"
    "mq_last_mid m' = mq_last_mid m" "mq_keepalive m' = mq_keepalive m"
    "mq_maximum_packet_size m' = mq_maximum_packet_size m"
    "mq_count_for_lat m' = mq_count_for_lat m" "mq_mount_point m' = mq_mount_point m"
    "mq_in_packet m' = mq_in_packet m" "session m' = session m"
  using assms unfolding out_frame_def out_strip_def session_def
  by (cases m; cases m'; simp)+

lemma out_frame_update [simp]:
  "out_frame m (m'\<lparr>mq_sock_writes := a\<rparr>) \<longleftrightarrow> out_frame m m'"
  "out_frame m (m'\<lparr>mq_wire := w\<rparr>) \<longleftrightarrow> out_frame m m'"
  "out_frame m (m'\<lparr>mq_current_out_packet := c\<rparr>) \<longleftrightarrow> out_frame m m'"
  "out_frame m (m'\<lparr>mq_next_msg_out := t\<rparr>) \<longleftrightarrow> out_frame m m'"
  "out_frame m (m'\<lparr>mq_out_packet := ps\<rparr>) \<longleftrightarrow> out_frame m m'"
  "out_frame m (m'\<lparr>mq_out_packet_count := n\<rparr>) \<longleftrightarrow> out_frame m m'"
  by (simp_all add: out_frame_def out_strip_def)

lemma next_out_packet_frame: "out_frame m (next_out_packet m)"
  by (simp add: next_out_packet_def split: list.split)

lemma packet_write_loop_frame: "packet_write_loop d m = Ok (rc, m') \<Longrightarrow> out_frame m m'"
proof (induction d m rule: packet_write_loop.induct)
  case (1 d m)
  show ?case
  proof (cases "mq_current_out_packet m")
    case None
    then show ?thesis using "1.prems" by (simp add: packet_write_loop.simps [of d m])
  next
    case (Some pk)
    then obtain q pk' answers wire ret where q: "packet_assemble d pk = Ok q"
      and s: "packet_send_loop (mq_sock_writes m) q (mq_wire m) = Ok (pk', answers, wire, ret)"
      using "1.prems" by (auto simp: packet_write_loop.simps [of d m] split: res.splits)
    show ?thesis
    proof (cases ret)
      case None
      have "packet_write_loop d ((next_out_packet (m\<lparr>mq_sock_writes := answers, mq_wire := wire\<rparr>))
          \<lparr>mq_next_msg_out := db_now_s d + uint (mq_keepalive m)\<rparr>) = Ok (rc, m')"
        using "1.prems" by (simp add: packet_write_loop.simps [of d m] Some q s None)
      from "1.IH" [OF Some q s refl refl refl None this] show ?thesis
        by (rule out_frame_trans [rotated])
           (use out_frame_trans [OF _ next_out_packet_frame] in simp)
    next
      case (Some rc')
      then show ?thesis
        using "1.prems" \<open>mq_current_out_packet m = Some pk\<close>
        by (auto simp: packet_write_loop.simps [of d m] q s)
    qed
  qed
qed

lemma packet__write_frame: "packet__write d m = Ok (rc, m') \<Longrightarrow> out_frame m m'"
  by (auto simp: packet__write_def Let_def next_out_packet_frame
      dest: packet_write_loop_frame intro: out_frame_trans [OF next_out_packet_frame] split: if_splits)

lemma packet__queue_frame: "packet__queue d m pk = Ok (rc, m') \<Longrightarrow> out_frame m m'"
  by (auto simp: packet__queue_def Let_def dest!: packet__write_frame elim!: out_frame_trans [rotated])

section \<open>Queueing\<close>

lemma packet__write_stream:
  assumes "out_wf d m"
  shows "\<exists>rc m'. packet__write d m = Ok (rc, m') \<and> out_wf d m' \<and>
     mq_wire m' @ out_stream d m' = mq_wire m @ out_stream d m \<and> count_gap m' = count_gap m"
proof -
  let ?m = "if mq_out_packet m \<noteq> [] \<and> mq_current_out_packet m = None then next_out_packet m else m"
  have e: "out_packets ?m = out_packets m" "mq_wire ?m = mq_wire m" "count_gap ?m = count_gap m"
    by simp_all
  then have "out_wf d ?m" "out_stream d ?m = out_stream d m"
    using assms by (simp_all add: out_wf_def out_stream_def)
  with packet_write_loop_stream [of d ?m] assms e show ?thesis
    by (auto simp: packet__write_def Let_def)
qed

lemma packet__queue_stream:
  assumes "out_wf d m" and "packet_wf d (pk\<lparr>pk_pos := 0, pk_to_process := pk_packet_length pk\<rparr>)"
  shows "\<exists>rc m'. packet__queue d m pk = Ok (rc, m') \<and> out_wf d m' \<and>
     mq_wire m' @ out_stream d m' = mq_wire m @ out_stream d m @
       packet_bytes d (pk\<lparr>pk_pos := 0, pk_to_process := pk_packet_length pk\<rparr>) \<and>
     count_gap m' = count_gap m"
proof -
  let ?pk = "pk\<lparr>pk_pos := 0, pk_to_process := pk_packet_length pk\<rparr>"
  let ?m = "m\<lparr>mq_out_packet := mq_out_packet m @ [?pk], mq_out_packet_count := mq_out_packet_count m + 1\<rparr>"
  have o: "out_packets ?m = out_packets m @ [?pk]" by (simp add: out_packets_def)
  then have "out_wf d ?m" and "out_stream d ?m = out_stream d m @ packet_bytes d ?pk"
    using assms by (simp_all add: out_wf_def out_stream_def pending_bytes_def)
  moreover have "count_gap ?m = count_gap m" by (simp add: count_gap_def)
  ultimately show ?thesis
    using packet__write_stream [of d ?m] by (simp add: packet__queue_def Let_def)
qed

section \<open>Building a packet\<close>

lemma alloc_length_loop_enc:
  "unat w < 128 ^ Suc j \<Longrightarrow> alloc_length_loop (Suc j) w = enc_varint (unat w)"
proof (induction j arbitrary: w)
  case 0
  then have "unat w < 128" by simp
  then show ?case
    by (simp add: Let_def enc_varint_small varint_low_byte word_less_nat_alt unat_div_distrib)
next
  case (Suc j)
  have d: "unat (w div 128) = unat w div 128" by (simp add: unat_div_distrib)
  show ?case
  proof (cases "unat w < 128")
    case True
    then show ?thesis
      by (simp add: Let_def enc_varint_small varint_low_byte word_less_nat_alt d)
  next
    case False
    have "unat (w div 128) < 128 ^ Suc j"
      using Suc.prems unfolding d by (intro less_mult_imp_div_less) (simp add: mult.commute)
    note IH = Suc.IH [OF this]
    have e: "enc_varint (unat w) = (ucast (w mod 128) OR 0x80) # enc_varint (unat (w div 128))"
      using False by (simp add: enc_varint_big varint_more_byte d)
    have "w div 128 > 0" using False by (simp add: word_less_nat_alt d)
    then show ?thesis
      by (subst alloc_length_loop.simps) (simp add: Let_def IH e del: alloc_length_loop.simps)
  qed
qed

lemma length_enc_varint_le: "n < 268435456 \<Longrightarrow> length (enc_varint n) \<le> 4"
proof -
  assume n: "n < 268435456"
  then have u: "unat (of_nat n :: u32) = n" by (simp add: unat_of_nat take_bit_nat_eq_self)
  have "dec_varint (enc_varint n @ []) = Inr ((of_nat n, of_nat (length (enc_varint n))), length (enc_varint n))"
    using dec_varint_enc [of "of_nat n" "[]"] n u by simp
  from dec_varint_Inr(6) [OF this] show ?thesis .
qed

text \<open>The payload that a packet refers to and does not hold.\<close>

definition outside_length :: "packet \<Rightarrow> nat" where
  "outside_length pk = (if pk_pub_or_not pk = 4 then unat (pk_payload_length pk) else 0)"

text \<open>
  A new packet, allocated and then filled with a body: the buffer is exactly the fixed header
  and the body.
\<close>

lemma packet_built:
  assumes rl: "unat (pk_remaining_length pk) = length body + outside_length pk"
    and small: "unat (pk_remaining_length pk) < 268435456"
  shows "\<exists>a. packet__alloc pk = Ok (MOSQ_ERR_SUCCESS, a) \<and> can_write a (length body) \<and>
    pk_payload (put a body) = pk_command pk # enc_varint (unat (pk_remaining_length pk)) @ body \<and>
    unat (pk_packet_length a) =
      Suc (length (enc_varint (unat (pk_remaining_length pk)))) + unat (pk_remaining_length pk) \<and>
    pk_pub_or_not a = pk_pub_or_not pk \<and> pk_payload_length a = pk_payload_length pk"
proof -
  let ?n = "unat (pk_remaining_length pk)" and ?e = "enc_varint (unat (pk_remaining_length pk))"
  have loop: "alloc_length_loop 5 (pk_remaining_length pk) = ?e"
  proof -
    have "?n < 128 ^ Suc 4" using small by simp
    moreover have "(5 :: nat) = Suc 4" by simp
    ultimately show ?thesis by (simp only: alloc_length_loop_enc)
  qed
  have le: "length ?e \<le> 4" using length_enc_varint_le [OF small] .
  let ?pl = "pk_remaining_length pk + 1 + of_nat (length ?e)"
  have pl: "unat ?pl = Suc (length ?e) + ?n"
    using small le by (simp add: unat_word_ariths unat_of_nat take_bit_nat_eq_self)
  let ?size = "if pk_pub_or_not pk = 4 then unat ?pl - unat (pk_payload_length pk) else unat ?pl"
  have size: "?size = Suc (length ?e) + length body"
    unfolding pl using rl by (simp add: outside_length_def split: if_splits)
  have fits: "\<not> (pk_pub_or_not pk = 4 \<and> pk_payload_length pk > ?pl)"
    unfolding word_less_nat_alt pl using rl by (simp add: outside_length_def)
  define a where "a = pk\<lparr>pk_payload := blit (replicate ?size 0) 0 (pk_command pk # ?e),
      pk_remaining_count := int (length ?e), pk_packet_length := ?pl, pk_pos := 1 + of_nat (length ?e)\<rparr>"
  have alloc: "packet__alloc pk = Ok (MOSQ_ERR_SUCCESS, a)"
    using le fits size
    by (cases "pk_pub_or_not pk = 4") (simp_all add: packet__alloc_def loop Let_def a_def)
  have pos: "unat (pk_pos a) = Suc (length ?e)"
    using le by (simp add: a_def unat_word_ariths unat_of_nat take_bit_nat_eq_self)
  have pay: "pk_payload a = (pk_command pk # ?e) @ replicate (length body) 0"
    unfolding a_def size by (simp add: blit_def del: replicate_Suc)
  have len: "unat (pk_packet_length a) = Suc (length ?e) + ?n" using pl by (simp add: a_def)
  have "can_write a (length body)"
    using rl by (simp add: can_write_def pay pos len outside_length_def)
  moreover have "pk_payload (put a body) = pk_command pk # ?e @ body"
    by (simp add: put_def pay pos blit_def)
  ultimately show ?thesis using alloc len by (intro exI [of _ a]) (simp add: a_def)
qed

text \<open>
  Queueing a filled packet: its buffer, and the payload it refers to, become the end of the
  stream.
\<close>

definition outside_bytes :: "db \<Rightarrow> packet \<Rightarrow> bytes res" where
  "outside_bytes d pk = (if pk_pub_or_not pk = 4
     then payload_bytes d (pk_payload_store pk) (pk_payload_length pk) else Ok [])"

lemma queue_filled:
  assumes wf: "out_wf d m" and pl: "outside_bytes d q = Ok pl"
    and len: "unat (pk_packet_length q) = length (pk_payload q) + outside_length q"
  shows "\<exists>rc m'. packet__queue d m q = Ok (rc, m') \<and> out_frame m m' \<and> out_wf d m' \<and>
    count_gap m' = count_gap m \<and>
    mq_wire m' @ out_stream d m' = mq_wire m @ out_stream d m @ pk_payload q @ pl"
proof -
  let ?q = "q\<lparr>pk_pos := 0, pk_to_process := pk_packet_length q\<rparr>"
  have "packet_assemble d ?q = Ok (?q\<lparr>pk_payload := pk_payload q @ pl\<rparr>)"
    using pl len
    by (simp add: packet_assemble_def outside_bytes_def outside_length_def word_less_nat_alt Let_def
        split: if_splits)
  moreover have "length pl = outside_length q"
    using pl payload_bytes_length by (auto simp: outside_bytes_def outside_length_def split: if_splits)
  ultimately have "packet_wf d ?q" and b: "packet_bytes d ?q = pk_payload q @ pl"
    using len by (simp_all add: packet_wf_def packet_bytes_def)
  from packet__queue_stream [OF wf this(1)] packet__queue_frame show ?thesis
    unfolding b by blast
qed

section \<open>Properties\<close>

text \<open>
  C9: \<open>packet__write\<close> keeps the order and the bytes of the outgoing packets, whatever the
  socket answers: what the socket has taken followed by what is still pending is the same before
  and after the call, the pending packets stay well formed, the packet count stays in step with
  the queue, and no access leaves a buffer. In particular nothing is lost, repeated or reordered
  across partial writes and \<open>EAGAIN\<close>.
\<close>

theorem packet__write_fifo:
  assumes "out_wf d m"
  shows "\<exists>rc m'. packet__write d m = Ok (rc, m') \<and> out_wf d m' \<and>
     mq_wire m' @ out_stream d m' = mq_wire m @ out_stream d m \<and>
     mq_out_packet_count m' - int (length (mq_out_packet m')) =
       mq_out_packet_count m - int (length (mq_out_packet m))"
  using packet__write_stream [OF assms] by (simp add: count_gap_def)

text \<open>A PINGRESP of which the socket takes one byte, and then would block.\<close>

theorem packet__write_fifo_witness:
  "let pk = packet_zero\<lparr>pk_payload := [0xD0, 0], pk_packet_length := 2, pk_to_process := 2\<rparr>;
       m = mosquitto_zero\<lparr>mq_sock := 5, mq_out_packet := [pk], mq_out_packet_count := 1,
             mq_sock_writes := [(1, EAGAIN), (-1, EAGAIN)]\<rparr>
   in out_wf db_zero m \<and> (\<exists>rc m'. packet__write db_zero m = Ok (rc, m') \<and>
        mq_wire m' @ out_stream db_zero m' = [0xD0, 0])"
proof -
  let ?pk = "packet_zero\<lparr>pk_payload := [0xD0, 0], pk_packet_length := 2, pk_to_process := 2\<rparr>"
  let ?m = "mosquitto_zero\<lparr>mq_sock := 5, mq_out_packet := [?pk], mq_out_packet_count := 1,
      mq_sock_writes := [(1, EAGAIN), (-1, EAGAIN)]\<rparr>"
  have wf: "out_wf db_zero ?m"
    by (simp add: out_wf_def out_packets_def packet_wf_def packet_assemble_def packet_zero_def
        mosquitto_zero_def)
  have "mq_wire ?m @ out_stream db_zero ?m = [0xD0, 0]"
    by (simp add: out_stream_def out_packets_def pending_bytes_def packet_bytes_def
        packet_assemble_def packet_zero_def mosquitto_zero_def)
  with packet__write_fifo [OF wf] wf show ?thesis unfolding Let_def by auto
qed

end
