(* ===== verification/Topic.thy ===== *)
theory Topic
  imports Mosq_Prelude
begin

text \<open>
  \<^verbatim>\<open>lib/util_topic.c\<close>: the checks of topic names and topic filters, and the
  matching of a topic name against a filter, with the reference definition of MQTT matching on
  topic levels that the matcher is proved to compute. A C string is a list of characters
  without NUL; \<open>str[1]\<close> past the end reads the NUL, which is \<open>char_at\<close> of
  the empty rest.
\<close>

section \<open>Topic checks\<close>

abbreviation TOPIC_HIERARCHY_LIMIT :: nat where "TOPIC_HIERARCHY_LIMIT \<equiv> 200"

definition char_at :: "string \<Rightarrow> char" where
  "char_at s = (case s of [] \<Rightarrow> CHR 0x00 | c # _ \<Rightarrow> c)"

text \<open>The loop of \<open>mosquitto_pub_topic_check\<close>: \<open>None\<close> on a wildcard, else
  \<open>len\<close> and \<open>hier_count\<close>.\<close>

fun pub_topic_loop :: "string \<Rightarrow> nat \<Rightarrow> nat \<Rightarrow> (nat \<times> nat) option" where
  "pub_topic_loop [] len hier = Some (len, hier)"
| "pub_topic_loop (c # s) len hier =
     (if c = CHR ''+'' \<or> c = CHR ''#'' then None
      else pub_topic_loop s (len + 1) (if c = CHR ''/'' then hier + 1 else hier))"

definition mosquitto_pub_topic_check :: "string option \<Rightarrow> rc" where
  "mosquitto_pub_topic_check str =
     (case str of None \<Rightarrow> MOSQ_ERR_INVAL
      | Some s \<Rightarrow>
          (case pub_topic_loop s 0 0 of None \<Rightarrow> MOSQ_ERR_INVAL
           | Some (len, hier) \<Rightarrow>
               if len > 65535 then MOSQ_ERR_INVAL
               else if hier > TOPIC_HIERARCHY_LIMIT then MOSQ_ERR_INVAL
               else MOSQ_ERR_SUCCESS))"

text \<open>The second form is given the length; \<open>str\<close> holds at least \<open>len\<close> characters.\<close>

definition mosquitto_pub_topic_check2 :: "string option \<Rightarrow> nat \<Rightarrow> rc" where
  "mosquitto_pub_topic_check2 str len =
     (case str of None \<Rightarrow> MOSQ_ERR_INVAL
      | Some s \<Rightarrow>
          if len > 65535 then MOSQ_ERR_INVAL
          else (case pub_topic_loop (take len s) 0 0 of None \<Rightarrow> MOSQ_ERR_INVAL
                | Some (_, hier) \<Rightarrow>
                    if hier > TOPIC_HIERARCHY_LIMIT then MOSQ_ERR_INVAL else MOSQ_ERR_SUCCESS))"

text \<open>The loop of \<open>mosquitto_sub_topic_check\<close>; \<open>c\<close> is the previous character,
  NUL at the start.\<close>

fun sub_topic_loop :: "char \<Rightarrow> string \<Rightarrow> nat \<Rightarrow> nat \<Rightarrow> (nat \<times> nat) option" where
  "sub_topic_loop c [] len hier = Some (len, hier)"
| "sub_topic_loop c (x # s) len hier =
     (if x = CHR ''+'' then
        (if (c \<noteq> CHR 0x00 \<and> c \<noteq> CHR ''/'') \<or>
            (char_at s \<noteq> CHR 0x00 \<and> char_at s \<noteq> CHR ''/'') then None
         else sub_topic_loop x s (len + 1) hier)
      else if x = CHR ''#'' then
        (if (c \<noteq> CHR 0x00 \<and> c \<noteq> CHR ''/'') \<or> char_at s \<noteq> CHR 0x00 then None
         else sub_topic_loop x s (len + 1) hier)
      else sub_topic_loop x s (len + 1) (if x = CHR ''/'' then hier + 1 else hier))"

definition mosquitto_sub_topic_check :: "string option \<Rightarrow> rc" where
  "mosquitto_sub_topic_check str =
     (case str of None \<Rightarrow> MOSQ_ERR_INVAL
      | Some s \<Rightarrow>
          (case sub_topic_loop (CHR 0x00) s 0 0 of None \<Rightarrow> MOSQ_ERR_INVAL
           | Some (len, hier) \<Rightarrow>
               if len > 65535 then MOSQ_ERR_INVAL
               else if hier > TOPIC_HIERARCHY_LIMIT then MOSQ_ERR_INVAL
               else MOSQ_ERR_SUCCESS))"

text \<open>
  The loop of \<open>mosquitto_sub_topic_check2\<close> at index \<open>i\<close> of \<open>len\<close>, written
  on the rest of the first \<open>len\<close> characters: \<open>i < len-1\<close> says that this rest has
  another character.
\<close>

fun sub_topic_loop2 :: "char \<Rightarrow> string \<Rightarrow> nat \<Rightarrow> nat option" where
  "sub_topic_loop2 c [] hier = Some hier"
| "sub_topic_loop2 c (x # s) hier =
     (if x = CHR ''+'' then
        (if (c \<noteq> CHR 0x00 \<and> c \<noteq> CHR ''/'') \<or> (s \<noteq> [] \<and> char_at s \<noteq> CHR ''/'') then None
         else sub_topic_loop2 x s hier)
      else if x = CHR ''#'' then
        (if (c \<noteq> CHR 0x00 \<and> c \<noteq> CHR ''/'') \<or> s \<noteq> [] then None
         else sub_topic_loop2 x s hier)
      else sub_topic_loop2 x s (if x = CHR ''/'' then hier + 1 else hier))"

definition mosquitto_sub_topic_check2 :: "string option \<Rightarrow> nat \<Rightarrow> rc" where
  "mosquitto_sub_topic_check2 str len =
     (case str of None \<Rightarrow> MOSQ_ERR_INVAL
      | Some s \<Rightarrow>
          if len > 65535 then MOSQ_ERR_INVAL
          else (case sub_topic_loop2 (CHR 0x00) (take len s) 0 of None \<Rightarrow> MOSQ_ERR_INVAL
                | Some hier \<Rightarrow>
                    if hier > TOPIC_HIERARCHY_LIMIT then MOSQ_ERR_INVAL else MOSQ_ERR_SUCCESS))"

section \<open>Matching\<close>

definition is_wild :: "char \<Rightarrow> bool" where
  "is_wild c \<longleftrightarrow> c = CHR ''+'' \<or> c = CHR ''#''"

text \<open>\<open>sub[0] == '#' && sub[1] != 0\<close> somewhere in the rest of the filter.\<close>

fun hash_not_last :: "string \<Rightarrow> bool" where
  "hash_not_last [] \<longleftrightarrow> False"
| "hash_not_last (c # s) \<longleftrightarrow> c = CHR ''#'' \<and> char_at s \<noteq> CHR 0x00 \<or> hash_not_last s"

text \<open>
  The loop of \<open>mosquitto_topic_matches_sub2\<close>. \<open>prev\<close> is \<open>sub[-1]\<close>,
  \<open>None\<close> while \<open>spos\<close> is 0. The result is the return code and
  \<open>*result\<close>.
\<close>

fun matches_loop :: "char option \<Rightarrow> string \<Rightarrow> string \<Rightarrow> rc \<times> bool" where
  "matches_loop prev [] topic =
     (if list_ex is_wild topic then (MOSQ_ERR_INVAL, False) else (MOSQ_ERR_SUCCESS, False))"
| "matches_loop prev (s # sub) topic =
     (if is_wild (char_at topic) then (MOSQ_ERR_INVAL, False)
      else if topic = [] \<or> s \<noteq> char_at topic then
        (if s = CHR ''+'' then
           (if prev \<noteq> None \<and> prev \<noteq> Some (CHR ''/'') then (MOSQ_ERR_INVAL, False)
            else if char_at sub \<noteq> CHR 0x00 \<and> char_at sub \<noteq> CHR ''/'' then (MOSQ_ERR_INVAL, False)
            else if list_ex is_wild (takeWhile (\<lambda>c. c \<noteq> CHR ''/'') topic) then (MOSQ_ERR_INVAL, False)
            else let topic' = dropWhile (\<lambda>c. c \<noteq> CHR ''/'') topic
                 in if topic' = [] \<and> sub = [] then (MOSQ_ERR_SUCCESS, True)
                    else matches_loop (Some s) sub topic')
         else if s = CHR ''#'' then
           (if prev \<noteq> None \<and> prev \<noteq> Some (CHR ''/'') then (MOSQ_ERR_INVAL, False)
            else if char_at sub \<noteq> CHR 0x00 then (MOSQ_ERR_INVAL, False)
            else if list_ex is_wild topic then (MOSQ_ERR_INVAL, False)
            else (MOSQ_ERR_SUCCESS, True))
         else if topic = [] \<and> prev = Some (CHR ''+'') \<and> s = CHR ''/'' \<and> char_at sub = CHR ''#''
         then (MOSQ_ERR_SUCCESS, True)
         else if hash_not_last (s # sub) then (MOSQ_ERR_INVAL, False)
         else (MOSQ_ERR_SUCCESS, False))
      else
        (let topic = tl topic
         in if topic = [] \<and> sub = ''/#'' then (MOSQ_ERR_SUCCESS, True)
            else if sub = [] \<and> topic = [] then (MOSQ_ERR_SUCCESS, True)
            else if topic = [] \<and> sub = ''+'' then
              (if s \<noteq> CHR ''/'' then (MOSQ_ERR_INVAL, False) else (MOSQ_ERR_SUCCESS, True))
            else matches_loop (Some s) sub topic))"

definition mosquitto_topic_matches_sub2 :: "string option \<Rightarrow> string option \<Rightarrow> rc \<times> bool" where
  "mosquitto_topic_matches_sub2 sub topic =
     (case (sub, topic) of
        (Some (s # sub), Some (t # topic)) \<Rightarrow>
          if (s = CHR ''$'' \<and> t \<noteq> CHR ''$'') \<or> (t = CHR ''$'' \<and> s \<noteq> CHR ''$'')
          then (MOSQ_ERR_SUCCESS, False)
          else matches_loop None (s # sub) (t # topic)
      | _ \<Rightarrow> (MOSQ_ERR_INVAL, False))"

definition mosquitto_topic_matches_sub :: "string option \<Rightarrow> string option \<Rightarrow> rc \<times> bool" where
  "mosquitto_topic_matches_sub sub topic = mosquitto_topic_matches_sub2 sub topic"

section \<open>Levels: the reference definition\<close>

fun levels :: "string \<Rightarrow> string list" where
  "levels [] = [[]]"
| "levels (c # s) =
     (if c = CHR ''/'' then [] # levels s else (c # hd (levels s)) # tl (levels s))"

fun level_match :: "string list \<Rightarrow> string list \<Rightarrow> bool" where
  "level_match [] ts = (ts = [])"
| "level_match (f # fs) ts =
     (if f = ''#'' \<and> fs = [] then True
      else case ts of [] \<Rightarrow> False
           | t # ts \<Rightarrow> (f = ''+'' \<or> f = t) \<and> level_match fs ts)"

definition topic_matches :: "string \<Rightarrow> string \<Rightarrow> bool" where
  "topic_matches sub topic \<longleftrightarrow>
     ((char_at sub = CHR ''$'') = (char_at topic = CHR ''$'')) \<and>
     level_match (levels sub) (levels topic)"

fun valid_filter :: "string list \<Rightarrow> bool" where
  "valid_filter [] = True"
| "valid_filter (f # fs) =
     ((list_all (\<lambda>c. \<not> is_wild c) f \<or> f = ''+'' \<or> f = ''#'' \<and> fs = []) \<and> valid_filter fs)"

definition cstring :: "string \<Rightarrow> bool" where
  "cstring s \<longleftrightarrow> CHR 0x00 \<notin> set s"

section \<open>The matcher computes the reference definition\<close>

text \<open>
  Where the matcher stands at the start of a level the rests of filter and topic are matched as
  levels (\<open>at_start\<close>); inside a level, or behind a \<open>+\<close>, the rest of the level must
  be equal (\<open>inside\<close>).
\<close>

definition at_start :: "string \<Rightarrow> string \<Rightarrow> bool" where
  "at_start sub topic \<longleftrightarrow> level_match (levels sub) (levels topic)"

definition inside :: "string \<Rightarrow> string \<Rightarrow> bool" where
  "inside sub topic \<longleftrightarrow> hd (levels sub) = hd (levels topic) \<and>
     level_match (tl (levels sub)) (tl (levels topic))"

definition valid_inside :: "string \<Rightarrow> bool" where
  "valid_inside sub \<longleftrightarrow> list_all (\<lambda>c. \<not> is_wild c) (hd (levels sub)) \<and> valid_filter (tl (levels sub))"

lemma levels_not_Nil [simp]: "levels s \<noteq> []"
  by (induction s) auto

lemma levels_hd_tl: "levels s = hd (levels s) # tl (levels s)"
  by simp

lemma levels_eq_hash: "levels s = [''#''] \<longleftrightarrow> s = ''#''"
proof
  assume "levels s = [''#'']"
  then show "s = ''#''"
  proof (cases s)
    case (Cons c r)
    with \<open>levels s = [''#'']\<close> have "c = CHR ''#''" "hd (levels r) = []" "tl (levels r) = []"
      by (auto split: if_splits)
    then have "levels r = [[]]" by (metis levels_hd_tl)
    then have "r = []" by (cases r) (auto split: if_splits)
    with Cons \<open>c = CHR ''#''\<close> show ?thesis by simp
  qed auto
qed simp

lemma not_wild_level: "\<not> is_wild c \<Longrightarrow> c # f \<noteq> ''+'' \<and> c # f \<noteq> ''#''"
  by (auto simp: is_wild_def)

lemma inside_Cons:
  "inside (c # sub) (c # t) = (if c = CHR ''/'' then at_start sub t else inside sub t)"
  by (simp add: inside_def at_start_def)

lemma inside_diff: "c \<noteq> d \<Longrightarrow> \<not> inside (c # sub) (d # t)"
  by (auto simp: inside_def)

lemma inside_Nil: "inside (c # sub) [] \<longleftrightarrow> c = CHR ''/'' \<and> sub = ''#''"
proof -
  have "level_match (levels sub) [] \<longleftrightarrow> levels sub = [''#'']"
    by (cases "levels sub") simp_all
  then show ?thesis by (auto simp: inside_def levels_eq_hash)
qed

lemma inside_Nil_left: "inside [] topic \<longleftrightarrow> topic = []"
  by (cases topic) (auto simp: inside_def)

lemma at_start_inside:
  assumes "\<not> is_wild c"
  shows "at_start (c # sub) topic \<longleftrightarrow> inside (c # sub) topic"
proof -
  have "\<exists>f fs. levels (c # sub) = f # fs \<and> f \<noteq> ''+'' \<and> f \<noteq> ''#''"
    using not_wild_level [OF assms] by auto
  moreover have "\<exists>t ts. levels topic = t # ts" by (metis levels_hd_tl)
  ultimately show ?thesis by (auto simp: at_start_def inside_def)
qed

lemma levels_dropWhile:
  "levels (dropWhile (\<lambda>c. c \<noteq> CHR ''/'') topic) = [] # tl (levels topic)"
  by (induction topic) auto

lemma at_start_plus:
  assumes "sub = [] \<or> char_at sub = CHR ''/''"
  shows "at_start (CHR ''+'' # sub) topic \<longleftrightarrow> inside sub (dropWhile (\<lambda>c. c \<noteq> CHR ''/'') topic)"
proof -
  have h: "hd (levels sub) = []" using assms by (cases sub) (auto simp: char_at_def)
  have "\<exists>t ts. levels topic = t # ts" by (metis levels_hd_tl)
  with h show ?thesis by (auto simp: at_start_def inside_def levels_dropWhile)
qed

lemma valid_inside_Cons:
  "valid_inside (c # sub) \<longleftrightarrow> \<not> is_wild c \<and>
     (if c = CHR ''/'' then valid_filter (levels sub) else valid_inside sub)"
  by (auto simp: valid_inside_def is_wild_def)

lemma valid_start_Cons:
  assumes "valid_filter (levels (c # sub))"
  shows "\<not> is_wild c \<Longrightarrow> valid_inside (c # sub)"
    and "c = CHR ''+'' \<Longrightarrow> (sub = [] \<or> char_at sub = CHR ''/'') \<and> valid_inside sub"
    and "c = CHR ''#'' \<Longrightarrow> sub = []"
proof -
  let ?f = "hd (levels (c # sub))"
  have v: "list_all (\<lambda>c. \<not> is_wild c) ?f \<or> ?f = ''+'' \<or> ?f = ''#'' \<and> tl (levels (c # sub)) = []"
    "valid_filter (tl (levels (c # sub)))"
    using assms by (metis levels_hd_tl valid_filter.simps(2))+
  show "valid_inside (c # sub)" if "\<not> is_wild c"
    using v that not_wild_level [OF that] by (auto simp: valid_inside_def split: if_splits)
  have h: "hd (levels sub) = [] \<Longrightarrow> sub = [] \<or> char_at sub = CHR ''/''"
    by (cases sub) (auto simp: char_at_def split: if_splits)
  show "(sub = [] \<or> char_at sub = CHR ''/'') \<and> valid_inside sub" if "c = CHR ''+''"
    using v h that by (auto simp: valid_inside_def is_wild_def)
  show "sub = []" if "c = CHR ''#''"
  proof -
    have "levels (c # sub) = [''#'']" using v that by (auto simp: is_wild_def)
    then show ?thesis by (simp only: levels_eq_hash) simp
  qed
qed

lemma valid_inside_hash: "valid_inside sub \<Longrightarrow> \<not> hash_not_last sub"
  and valid_filter_hash: "valid_filter (levels sub) \<Longrightarrow> \<not> hash_not_last sub"
proof (induction sub)
  case (Cons c sub)
  { case 1
    then show ?case using Cons.IH by (auto simp: valid_inside_Cons is_wild_def split: if_splits) }
  { case 2
    show ?case
    proof (cases "is_wild c")
      case True
      with valid_start_Cons [OF 2] Cons.IH show ?thesis
        by (auto simp: is_wild_def char_at_def)
    next
      case False
      with valid_start_Cons(1) [OF 2] Cons.IH show ?thesis
        by (auto simp: valid_inside_Cons is_wild_def split: if_splits)
    qed }
qed (simp_all add: char_at_def)

definition level_start :: "char option \<Rightarrow> bool" where
  "level_start prev \<longleftrightarrow> prev = None \<or> prev = Some (CHR ''/'')"

lemma char_at_eq_NUL: "cstring s \<Longrightarrow> char_at s = CHR 0x00 \<longleftrightarrow> s = []"
  by (cases s) (auto simp: char_at_def cstring_def)

lemma cstring_Cons: "cstring (c # s) \<longleftrightarrow> c \<noteq> CHR 0x00 \<and> cstring s"
  by (auto simp: cstring_def)

lemma no_wild:
  "list_all (\<lambda>c. \<not> is_wild c) topic \<Longrightarrow>
   \<not> list_ex is_wild topic \<and> \<not> is_wild (char_at topic) \<and>
   \<not> list_ex is_wild (takeWhile P topic) \<and> list_all (\<lambda>c. \<not> is_wild c) (dropWhile P topic) \<and>
   list_all (\<lambda>c. \<not> is_wild c) (tl topic)"
  by (cases topic)
     (auto simp: list_all_iff list_ex_iff char_at_def is_wild_def dest: set_takeWhileD set_dropWhileD)

lemma matches_loop_correct:
  "cstring sub \<Longrightarrow> list_all (\<lambda>c. \<not> is_wild c) topic \<Longrightarrow>
   (if level_start prev then valid_filter (levels sub) else valid_inside sub) \<Longrightarrow>
   \<not> (sub = [] \<and> topic = []) \<Longrightarrow> (topic = [] \<Longrightarrow> sub = ''/#'' \<Longrightarrow> prev = Some (CHR ''+'')) \<Longrightarrow>
   matches_loop prev sub topic =
     (MOSQ_ERR_SUCCESS, if level_start prev then at_start sub topic else inside sub topic)"
proof (induction prev sub topic rule: matches_loop.induct)
  case (1 prev topic)
  then have "topic \<noteq> []" by simp
  then have "\<not> at_start [] topic" by (cases topic) (auto simp: at_start_def)
  with 1 \<open>topic \<noteq> []\<close> show ?case by (simp add: no_wild inside_Nil_left)
next
  case (2 prev s sub topic)
  note nw = no_wild [OF "2.prems"(2)]
  have cs: "cstring sub" "s \<noteq> CHR 0x00" using "2.prems"(1) by (simp_all add: cstring_Cons)
  show ?case
  proof (cases "is_wild s")
    case True
    then have st: "level_start prev" and v: "valid_filter (levels (s # sub))"
      using "2.prems"(3) by (auto simp: valid_inside_Cons split: if_splits)
    have ne: "topic = [] \<or> s \<noteq> char_at topic" using nw True by auto
    from True consider (plus) "s = CHR ''+''" | (hash) "s = CHR ''#''" by (auto simp: is_wild_def)
    then show ?thesis
    proof cases
      case plus
      note vp = valid_start_Cons(2) [OF v plus]
      let ?t = "dropWhile (\<lambda>c. c \<noteq> CHR ''/'') topic"
      have "matches_loop (Some s) sub ?t = (MOSQ_ERR_SUCCESS, inside sub ?t)"
        if "\<not> (?t = [] \<and> sub = [])"
        using "2.IH"(1) [of ?t] that st vp nw ne plus cs
        by (auto simp: level_start_def char_at_eq_NUL)
      then show ?thesis
        using st vp nw ne plus cs
        by (auto simp: Let_def level_start_def at_start_plus inside_Nil_left char_at_eq_NUL)
    next
      case hash
      note vh = valid_start_Cons(3) [OF v hash]
      then show ?thesis
        using st nw ne hash by (auto simp: level_start_def at_start_def char_at_def)
    qed
  next
    case False
    have v: "valid_inside (s # sub)"
      using "2.prems"(3) valid_start_Cons(1) False by (auto split: if_splits)
    have goal: "(if level_start prev then at_start (s # sub) topic else inside (s # sub) topic) =
        inside (s # sub) topic"
      using at_start_inside [OF False] by simp
    have h: "\<not> hash_not_last (s # sub)" using valid_inside_hash [OF v] .
    show ?thesis
    proof (cases "topic = [] \<or> s \<noteq> char_at topic")
      case True
      then have "inside (s # sub) topic \<longleftrightarrow> topic = [] \<and> s = CHR ''/'' \<and> sub = ''#''"
        using inside_diff by (cases topic) (auto simp: inside_Nil char_at_def)
      moreover have "sub = ''#''" if "s = CHR ''/''" "char_at sub = CHR ''#''"
      proof -
        from that v have "valid_filter (levels sub)" by (simp add: valid_inside_Cons)
        with that valid_start_Cons(3) show ?thesis by (cases sub) (auto simp: char_at_def)
      qed
      ultimately show ?thesis
        using True False h nw "2.prems"(5) unfolding goal
        by (auto simp: is_wild_def char_at_def)
    next
      case eq: False
      then obtain t where t: "topic = s # t" by (cases topic) (auto simp: char_at_def)
      have rec: "matches_loop (Some s) sub t =
          (MOSQ_ERR_SUCCESS, if s = CHR ''/'' then at_start sub t else inside sub t)"
        if "\<not> (t = [] \<and> sub = [])" "\<not> (t = [] \<and> sub = ''/#'')" "\<not> (t = [] \<and> sub = ''+'')"
      proof -
        have v': "if level_start (Some s) then valid_filter (levels sub) else valid_inside sub"
          using v by (simp add: level_start_def valid_inside_Cons)
        have t': "t = tl topic" "list_all (\<lambda>c. \<not> is_wild c) t" using nw by (simp_all add: t)
        have "matches_loop (Some s) sub t =
          (MOSQ_ERR_SUCCESS, if level_start (Some s) then at_start sub t else inside sub t)"
          using nw eq that cs(1) v' t' by (intro "2.IH"(2)) blast+
        then show ?thesis by (simp add: level_start_def)
      qed
      have step: "matches_loop prev (s # sub) topic =
          (if t = [] \<and> sub = ''/#'' then (MOSQ_ERR_SUCCESS, True)
           else if sub = [] \<and> t = [] then (MOSQ_ERR_SUCCESS, True)
           else if t = [] \<and> sub = ''+'' then
             (if s \<noteq> CHR ''/'' then (MOSQ_ERR_INVAL, False) else (MOSQ_ERR_SUCCESS, True))
           else matches_loop (Some s) sub t)"
        using nw by (simp add: t char_at_def)
      have sem: "inside (s # sub) topic = (if s = CHR ''/'' then at_start sub t else inside sub t)"
        by (simp add: t inside_Cons)
      consider (a) "t = []" "sub = ''/#''" | (b) "t = []" "sub = []" | (c) "t = []" "sub = ''+''"
        | (d) "\<not> (t = [] \<and> sub = [])" "\<not> (t = [] \<and> sub = ''/#'')" "\<not> (t = [] \<and> sub = ''+'')"
        by blast
      then show ?thesis
      proof cases
        case a
        then show ?thesis unfolding goal unfolding sem step by (simp add: at_start_def inside_Nil)
      next
        case b
        then show ?thesis unfolding goal unfolding sem step by (simp add: at_start_def inside_Nil_left)
      next
        case c
        then have "s = CHR ''/''" using v by (auto simp: valid_inside_Cons is_wild_def split: if_splits)
        with c show ?thesis unfolding goal unfolding sem step by (simp add: at_start_def)
      next
        case d
        then have "matches_loop prev (s # sub) topic = matches_loop (Some s) sub t"
          unfolding step by auto
        with rec [OF d] show ?thesis unfolding goal unfolding sem by simp
      qed
    qed
  qed
qed

section \<open>The checks accept exactly the valid names and filters\<close>

lemma pub_topic_loop_eq:
  "pub_topic_loop s len hier =
     (if list_ex is_wild s then None else Some (len + length s, hier + count_list s (CHR ''/'')))"
  by (induction s len hier rule: pub_topic_loop.induct) (auto simp: is_wild_def)

lemma valid_filter_Cons_iff:
  "valid_filter (levels (c # s)) \<longleftrightarrow>
     (if c = CHR ''+'' then (s = [] \<or> char_at s = CHR ''/'') \<and> valid_inside s
      else if c = CHR ''#'' then s = [] else valid_inside (c # s))" (is "?L \<longleftrightarrow> ?R")
proof
  assume ?L
  then show ?R
    using valid_start_Cons [of c s] by (auto simp: is_wild_def)
next
  assume r: ?R
  have h: "s = [] \<or> char_at s = CHR ''/'' \<Longrightarrow> hd (levels s) = []"
    by (cases s) (auto simp: char_at_def)
  from r h show ?L
    by (auto simp: valid_inside_def levels_hd_tl [symmetric] split: if_splits)
qed

lemma sub_topic_loop_eq:
  "cstring s \<Longrightarrow>
   sub_topic_loop c s len hier =
     (if (if c = CHR 0x00 \<or> c = CHR ''/'' then valid_filter (levels s) else valid_inside s)
      then Some (len + length s, hier + count_list s (CHR ''/'')) else None)"
proof (induction c s len hier rule: sub_topic_loop.induct)
  case (1 c len hier)
  then show ?case by (simp add: valid_inside_def)
next
  case (2 c x s len hier)
  have cs: "cstring s" "x \<noteq> CHR 0x00" using "2.prems" by (simp_all add: cstring_Cons)
  consider (plus) "x = CHR ''+''" | (hash) "x = CHR ''#''" | (plain) "\<not> is_wild x"
    by (auto simp: is_wild_def)
  then show ?case
  proof cases
    case plus
    then show ?thesis
      using "2.IH"(1) [OF plus _ cs(1)] cs valid_filter_Cons_iff [of x s] valid_inside_Cons [of x s]
      by (auto simp: char_at_eq_NUL is_wild_def simp del: levels.simps)
  next
    case hash
    then show ?thesis
      using "2.IH"(2) [OF _ hash _ cs(1)] cs valid_filter_Cons_iff [of x s] valid_inside_Cons [of x s]
      by (auto simp: char_at_eq_NUL is_wild_def valid_inside_def simp del: levels.simps(2))
  next
    case plain
    then show ?thesis
      using "2.IH"(3) [OF _ _ cs(1)] cs valid_filter_Cons_iff [of x s] valid_inside_Cons [of x s]
      by (auto simp: is_wild_def simp del: levels.simps)
  qed
qed

lemma sub_topic_loop2_eq:
  "cstring s \<Longrightarrow> sub_topic_loop2 c s hier = map_option snd (sub_topic_loop c s len hier)"
  by (induction c s len hier rule: sub_topic_loop.induct)
     (auto simp: char_at_eq_NUL cstring_Cons)

lemma pub_topic_check_iff:
  "mosquitto_pub_topic_check (Some s) = MOSQ_ERR_SUCCESS \<longleftrightarrow>
     \<not> list_ex is_wild s \<and> length s \<le> 65535 \<and> count_list s (CHR ''/'') \<le> TOPIC_HIERARCHY_LIMIT"
  by (auto simp: mosquitto_pub_topic_check_def pub_topic_loop_eq)

lemma sub_topic_check_iff:
  "cstring s \<Longrightarrow> mosquitto_sub_topic_check (Some s) = MOSQ_ERR_SUCCESS \<longleftrightarrow>
     valid_filter (levels s) \<and> length s \<le> 65535 \<and> count_list s (CHR ''/'') \<le> TOPIC_HIERARCHY_LIMIT"
  by (auto simp: mosquitto_sub_topic_check_def sub_topic_loop_eq)

section \<open>Properties\<close>

text \<open>
  C13: for a topic filter that \<open>mosquitto_sub_topic_check\<close> accepts and a topic name that
  \<open>mosquitto_pub_topic_check\<close> accepts, both not empty, the matcher succeeds and its result
  is MQTT matching on topic levels: \<open>+\<close> stands for one level, a final \<open>#\<close> for any
  number of levels including none, other levels match themselves, and a name that starts with
  \<open>$\<close> is only matched by a filter that starts with \<open>$\<close>.
\<close>

theorem mosquitto_topic_matches_sub_correct:
  assumes "cstring sub" and "sub \<noteq> []" and "topic \<noteq> []"
    and "mosquitto_sub_topic_check (Some sub) = MOSQ_ERR_SUCCESS"
    and "mosquitto_pub_topic_check (Some topic) = MOSQ_ERR_SUCCESS"
  shows "mosquitto_topic_matches_sub (Some sub) (Some topic) =
    (MOSQ_ERR_SUCCESS, topic_matches sub topic)"
proof -
  have v: "valid_filter (levels sub)" using assms(1,4) by (simp add: sub_topic_check_iff)
  have n: "list_all (\<lambda>c. \<not> is_wild c) topic"
    using assms(5) by (simp add: pub_topic_check_iff list_ex_iff list_all_iff)
  have "matches_loop None sub topic = (MOSQ_ERR_SUCCESS, at_start sub topic)"
    using matches_loop_correct [of sub topic None] assms(1-3) v n by (simp add: level_start_def)
  with assms(2,3) show ?thesis
    by (cases sub; cases topic)
       (auto simp: mosquitto_topic_matches_sub_def mosquitto_topic_matches_sub2_def
          topic_matches_def at_start_def char_at_def)
qed

theorem mosquitto_topic_matches_sub_correct_witness:
  "mosquitto_topic_matches_sub (Some ''sport/+/#'') (Some ''sport/tennis'') =
     (MOSQ_ERR_SUCCESS, topic_matches ''sport/+/#'' ''sport/tennis'')"
  by (rule mosquitto_topic_matches_sub_correct)
     (simp_all add: cstring_def mosquitto_sub_topic_check_def mosquitto_pub_topic_check_def char_at_def)

text \<open>
  C14: the two filter checks agree: given the length of a C string, the second form of the check
  returns what the first returns, and both accept exactly the filters of at most 65535
  characters and 200 separators in which every level is free of wildcards, is \<open>+\<close>, or is
  a final \<open>#\<close>.
\<close>

theorem mosquitto_sub_topic_check_exact:
  assumes "cstring s"
  shows "mosquitto_sub_topic_check (Some s) =
      (if valid_filter (levels s) \<and> length s \<le> 65535 \<and>
          count_list s (CHR ''/'') \<le> TOPIC_HIERARCHY_LIMIT
       then MOSQ_ERR_SUCCESS else MOSQ_ERR_INVAL) \<and>
    mosquitto_sub_topic_check2 (Some s) (length s) = mosquitto_sub_topic_check (Some s)"
  using assms
  by (auto simp: mosquitto_sub_topic_check_def mosquitto_sub_topic_check2_def sub_topic_loop_eq
      sub_topic_loop2_eq [where len = 0])

theorem mosquitto_sub_topic_check_exact_witness:
  "mosquitto_sub_topic_check (Some ''a/#/b'') = MOSQ_ERR_INVAL \<and>
   mosquitto_sub_topic_check2 (Some ''a/+/b'') 5 = MOSQ_ERR_SUCCESS"
proof
  have "\<not> valid_filter (levels ''a/#/b'')" by (simp add: is_wild_def)
  then show "mosquitto_sub_topic_check (Some ''a/#/b'') = MOSQ_ERR_INVAL"
    using mosquitto_sub_topic_check_exact [of "''a/#/b''"] by (simp add: cstring_def)
  have len: "length ''a/+/b'' = 5" by simp
  have "valid_filter (levels ''a/+/b'')" by (simp add: is_wild_def)
  moreover have "count_list ''a/+/b'' (CHR ''/'') \<le> TOPIC_HIERARCHY_LIMIT" by simp
  ultimately show "mosquitto_sub_topic_check2 (Some ''a/+/b'') 5 = MOSQ_ERR_SUCCESS"
    using mosquitto_sub_topic_check_exact [of "''a/+/b''"] unfolding len
    by (simp add: cstring_def)
qed

end
