(* ===== verification/Send_Mosq.thy ===== *)
theory Send_Mosq
  imports Packet_Mosq Topic
begin

text \<open>
  The packets the broker sends to a client: the commands with a message identifier and the
  simple commands of \<^verbatim>\<open>lib/send_mosq.c\<close>, and PUBLISH of
  \<^verbatim>\<open>lib/send_publish.c\<close> with its topic mapping for mount points and bridges. Each
  operation builds a packet and hands it to \<open>packet__queue\<close>. Logging is not modelled. The
  theorems say which bytes are added to the stream that the client receives.
\<close>

section \<open>Simple commands\<close>

definition send__simple_command :: "db \<Rightarrow> mosquitto \<Rightarrow> u8 \<Rightarrow> (rc \<times> mosquitto) res" where
  "send__simple_command d mosq command =
    res_bind (packet__alloc (packet_zero\<lparr>pk_command := command, pk_remaining_length := 0\<rparr>))
      (\<lambda>(rc, packet). if rc \<noteq> 0 then Ok (rc, mosq) else packet__queue d mosq packet)"

text \<open>\<open>mosquitto_time\<close> reads the monotonic clock.\<close>

definition send__pingreq :: "db \<Rightarrow> mosquitto \<Rightarrow> (rc \<times> mosquitto) res" where
  "send__pingreq d mosq =
    res_bind (send__simple_command d mosq 0xC0) (\<lambda>(rc, mosq).
      if rc = MOSQ_ERR_SUCCESS then Ok (rc, mosq\<lparr>mq_ping_t := tv_sec (db_monotonic d)\<rparr>)
      else Ok (rc, mosq))"

definition send__pingresp :: "db \<Rightarrow> mosquitto \<Rightarrow> (rc \<times> mosquitto) res" where
  "send__pingresp d mosq = send__simple_command d mosq 0xD0"

section \<open>Commands with a message identifier\<close>

definition send__command_with_mid ::
    "db \<Rightarrow> mosquitto \<Rightarrow> u8 \<Rightarrow> u16 \<Rightarrow> bool \<Rightarrow> u8 \<Rightarrow> mosquitto_property list \<Rightarrow> (rc \<times> mosquitto) res" where
  "send__command_with_mid d mosq command mid dup reason_code properties =
    (let command = (if dup then command OR 8 else command);
         remaining_length = 2;
         remaining_length =
           (if mq_protocol mosq = mosq_p_mqtt5 then
              (let remaining_length =
                     (if reason_code \<noteq> 0 \<or> properties \<noteq> [] then remaining_length + 1
                      else remaining_length)
               in if properties \<noteq> [] then
                    remaining_length + property__get_remaining_length properties
                  else remaining_length)
            else remaining_length)
     in res_bind (packet__alloc (packet_zero\<lparr>pk_command := command,
                                  pk_remaining_length := remaining_length\<rparr>)) (\<lambda>(rc, packet).
        if rc \<noteq> 0 then Ok (rc, mosq)
        else res_bind (packet__write_uint16 packet mid) (\<lambda>packet.
          res_bind
            (if mq_protocol mosq = mosq_p_mqtt5 \<and> (reason_code \<noteq> 0 \<or> properties \<noteq> [])
             then packet__write_byte packet reason_code else Ok packet) (\<lambda>packet.
          res_bind
            (if mq_protocol mosq = mosq_p_mqtt5 \<and> properties \<noteq> []
             then res_bind (property__write_all packet properties True) (\<lambda>(packet, _). Ok packet)
             else Ok packet) (\<lambda>packet.
          packet__queue d mosq packet)))))"

definition send__puback ::
    "db \<Rightarrow> mosquitto \<Rightarrow> u16 \<Rightarrow> u8 \<Rightarrow> mosquitto_property list \<Rightarrow> (rc \<times> mosquitto) res" where
  "send__puback d mosq mid reason_code properties =
    (let mosq = util__increment_receive_quota mosq in
     send__command_with_mid d mosq 0x40 mid False reason_code properties)"

definition send__pubcomp ::
    "db \<Rightarrow> mosquitto \<Rightarrow> u16 \<Rightarrow> mosquitto_property list \<Rightarrow> (rc \<times> mosquitto) res" where
  "send__pubcomp d mosq mid properties =
    (let mosq = util__increment_receive_quota mosq in
     send__command_with_mid d mosq 0x70 mid False 0 properties)"

definition send__pubrec ::
    "db \<Rightarrow> mosquitto \<Rightarrow> u16 \<Rightarrow> u8 \<Rightarrow> mosquitto_property list \<Rightarrow> (rc \<times> mosquitto) res" where
  "send__pubrec d mosq mid reason_code properties =
    (let mosq = (if reason_code \<ge> 0x80 \<and> mq_protocol mosq = mosq_p_mqtt5
                 then util__increment_receive_quota mosq else mosq)
     in send__command_with_mid d mosq 0x50 mid False reason_code properties)"

definition send__pubrel ::
    "db \<Rightarrow> mosquitto \<Rightarrow> u16 \<Rightarrow> mosquitto_property list \<Rightarrow> (rc \<times> mosquitto) res" where
  "send__pubrel d mosq mid properties =
     send__command_with_mid d mosq (0x60 OR 2) mid False 0 properties"

section \<open>PUBLISH\<close>

definition expiry_property :: "u32 \<Rightarrow> mosquitto_property" where
  "expiry_property expiry_interval = property_zero\<lparr>pr_i32 := expiry_interval,
     pr_identifier := MQTT_PROP_MESSAGE_EXPIRY_INTERVAL, pr_client_generated := False\<rparr>"

text \<open>The variable header: topic, message identifier and properties.\<close>

definition publish_header ::
    "packet \<Rightarrow> string option \<Rightarrow> u8 \<Rightarrow> u16 \<Rightarrow> bool \<Rightarrow> u32 \<Rightarrow> mosquitto_property list \<Rightarrow>
     mosquitto_property list \<Rightarrow> u32 \<Rightarrow> packet res" where
  "publish_header packet topic qos mid v5 proplen cmsg_props store_props expiry_interval =
    res_bind (case topic of
        Some t \<Rightarrow> packet__write_string packet (bytes_of_string t) (of_nat (length t))
      | None \<Rightarrow> packet__write_uint16 packet 0) (\<lambda>packet.
    res_bind (if qos > 0 then packet__write_uint16 packet mid else Ok packet) (\<lambda>packet.
    if v5 then
      res_bind (packet__write_varint packet proplen) (\<lambda>(packet, _).
      res_bind (property__write_all packet cmsg_props False) (\<lambda>(packet, _).
      res_bind (property__write_all packet store_props False) (\<lambda>(packet, _).
      if expiry_interval > 0 then
        res_bind (property__write_all packet [expiry_property expiry_interval] False)
          (\<lambda>(packet, _). Ok packet)
      else Ok packet)))
    else Ok packet))"

text \<open>
  \<open>topic\<close> is \<^const>\<open>None\<close> for a \<open>NULL\<close> pointer. \<open>packetlen\<close> and
  \<open>proplen\<close> are unsigned and wrap; \<open>strlen\<close> is converted to \<open>unsigned int\<close>
  and, in the call of \<open>packet__write_string\<close>, to \<open>uint16_t\<close>.
\<close>

definition send__real_publish ::
    "db \<Rightarrow> mosquitto \<Rightarrow> u16 \<Rightarrow> string option \<Rightarrow> u32 \<Rightarrow> store_ptr option \<Rightarrow> u8 \<Rightarrow> bool \<Rightarrow> bool \<Rightarrow>
     mosquitto_property list \<Rightarrow> mosquitto_property list \<Rightarrow> u32 \<Rightarrow> (rc \<times> mosquitto) res" where
  "send__real_publish d mosq mid topic payloadlen payload qos retain dup cmsg_props store_props expiry_interval =
    (let packetlen = (case topic of Some t \<Rightarrow> 2 + of_nat (length t) + payloadlen | None \<Rightarrow> 2 + payloadlen);
         packetlen = (if qos > 0 then packetlen + 2 else packetlen);
         proplen = property__get_length_all cmsg_props + property__get_length_all store_props +
           (if expiry_interval > 0 then property__get_length_all [expiry_property expiry_interval] else 0);
         varbytes = packet__varint_bytes proplen;
         v5 = (mq_protocol mosq = mosq_p_mqtt5);
         too_big = (v5 \<and> varbytes > 4);
         cmsg_props = (if too_big then [] else cmsg_props);
         store_props = (if too_big then [] else store_props);
         expiry_interval = (if too_big then 0 else expiry_interval);
         packetlen = (if v5 \<and> \<not> too_big then packetlen + proplen + varbytes else packetlen)
     in if packet__check_oversize mosq packetlen \<noteq> 0 then Ok (MOSQ_ERR_OVERSIZE_PACKET, mosq)
        else
          let packet = packet_zero\<lparr>pk_mid := mid,
                 pk_command := 0x30 OR (if dup then 8 else 0) OR push_bit 1 qos OR
                   (if retain then 1 else 0),
                 pk_remaining_length := packetlen, pk_pub_or_not := 4,
                 pk_payload_length := payloadlen\<rparr>
          in res_bind (packet__alloc packet) (\<lambda>(rc, packet).
             if rc \<noteq> 0 then Ok (rc, mosq)
             else res_bind (publish_header packet topic qos mid v5 proplen cmsg_props store_props
                     expiry_interval) (\<lambda>packet.
               packet__queue d mosq (packet\<lparr>pk_payload_store := payload\<rparr>))))"

text \<open>The loop over the topics of a bridge: the topic to use when one of them matches.\<close>

fun bridge_remap :: "bridge_topic list \<Rightarrow> string \<Rightarrow> rc \<times> string option" where
  "bridge_remap [] topic = (MOSQ_ERR_SUCCESS, None)"
| "bridge_remap (cur_topic # ts) topic =
    (if (bt_direction cur_topic = bd_both \<or> bt_direction cur_topic = bd_out) \<and>
        (bt_remote_prefix cur_topic \<noteq> None \<or> bt_local_prefix cur_topic \<noteq> None)
     then
       let (rc, match) = mosquitto_topic_matches_sub (Some (bt_local_topic cur_topic)) (Some topic) in
       if rc \<noteq> 0 then (rc, None)
       else if match then
         let mapped_topic = topic;
             mapped_topic = (case bt_local_prefix cur_topic of None \<Rightarrow> mapped_topic
               | Some p \<Rightarrow> if take (length p) mapped_topic = p then drop (length p) mapped_topic
                          else mapped_topic);
             mapped_topic = (case bt_remote_prefix cur_topic of None \<Rightarrow> mapped_topic
               | Some p \<Rightarrow> p @ mapped_topic)
         in (MOSQ_ERR_SUCCESS, Some mapped_topic)
       else bridge_remap ts topic
     else bridge_remap ts topic)"

definition send__publish ::
    "db \<Rightarrow> mosquitto \<Rightarrow> u16 \<Rightarrow> string option \<Rightarrow> u32 \<Rightarrow> store_ptr option \<Rightarrow> u8 \<Rightarrow> bool \<Rightarrow> bool \<Rightarrow>
     mosquitto_property list \<Rightarrow> mosquitto_property list \<Rightarrow> u32 \<Rightarrow> (rc \<times> mosquitto) res" where
  "send__publish d mosq mid topic_ptr payloadlen payload qos retain dup cmsg_props store_props expiry_interval =
    (if mq_sock mosq = INVALID_SOCKET then Ok (MOSQ_ERR_NO_CONN, mosq)
     else
       case topic_ptr of None \<Rightarrow> Fault
       | Some topic \<Rightarrow>
       let retain = (if \<not> mq_retain_available mosq then False else retain) in
       case (case mq_mount_point mosq of None \<Rightarrow> Some topic
             | Some mp \<Rightarrow> if length mp < length topic then Some (drop (length mp) topic) else None) of
         None \<Rightarrow> Ok (MOSQ_ERR_SUCCESS, mosq)
       | Some topic \<Rightarrow>
           let (rc, mapped) = (case mq_bridge mosq of
                 Some br \<Rightarrow> if br_topics br \<noteq> [] \<and> br_topic_remapping br
                            then bridge_remap (br_topics br) topic else (MOSQ_ERR_SUCCESS, None)
               | None \<Rightarrow> (MOSQ_ERR_SUCCESS, None))
           in if rc \<noteq> 0 then Ok (rc, mosq)
              else case mapped of
                Some mapped_topic \<Rightarrow>
                  send__real_publish d mosq mid (Some mapped_topic) payloadlen payload qos retain dup
                    cmsg_props store_props expiry_interval
              | None \<Rightarrow>
                  let mosq = (if topic = ''latency'' then mosq\<lparr>mq_send_time := db_monotonic d\<rparr> else mosq)
                  in send__real_publish d mosq mid (Some topic) payloadlen payload qos retain dup
                       cmsg_props store_props expiry_interval)"

section \<open>The bytes of a packet\<close>

lemma emits_rc_drop:
  assumes "emits_rc w xs" and "emits w' ys"
  shows "emits (\<lambda>p. res_bind (w p) (\<lambda>(p, _). w' p)) (xs @ ys)"
proof -
  have "emits (\<lambda>p. res_bind (w p) (\<lambda>(p, _). Ok p)) xs"
    using assms(1) by (simp add: emits_def emits_rc_def)
  from emits_bind [OF this assms(2)]
  show ?thesis by (simp add: res_bind_assoc case_prod_unfold)
qed

definition packet_of :: "u8 \<Rightarrow> bytes \<Rightarrow> bytes" where
  "packet_of command body = command # enc_varint (length body) @ body"

text \<open>Properties are written only for MQTT v5: the list without and with its length.\<close>

definition publish_props :: "mosquitto_property list \<Rightarrow> mosquitto_property list \<Rightarrow> u32 \<Rightarrow> mosquitto_property list" where
  "publish_props cmsg_props store_props expiry_interval =
     cmsg_props @ store_props @ (if expiry_interval > 0 then [expiry_property expiry_interval] else [])"

definition publish_var_header :: "string \<Rightarrow> u8 \<Rightarrow> u16 \<Rightarrow> bool \<Rightarrow> mosquitto_property list \<Rightarrow> bytes" where
  "publish_var_header topic qos mid v5 props =
     enc_binary (bytes_of_string topic) @ (if qos > 0 then enc_u16 mid else []) @
     (if v5 then enc_properties props else [])"

lemma writable_expiry: "writable_prop (expiry_property n)"
  by (simp add: writable_prop_def expiry_property_def prop_class_def)

lemma enc_property_list_append [simp]:
  "enc_property_list (ps @ qs) = enc_property_list ps @ enc_property_list qs"
  by (simp add: enc_property_list_def)

lemma publish_header_emits:
  assumes "length topic < 65536"
    and "\<forall>pr \<in> set (publish_props cmsg store ex). writable_prop pr"
    and "length (enc_property_list (publish_props cmsg store ex)) < 268435456"
    and "unat proplen = length (enc_property_list (publish_props cmsg store ex))"
  shows "emits (\<lambda>p. publish_header p (Some topic) qos mid v5 proplen cmsg store ex)
    (publish_var_header topic qos mid v5 (publish_props cmsg store ex))"
proof -
  have s: "emits (\<lambda>p. packet__write_string p (bytes_of_string topic) (of_nat (length topic)))
      (enc_binary (bytes_of_string topic))"
    using assms(1) by (intro write_string_emits) simp_all
  have q: "emits (\<lambda>p. if qos > 0 then packet__write_uint16 p mid else Ok p)
      (if qos > 0 then enc_u16 mid else [])"
    by (simp add: u16_wr.wr_emits emits_Ok)
  have w: "emits_rc (\<lambda>p. property__write_all p ps False) (enc_property_list ps)"
    if "set ps \<subseteq> set (publish_props cmsg store ex)"
      and "length (enc_property_list ps) \<le> length (enc_property_list (publish_props cmsg store ex))" for ps
    using that assms(2,3) by (intro property__write_all_emits(2)) auto
  have e: "emits (\<lambda>p. if ex > 0 then
        res_bind (property__write_all p [expiry_property ex] False) (\<lambda>(p, _). Ok p) else Ok p)
      (enc_property_list (if ex > 0 then [expiry_property ex] else []))"
  proof (cases "ex > 0")
    case True
    then have "emits_rc (\<lambda>p. property__write_all p [expiry_property ex] False)
        (enc_property_list [expiry_property ex])"
      by (intro w) (auto simp: publish_props_def)
    from emits_rc_drop [OF this emits_Ok] show ?thesis using True by simp
  qed (simp add: emits_Ok)
  have v: "emits_rc (\<lambda>p. packet__write_varint p proplen)
      (enc_varint (length (enc_property_list (publish_props cmsg store ex))))"
    using write_varint_emits [of proplen] assms(3,4) by simp
  have "emits_rc (\<lambda>p. property__write_all p cmsg False) (enc_property_list cmsg)"
    and "emits_rc (\<lambda>p. property__write_all p store False) (enc_property_list store)"
    by (intro w; auto simp: publish_props_def)+
  from emits_rc_drop [OF v emits_rc_drop [OF this(1) emits_rc_drop [OF this(2) e]]]
  have p: "emits (\<lambda>p. if v5 then
      res_bind (packet__write_varint p proplen) (\<lambda>(p, _).
      res_bind (property__write_all p cmsg False) (\<lambda>(p, _).
      res_bind (property__write_all p store False) (\<lambda>(p, _).
      if ex > 0 then res_bind (property__write_all p [expiry_property ex] False) (\<lambda>(p, _). Ok p)
      else Ok p))) else Ok p) (if v5 then enc_properties (publish_props cmsg store ex) else [])"
    by (simp add: emits_Ok enc_properties_def publish_props_def)
  from emits_bind [OF s emits_bind [OF q p]] show ?thesis
    unfolding publish_header_def publish_var_header_def by simp
qed

text \<open>
  What a PUBLISH must be for the lengths to add up: a topic of at most 65535 bytes, properties
  that fit their fields, and a packet within the MQTT limit of 268435455 bytes after the fixed
  header.
\<close>

definition publish_fits :: "string \<Rightarrow> u8 \<Rightarrow> u16 \<Rightarrow> bool \<Rightarrow> mosquitto_property list \<Rightarrow> bytes \<Rightarrow> bool" where
  "publish_fits topic qos mid v5 props pl \<longleftrightarrow> length topic < 65536 \<and>
     (\<forall>pr \<in> set props. writable_prop pr) \<and> length (enc_property_list props) < 268435456 \<and>
     length (publish_var_header topic qos mid v5 props @ pl) < 268435456"

lemma word_eq_of_nat: "unat (w :: u32) = n \<Longrightarrow> w = of_nat n"
  by auto

lemma publish_proplen:
  assumes "\<forall>pr \<in> set (publish_props cmsg store ex). writable_prop pr"
    and "length (enc_property_list (publish_props cmsg store ex)) < 268435456"
  shows "property__get_length_all cmsg + property__get_length_all store +
      (if ex > 0 then property__get_length_all [expiry_property ex] else 0) =
      of_nat (length (enc_property_list (publish_props cmsg store ex)))"
proof -
  have "property__get_length_all (ps @ qs) = property__get_length_all ps + property__get_length_all qs"
    for ps qs by (induction ps) (simp_all add: add.assoc)
  then have "property__get_length_all (publish_props cmsg store ex) =
      property__get_length_all cmsg + property__get_length_all store +
      (if ex > 0 then property__get_length_all [expiry_property ex] else 0)"
    by (simp add: publish_props_def add.assoc)
  moreover have "property__get_length_all (publish_props cmsg store ex) =
      of_nat (length (enc_property_list (publish_props cmsg store ex)))"
    using assms by (intro word_eq_of_nat unat_get_length_all) auto
  ultimately show ?thesis by simp
qed

definition publish_command :: "u8 \<Rightarrow> bool \<Rightarrow> bool \<Rightarrow> u8" where
  "publish_command qos retain dup =
     0x30 OR (if dup then 8 else 0) OR push_bit 1 qos OR (if retain then 1 else 0)"

lemma send__real_publish_stream:
  fixes topic :: string
  assumes fits: "publish_fits topic qos mid (mq_protocol m = mosq_p_mqtt5) (publish_props cmsg store ex) pl"
    and pl: "payload_bytes d payload payloadlen = Ok pl" and wf: "out_wf d m"
  shows "let body = publish_var_header topic qos mid (mq_protocol m = mosq_p_mqtt5)
           (publish_props cmsg store ex) @ pl in
    (if packet__check_oversize m (of_nat (length body)) \<noteq> 0 then
       send__real_publish d m mid (Some topic) payloadlen payload qos retain dup cmsg store ex =
         Ok (MOSQ_ERR_OVERSIZE_PACKET, m)
     else \<exists>rc m'.
       send__real_publish d m mid (Some topic) payloadlen payload qos retain dup cmsg store ex =
         Ok (rc, m') \<and> out_frame m m' \<and> out_wf d m' \<and> count_gap m' = count_gap m \<and>
       mq_wire m' @ out_stream d m' = mq_wire m @ out_stream d m @
         packet_of (publish_command qos retain dup) body)"
proof -
  let ?v5 = "mq_protocol m = mosq_p_mqtt5" and ?props = "publish_props cmsg store ex"
  let ?P = "enc_property_list ?props" and ?vh = "publish_var_header topic qos mid ?v5 ?props"
  let ?proplen = "of_nat (length ?P) :: u32"
  define N where "N = length (?vh @ pl)"
  have t: "length topic < 65536" and w: "\<forall>pr \<in> set ?props. writable_prop pr"
    and P: "length ?P < 268435456" and n: "N < 268435456"
    using fits by (simp_all add: publish_fits_def N_def)
  note plen = publish_proplen [OF w P]
  have up: "unat ?proplen = length ?P" using P by (simp add: unat_of_nat take_bit_nat_eq_self)
  have vb: "packet__varint_bytes ?proplen = of_nat (length (enc_varint (length ?P)))"
    using unat_varint_bytes [of ?proplen] P up by (intro word_eq_of_nat) simp
  have small: "\<not> packet__varint_bytes ?proplen > 4"
    unfolding vb using length_enc_varint_le [OF P]
    by (simp add: word_less_nat_alt unat_of_nat take_bit_nat_eq_self)
  have lpl: "payloadlen = of_nat (length pl)"
    using payload_bytes_length [OF pl] by simp
  let ?len = "(let l = 2 + of_nat (length topic) + payloadlen; l = (if qos > 0 then l + 2 else l)
       in if ?v5 then l + ?proplen + packet__varint_bytes ?proplen else l) :: u32"
  have len: "?len = of_nat N"
    by (simp add: Let_def publish_var_header_def enc_properties_def vb lpl N_def)
  have ulen: "unat (of_nat N :: u32) = N" using n by (simp add: unat_of_nat take_bit_nat_eq_self)
  let ?pk = "packet_zero\<lparr>pk_mid := mid, pk_command := publish_command qos retain dup,
       pk_remaining_length := of_nat N, pk_pub_or_not := 4, pk_payload_length := payloadlen\<rparr>"
  define send where "send = send__real_publish d m mid (Some topic) payloadlen payload qos retain dup cmsg store ex"
  have unf: "send = (if packet__check_oversize m (of_nat N) \<noteq> 0 then Ok (MOSQ_ERR_OVERSIZE_PACKET, m)
      else res_bind (packet__alloc ?pk) (\<lambda>(rc, packet). if rc \<noteq> 0 then Ok (rc, m)
        else res_bind (publish_header packet (Some topic) qos mid ?v5 ?proplen cmsg store ex)
          (\<lambda>packet. packet__queue d m (packet\<lparr>pk_payload_store := payload\<rparr>))))"
    unfolding send_def send__real_publish_def plen len [symmetric] publish_command_def Let_def
    using small by simp
  have "unat (pk_remaining_length ?pk) = length ?vh + outside_length ?pk"
    using payload_bytes_length [OF pl] by (simp add: outside_length_def ulen) (simp add: N_def)
  from packet_built [OF this] n ulen obtain a where a: "packet__alloc ?pk = Ok (MOSQ_ERR_SUCCESS, a)"
    and c: "can_write a (length ?vh)"
    and pay: "pk_payload (put a ?vh) = publish_command qos retain dup # enc_varint N @ ?vh"
    and pkl: "unat (pk_packet_length a) = Suc (length (enc_varint N)) + N"
    and f: "pk_pub_or_not a = 4" "pk_payload_length a = payloadlen"
    by auto
  let ?q = "(put a ?vh)\<lparr>pk_payload_store := payload\<rparr>"
  have h: "publish_header a (Some topic) qos mid ?v5 ?proplen cmsg store ex = Ok (put a ?vh)"
    by (rule emitsD [OF publish_header_emits [OF t w P up] c])
  have "length pl = unat payloadlen" by (rule payload_bytes_length [OF pl])
  then have "unat (pk_packet_length ?q) = length (pk_payload ?q) + outside_length ?q"
    using pkl pay f by (simp add: outside_length_def N_def)
  moreover have "outside_bytes d ?q = Ok pl" using f pl by (simp add: outside_bytes_def)
  ultimately obtain rc m' where
    q: "packet__queue d m ?q = Ok (rc, m')" "out_frame m m'" "out_wf d m'" "count_gap m' = count_gap m"
      "mq_wire m' @ out_stream d m' = mq_wire m @ out_stream d m @ pk_payload ?q @ pl"
    using queue_filled [OF wf] by blast
  have pp: "pk_payload ?q @ pl = packet_of (publish_command qos retain dup) (?vh @ pl)"
    by (simp add: pay packet_of_def N_def)
  have "send = (if packet__check_oversize m (of_nat N) \<noteq> 0 then Ok (MOSQ_ERR_OVERSIZE_PACKET, m)
      else Ok (rc, m'))"
    unfolding unf by (simp add: a h q(1))
  then show ?thesis
    using q unfolding pp send_def [symmetric] Let_def N_def [symmetric] by auto
qed

section \<open>What sending leaves alone\<close>

lemma send__real_publish_frame:
  "send__real_publish d m mid topic len payload qos retain dup cmsg store ex = Ok (rc, m') \<Longrightarrow>
   out_frame m m'"
  by (auto simp: send__real_publish_def Let_def res_bind_Ok_iff dest: packet__queue_frame
      split: if_splits)

lemma send__publish_frame:
  assumes "send__publish d m mid topic len payload qos retain dup cmsg store ex = Ok (rc, m')"
  shows "out_frame (m\<lparr>mq_send_time := mq_send_time m'\<rparr>) m'"
proof -
  have self: "out_frame (m\<lparr>mq_send_time := mq_send_time m\<rparr>) m" by simp
  have 1: "out_frame (m\<lparr>mq_send_time := mq_send_time m'\<rparr>) m'" if "out_frame m m'"
    using that out_frame_fields(8) [OF that] by simp
  have 2: "out_frame (m\<lparr>mq_send_time := mq_send_time m'\<rparr>) m'" if "out_frame (m\<lparr>mq_send_time := t\<rparr>) m'" for t
    using that out_frame_fields(8) [OF that] by simp
  show ?thesis
    using assms
    by (auto simp: send__publish_def Let_def intro: 1 2 dest!: send__real_publish_frame
        split: if_splits option.splits prod.splits)
qed

lemma send__command_with_mid_frame:
  "send__command_with_mid d m command mid dup reason props = Ok (rc, m') \<Longrightarrow> out_frame m m'"
  by (auto simp: send__command_with_mid_def Let_def res_bind_Ok_iff dest: packet__queue_frame
      split: if_splits)

section \<open>Acknowledgements\<close>

text \<open>The body of PUBACK, PUBREC, PUBREL and PUBCOMP without properties.\<close>

definition ack_body :: "bool \<Rightarrow> u16 \<Rightarrow> u8 \<Rightarrow> bytes" where
  "ack_body v5 mid reason_code = enc_u16 mid @ (if v5 \<and> reason_code \<noteq> 0 then [reason_code] else [])"

text \<open>Allocating a packet, filling it with a body and queueing it adds the packet to the stream.\<close>

lemma packet_sent:
  assumes wf: "out_wf d m" and e: "emits fill b" and n: "unat n = length b" and small: "length b < 268435456"
  shows "\<exists>rc m'. res_bind (packet__alloc (packet_zero\<lparr>pk_command := command, pk_remaining_length := n\<rparr>))
      (\<lambda>(rc, packet). if rc \<noteq> 0 then Ok (rc, m) else res_bind (fill packet) (packet__queue d m)) = Ok (rc, m') \<and>
    out_frame m m' \<and> out_wf d m' \<and> count_gap m' = count_gap m \<and>
    mq_wire m' @ out_stream d m' = mq_wire m @ out_stream d m @ packet_of command b"
proof -
  let ?pk = "packet_zero\<lparr>pk_command := command, pk_remaining_length := n\<rparr>"
  obtain a where a: "packet__alloc ?pk = Ok (MOSQ_ERR_SUCCESS, a)" and c: "can_write a (length b)"
    and pay: "pk_payload (put a b) = packet_of command b"
    and pkl: "unat (pk_packet_length a) = length (packet_of command b)"
    and f: "pk_pub_or_not a = 0"
    using packet_built [of ?pk b] n small
    by (auto simp: outside_length_def packet_zero_def packet_of_def)
  have l: "unat (pk_packet_length (put a b)) = length (pk_payload (put a b)) + outside_length (put a b)"
    by (simp add: outside_length_def f pay pkl)
  have o: "outside_bytes d (put a b) = Ok []" by (simp add: outside_bytes_def f)
  from queue_filled [OF wf o l] show ?thesis
    unfolding pay append_Nil2 a using emitsD [OF e c] by simp
qed

lemma send__command_with_mid_stream:
  assumes wf: "out_wf d m"
  shows "\<exists>rc m'. send__command_with_mid d m command mid False reason [] = Ok (rc, m') \<and>
    out_frame m m' \<and> out_wf d m' \<and> count_gap m' = count_gap m \<and>
    mq_wire m' @ out_stream d m' = mq_wire m @ out_stream d m @
      packet_of command (ack_body (mq_protocol m = mosq_p_mqtt5) mid reason)"
proof -
  let ?v5 = "mq_protocol m = mosq_p_mqtt5"
  let ?b = "ack_body ?v5 mid reason"
  let ?fill = "\<lambda>p. res_bind (packet__write_uint16 p mid) (\<lambda>p.
      if ?v5 \<and> reason \<noteq> 0 then packet__write_byte p reason else Ok p)"
  have "emits (\<lambda>p. if ?v5 \<and> reason \<noteq> 0 then packet__write_byte p reason else Ok p)
      (if ?v5 \<and> reason \<noteq> 0 then [reason] else [])"
    using byte_wr.wr_emits [OF TrueI, of reason] emits_Ok by (rule emits_if)
  from emits_bind [OF u16_wr.wr_emits [OF TrueI, of mid] this]
  have e: "emits ?fill ?b" by (simp add: ack_body_def)
  have "send__command_with_mid d m command mid False reason [] =
    res_bind (packet__alloc (packet_zero\<lparr>pk_command := command,
        pk_remaining_length := (if ?v5 \<and> reason \<noteq> 0 then 3 else 2)\<rparr>))
      (\<lambda>(rc, packet). if rc \<noteq> 0 then Ok (rc, m) else res_bind (?fill packet) (packet__queue d m))"
    by (auto simp: send__command_with_mid_def res_bind_assoc intro!: arg_cong2 [of _ _ _ _ res_bind] ext)
  with packet_sent [OF wf e, of "if ?v5 \<and> reason \<noteq> 0 then 3 else 2" command] show ?thesis
    by (simp add: ack_body_def)
qed

section \<open>Properties\<close>

text \<open>
  C10: a PUBLISH that respects the field widths and the MQTT size limit, whose payload is in the
  store, either is refused as oversize without any change, or adds to the client's stream
  exactly the bytes of the MQTT packet: the command byte with the DUP, QoS and retain bits, the
  remaining length, topic, message identifier for QoS above 0, properties for MQTT v5 (the
  client's, the stored ones and the remaining expiry), and the payload. Building the header
  never leaves its buffer, which holds no room for the payload.
\<close>

theorem send__real_publish_bytes:
  fixes topic :: string
  assumes "publish_fits topic qos mid (mq_protocol m = mosq_p_mqtt5) (publish_props cmsg store ex) pl"
    and "payload_bytes d payload payloadlen = Ok pl" and "out_wf d m"
  shows "let body = publish_var_header topic qos mid (mq_protocol m = mosq_p_mqtt5)
           (publish_props cmsg store ex) @ pl in
    (if packet__check_oversize m (of_nat (length body)) \<noteq> 0 then
       send__real_publish d m mid (Some topic) payloadlen payload qos retain dup cmsg store ex =
         Ok (MOSQ_ERR_OVERSIZE_PACKET, m)
     else \<exists>rc m'.
       send__real_publish d m mid (Some topic) payloadlen payload qos retain dup cmsg store ex =
         Ok (rc, m') \<and> out_wf d m' \<and>
       mq_wire m' @ out_stream d m' = mq_wire m @ out_stream d m @
         packet_of (publish_command qos retain dup) body)"
  using send__real_publish_stream [OF assms, of retain dup]
  by (auto simp: Let_def split: if_splits)

text \<open>A retained QoS 1 message \<open>hi\<close> on the topic \<open>t\<close> for an MQTT 3.1.1 client.\<close>

theorem send__real_publish_bytes_witness:
  "let d = db_zero\<lparr>db_msg_store := [(7, msg_store_zero\<lparr>ms_payload := [104, 105], ms_payloadlen := 2\<rparr>)]\<rparr>;
       m = mosquitto_zero\<lparr>mq_sock := 5, mq_protocol := mosq_p_mqtt311\<rparr>
   in \<exists>rc m'. send__real_publish d m 258 (Some ''t'') 2 (Some 7) 1 True False [] [] 0 = Ok (rc, m') \<and>
        mq_wire m' @ out_stream d m' = [0x33, 7, 0, 1, 116, 1, 2, 104, 105]"
proof -
  let ?d = "db_zero\<lparr>db_msg_store := [(7, msg_store_zero\<lparr>ms_payload := [104, 105], ms_payloadlen := 2\<rparr>)]\<rparr>"
  let ?m = "mosquitto_zero\<lparr>mq_sock := 5, mq_protocol := mosq_p_mqtt311\<rparr>"
  have v: "publish_var_header ''t'' 1 258 False (publish_props [] [] 0) = [0, 1, 116, 1, 2]"
    by (simp add: publish_var_header_def enc_binary_def enc_u16_def MOSQ_MSB_def MOSQ_LSB_def
        bytes_of_string_def byte_of_char_def)
  have f: "publish_fits ''t'' 1 258 (mq_protocol ?m = mosq_p_mqtt5) (publish_props [] [] 0) [104, 105]"
    using v by (simp add: publish_fits_def publish_props_def)
  have p: "payload_bytes ?d (Some 7) 2 = Ok [104, 105]"
    by (simp add: payload_bytes_def store_at_def msg_store_zero_def)
  have w: "out_wf ?d ?m" by (simp add: out_wf_def out_packets_def mosquitto_zero_def)
  have o: "packet__check_oversize ?m n = 0" for n
    by (simp add: packet__check_oversize_def mosquitto_zero_def)
  have e: "mq_wire ?m @ out_stream ?d ?m = []"
    by (simp add: out_stream_def out_packets_def mosquitto_zero_def)
  have c: "packet_of (publish_command 1 True False) ([0, 1, 116, 1, 2] @ [104, 105]) =
      [0x33, 7, 0, 1, 116, 1, 2, 104, 105]"
    by (simp add: packet_of_def publish_command_def enc_varint_small)
  show ?thesis
    using send__real_publish_bytes [OF f p w, of True False] v e c o unfolding Let_def by auto
qed

text \<open>
  C16: the acknowledgements PUBACK, PUBREC, PUBREL and PUBCOMP add to the client's stream the
  command byte, the remaining length, the message identifier and, for MQTT v5 with a reason
  code, that code; PUBACK, PUBCOMP and a refusing PUBREC give a unit of the receive quota back.
\<close>

theorem send__acks_bytes:
  assumes "out_wf d m"
  shows "(\<exists>rc m'. send__puback d m mid reason [] = Ok (rc, m') \<and> out_wf d m' \<and>
      mq_msgs_in m' = mq_msgs_in (util__increment_receive_quota m) \<and>
      mq_wire m' @ out_stream d m' = mq_wire m @ out_stream d m @
        packet_of 0x40 (ack_body (mq_protocol m = mosq_p_mqtt5) mid reason)) \<and>
    (\<exists>rc m'. send__pubcomp d m mid [] = Ok (rc, m') \<and> out_wf d m' \<and>
      mq_msgs_in m' = mq_msgs_in (util__increment_receive_quota m) \<and>
      mq_wire m' @ out_stream d m' = mq_wire m @ out_stream d m @
        packet_of 0x70 (ack_body (mq_protocol m = mosq_p_mqtt5) mid 0)) \<and>
    (\<exists>rc m'. send__pubrec d m mid reason [] = Ok (rc, m') \<and> out_wf d m' \<and>
      mq_msgs_in m' = mq_msgs_in (if reason \<ge> 0x80 \<and> mq_protocol m = mosq_p_mqtt5
        then util__increment_receive_quota m else m) \<and>
      mq_wire m' @ out_stream d m' = mq_wire m @ out_stream d m @
        packet_of 0x50 (ack_body (mq_protocol m = mosq_p_mqtt5) mid reason)) \<and>
    (\<exists>rc m'. send__pubrel d m mid [] = Ok (rc, m') \<and> out_wf d m' \<and>
      mq_wire m' @ out_stream d m' = mq_wire m @ out_stream d m @
        packet_of 0x62 (ack_body (mq_protocol m = mosq_p_mqtt5) mid 0))"
proof -
  let ?i = "util__increment_receive_quota m"
  have i: "out_wf d ?i" "mq_wire ?i = mq_wire m" "out_stream d ?i = out_stream d m"
    "mq_protocol ?i = mq_protocol m"
    using assms
    by (simp_all add: util__increment_receive_quota_def Let_def out_wf_def out_packets_def
        out_stream_def)
  note s = send__command_with_mid_stream [OF assms] send__command_with_mid_stream [OF i(1)]
  have "(0x60 :: u8) OR 2 = 0x62" by simp
  then show ?thesis
    using s(1) [where command = "0x50" and mid = mid and reason = reason]
      s(1) [where command = "0x62" and mid = mid and reason = 0]
      s(2) [where command = "0x40" and mid = mid and reason = reason]
      s(2) [where command = "0x70" and mid = mid and reason = 0]
      s(2) [where command = "0x50" and mid = mid and reason = reason] i
    by (auto simp: send__puback_def send__pubcomp_def send__pubrec_def send__pubrel_def Let_def
        out_frame_fields(2))
qed

theorem send__acks_bytes_witness:
  "\<exists>rc m'. send__puback db_zero mosquitto_zero 258 0 [] = Ok (rc, m') \<and>
     mq_wire m' @ out_stream db_zero m' = [0x40, 2, 1, 2]"
proof -
  have w: "out_wf db_zero mosquitto_zero"
    by (simp add: out_wf_def out_packets_def mosquitto_zero_def)
  have e: "mq_wire mosquitto_zero @ out_stream db_zero mosquitto_zero = []"
    by (simp add: out_stream_def out_packets_def mosquitto_zero_def)
  have "packet_of 0x40 (ack_body (mq_protocol mosquitto_zero = mosq_p_mqtt5) 258 0) = [0x40, 2, 1, 2]"
    by (simp add: packet_of_def ack_body_def enc_varint_small enc_u16_def MOSQ_MSB_def MOSQ_LSB_def
        mosquitto_zero_def)
  then show ?thesis
    using send__acks_bytes [OF w, where mid = 258 and reason = 0, THEN conjunct1] e by auto
qed

end
