(* ===== verification/Database.thy ===== *)
theory Database
  imports Send_Mosq
begin

text \<open>
  The message database of the broker, \<^verbatim>\<open>src/database.c\<close>: the reference-counted
  store of messages, and the three lists of messages that a client has in each direction. Of
  these, \<open>inflight\<close> and \<open>queued\<close> are those of Mosquitto, and \<open>storage\<close> is the
  list in which the adaptive transmit policy holds back large messages for a client in slow mode.

  An operation takes the database and the client and returns the code and both of them. A
  pointer to a message in a list is a split of the list around it. Dereferencing a stored message
  that is not in the store, or the first element of an empty list, is a fault. Failing
  allocations and logging are not modelled; the clocks do not advance inside an operation.
  \<open>db__messages_easy_queue\<close> and \<open>db__message_release_incoming\<close>, which go through the
  subscription tree, and opening and closing the database are not part of this theory.
\<close>

section \<open>The store of messages\<close>

definition store_get :: "db \<Rightarrow> store_ptr \<Rightarrow> mosquitto_msg_store res" where
  "store_get d p = (case store_at d p of None \<Rightarrow> Fault | Some st \<Rightarrow> Ok st)"

definition store_set :: "db \<Rightarrow> store_ptr \<Rightarrow> mosquitto_msg_store \<Rightarrow> db" where
  "store_set d p st = d\<lparr>db_msg_store := map (\<lambda>(q, x). if q = p then (q, st) else (q, x)) (db_msg_store d)\<rparr>"

definition db__msg_store_add :: "db \<Rightarrow> store_ptr \<Rightarrow> mosquitto_msg_store \<Rightarrow> db" where
  "db__msg_store_add d p store = d\<lparr>db_msg_store := (p, store) # db_msg_store d\<rparr>"

definition db__msg_store_remove :: "db \<Rightarrow> store_ptr \<Rightarrow> db res" where
  "db__msg_store_remove d p =
    res_bind (store_get d p) (\<lambda>store.
      Ok (d\<lparr>db_msg_store := filter (\<lambda>(q, _). q \<noteq> p) (db_msg_store d),
            db_msg_store_count := db_msg_store_count d - 1,
            db_msg_store_bytes := db_msg_store_bytes d - ucast (ms_payloadlen store)\<rparr>))"

fun msg_store_clean_loop :: "db \<Rightarrow> store_ptr list \<Rightarrow> db res" where
  "msg_store_clean_loop d [] = Ok d"
| "msg_store_clean_loop d (p # ps) = res_bind (db__msg_store_remove d p) (\<lambda>d. msg_store_clean_loop d ps)"

definition db__msg_store_clean :: "db \<Rightarrow> db res" where
  "db__msg_store_clean d = msg_store_clean_loop d (map fst (db_msg_store d))"

definition db__msg_store_ref_inc :: "db \<Rightarrow> store_ptr \<Rightarrow> db res" where
  "db__msg_store_ref_inc d p =
    res_bind (store_get d p) (\<lambda>store. Ok (store_set d p (store\<lparr>ms_ref_count := ms_ref_count store + 1\<rparr>)))"

definition db__msg_store_ref_dec :: "db \<Rightarrow> store_ptr \<Rightarrow> db res" where
  "db__msg_store_ref_dec d p =
    res_bind (store_get d p) (\<lambda>store.
      let d = store_set d p (store\<lparr>ms_ref_count := ms_ref_count store - 1\<rparr>)
      in if ms_ref_count store - 1 = 0 then db__msg_store_remove d p else Ok d)"

fun msg_store_compact_loop :: "db \<Rightarrow> (store_ptr \<times> mosquitto_msg_store) list \<Rightarrow> db res" where
  "msg_store_compact_loop d [] = Ok d"
| "msg_store_compact_loop d ((p, store) # ps) =
    (if ms_ref_count store < 1
     then res_bind (db__msg_store_remove d p) (\<lambda>d. msg_store_compact_loop d ps)
     else msg_store_compact_loop d ps)"

definition db__msg_store_compact :: "db \<Rightarrow> db res" where
  "db__msg_store_compact d = msg_store_compact_loop d (db_msg_store d)"

text \<open>
  \<open>db__message_store\<close> for a message that the caller has filled in, at an address that is
  new. The source is \<^const>\<open>None\<close> for \<open>NULL\<close>; \<open>store_id\<close> is not 0 when the
  message is restored from disk.
\<close>

definition db__message_store ::
    "db \<Rightarrow> mosquitto option \<Rightarrow> mosquitto_msg_store \<Rightarrow> u32 \<Rightarrow> u64 \<Rightarrow> mosquitto_msg_origin \<Rightarrow> store_ptr \<times> db" where
  "db__message_store d source stored message_expiry_interval store_id origin =
    (let p = db_next_ptr d;
         stored = stored\<lparr>ms_source_id := (case source of None \<Rightarrow> [] | Some s \<Rightarrow>
                     (case mq_id s of None \<Rightarrow> [] | Some i \<Rightarrow> i))\<rparr>;
         stored = (case source of None \<Rightarrow> stored | Some s \<Rightarrow>
                     (case mq_username s of None \<Rightarrow> stored
                      | Some u \<Rightarrow> stored\<lparr>ms_source_username := Some u\<rparr>));
         stored = stored\<lparr>ms_mid := 0, ms_origin := origin,
                     ms_message_expiry_time :=
                       (if message_expiry_interval > 0
                        then db_now_real_s d + uint message_expiry_interval else 0),
                     ms_dest_ids := []\<rparr>;
         d = d\<lparr>db_next_ptr := db_next_ptr d + 1, db_msg_store_count := db_msg_store_count d + 1,
               db_msg_store_bytes := db_msg_store_bytes d + ucast (ms_payloadlen stored)\<rparr>;
         d = (if store_id = 0 then d\<lparr>db_last_db_id := db_last_db_id d + 1\<rparr> else d);
         stored = (if store_id = 0 then stored\<lparr>ms_db_id := db_last_db_id d\<rparr>
                   else stored\<lparr>ms_db_id := store_id\<rparr>)
     in (p, db__msg_store_add d p stored))"

section \<open>Is there room?\<close>

definition msgs_of :: "mosquitto_msg_direction \<Rightarrow> mosquitto \<Rightarrow> mosquitto_msg_data" where
  "msgs_of dir context = (if dir = mosq_md_out then mq_msgs_out context else mq_msgs_in context)"

definition with_msgs :: "mosquitto_msg_direction \<Rightarrow> mosquitto \<Rightarrow> mosquitto_msg_data \<Rightarrow> mosquitto" where
  "with_msgs dir context md =
    (if dir = mosq_md_out then context\<lparr>mq_msgs_out := md\<rparr> else context\<lparr>mq_msgs_in := md\<rparr>)"

text \<open>\<open>(ssize_t)\<close> of an unsigned size reads its bits as a signed 64 bit integer.\<close>

definition db__ready_for_flight :: "db \<Rightarrow> mosquitto \<Rightarrow> mosquitto_msg_direction \<Rightarrow> u8 \<Rightarrow> bool" where
  "db__ready_for_flight d context dir qos =
    (let msgs = msgs_of dir context; cf = db_config d in
     if md_inflight_maximum msgs = 0 \<and> cf_max_inflight_bytes cf = 0 then True
     else if qos = 0 then
       (if cf_max_queued_messages cf = 0 \<and> cf_max_inflight_bytes cf = 0 then True
        else
          let valid_bytes = (md_msg_bytes msgs - sint (cf_max_inflight_bytes cf) < sint (cf_max_queued_bytes cf));
              valid_count = (if dir = mosq_md_out
                then mq_out_packet_count context < cf_max_queued_messages cf
                else md_msg_count msgs - uint (md_inflight_maximum msgs) < cf_max_queued_messages cf)
          in if cf_max_queued_messages cf = 0 then valid_bytes
             else if cf_max_queued_bytes cf = 0 then valid_count
             else valid_bytes \<and> valid_count)
     else
       let valid_bytes = (md_msg_bytes12 msgs < sint (cf_max_inflight_bytes cf));
           valid_count = (md_inflight_quota msgs > 0)
       in if md_inflight_maximum msgs = 0 then valid_bytes
          else if cf_max_inflight_bytes cf = 0 then valid_count
          else valid_bytes \<and> valid_count)"

definition db__ready_for_queue :: "db \<Rightarrow> mosquitto \<Rightarrow> u8 \<Rightarrow> mosquitto_msg_data \<Rightarrow> bool" where
  "db__ready_for_queue d context qos msg_data =
    (let cf = db_config d in
     if cf_max_queued_messages cf = 0 \<and> cf_max_queued_bytes cf = 0 then True
     else if qos = 0 \<and> \<not> cf_queue_qos0_messages cf then False
     else
       let source_bytes = md_msg_bytes12 msg_data;
           source_count = md_msg_count12 msg_data;
           offline = (mq_sock context = INVALID_SOCKET);
           adjust_bytes = (if offline then 0 else sint (cf_max_inflight_bytes cf));
           adjust_count = (if offline then 0 else uint (md_inflight_maximum msg_data));
           valid_bytes = (source_bytes - adjust_bytes < sint (cf_max_queued_bytes cf));
           valid_count = (source_count - adjust_count < cf_max_queued_messages cf)
       in if cf_max_queued_bytes cf = 0 then valid_count
          else if cf_max_queued_messages cf = 0 then valid_bytes
          else valid_bytes \<and> valid_count)"

section \<open>Moving messages between the lists\<close>

text \<open>
  \<open>db__message_remove\<close> of \<open>item\<close>, where \<open>inflight\<close> is
  \<open>before @ item # behind\<close>.
\<close>

definition db__message_remove ::
    "db \<Rightarrow> mosquitto_msg_data \<Rightarrow> mosquitto_client_msg list \<Rightarrow> mosquitto_client_msg \<Rightarrow>
     mosquitto_client_msg list \<Rightarrow> (db \<times> mosquitto_msg_data) res" where
  "db__message_remove d msg_data before item behind =
    res_bind (store_get d (cm_store item)) (\<lambda>store.
      let msg_data = msg_data\<lparr>md_inflight := before @ behind,
            md_msg_count := md_msg_count msg_data - 1,
            md_msg_bytes := md_msg_bytes msg_data - uint (ms_payloadlen store)\<rparr>;
          msg_data = (if cm_qos item > 0 then
              msg_data\<lparr>md_msg_count12 := md_msg_count12 msg_data - 1,
                md_msg_bytes12 := md_msg_bytes12 msg_data - uint (ms_payloadlen store)\<rparr>
            else msg_data)
      in res_bind (db__msg_store_ref_dec d (cm_store item)) (\<lambda>d. Ok (d, msg_data)))"

definition db__message_dequeue_first :: "mosquitto_msg_data \<Rightarrow> mosquitto_msg_data res" where
  "db__message_dequeue_first msg_data =
    (case md_queued msg_data of [] \<Rightarrow> Fault
     | msg # queued \<Rightarrow>
         let msg_data = msg_data\<lparr>md_queued := queued, md_inflight := md_inflight msg_data @ [msg]\<rparr>
         in Ok (if md_inflight_quota msg_data > 0
                then msg_data\<lparr>md_inflight_quota := md_inflight_quota msg_data - 1\<rparr> else msg_data))"

definition db__message_destorage_first :: "mosquitto_msg_data \<Rightarrow> int \<Rightarrow> mosquitto_msg_data res" where
  "db__message_destorage_first msg_data queue_or_inflight =
    (case md_storage msg_data of [] \<Rightarrow> Fault
     | msg # storage \<Rightarrow>
         let msg_data = msg_data\<lparr>md_storage := storage\<rparr>
         in if queue_or_inflight = 0
            then Ok (msg_data\<lparr>md_queued := md_queued msg_data @ [msg]\<rparr>)
            else
              let msg_data = msg_data\<lparr>md_inflight := md_inflight msg_data @ [msg]\<rparr>
              in Ok (if md_inflight_quota msg_data > 0
                     then msg_data\<lparr>md_inflight_quota := md_inflight_quota msg_data - 1\<rparr>
                     else msg_data))"

text \<open>The \<open>switch\<close> on the QoS that makes a message ready to be published.\<close>

definition set_publish_state :: "mosquitto_client_msg \<Rightarrow> mosquitto_client_msg" where
  "set_publish_state msg =
    (if cm_qos msg = 0 then msg\<lparr>cm_state := mosq_ms_publish_qos0\<rparr>
     else if cm_qos msg = 1 then msg\<lparr>cm_state := mosq_ms_publish_qos1\<rparr>
     else if cm_qos msg = 2 then msg\<lparr>cm_state := mosq_ms_publish_qos2\<rparr>
     else msg)"

text \<open>
  A \<open>DL_FOREACH_SAFE\<close> loop is at \<open>tail\<close>, with \<open>tmp\<close> the elements behind it; the
  part of the list in front of \<open>tmp\<close> is what the body has left there.
\<close>

definition in_front :: "'a list \<Rightarrow> 'a list \<Rightarrow> 'a list" where
  "in_front l tmp = take (length l - length tmp) l"

section \<open>Writing messages out\<close>

text \<open>
  \<open>db__message_write_inflight_out_single\<close> of \<open>msg\<close>, where the outgoing
  \<open>inflight\<close> list is \<open>before @ msg # behind\<close>.
\<close>

definition db__message_write_inflight_out_single ::
    "db \<Rightarrow> mosquitto \<Rightarrow> mosquitto_client_msg list \<Rightarrow> mosquitto_client_msg \<Rightarrow> mosquitto_client_msg list \<Rightarrow>
     (rc \<times> db \<times> mosquitto) res" where
  "db__message_write_inflight_out_single d context before msg behind =
    res_bind (store_get d (cm_store msg)) (\<lambda>store.
      let remove = (\<lambda>context. res_bind (db__message_remove d (mq_msgs_out context) before msg behind)
            (\<lambda>(d, md). Ok (MOSQ_ERR_SUCCESS, d, context\<lparr>mq_msgs_out := md\<rparr>)));
          replace = (\<lambda>context msg. Ok (MOSQ_ERR_SUCCESS, d,
            context\<lparr>mq_msgs_out := (mq_msgs_out context)\<lparr>md_inflight := before @ msg # behind\<rparr>\<rparr>))
      in
      if ms_message_expiry_time store \<noteq> 0 \<and> db_now_real_s d > ms_message_expiry_time store then
        remove (if cm_direction msg = mosq_md_out \<and> cm_qos msg > 0
                then util__increment_send_quota context else context)
      else
        let expiry_interval = (if ms_message_expiry_time store \<noteq> 0
              then word_of_int (ms_message_expiry_time store - db_now_real_s d) else 0);
            publish = send__publish d context (cm_mid msg) (ms_topic store) (ms_payloadlen store)
              (Some (cm_store msg)) (cm_qos msg) (cm_retain msg) (cm_dup msg) (cm_properties msg)
              (ms_properties store) expiry_interval
        in
        if cm_state msg = mosq_ms_publish_qos0 then
          res_bind publish (\<lambda>(rc, context).
            if rc = MOSQ_ERR_SUCCESS \<or> rc = MOSQ_ERR_OVERSIZE_PACKET then remove context
            else Ok (rc, d, context))
        else if cm_state msg = mosq_ms_publish_qos1 then
          res_bind publish (\<lambda>(rc, context).
            if rc = MOSQ_ERR_SUCCESS then
              replace context (msg\<lparr>cm_timestamp := db_now_s d, cm_dup := True,
                                   cm_state := mosq_ms_wait_for_puback\<rparr>)
            else if rc = MOSQ_ERR_OVERSIZE_PACKET then remove context
            else Ok (rc, d, context))
        else if cm_state msg = mosq_ms_publish_qos2 then
          res_bind publish (\<lambda>(rc, context).
            if rc = MOSQ_ERR_SUCCESS then
              replace context (msg\<lparr>cm_timestamp := db_now_s d, cm_dup := True,
                                   cm_state := mosq_ms_wait_for_pubrec\<rparr>)
            else if rc = MOSQ_ERR_OVERSIZE_PACKET then remove context
            else Ok (rc, d, context))
        else if cm_state msg = mosq_ms_resend_pubrel then
          res_bind (send__pubrel d context (cm_mid msg) []) (\<lambda>(rc, context).
            if rc = 0 then replace context (msg\<lparr>cm_state := mosq_ms_wait_for_pubcomp\<rparr>)
            else Ok (rc, d, context))
        else Ok (MOSQ_ERR_SUCCESS, d, context))"

text \<open>The loop over \<open>inflight\<close> from a message on to the end of the list.\<close>

fun write_inflight_loop ::
    "db \<Rightarrow> mosquitto \<Rightarrow> mosquitto_client_msg list \<Rightarrow> mosquitto_client_msg list \<Rightarrow> (rc \<times> db \<times> mosquitto) res" where
  "write_inflight_loop d context before [] = Ok (MOSQ_ERR_SUCCESS, d, context)"
| "write_inflight_loop d context before (tail # behind) =
    res_bind (db__message_write_inflight_out_single d context before tail behind)
      (\<lambda>(rc, d, context).
        if rc \<noteq> 0 then Ok (rc, d, context)
        else write_inflight_loop d context
               (in_front (md_inflight (mq_msgs_out context)) behind) behind)"

definition db__message_write_inflight_out_all :: "db \<Rightarrow> mosquitto \<Rightarrow> (rc \<times> db \<times> mosquitto) res" where
  "db__message_write_inflight_out_all d context =
    (if mq_state context \<noteq> mosq_cs_active \<or> mq_sock context = INVALID_SOCKET
     then Ok (MOSQ_ERR_SUCCESS, d, context)
     else write_inflight_loop d context [] (md_inflight (mq_msgs_out context)))"

definition is_publish_state :: "mosquitto_client_msg \<Rightarrow> bool" where
  "is_publish_state msg \<longleftrightarrow> cm_state msg = mosq_ms_publish_qos0 \<or>
     cm_state msg = mosq_ms_publish_qos1 \<or> cm_state msg = mosq_ms_publish_qos2"

text \<open>
  The search from the end of \<open>inflight\<close> for the first message that waits for something
  else, stopping at the head: the index at which writing starts.
\<close>

definition latest_start :: "mosquitto_client_msg list \<Rightarrow> nat" where
  "latest_start inflight =
    (let tail = length inflight - 1 - length (takeWhile is_publish_state (rev (tl inflight)))
     in if tail \<noteq> 0 then tail + 1 else 0)"

definition db__message_write_inflight_out_latest :: "db \<Rightarrow> mosquitto \<Rightarrow> (rc \<times> db \<times> mosquitto) res" where
  "db__message_write_inflight_out_latest d context =
    (if mq_state context \<noteq> mosq_cs_active \<or> mq_sock context = INVALID_SOCKET \<or>
        md_inflight (mq_msgs_out context) = []
     then Ok (MOSQ_ERR_SUCCESS, d, context)
     else case md_inflight (mq_msgs_out context) of
         [msg] \<Rightarrow> db__message_write_inflight_out_single d context [] msg []
       | inflight \<Rightarrow>
           let i = latest_start inflight
           in write_inflight_loop d context (take i inflight) (drop i inflight))"

fun write_queued_out_loop ::
    "mosquitto_msg_data \<Rightarrow> mosquitto_client_msg list \<Rightarrow> mosquitto_client_msg list \<Rightarrow> mosquitto_msg_data res" where
  "write_queued_out_loop md before [] = Ok md"
| "write_queued_out_loop md before (tail # tmp) =
    (if md_inflight_maximum md \<noteq> 0 \<and> md_inflight_quota md = 0 then Ok md
     else res_bind
       (db__message_dequeue_first (md\<lparr>md_queued := before @ set_publish_state tail # tmp\<rparr>))
       (\<lambda>md. write_queued_out_loop md (in_front (md_queued md) tmp) tmp))"

definition db__message_write_queued_out :: "mosquitto \<Rightarrow> (rc \<times> mosquitto) res" where
  "db__message_write_queued_out context =
    (if mq_state context \<noteq> mosq_cs_active then Ok (MOSQ_ERR_SUCCESS, context)
     else res_bind (write_queued_out_loop (mq_msgs_out context) [] (md_queued (mq_msgs_out context)))
       (\<lambda>md. Ok (MOSQ_ERR_SUCCESS, context\<lparr>mq_msgs_out := md\<rparr>)))"

text \<open>
  The loop of \<open>db__message_write_storage_out\<close>, with the time \<open>tp\<close>, the mode of the
  client and the configured timeout.
\<close>

fun write_storage_out_loop ::
    "timespec \<Rightarrow> int \<Rightarrow> transfer_mode \<Rightarrow> mosquitto_msg_data \<Rightarrow> mosquitto_client_msg list \<Rightarrow>
     mosquitto_client_msg list \<Rightarrow> mosquitto_msg_data res" where
  "write_storage_out_loop tp timeout mode md before [] = Ok md"
| "write_storage_out_loop tp timeout mode md before (tail # tmp) =
    (if tv_sec tp - tv_sec (cm_storage_time tail) > timeout \<or> mode = normal_mode then
       res_bind
         (if md_inflight_maximum md \<noteq> 0 \<and> md_inflight_quota md = 0
          then db__message_destorage_first md 0
          else db__message_destorage_first
                 (md\<lparr>md_storage := before @ set_publish_state tail # tmp\<rparr>) 1)
         (\<lambda>md. write_storage_out_loop tp timeout mode md (in_front (md_storage md) tmp) tmp)
     else write_storage_out_loop tp timeout mode md (before @ [tail]) tmp)"

definition db__message_write_storage_out :: "db \<Rightarrow> mosquitto \<Rightarrow> (rc \<times> mosquitto) res" where
  "db__message_write_storage_out d context =
    (if mq_state context \<noteq> mosq_cs_active then Ok (MOSQ_ERR_SUCCESS, context)
     else res_bind
       (write_storage_out_loop (db_monotonic d) (cf_msg_store_timeout (db_config d)) (mq_mode context)
          (mq_msgs_out context) [] (md_storage (mq_msgs_out context)))
       (\<lambda>md. Ok (MOSQ_ERR_SUCCESS, context\<lparr>mq_msgs_out := md\<rparr>)))"

fun write_queued_in_loop ::
    "db \<Rightarrow> mosquitto \<Rightarrow> mosquitto_client_msg list \<Rightarrow> mosquitto_client_msg list \<Rightarrow> (rc \<times> mosquitto) res" where
  "write_queued_in_loop d context before [] = Ok (MOSQ_ERR_SUCCESS, context)"
| "write_queued_in_loop d context before (tail # tmp) =
    (if md_inflight_maximum (mq_msgs_out context) \<noteq> 0 \<and> md_inflight_quota (mq_msgs_in context) = 0
     then Ok (MOSQ_ERR_SUCCESS, context)
     else if cm_qos tail = 2 then
       res_bind (db__message_dequeue_first ((mq_msgs_in context)
           \<lparr>md_queued := before @ tail\<lparr>cm_state := mosq_ms_send_pubrec\<rparr> # tmp\<rparr>)) (\<lambda>md.
       res_bind (send__pubrec d (context\<lparr>mq_msgs_in := md\<rparr>) (cm_mid tail) 0 []) (\<lambda>(rc, context).
         if rc = 0 then
           let md = mq_msgs_in context;
               wait = tail\<lparr>cm_state := mosq_ms_wait_for_pubrel\<rparr>;
               md = (if before = []
                     then md\<lparr>md_inflight := butlast (md_inflight md) @ [wait]\<rparr>
                     else md\<lparr>md_queued := butlast (in_front (md_queued md) tmp) @ [wait] @ tmp\<rparr>)
           in write_queued_in_loop d (context\<lparr>mq_msgs_in := md\<rparr>) (in_front (md_queued md) tmp) tmp
         else Ok (rc, context)))
     else write_queued_in_loop d context (before @ [tail]) tmp)"

definition db__message_write_queued_in :: "db \<Rightarrow> mosquitto \<Rightarrow> (rc \<times> mosquitto) res" where
  "db__message_write_queued_in d context =
    (if mq_state context \<noteq> mosq_cs_active then Ok (MOSQ_ERR_SUCCESS, context)
     else write_queued_in_loop d context [] (md_queued (mq_msgs_in context)))"

section \<open>Removing and updating messages\<close>

text \<open>The first message of a list with an identifier, with what is before and behind it.\<close>

fun find_mid ::
    "u16 \<Rightarrow> mosquitto_client_msg list \<Rightarrow> mosquitto_client_msg list \<Rightarrow>
     (mosquitto_client_msg list \<times> mosquitto_client_msg \<times> mosquitto_client_msg list) option" where
  "find_mid mid before [] = None"
| "find_mid mid before (tail # tmp) =
    (if cm_mid tail = mid then Some (before, tail, tmp) else find_mid mid (before @ [tail]) tmp)"

text \<open>The second loop of \<open>db__message_delete_outgoing\<close>, with \<open>msg_index\<close>.\<close>

fun delete_outgoing_loop ::
    "int \<Rightarrow> nat \<Rightarrow> mosquitto_msg_data \<Rightarrow> mosquitto_client_msg list \<Rightarrow> mosquitto_client_msg list \<Rightarrow>
     mosquitto_msg_data res" where
  "delete_outgoing_loop now_s msg_index md before [] = Ok md"
| "delete_outgoing_loop now_s msg_index md before (tail # tmp) =
    (if md_inflight_maximum md \<noteq> 0 \<and> msg_index \<ge> unat (md_inflight_maximum md) then Ok md
     else res_bind (db__message_dequeue_first
         (md\<lparr>md_queued := before @ set_publish_state (tail\<lparr>cm_timestamp := now_s\<rparr>) # tmp\<rparr>))
       (\<lambda>md. delete_outgoing_loop now_s (msg_index + 1) md (in_front (md_queued md) tmp) tmp))"

definition db__message_delete_outgoing ::
    "db \<Rightarrow> mosquitto \<Rightarrow> u16 \<Rightarrow> mosquitto_msg_state \<Rightarrow> u8 \<Rightarrow> (rc \<times> db \<times> mosquitto) res" where
  "db__message_delete_outgoing d context mid expect_state qos =
    (let continue = (\<lambda>msg_index d md.
       res_bind (delete_outgoing_loop (db_now_s d) msg_index md [] (md_queued md)) (\<lambda>md.
         db__message_write_inflight_out_latest
           (d\<lparr>db_persistence_changes := db_persistence_changes d + 1\<rparr>) (context\<lparr>mq_msgs_out := md\<rparr>)))
     in case find_mid mid [] (md_inflight (mq_msgs_out context)) of
       None \<Rightarrow> continue (length (md_inflight (mq_msgs_out context))) d (mq_msgs_out context)
     | Some (before, tail, behind) \<Rightarrow>
         if cm_qos tail \<noteq> qos then Ok (MOSQ_ERR_PROTOCOL, d, context)
         else if qos = 2 \<and> cm_state tail \<noteq> expect_state then Ok (MOSQ_ERR_PROTOCOL, d, context)
         else res_bind (db__message_remove d (mq_msgs_out context) before tail behind)
           (\<lambda>(d, md). continue (length before) d md))"

definition db__message_update_outgoing ::
    "db \<Rightarrow> mosquitto \<Rightarrow> u16 \<Rightarrow> mosquitto_msg_state \<Rightarrow> u8 \<Rightarrow> rc \<times> mosquitto" where
  "db__message_update_outgoing d context mid state qos =
    (case find_mid mid [] (md_inflight (mq_msgs_out context)) of
       None \<Rightarrow> (MOSQ_ERR_NOT_FOUND, context)
     | Some (before, tail, behind) \<Rightarrow>
         if cm_qos tail \<noteq> qos then (MOSQ_ERR_PROTOCOL, context)
         else (MOSQ_ERR_SUCCESS, context\<lparr>mq_msgs_out := (mq_msgs_out context)
                 \<lparr>md_inflight := before @ tail\<lparr>cm_state := state, cm_timestamp := db_now_s d\<rparr> # behind\<rparr>\<rparr>))"

definition db__message_remove_incoming :: "db \<Rightarrow> mosquitto \<Rightarrow> u16 \<Rightarrow> (rc \<times> db \<times> mosquitto) res" where
  "db__message_remove_incoming d context mid =
    (case find_mid mid [] (md_inflight (mq_msgs_in context)) of
       None \<Rightarrow> Ok (MOSQ_ERR_NOT_FOUND, d, context)
     | Some (before, tail, behind) \<Rightarrow>
         res_bind (store_get d (cm_store tail)) (\<lambda>store.
           if ms_qos store \<noteq> 2 then Ok (MOSQ_ERR_PROTOCOL, d, context)
           else res_bind (db__message_remove d (mq_msgs_in context) before tail behind)
             (\<lambda>(d, md). Ok (MOSQ_ERR_SUCCESS, d, context\<lparr>mq_msgs_in := md\<rparr>))))"

fun db__messages_delete_list :: "db \<Rightarrow> mosquitto_client_msg list \<Rightarrow> db res" where
  "db__messages_delete_list d [] = Ok d"
| "db__messages_delete_list d (tail # tmp) =
     res_bind (db__msg_store_ref_dec d (cm_store tail)) (\<lambda>d. db__messages_delete_list d tmp)"

text \<open>\<open>inflight\<close> and \<open>queued\<close> are freed; \<open>storage\<close> is not touched.\<close>

definition messages_delete_dir :: "db \<Rightarrow> mosquitto_msg_data \<Rightarrow> (db \<times> mosquitto_msg_data) res" where
  "messages_delete_dir d md =
    res_bind (db__messages_delete_list d (md_inflight md)) (\<lambda>d.
    res_bind (db__messages_delete_list d (md_queued md)) (\<lambda>d.
      Ok (d, md\<lparr>md_inflight := [], md_queued := [], md_msg_bytes := 0, md_msg_bytes12 := 0,
               md_msg_count := 0, md_msg_count12 := 0\<rparr>)))"

definition db__messages_delete :: "db \<Rightarrow> mosquitto \<Rightarrow> bool \<Rightarrow> (rc \<times> db \<times> mosquitto) res" where
  "db__messages_delete d context force_free =
    res_bind
      (if force_free \<or> mq_clean_start context \<or>
          (case mq_bridge context of Some br \<Rightarrow> br_clean_start br | None \<Rightarrow> False)
       then res_bind (messages_delete_dir d (mq_msgs_in context)) (\<lambda>(d, md).
              Ok (d, context\<lparr>mq_msgs_in := md\<rparr>))
       else Ok (d, context)) (\<lambda>(d, context).
    res_bind
      (if force_free \<or> (case mq_bridge context of Some br \<Rightarrow> br_clean_start_local br
                        | None \<Rightarrow> mq_clean_start context)
       then res_bind (messages_delete_dir d (mq_msgs_out context)) (\<lambda>(d, md).
              Ok (d, context\<lparr>mq_msgs_out := md\<rparr>))
       else Ok (d, context)) (\<lambda>(d, context). Ok (MOSQ_ERR_SUCCESS, d, context)))"

fun store_find_list :: "db \<Rightarrow> u16 \<Rightarrow> mosquitto_client_msg list \<Rightarrow> store_ptr option res" where
  "store_find_list d mid [] = Ok None"
| "store_find_list d mid (tail # tmp) =
    res_bind (store_get d (cm_store tail)) (\<lambda>store.
      if ms_source_mid store = mid then Ok (Some (cm_store tail)) else store_find_list d mid tmp)"

definition db__message_store_find :: "db \<Rightarrow> mosquitto \<Rightarrow> u16 \<Rightarrow> (rc \<times> store_ptr option) res" where
  "db__message_store_find d context mid =
    res_bind (store_find_list d mid (md_inflight (mq_msgs_in context))) (\<lambda>found.
      case found of Some p \<Rightarrow> Ok (MOSQ_ERR_SUCCESS, Some p)
      | None \<Rightarrow> res_bind (store_find_list d mid (md_queued (mq_msgs_in context))) (\<lambda>found.
          case found of Some p \<Rightarrow> Ok (MOSQ_ERR_SUCCESS, Some p) | None \<Rightarrow> Ok (1, None)))"

section \<open>Inserting a message for a client\<close>

text \<open>The state that the first part of \<open>db__message_insert\<close> decides on.\<close>

datatype insert_decision =
    Insert_return rc
  | Insert_drop
  | Insert_state mosquitto_msg_state rc

definition insert_decide ::
    "db \<Rightarrow> mosquitto \<Rightarrow> mosquitto_msg_direction \<Rightarrow> u8 \<Rightarrow> mosquitto_msg_store \<Rightarrow> insert_decision res" where
  "insert_decide d context dir qos stored =
    (if mq_sock context \<noteq> INVALID_SOCKET then
       (if unat (ms_payloadlen stored) \<ge> unat (cf_threshold_s (db_config d)) \<and>
           mq_mode context = slow_mode \<and> ms_topic stored = None then Fault
        else if unat (ms_payloadlen stored) \<ge> unat (cf_threshold_s (db_config d)) \<and>
           mq_mode context = slow_mode \<and> ms_topic stored \<noteq> Some ''latency''
        then Ok (Insert_state mosq_ms_storage 0)
        else if db__ready_for_flight d context dir qos then
          (if dir = mosq_md_out then
             Ok (Insert_state (if qos = 0 then mosq_ms_publish_qos0 else if qos = 1 then mosq_ms_publish_qos1
                               else if qos = 2 then mosq_ms_publish_qos2 else mosq_ms_invalid) 0)
           else if qos = 2 then Ok (Insert_state mosq_ms_wait_for_pubrel 0)
           else Ok (Insert_return 1))
        else if qos \<noteq> 0 \<and> db__ready_for_queue d context qos (msgs_of dir context)
        then Ok (Insert_state mosq_ms_queued 2)
        else Ok Insert_drop)
     else if db__ready_for_queue d context qos (msgs_of dir context)
     then Ok (Insert_state mosq_ms_queued 0)
     else Ok Insert_drop)"

text \<open>The end of slow mode after 30 seconds, looked at when a message for a connected client
  arrives.\<close>

definition insert_overtime :: "db \<Rightarrow> mosquitto \<Rightarrow> mosquitto" where
  "insert_overtime d context =
    (if mq_sock context \<noteq> INVALID_SOCKET \<and> mq_slow_mode_time context + 30 < db_realtime d
     then mosquitto__set_mode context normal_mode else context)"

text \<open>
  The new client message and the list and counters that take it. The memory of a new message is
  not cleared; its \<open>storage_time\<close>, read only in the storage list, is zero here outside of it.
\<close>

definition insert_append ::
    "db \<Rightarrow> mosquitto \<Rightarrow> u16 \<Rightarrow> mosquitto_msg_direction \<Rightarrow> u8 \<Rightarrow> bool \<Rightarrow> store_ptr \<Rightarrow> mosquitto_msg_store \<Rightarrow>
     mosquitto_property list \<Rightarrow> mosquitto_msg_state \<Rightarrow> mosquitto_client_msg \<times> mosquitto_msg_data" where
  "insert_append d context mid dir qos retain p stored properties state =
    (let msg = \<lparr> cm_store = p, cm_properties = properties, cm_timestamp = db_now_s d, cm_mid = mid,
                 cm_qos = (if qos > mq_max_qos context then mq_max_qos context else qos),
                 cm_retain = retain, cm_direction = dir, cm_state = state, cm_dup = False,
                 cm_storage_time = (if state = mosq_ms_storage then db_monotonic d
                                    else \<lparr> tv_sec = 0, tv_nsec = 0 \<rparr>) \<rparr>;
         md = msgs_of dir context;
         md = (if state = mosq_ms_queued then md\<lparr>md_queued := md_queued md @ [msg]\<rparr>
               else if state = mosq_ms_storage then md\<lparr>md_storage := md_storage md @ [msg]\<rparr>
               else md\<lparr>md_inflight := md_inflight md @ [msg]\<rparr>);
         md = md\<lparr>md_msg_count := md_msg_count md + 1,
                 md_msg_bytes := md_msg_bytes md + uint (ms_payloadlen stored)\<rparr>;
         md = (if qos > 0 then md\<lparr>md_msg_count12 := md_msg_count12 md + 1,
                 md_msg_bytes12 := md_msg_bytes12 md + uint (ms_payloadlen stored)\<rparr> else md)
     in (msg, md))"

text \<open>The client is noted as a destination of the message, unless duplicates are allowed.\<close>

definition insert_note_dest :: "db \<Rightarrow> mosquitto_msg_direction \<Rightarrow> bool \<Rightarrow> store_ptr \<Rightarrow> string \<Rightarrow> db res" where
  "insert_note_dest d dir retain p ident =
    (if \<not> cf_allow_duplicate_messages (db_config d) \<and> dir = mosq_md_out \<and> \<not> retain
     then res_bind (store_get d p) (\<lambda>stored.
            Ok (store_set d p (stored\<lparr>ms_dest_ids := ms_dest_ids stored @ [ident]\<rparr>)))
     else Ok d)"

text \<open>A lazy bridge with enough messages is to reconnect; a QoS above 0 takes from the quota.\<close>

definition insert_settle :: "mosquitto_msg_direction \<Rightarrow> mosquitto_client_msg \<Rightarrow> mosquitto \<Rightarrow> mosquitto" where
  "insert_settle dir msg context =
    (let context = (case mq_bridge context of None \<Rightarrow> context
           | Some br \<Rightarrow> if br_start_type br = bst_lazy \<and> mq_sock context = INVALID_SOCKET \<and>
                 md_msg_count (mq_msgs_out context) \<ge> br_threshold br
               then context\<lparr>mq_bridge := Some (br\<lparr>br_lazy_reconnect := True\<rparr>)\<rparr> else context)
     in if dir = mosq_md_out \<and> cm_qos msg > 0 then util__decrement_send_quota context else context)"

text \<open>The messages that can be sent now are sent, when the caller asks for it.\<close>

definition insert_update ::
    "db \<Rightarrow> mosquitto \<Rightarrow> mosquitto_msg_direction \<Rightarrow> bool \<Rightarrow> rc \<Rightarrow> (rc \<times> db \<times> mosquitto) res" where
  "insert_update d context dir update rc =
    (if dir = mosq_md_out \<and> update then
       res_bind (db__message_write_inflight_out_latest d context) (\<lambda>(rc, d, context).
       if rc \<noteq> 0 then Ok (rc, d, context)
       else res_bind (db__message_write_queued_out context) (\<lambda>(rc, context).
       if rc \<noteq> 0 then Ok (rc, d, context)
       else res_bind (db__message_write_storage_out d context) (\<lambda>(rc, context).
       Ok (rc, d, context))))
     else Ok (rc, d, context))"

text \<open>The part of the function after the state of the new message is known.\<close>

definition insert_keep ::
    "db \<Rightarrow> mosquitto \<Rightarrow> u16 \<Rightarrow> mosquitto_msg_direction \<Rightarrow> u8 \<Rightarrow> bool \<Rightarrow> store_ptr \<Rightarrow> mosquitto_msg_store \<Rightarrow>
     mosquitto_property list \<Rightarrow> bool \<Rightarrow> string \<Rightarrow> mosquitto_msg_state \<Rightarrow> rc \<Rightarrow> (rc \<times> db \<times> mosquitto) res" where
  "insert_keep d context mid dir qos retain p stored properties update ident state rc =
    (if state = mosq_ms_invalid then Fault
     else
       let d = (if state = mosq_ms_queued
                then d\<lparr>db_persistence_changes := db_persistence_changes d + 1\<rparr> else d)
       in res_bind (db__msg_store_ref_inc d p) (\<lambda>d.
          let (msg, md) = insert_append d context mid dir qos retain p stored properties state
          in res_bind (insert_note_dest d dir retain p ident) (\<lambda>d.
             insert_update d (insert_settle dir msg (with_msgs dir context md)) dir update rc)))"

definition db__message_insert ::
    "db \<Rightarrow> mosquitto \<Rightarrow> u16 \<Rightarrow> mosquitto_msg_direction \<Rightarrow> u8 \<Rightarrow> bool \<Rightarrow> store_ptr \<Rightarrow>
     mosquitto_property list \<Rightarrow> bool \<Rightarrow> (rc \<times> db \<times> mosquitto) res" where
  "db__message_insert d context mid dir qos retain p properties update =
    res_bind (store_get d p) (\<lambda>stored.
    case mq_id context of None \<Rightarrow> Ok (MOSQ_ERR_SUCCESS, d, context)
    | Some ident \<Rightarrow>
    if mq_protocol context \<noteq> mosq_p_mqtt5 \<and> \<not> cf_allow_duplicate_messages (db_config d) \<and>
       dir = mosq_md_out \<and> \<not> retain \<and> ident \<in> set (ms_dest_ids stored)
    then Ok (MOSQ_ERR_SUCCESS, d, context)
    else if mq_sock context = INVALID_SOCKET \<and> qos = 0 \<and> \<not> cf_queue_qos0_messages (db_config d) \<and>
       (case mq_bridge context of None \<Rightarrow> True | Some br \<Rightarrow> br_start_type br \<noteq> bst_lazy)
    then Ok (2, d, context)
    else if mq_sock context = INVALID_SOCKET \<and>
       (case mq_bridge context of None \<Rightarrow> False | Some br \<Rightarrow> br_clean_start_local br)
    then Ok (2, d, context)
    else
      let context = insert_overtime d context in
      res_bind (insert_decide d context dir qos stored) (\<lambda>decision.
      case decision of
        Insert_return rc \<Rightarrow> Ok (rc, d, context)
      | Insert_drop \<Rightarrow> Ok (2, d\<lparr>db_msgs_dropped := db_msgs_dropped d + 1\<rparr>, context\<lparr>mq_is_dropping := True\<rparr>)
      | Insert_state state rc \<Rightarrow>
          insert_keep d context mid dir qos retain p stored properties update ident state rc))"

section \<open>After a reconnect\<close>

text \<open>Adding a message to the counters of a direction.\<close>

definition count_msg :: "mosquitto_msg_store \<Rightarrow> mosquitto_client_msg \<Rightarrow> mosquitto_msg_data \<Rightarrow> mosquitto_msg_data" where
  "count_msg store msg md =
    (let md = md\<lparr>md_msg_count := md_msg_count md + 1,
                 md_msg_bytes := md_msg_bytes md + uint (ms_payloadlen store)\<rparr>
     in if cm_qos msg > 0 then
          md\<lparr>md_msg_count12 := md_msg_count12 md + 1,
             md_msg_bytes12 := md_msg_bytes12 md + uint (ms_payloadlen store)\<rparr>
        else md)"

definition reset_counts :: "mosquitto_msg_data \<Rightarrow> mosquitto_msg_data" where
  "reset_counts md = md\<lparr>md_msg_bytes := 0, md_msg_bytes12 := 0, md_msg_count := 0,
     md_msg_count12 := 0, md_inflight_quota := uint (md_inflight_maximum md)\<rparr>"

definition reset_out_state :: "mosquitto_client_msg \<Rightarrow> mosquitto_client_msg" where
  "reset_out_state msg =
    (if cm_qos msg = 2 \<and> cm_state msg = mosq_ms_wait_for_pubcomp
     then msg\<lparr>cm_state := mosq_ms_resend_pubrel\<rparr> else set_publish_state msg)"

fun reset_out_inflight ::
    "db \<Rightarrow> mosquitto \<Rightarrow> mosquitto_client_msg list \<Rightarrow> mosquitto_client_msg list \<Rightarrow> mosquitto res" where
  "reset_out_inflight d context before [] = Ok context"
| "reset_out_inflight d context before (msg # tmp) =
    res_bind (store_get d (cm_store msg)) (\<lambda>store.
      let context = context\<lparr>mq_msgs_out := count_msg store msg (mq_msgs_out context)\<rparr>;
          context = (if cm_qos msg > 0 then util__decrement_send_quota context else context);
          context = context\<lparr>mq_msgs_out := (mq_msgs_out context)
            \<lparr>md_inflight := before @ reset_out_state msg # tmp\<rparr>\<rparr>
      in reset_out_inflight d context (before @ [reset_out_state msg]) tmp)"

text \<open>The loop over \<open>queued\<close>, the same for both directions.\<close>

fun reset_queued ::
    "db \<Rightarrow> mosquitto_msg_direction \<Rightarrow> mosquitto \<Rightarrow> mosquitto_client_msg list \<Rightarrow> mosquitto_client_msg list \<Rightarrow>
     mosquitto res" where
  "reset_queued d dir context before [] = Ok context"
| "reset_queued d dir context before (msg # tmp) =
    res_bind (store_get d (cm_store msg)) (\<lambda>store.
      let context = with_msgs dir context (count_msg store msg (msgs_of dir context)) in
      if db__ready_for_flight d context dir (cm_qos msg) then
        res_bind (db__message_dequeue_first ((msgs_of dir context)
            \<lparr>md_queued := before @ set_publish_state msg # tmp\<rparr>)) (\<lambda>md.
          reset_queued d dir (with_msgs dir context md) (in_front (md_queued md) tmp) tmp)
      else reset_queued d dir context (before @ [msg]) tmp)"

definition db__message_reconnect_reset_outgoing :: "db \<Rightarrow> mosquitto \<Rightarrow> (rc \<times> mosquitto) res" where
  "db__message_reconnect_reset_outgoing d context =
    (let context = context\<lparr>mq_msgs_out := reset_counts (mq_msgs_out context)\<rparr> in
     res_bind (reset_out_inflight d context [] (md_inflight (mq_msgs_out context))) (\<lambda>context.
     res_bind (reset_queued d mosq_md_out context [] (md_queued (mq_msgs_out context))) (\<lambda>context.
       Ok (MOSQ_ERR_SUCCESS, context))))"

fun reset_in_inflight ::
    "db \<Rightarrow> mosquitto \<Rightarrow> mosquitto_client_msg list \<Rightarrow> mosquitto_client_msg list \<Rightarrow> (db \<times> mosquitto) res" where
  "reset_in_inflight d context before [] = Ok (d, context)"
| "reset_in_inflight d context before (msg # tmp) =
    res_bind (store_get d (cm_store msg)) (\<lambda>store.
      let context = context\<lparr>mq_msgs_in := count_msg store msg (mq_msgs_in context)\<rparr>;
          context = (if cm_qos msg > 0 then util__decrement_receive_quota context else context)
      in if cm_qos msg \<noteq> 2 then
           res_bind (db__message_remove d (mq_msgs_in context) before msg tmp) (\<lambda>(d, md).
             reset_in_inflight d (context\<lparr>mq_msgs_in := md\<rparr>) before tmp)
         else reset_in_inflight d context (before @ [msg]) tmp)"

definition db__message_reconnect_reset_incoming :: "db \<Rightarrow> mosquitto \<Rightarrow> (rc \<times> db \<times> mosquitto) res" where
  "db__message_reconnect_reset_incoming d context =
    (let context = context\<lparr>mq_msgs_in := reset_counts (mq_msgs_in context)\<rparr> in
     res_bind (reset_in_inflight d context [] (md_inflight (mq_msgs_in context))) (\<lambda>(d, context).
     res_bind (reset_queued d mosq_md_in context [] (md_queued (mq_msgs_in context))) (\<lambda>context.
       Ok (MOSQ_ERR_SUCCESS, d, context))))"

definition db__message_reconnect_reset :: "db \<Rightarrow> mosquitto \<Rightarrow> (rc \<times> db \<times> mosquitto) res" where
  "db__message_reconnect_reset d context =
    res_bind (db__message_reconnect_reset_outgoing d context) (\<lambda>(rc, context).
      if rc \<noteq> 0 then Ok (rc, d, context)
      else db__message_reconnect_reset_incoming d context)"

end
