(* ===== verification/Msg_Steps.thy ===== *)
theory Msg_Steps
  imports Database
begin

text \<open>
  What the broker may do with the outgoing messages of one client, as a transition system, and
  the proof that every operation of \<open>Database\<close> on outgoing messages is a sequence of its
  steps. The state is the store (an address to the message there) and the outgoing message data
  of the client. Invariants are then proved once, by induction over the steps: the counters, the
  quota, the reference counts and the protocol states of the messages.
\<close>

section \<open>The steps\<close>

type_synonym stores = "store_ptr \<Rightarrow> mosquitto_msg_store option"

text \<open>Taking and giving back a reference; a message without references is freed.\<close>

definition ref_taken :: "stores \<Rightarrow> store_ptr \<Rightarrow> stores" where
  "ref_taken S p = (case S p of None \<Rightarrow> S
     | Some st \<Rightarrow> S(p \<mapsto> st\<lparr>ms_ref_count := ms_ref_count st + 1\<rparr>))"

definition ref_dropped :: "stores \<Rightarrow> store_ptr \<Rightarrow> stores" where
  "ref_dropped S p = (case S p of None \<Rightarrow> S
     | Some st \<Rightarrow> if ms_ref_count st - 1 = 0 then S(p := None)
                 else S(p \<mapsto> st\<lparr>ms_ref_count := ms_ref_count st - 1\<rparr>))"

text \<open>
  A message in flight moves on: it was sent and waits for its acknowledgement, or the next
  packet of the QoS 2 handshake is due.
\<close>

definition msg_advance :: "mosquitto_client_msg \<Rightarrow> mosquitto_client_msg \<Rightarrow> bool" where
  "msg_advance msg msg' \<longleftrightarrow>
     (\<exists>t dup st. msg' = msg\<lparr>cm_timestamp := t, cm_dup := dup, cm_state := st\<rparr> \<and>
       (cm_state msg = mosq_ms_publish_qos1 \<and> st = mosq_ms_wait_for_puback \<or>
        cm_state msg = mosq_ms_publish_qos2 \<and> st = mosq_ms_wait_for_pubrec \<or>
        cm_state msg = mosq_ms_resend_pubrel \<and> st = mosq_ms_wait_for_pubcomp \<or>
        cm_qos msg = 2 \<and> st = mosq_ms_wait_for_pubcomp))"

text \<open>The counters when a message of some length comes or goes.\<close>

definition counted :: "int \<Rightarrow> int \<Rightarrow> bool \<Rightarrow> mosquitto_msg_data \<Rightarrow> mosquitto_msg_data" where
  "counted n len pos md =
     md\<lparr>md_msg_count := md_msg_count md + n, md_msg_bytes := md_msg_bytes md + n * len,
        md_msg_count12 := md_msg_count12 md + (if pos then n else 0),
        md_msg_bytes12 := md_msg_bytes12 md + (if pos then n * len else 0)\<rparr>"

text \<open>The list a new message goes to.\<close>

definition appended :: "mosquitto_client_msg \<Rightarrow> mosquitto_msg_data \<Rightarrow> mosquitto_msg_data" where
  "appended msg md =
     (if cm_state msg = mosq_ms_queued then md\<lparr>md_queued := md_queued md @ [msg]\<rparr>
      else if cm_state msg = mosq_ms_storage then md\<lparr>md_storage := md_storage md @ [msg]\<rparr>
      else md\<lparr>md_inflight := md_inflight md @ [msg]\<rparr>)"

text \<open>The steps at a time \<open>now\<close> of the monotonic clock, which a message put into the storage
  carries.\<close>

inductive out_step :: "int \<Rightarrow> stores \<times> mosquitto_msg_data \<Rightarrow> stores \<times> mosquitto_msg_data \<Rightarrow> bool"
  for now :: int where
  quota_up: "md_inflight_quota md < uint (md_inflight_maximum md) \<Longrightarrow>
    out_step now (S, md) (S, md\<lparr>md_inflight_quota := md_inflight_quota md + 1\<rparr>)"
| quota_down: "md_inflight_quota md > 0 \<Longrightarrow>
    out_step now (S, md) (S, md\<lparr>md_inflight_quota := md_inflight_quota md - 1\<rparr>)"
| dequeue: "md_queued md = msg # q \<Longrightarrow>
    out_step now (S, md) (S, md\<lparr>md_queued := q,
      md_inflight := md_inflight md @ [set_publish_state (msg\<lparr>cm_timestamp := t\<rparr>)]\<rparr>)"
| destore_queue: "md_storage md = msg # s \<Longrightarrow> md_inflight_maximum md \<noteq> 0 \<Longrightarrow> md_inflight_quota md = 0 \<Longrightarrow>
    out_step now (S, md) (S, md\<lparr>md_storage := s, md_queued := md_queued md @ [msg]\<rparr>)"
| destore_inflight: "md_storage md = msg # s \<Longrightarrow>
    out_step now (S, md) (S, md\<lparr>md_storage := s, md_inflight := md_inflight md @ [set_publish_state msg]\<rparr>)"
| advance: "md_inflight md = before @ msg # behind \<Longrightarrow> msg_advance msg msg' \<Longrightarrow>
    out_step now (S, md) (S, md\<lparr>md_inflight := before @ msg' # behind\<rparr>)"
| discard: "md_inflight md = before @ msg # behind \<Longrightarrow> S (cm_store msg) = Some st \<Longrightarrow>
    out_step now (S, md) (ref_dropped S (cm_store msg),
      counted (- 1) (uint (ms_payloadlen st)) (cm_qos msg > 0) (md\<lparr>md_inflight := before @ behind\<rparr>))"
| insert_new: "S (cm_store msg) = Some st \<Longrightarrow> cm_direction msg = mosq_md_out \<Longrightarrow>
    cm_state msg \<in> {mosq_ms_queued, mosq_ms_storage} \<or> cm_state msg = mosq_ms_publish_qos0 \<and> qos = 0 \<or>
      cm_state msg = mosq_ms_publish_qos1 \<and> qos = 1 \<or> cm_state msg = mosq_ms_publish_qos2 \<and> qos = 2 \<Longrightarrow>
    cm_qos msg \<le> qos \<Longrightarrow> qos \<le> 2 \<Longrightarrow>
    (cm_state msg = mosq_ms_storage \<longrightarrow> tv_sec (cm_storage_time msg) = now) \<Longrightarrow>
    out_step now (S, md) (ref_taken S (cm_store msg),
      counted 1 (uint (ms_payloadlen st)) (qos > 0) (appended msg md))"
| note_destination: "S p = Some st \<Longrightarrow>
    out_step now (S, md) (S(p \<mapsto> st\<lparr>ms_dest_ids := ids\<rparr>), md)"

inductive_cases out_stepE: "out_step now (S, md) (S', md')"

abbreviation out_steps :: "int \<Rightarrow> stores \<times> mosquitto_msg_data \<Rightarrow> stores \<times> mosquitto_msg_data \<Rightarrow> bool" where
  "out_steps now \<equiv> (out_step now)\<^sup>*\<^sup>*"

lemma out_steps_trans: "out_steps now a b \<Longrightarrow> out_steps now b c \<Longrightarrow> out_steps now a c"
  by (rule rtranclp_trans)

lemma out_steps_step: "out_steps now a b \<Longrightarrow> out_step now b c \<Longrightarrow> out_steps now a c"
  by (rule rtranclp.rtrancl_into_rtrancl)

section \<open>The store\<close>

lemma map_of_update_all:
  "map_of (map (\<lambda>(q, x). if q = p then (q, st) else (q, x)) l) =
     (if map_of l p = None then map_of l else (map_of l)(p \<mapsto> st))"
  by (induction l) (auto simp: fun_eq_iff split: if_splits)

lemma store_at_set: "store_at d p = Some st \<Longrightarrow> store_at (store_set d p st') = (store_at d)(p \<mapsto> st')"
  by (simp add: fun_eq_iff store_at_def store_set_def map_of_update_all)

lemma store_set_fields [simp]:
  "db_config (store_set d p st) = db_config d" "db_now_s (store_set d p st) = db_now_s d"
  "db_monotonic (store_set d p st) = db_monotonic d" "db_realtime (store_set d p st) = db_realtime d"
  "db_now_real_s (store_set d p st) = db_now_real_s d" "db_next_ptr (store_set d p st) = db_next_ptr d"
  by (simp_all add: store_set_def)

lemma store_at_update [simp]:
  "store_at (d\<lparr>db_persistence_changes := n\<rparr>) = store_at d"
  "store_at (d\<lparr>db_msgs_dropped := n\<rparr>) = store_at d"
  by (simp_all add: fun_eq_iff store_at_def)

lemma map_of_filter_key: "map_of (filter (\<lambda>(q, _). q \<noteq> p) l) = (map_of l)(p := None)"
  by (induction l) (auto simp: fun_eq_iff)

lemma store_get_Ok: "store_get d p = Ok st \<longleftrightarrow> store_at d p = Some st"
  by (simp add: store_get_def split: option.split)

lemma store_remove_Ok:
  "db__msg_store_remove d p = Ok d' \<Longrightarrow> store_at d' = (store_at d)(p := None)"
  by (auto simp: db__msg_store_remove_def res_bind_Ok_iff store_at_def fun_eq_iff map_of_filter_key)

lemma ref_inc_Ok:
  assumes "db__msg_store_ref_inc d p = Ok d'"
  shows "store_at d' = ref_taken (store_at d) p" and "\<exists>st. store_at d p = Some st"
    and "db_config d' = db_config d" and "db_now_s d' = db_now_s d"
    and "db_monotonic d' = db_monotonic d" and "db_next_ptr d' = db_next_ptr d" and "db_now_real_s d' = db_now_real_s d"
  using assms
  by (auto simp: db__msg_store_ref_inc_def res_bind_Ok_iff store_get_Ok store_at_set ref_taken_def)

lemma ref_dec_Ok:
  assumes "db__msg_store_ref_dec d p = Ok d'"
  shows "store_at d' = ref_dropped (store_at d) p" and "\<exists>st. store_at d p = Some st"
proof -
  obtain st where st: "store_at d p = Some st"
    using assms by (auto simp: db__msg_store_ref_dec_def res_bind_Ok_iff store_get_Ok)
  then show "\<exists>st. store_at d p = Some st" by blast
  let ?d = "store_set d p (st\<lparr>ms_ref_count := ms_ref_count st - 1\<rparr>)"
  have "(if ms_ref_count st - 1 = 0 then db__msg_store_remove ?d p else Ok ?d) = Ok d'"
    using assms st by (simp add: db__msg_store_ref_dec_def store_get_def Let_def)
  then show "store_at d' = ref_dropped (store_at d) p"
    using store_at_set [OF st] store_remove_Ok [of ?d p d'] st
    by (auto simp: ref_dropped_def split: if_splits)
qed

section \<open>Operations on the lists\<close>

lemma remove_step:
  assumes "db__message_remove d md before item behind = Ok (d', md')"
    and "md_inflight md = before @ item # behind"
  shows "out_step now (store_at d, md) (store_at d', md')"
proof -
  obtain st where st: "store_at d (cm_store item) = Some st"
    and dec: "db__msg_store_ref_dec d (cm_store item) = Ok d'"
    and md': "md' = counted (- 1) (uint (ms_payloadlen st)) (cm_qos item > 0)
      (md\<lparr>md_inflight := before @ behind\<rparr>)"
    using assms(1)
    by (auto simp: db__message_remove_def res_bind_Ok_iff store_get_Ok counted_def Let_def
        split: if_splits)
  show ?thesis
    unfolding ref_dec_Ok(1) [OF dec] md' using assms(2) st by (rule discard)
qed

text \<open>The quota when a message enters \<open>inflight\<close>.\<close>

definition quota_spent :: "mosquitto_msg_data \<Rightarrow> mosquitto_msg_data" where
  "quota_spent md = (if md_inflight_quota md > 0
     then md\<lparr>md_inflight_quota := md_inflight_quota md - 1\<rparr> else md)"

lemma quota_spent_steps: "out_steps now (S, md) (S, quota_spent md)"
  by (auto simp: quota_spent_def intro: r_into_rtranclp quota_down)

lemma quota_spent_fields [simp]:
  "md_queued (quota_spent md) = md_queued md" "md_inflight (quota_spent md) = md_inflight md"
  "md_storage (quota_spent md) = md_storage md"
  "md_inflight_maximum (quota_spent md) = md_inflight_maximum md"
  "md_msg_count (quota_spent md) = md_msg_count md" "md_msg_bytes (quota_spent md) = md_msg_bytes md"
  "md_msg_count12 (quota_spent md) = md_msg_count12 md"
  "md_msg_bytes12 (quota_spent md) = md_msg_bytes12 md"
  by (simp_all add: quota_spent_def)

definition dequeued :: "mosquitto_client_msg \<Rightarrow> mosquitto_client_msg list \<Rightarrow> mosquitto_msg_data \<Rightarrow> mosquitto_msg_data" where
  "dequeued msg q md = quota_spent (md\<lparr>md_queued := q, md_inflight := md_inflight md @ [msg]\<rparr>)"

lemma dequeue_first_Cons:
  "db__message_dequeue_first (md\<lparr>md_queued := msg # q\<rparr>) = Ok (dequeued msg q md)"
  by (simp add: db__message_dequeue_first_def dequeued_def quota_spent_def Let_def)

lemma dequeued_queued [simp]: "md_queued (dequeued msg q md) = q"
  by (simp add: dequeued_def)

lemma in_front_same [simp]: "in_front l l = []"
  by (simp add: in_front_def)

lemma dequeued_steps:
  assumes "md_queued md = msg # q"
  shows "out_steps now (S, md) (S, dequeued (set_publish_state (msg\<lparr>cm_timestamp := t\<rparr>)) q md)"
proof -
  have "out_step now (S, md) (S, md\<lparr>md_queued := q,
      md_inflight := md_inflight md @ [set_publish_state (msg\<lparr>cm_timestamp := t\<rparr>)]\<rparr>)"
    using assms by (rule dequeue)
  then show ?thesis
    unfolding dequeued_def by (rule out_steps_trans [OF r_into_rtranclp quota_spent_steps])
qed

lemma write_queued_out_steps:
  "md_queued md = q \<Longrightarrow> write_queued_out_loop md [] q = Ok md' \<Longrightarrow> out_steps now (S, md) (S, md')"
proof (induction q arbitrary: md)
  case (Cons msg q)
  show ?case
  proof (cases "md_inflight_maximum md \<noteq> 0 \<and> md_inflight_quota md = 0")
    case False
    let ?md = "dequeued (set_publish_state (msg\<lparr>cm_timestamp := cm_timestamp msg\<rparr>)) q md"
    have "write_queued_out_loop ?md [] q = Ok md'"
      using Cons.prems(2) False by (simp add: dequeue_first_Cons del: not_less)
    from Cons.IH [OF dequeued_queued this] dequeued_steps [OF Cons.prems(1)]
    show ?thesis by (rule out_steps_trans [rotated])
  qed (use Cons.prems in simp)
qed simp

lemma delete_outgoing_steps:
  "md_queued md = q \<Longrightarrow> delete_outgoing_loop now_s i md [] q = Ok md' \<Longrightarrow> out_steps now (S, md) (S, md')"
proof (induction q arbitrary: md i)
  case (Cons msg q)
  show ?case
  proof (cases "md_inflight_maximum md \<noteq> 0 \<and> i \<ge> unat (md_inflight_maximum md)")
    case False
    let ?md = "dequeued (set_publish_state (msg\<lparr>cm_timestamp := now_s\<rparr>)) q md"
    have "delete_outgoing_loop now_s (i + 1) ?md [] q = Ok md'"
      using Cons.prems(2) False by (auto simp: dequeue_first_Cons)
    from Cons.IH [OF dequeued_queued this] dequeued_steps [OF Cons.prems(1)]
    show ?thesis by (rule out_steps_trans [rotated])
  qed (use Cons.prems in simp)
qed simp

section \<open>Releasing the storage\<close>

text \<open>
  Messages enter the storage in the order of their storage time. In a list in that order the
  messages that are due form a prefix, so that the message the loop looks at is always the first
  one.
\<close>

definition storage_sorted :: "mosquitto_msg_data \<Rightarrow> bool" where
  "storage_sorted md \<longleftrightarrow> sorted (map (\<lambda>msg. tv_sec (cm_storage_time msg)) (md_storage md))"

definition is_due :: "timespec \<Rightarrow> int \<Rightarrow> transfer_mode \<Rightarrow> mosquitto_client_msg \<Rightarrow> bool" where
  "is_due tp timeout mode msg \<longleftrightarrow>
     tv_sec tp - tv_sec (cm_storage_time msg) > timeout \<or> mode = normal_mode"

text \<open>One message released: to the queue when the quota is used up, otherwise in flight.\<close>

definition destored :: "mosquitto_client_msg \<Rightarrow> mosquitto_client_msg list \<Rightarrow> mosquitto_msg_data \<Rightarrow> mosquitto_msg_data" where
  "destored msg s md =
    (if md_inflight_maximum md \<noteq> 0 \<and> md_inflight_quota md = 0
     then md\<lparr>md_storage := s, md_queued := md_queued md @ [msg]\<rparr>
     else quota_spent (md\<lparr>md_storage := s, md_inflight := md_inflight md @ [set_publish_state msg]\<rparr>))"

fun released :: "mosquitto_client_msg list \<Rightarrow> mosquitto_client_msg list \<Rightarrow> mosquitto_msg_data \<Rightarrow> mosquitto_msg_data" where
  "released [] kept md = md"
| "released (msg # due) kept md = released due kept (destored msg (due @ kept) md)"

lemma destored_storage [simp]: "md_storage (destored msg s md) = s"
  by (simp add: destored_def)

lemma destored_maximum [simp]: "md_inflight_maximum (destored msg s md) = md_inflight_maximum md"
  by (simp add: destored_def)

lemma storage_loop_keep:
  "\<forall>msg \<in> set tmp. \<not> is_due tp timeout mode msg \<Longrightarrow>
   write_storage_out_loop tp timeout mode md before tmp = Ok md"
  by (induction tmp arbitrary: before) (auto simp: is_due_def)

lemma storage_loop_release:
  "md_storage md = due @ kept \<Longrightarrow> \<forall>msg \<in> set due. is_due tp timeout mode msg \<Longrightarrow>
   \<forall>msg \<in> set kept. \<not> is_due tp timeout mode msg \<Longrightarrow>
   write_storage_out_loop tp timeout mode md [] (due @ kept) = Ok (released due kept md)"
proof (induction due arbitrary: md)
  case Nil
  then show ?case by (simp add: storage_loop_keep)
next
  case (Cons msg due)
  have c: "(tv_sec tp - tv_sec (cm_storage_time msg) > timeout \<or> mode = normal_mode) = True"
    using Cons.prems(2) by (auto simp: is_due_def)
  have step: "(if md_inflight_maximum md \<noteq> 0 \<and> md_inflight_quota md = 0
          then db__message_destorage_first md 0
          else db__message_destorage_first
                 (md\<lparr>md_storage := [] @ set_publish_state msg # due @ kept\<rparr>) 1) =
      Ok (destored msg (due @ kept) md)"
    using Cons.prems(1)
    by (simp add: db__message_destorage_first_def destored_def quota_spent_def Let_def)
  have "write_storage_out_loop tp timeout mode md [] ((msg # due) @ kept) =
      write_storage_out_loop tp timeout mode (destored msg (due @ kept) md) [] (due @ kept)"
    by (simp only: append_Cons write_storage_out_loop.simps c if_True step res_bind.simps
        destored_storage in_front_same)
  then show ?case using Cons.IH [of "destored msg (due @ kept) md"] Cons.prems by simp
qed

lemma due_prefix:
  assumes "storage_sorted md"
  shows "\<forall>msg \<in> set (dropWhile (is_due tp timeout mode) (md_storage md)). \<not> is_due tp timeout mode msg"
proof -
  have "sorted (map (\<lambda>msg. tv_sec (cm_storage_time msg)) l) \<Longrightarrow>
      \<forall>msg \<in> set (dropWhile (is_due tp timeout mode) l). \<not> is_due tp timeout mode msg" for l
  proof (induction l)
    case (Cons msg l)
    show ?case
    proof (cases "is_due tp timeout mode msg")
      case True
      have "sorted (map (\<lambda>msg. tv_sec (cm_storage_time msg)) l)" using Cons.prems by simp
      from Cons.IH [OF this] True show ?thesis by (simp only: dropWhile.simps if_True)
    next
      case False
      have "\<not> is_due tp timeout mode msg'" if "msg' \<in> set l" for msg'
      proof -
        have "tv_sec (cm_storage_time msg) \<le> tv_sec (cm_storage_time msg')"
          using Cons.prems that by simp
        then show ?thesis using False by (simp add: is_due_def)
      qed
      then show ?thesis using False by (simp only: dropWhile.simps if_False list.set) blast
    qed
  qed simp
  then show ?thesis using assms by (simp add: storage_sorted_def)
qed

lemma write_storage_out_eq:
  assumes "mq_state m = mosq_cs_active" and "storage_sorted (mq_msgs_out m)"
  shows "db__message_write_storage_out d m =
    (let due = is_due (db_monotonic d) (cf_msg_store_timeout (db_config d)) (mq_mode m);
         storage = md_storage (mq_msgs_out m)
     in Ok (MOSQ_ERR_SUCCESS, m\<lparr>mq_msgs_out :=
          released (takeWhile due storage) (dropWhile due storage) (mq_msgs_out m)\<rparr>))"
proof -
  let ?due = "is_due (db_monotonic d) (cf_msg_store_timeout (db_config d)) (mq_mode m)"
  let ?s = "md_storage (mq_msgs_out m)"
  have "\<forall>msg \<in> set (takeWhile ?due ?s). ?due msg" by (auto dest: set_takeWhileD)
  moreover note due_prefix [OF assms(2)]
  ultimately have "write_storage_out_loop (db_monotonic d) (cf_msg_store_timeout (db_config d))
      (mq_mode m) (mq_msgs_out m) [] (takeWhile ?due ?s @ dropWhile ?due ?s) =
      Ok (released (takeWhile ?due ?s) (dropWhile ?due ?s) (mq_msgs_out m))"
    by (intro storage_loop_release) auto
  then show ?thesis using assms(1) by (simp add: db__message_write_storage_out_def Let_def)
qed

lemma destored_steps:
  assumes "md_storage md = msg # s"
  shows "out_steps now (S, md) (S, destored msg s md)"
proof (cases "md_inflight_maximum md \<noteq> 0 \<and> md_inflight_quota md = 0")
  case True
  then have "out_step now (S, md) (S, md\<lparr>md_storage := s, md_queued := md_queued md @ [msg]\<rparr>)"
    using assms by (intro destore_queue) auto
  then show ?thesis using True by (simp add: destored_def)
next
  case False
  have "out_step now (S, md) (S, md\<lparr>md_storage := s, md_inflight := md_inflight md @ [set_publish_state msg]\<rparr>)"
    using assms by (rule destore_inflight)
  then have "out_steps now (S, md) (S, quota_spent (md\<lparr>md_storage := s,
      md_inflight := md_inflight md @ [set_publish_state msg]\<rparr>))"
    by (rule out_steps_trans [OF r_into_rtranclp quota_spent_steps])
  then show ?thesis unfolding destored_def using False by auto
qed

lemma released_steps:
  "md_storage md = due @ kept \<Longrightarrow> out_steps now (S, md) (S, released due kept md)"
proof (induction due arbitrary: md)
  case (Cons msg due)
  have "out_steps now (S, md) (S, destored msg (due @ kept) md)"
    using Cons.prems by (intro destored_steps) simp
  then show ?case
    using Cons.IH [of "destored msg (due @ kept) md"] by (auto intro: out_steps_trans)
qed simp

end
