(* ===== verification/Msg_Refine.thy ===== *)
theory Msg_Refine
  imports Msg_Steps
begin

text \<open>
  Every operation of \<open>Database\<close> on the outgoing messages of a client, written down from
  \<^verbatim>\<open>src/database.c\<close> with all its branches, is a sequence of the steps of
  \<open>Msg_Steps\<close>. The lemmas \<open>*_run\<close> say so for one operation each, and that the
  operation leaves the rest of the client alone.
\<close>

section \<open>Running an operation\<close>

definition out_run :: "db \<Rightarrow> mosquitto \<Rightarrow> db \<Rightarrow> mosquitto \<Rightarrow> bool" where
  "out_run d m d' m' \<longleftrightarrow>
     out_steps (tv_sec (db_monotonic d)) (store_at d, mq_msgs_out m) (store_at d', mq_msgs_out m') \<and>
     db_monotonic d' = db_monotonic d \<and> db_config d' = db_config d \<and> db_now_s d' = db_now_s d \<and>
   db_next_ptr d' = db_next_ptr d \<and>
     mq_msgs_in m' = mq_msgs_in m \<and> mq_id m' = mq_id m \<and> mq_sock m' = mq_sock m \<and>
     mq_state m' = mq_state m \<and> mq_mode m' = mq_mode m \<and> mq_threshold_l m' = mq_threshold_l m \<and>
     mq_lat_pre m' = mq_lat_pre m \<and> mq_count_for_lat m' = mq_count_for_lat m \<and>
     mq_slow_mode_time m' = mq_slow_mode_time m \<and> mq_mount_point m' = mq_mount_point m \<and>
     mq_in_packet m' = mq_in_packet m \<and> session m' = session m \<and> db_now_real_s d' = db_now_real_s d"

lemma out_run_refl [simp]: "out_run d m d m"
  by (simp add: out_run_def)

lemma out_run_trans [trans]: "out_run d m d1 m1 \<Longrightarrow> out_run d1 m1 d2 m2 \<Longrightarrow> out_run d m d2 m2"
  by (auto simp: out_run_def intro: rtranclp_trans)

text \<open>What a frame of the sending functions gives.\<close>

lemma out_frame_run: "out_frame (m\<lparr>mq_send_time := t\<rparr>) m' \<Longrightarrow> out_run d m d m'"
  using out_frame_fields [of "m\<lparr>mq_send_time := t\<rparr>" m'] by (simp add: out_run_def)

lemma out_frame_run': "out_frame m m' \<Longrightarrow> out_run d m d m'"
  using out_frame_fields [of m m'] by (simp add: out_run_def)

lemma publish_run:
  "send__publish d m mid topic len payload qos retain dup cmsg store ex = Ok (rc, m') \<Longrightarrow>
   out_run d m d m' \<and> mq_msgs_out m' = mq_msgs_out m"
  using send__publish_frame [of d m mid topic len payload qos retain dup cmsg store ex rc m']
    out_frame_fields(1) out_frame_run by fastforce

lemma pubrel_run:
  "send__pubrel d m mid props = Ok (rc, m') \<Longrightarrow> out_run d m d m' \<and> mq_msgs_out m' = mq_msgs_out m"
  unfolding send__pubrel_def
  using send__command_with_mid_frame out_frame_fields(1) out_frame_run' by metis

text \<open>One step, when only the store and the outgoing messages change.\<close>

lemma out_runI:
  assumes "out_steps (tv_sec (db_monotonic d)) (store_at d, mq_msgs_out m) (store_at d', md')"
    and "db_monotonic d' = db_monotonic d" "db_config d' = db_config d" "db_now_s d' = db_now_s d"
    and "db_next_ptr d' = db_next_ptr d" "db_now_real_s d' = db_now_real_s d"
  shows "out_run d m d' (m\<lparr>mq_msgs_out := md'\<rparr>)"
  using assms by (simp add: out_run_def)

lemma increment_send_quota_run: "out_run d m d (util__increment_send_quota m)"
  by (auto simp: util__increment_send_quota_def Let_def intro!: out_runI r_into_rtranclp quota_up)

lemma decrement_send_quota_run: "out_run d m d (util__decrement_send_quota m)"
  by (auto simp: util__decrement_send_quota_def Let_def intro!: out_runI r_into_rtranclp quota_down)

lemma increment_send_quota_inflight [simp]:
  "md_inflight (mq_msgs_out (util__increment_send_quota m)) = md_inflight (mq_msgs_out m)"
  by (simp add: util__increment_send_quota_def Let_def)

section \<open>Writing messages out\<close>

lemma store_remove_fields:
  "db__msg_store_remove d p = Ok d' \<Longrightarrow>
   db_monotonic d' = db_monotonic d \<and> db_config d' = db_config d \<and> db_now_s d' = db_now_s d \<and>
   db_next_ptr d' = db_next_ptr d \<and> db_now_real_s d' = db_now_real_s d"
  by (auto simp: db__msg_store_remove_def res_bind_Ok_iff)

lemma ref_dec_fields:
  "db__msg_store_ref_dec d p = Ok d' \<Longrightarrow>
   db_monotonic d' = db_monotonic d \<and> db_config d' = db_config d \<and> db_now_s d' = db_now_s d \<and>
   db_next_ptr d' = db_next_ptr d \<and> db_now_real_s d' = db_now_real_s d"
  by (auto simp: db__msg_store_ref_dec_def res_bind_Ok_iff Let_def dest: store_remove_fields
      split: if_splits)

lemma remove_run:
  assumes "db__message_remove d (mq_msgs_out m) before item behind = Ok (d', md')"
    and "md_inflight (mq_msgs_out m) = before @ item # behind"
  shows "out_run d m d' (m\<lparr>mq_msgs_out := md'\<rparr>)" "md_inflight md' = before @ behind"
    "md_queued md' = md_queued (mq_msgs_out m)" "md_storage md' = md_storage (mq_msgs_out m)"
proof -
  show "out_run d m d' (m\<lparr>mq_msgs_out := md'\<rparr>)"
    using r_into_rtranclp [of "out_step (tv_sec (db_monotonic d))", OF remove_step [OF assms]] assms(1)
    by (intro out_runI)
      (auto simp: db__message_remove_def Let_def res_bind_Ok_iff dest: ref_dec_fields)
  show "md_inflight md' = before @ behind" "md_queued md' = md_queued (mq_msgs_out m)"
    "md_storage md' = md_storage (mq_msgs_out m)"
    using assms(1) by (auto simp: db__message_remove_def res_bind_Ok_iff Let_def split: if_splits)
qed

lemma advance_run:
  assumes "md_inflight (mq_msgs_out m) = before @ msg # behind" and "msg_advance msg msg'"
  shows "out_run d m d (m\<lparr>mq_msgs_out := (mq_msgs_out m)\<lparr>md_inflight := before @ msg' # behind\<rparr>\<rparr>)"
  using assms by (auto intro!: out_runI r_into_rtranclp advance)

text \<open>After writing a message, the messages behind it and in the other lists are still there.\<close>

definition same_waiting :: "mosquitto \<Rightarrow> mosquitto \<Rightarrow> bool" where
  "same_waiting m m' \<longleftrightarrow> md_queued (mq_msgs_out m') = md_queued (mq_msgs_out m) \<and>
     md_storage (mq_msgs_out m') = md_storage (mq_msgs_out m)"

lemma same_waiting_refl [simp]: "same_waiting m m"
  by (simp add: same_waiting_def)

lemma same_waiting_trans: "same_waiting a b \<Longrightarrow> same_waiting b c \<Longrightarrow> same_waiting a c"
  by (simp add: same_waiting_def)

definition wrote :: "db \<Rightarrow> mosquitto \<Rightarrow> mosquitto_client_msg list \<Rightarrow> rc \<times> db \<times> mosquitto \<Rightarrow> bool" where
  "wrote d m behind r \<longleftrightarrow> (case r of (rc, d', m') \<Rightarrow> out_run d m d' m' \<and>
     same_waiting m m' \<and> (\<exists>before'. md_inflight (mq_msgs_out m') = before' @ behind))"

lemma wrote_same:
  "out_run d m d m' \<Longrightarrow> mq_msgs_out m' = mq_msgs_out m \<Longrightarrow>
   md_inflight (mq_msgs_out m) = before @ msg # behind \<Longrightarrow> wrote d m behind (rc, d, m')"
  by (auto simp: wrote_def same_waiting_def intro: exI [of _ "before @ [msg]"])

lemma wrote_remove:
  assumes "out_run d m d m1" and "same_waiting m m1"
    and "md_inflight (mq_msgs_out m1) = before @ msg # behind"
    and "res_bind (db__message_remove d (mq_msgs_out m1) before msg behind)
      (\<lambda>(d, md). Ok (MOSQ_ERR_SUCCESS, d, m1\<lparr>mq_msgs_out := md\<rparr>)) = Ok r"
  shows "wrote d m behind r"
proof -
  obtain d' md' where r: "db__message_remove d (mq_msgs_out m1) before msg behind = Ok (d', md')"
    and "r = (MOSQ_ERR_SUCCESS, d', m1\<lparr>mq_msgs_out := md'\<rparr>)"
    using assms(4) by (auto simp: res_bind_Ok_iff)
  then show ?thesis
    using remove_run [OF r assms(3)] out_run_trans [OF assms(1)] assms(2)
    by (auto simp: wrote_def same_waiting_def)
qed

lemma wrote_advance:
  assumes "out_run d m d m1" and "same_waiting m m1"
    and "md_inflight (mq_msgs_out m1) = before @ msg # behind"
    and "msg_advance msg msg'"
  shows "wrote d m behind (rc, d,
    m1\<lparr>mq_msgs_out := (mq_msgs_out m1)\<lparr>md_inflight := before @ msg' # behind\<rparr>\<rparr>)"
  using out_run_trans [OF assms(1) advance_run [OF assms(3,4)]] assms(2)
  by (auto simp: wrote_def same_waiting_def intro: exI [of _ "before @ [msg']"])

lemma msg_advance_intros:
  "cm_state msg = mosq_ms_publish_qos1 \<Longrightarrow>
   msg_advance msg (msg\<lparr>cm_timestamp := t, cm_dup := b, cm_state := mosq_ms_wait_for_puback\<rparr>)"
  "cm_state msg = mosq_ms_publish_qos2 \<Longrightarrow>
   msg_advance msg (msg\<lparr>cm_timestamp := t, cm_dup := b, cm_state := mosq_ms_wait_for_pubrec\<rparr>)"
  "cm_state msg = mosq_ms_resend_pubrel \<Longrightarrow>
   msg_advance msg (msg\<lparr>cm_state := mosq_ms_wait_for_pubcomp\<rparr>)"
  "cm_qos msg = 2 \<Longrightarrow>
   msg_advance msg (msg\<lparr>cm_state := mosq_ms_wait_for_pubcomp, cm_timestamp := t\<rparr>)"
  unfolding msg_advance_def
     apply (intro exI [of _ t] exI [of _ b] exI [of _ mosq_ms_wait_for_puback], simp)
    apply (intro exI [of _ t] exI [of _ b] exI [of _ mosq_ms_wait_for_pubrec], simp)
   apply (intro exI [of _ "cm_timestamp msg"] exI [of _ "cm_dup msg"] exI [of _ mosq_ms_wait_for_pubcomp], simp)
  apply (intro exI [of _ t] exI [of _ "cm_dup msg"] exI [of _ mosq_ms_wait_for_pubcomp], simp)
  done

text \<open>A publish that changes no message, and what is done on its result.\<close>

definition kept_msgs :: "db \<Rightarrow> mosquitto \<Rightarrow> (rc \<times> mosquitto) res \<Rightarrow> bool" where
  "kept_msgs d m r \<longleftrightarrow>
     (\<forall>rc m'. r = Ok (rc, m') \<longrightarrow> out_run d m d m' \<and> mq_msgs_out m' = mq_msgs_out m)"

lemma kept_publish: "kept_msgs d m (send__publish d m mid topic len payload qos retain dup cmsg store ex)"
  using publish_run by (auto simp: kept_msgs_def)

lemma kept_pubrel: "kept_msgs d m (send__pubrel d m mid props)"
  using pubrel_run by (auto simp: kept_msgs_def)

lemma wrote_after:
  assumes "kept_msgs d m publish" and "res_bind publish (\<lambda>(rc, m). f rc m) = Ok r"
    and "md_inflight (mq_msgs_out m) = before @ msg # behind"
    and "\<And>rc m'. out_run d m d m' \<Longrightarrow> same_waiting m m' \<Longrightarrow> md_inflight (mq_msgs_out m') = before @ msg # behind \<Longrightarrow>
      wrote d m behind (rc, d, m') \<Longrightarrow> f rc m' = Ok r \<Longrightarrow> wrote d m behind r"
  shows "wrote d m behind r"
proof -
  obtain rc m' where p: "publish = Ok (rc, m')" and f: "f rc m' = Ok r"
    using assms(2) by (auto simp: res_bind_Ok_iff)
  then have m': "out_run d m d m'" "mq_msgs_out m' = mq_msgs_out m"
    using assms(1) by (auto simp: kept_msgs_def)
  show ?thesis
    by (rule assms(4) [OF m'(1) _ _ wrote_same [OF m'] f]) (use m' assms(3) in \<open>auto simp: same_waiting_def\<close>)
qed

lemma write_single_wrote:
  assumes w: "db__message_write_inflight_out_single d m before msg behind = Ok r"
    and i: "md_inflight (mq_msgs_out m) = before @ msg # behind"
  shows "wrote d m behind r"
proof -
  obtain store where st: "store_get d (cm_store msg) = Ok store"
    using w by (auto simp: db__message_write_inflight_out_single_def res_bind_Ok_iff)
  note w = w [unfolded db__message_write_inflight_out_single_def st res_bind.simps Let_def]
  note publish = wrote_after [OF kept_publish _ i] and pubrel = wrote_after [OF kept_pubrel _ i]
  show ?thesis
  proof (cases "ms_message_expiry_time store \<noteq> 0 \<and> db_now_real_s d > ms_message_expiry_time store")
    case True
    have "out_run d m d (if cm_direction msg = mosq_md_out \<and> cm_qos msg > 0
        then util__increment_send_quota m else m)"
      "same_waiting m (if cm_direction msg = mosq_md_out \<and> cm_qos msg > 0
        then util__increment_send_quota m else m)"
      using increment_send_quota_run
      by (simp_all add: same_waiting_def util__increment_send_quota_def Let_def)
    then show ?thesis by (rule wrote_remove) (use w True i in \<open>simp_all\<close>)
  next
    case False
    note w = w [unfolded if_not_P [OF False]]
    consider "cm_state msg = mosq_ms_publish_qos0" | "cm_state msg = mosq_ms_publish_qos1"
      | "cm_state msg = mosq_ms_publish_qos2" | "cm_state msg = mosq_ms_resend_pubrel"
      | "cm_state msg \<notin> {mosq_ms_publish_qos0, mosq_ms_publish_qos1, mosq_ms_publish_qos2,
          mosq_ms_resend_pubrel}" by blast
    then show ?thesis
    proof cases
      case 1
      note w = w [unfolded 1 simp_thms if_True]
      show ?thesis by (rule publish [OF w]) (auto intro: wrote_remove split: if_splits)
    next
      case 2
      note w = w [unfolded 2, simplified mosquitto_msg_state.distinct simp_thms if_False if_True]
      show ?thesis
        by (rule publish [OF w])
          (auto intro: wrote_remove wrote_advance msg_advance_intros 2 split: if_splits)
    next
      case 3
      note w = w [unfolded 3, simplified mosquitto_msg_state.distinct simp_thms if_False if_True]
      show ?thesis
        by (rule publish [OF w])
          (auto intro: wrote_remove wrote_advance msg_advance_intros 3 split: if_splits)
    next
      case 4
      note w = w [unfolded 4, simplified mosquitto_msg_state.distinct simp_thms if_False if_True]
      show ?thesis
        by (rule pubrel [OF w])
          (auto intro: wrote_advance msg_advance_intros 4 split: if_splits)
    next
      case 5
      then have "r = (MOSQ_ERR_SUCCESS, d, m)" using w by auto
      then show ?thesis using i by (auto intro: wrote_same)
    qed
  qed
qed

lemma in_front_append [simp]: "in_front (l @ tmp) tmp = l"
  by (simp add: in_front_def)

lemma write_loop_run:
  "write_inflight_loop d m before tmp = Ok (rc, d', m') \<Longrightarrow>
   md_inflight (mq_msgs_out m) = before @ tmp \<Longrightarrow> out_run d m d' m' \<and> same_waiting m m'"
proof (induction tmp arbitrary: d m before)
  case (Cons msg behind)
  obtain rc1 d1 m1 where w: "db__message_write_inflight_out_single d m before msg behind = Ok (rc1, d1, m1)"
    and k: "(if rc1 \<noteq> 0 then Ok (rc1, d1, m1)
      else write_inflight_loop d1 m1 (in_front (md_inflight (mq_msgs_out m1)) behind) behind) = Ok (rc, d', m')"
    using Cons.prems(1) by (auto simp: res_bind_Ok_iff)
  obtain before' where r: "out_run d m d1 m1" "same_waiting m m1" and i: "md_inflight (mq_msgs_out m1) = before' @ behind"
    using write_single_wrote [OF w Cons.prems(2)] by (auto simp: wrote_def)
  show ?case
    using k r Cons.IH [of d1 m1 before'] i
    by (auto intro: out_run_trans same_waiting_trans split: if_splits)
qed simp

lemma write_inflight_out_all_run:
  "db__message_write_inflight_out_all d m = Ok (rc, d', m') \<Longrightarrow> out_run d m d' m'"
  by (auto simp: db__message_write_inflight_out_all_def dest: write_loop_run split: if_splits)

lemma write_inflight_out_latest_run:
  assumes "db__message_write_inflight_out_latest d m = Ok (rc, d', m')"
  shows "out_run d m d' m' \<and> same_waiting m m'"
proof -
  note def = assms [unfolded db__message_write_inflight_out_latest_def]
  consider "mq_state m \<noteq> mosq_cs_active \<or> mq_sock m = INVALID_SOCKET \<or> md_inflight (mq_msgs_out m) = []"
    | msg where "md_inflight (mq_msgs_out m) = [msg]"
        "mq_state m = mosq_cs_active" "mq_sock m \<noteq> INVALID_SOCKET"
    | a b l where "md_inflight (mq_msgs_out m) = a # b # l"
        "mq_state m = mosq_cs_active" "mq_sock m \<noteq> INVALID_SOCKET"
    by (cases "md_inflight (mq_msgs_out m)" rule: remdups_adj.cases) auto
  then show ?thesis
  proof cases
    case 2
    then have "db__message_write_inflight_out_single d m [] msg [] = Ok (rc, d', m')"
      using def by simp
    from write_single_wrote [OF this] 2 show ?thesis by (simp add: wrote_def)
  next
    case 3
    then have "write_inflight_loop d m (take (latest_start (a # b # l)) (a # b # l))
        (drop (latest_start (a # b # l)) (a # b # l)) = Ok (rc, d', m')"
      using def by (simp add: Let_def)
    from write_loop_run [OF this] 3 show ?thesis by simp
  next
    case 1
    then show ?thesis using def by (simp only: if_True) simp
  qed
qed

lemma write_queued_out_run:
  assumes "db__message_write_queued_out m = Ok (rc, m')"
  shows "out_run d m d m'" "rc = MOSQ_ERR_SUCCESS"
    "md_storage (mq_msgs_out m') = md_storage (mq_msgs_out m)"
proof -
  have storage: "write_queued_out_loop md before q = Ok md' \<Longrightarrow> md_storage md' = md_storage md"
    for md before q md'
    by (induction md before q rule: write_queued_out_loop.induct)
      (auto simp: res_bind_Ok_iff db__message_dequeue_first_def Let_def split: if_splits list.splits)
  show "out_run d m d m'" "rc = MOSQ_ERR_SUCCESS"
    "md_storage (mq_msgs_out m') = md_storage (mq_msgs_out m)"
    using assms by (auto simp: db__message_write_queued_out_def res_bind_Ok_iff storage
        intro!: out_runI write_queued_out_steps split: if_splits)
qed

section \<open>The order of the storage\<close>

text \<open>
  The messages in the storage are in the order of the clock and none is from the future. The
  steps at a time keep this for that time, and it holds for every later time.
\<close>

definition clocked :: "int \<Rightarrow> mosquitto_msg_data \<Rightarrow> bool" where
  "clocked now md \<longleftrightarrow> storage_sorted md \<and> (\<forall>msg \<in> set (md_storage md). tv_sec (cm_storage_time msg) \<le> now)"

lemma clocked_mono: "clocked now md \<Longrightarrow> now \<le> now' \<Longrightarrow> clocked now' md"
  by (force simp: clocked_def)

lemma clocked_tail: "clocked now md \<Longrightarrow> md_storage md = msg # s \<Longrightarrow> clocked now (md\<lparr>md_storage := s\<rparr>)"
  by (simp add: clocked_def storage_sorted_def)

lemma clocked_cong: "md_storage md' = md_storage md \<Longrightarrow> clocked now md' \<longleftrightarrow> clocked now md"
  by (simp add: clocked_def storage_sorted_def)

lemma out_step_clocked: "out_step now (S, md) (S', md') \<Longrightarrow> clocked now md \<Longrightarrow> clocked now md'"
  by (erule out_stepE)
    (auto simp: clocked_def storage_sorted_def counted_def appended_def sorted_append)

lemma out_steps_clocked: "out_steps now (S, md) (S', md') \<Longrightarrow> clocked now md \<Longrightarrow> clocked now md'"
  by (induction rule: rtranclp_induct2) (auto dest: out_step_clocked)

abbreviation clocked_at :: "db \<Rightarrow> mosquitto \<Rightarrow> bool" where
  "clocked_at d m \<equiv> clocked (tv_sec (db_monotonic d)) (mq_msgs_out m)"

lemma out_run_clocked: "out_run d m d' m' \<Longrightarrow> clocked_at d m \<Longrightarrow> clocked_at d' m'"
  by (auto simp: out_run_def dest: out_steps_clocked)

lemma write_storage_out_inactive:
  "mq_state m \<noteq> mosq_cs_active \<Longrightarrow> db__message_write_storage_out d m = Ok (MOSQ_ERR_SUCCESS, m)"
  by (simp add: db__message_write_storage_out_def)

lemma write_storage_out_run:
  assumes "db__message_write_storage_out d m = Ok (rc, m')" and "clocked_at d m"
  shows "out_run d m d m'" "rc = MOSQ_ERR_SUCCESS"
proof -
  let ?due = "is_due (db_monotonic d) (cf_msg_store_timeout (db_config d)) (mq_mode m)"
  let ?s = "md_storage (mq_msgs_out m)"
  have "out_run d m d m' \<and> rc = MOSQ_ERR_SUCCESS"
  proof (cases "mq_state m = mosq_cs_active")
    case True
    have "storage_sorted (mq_msgs_out m)" using assms(2) by (simp add: clocked_def)
    from write_storage_out_eq [OF True this, of d] assms(1)
    have "m' = m\<lparr>mq_msgs_out := released (takeWhile ?due ?s) (dropWhile ?due ?s) (mq_msgs_out m)\<rparr>"
      "rc = MOSQ_ERR_SUCCESS" unfolding Let_def by (metis Pair_inject res.inject(1))+
    then show ?thesis
      using released_steps [of "mq_msgs_out m" "takeWhile ?due ?s" "dropWhile ?due ?s"]
      by (auto intro!: out_runI simp del: released.simps)
  qed (use assms(1) write_storage_out_inactive [of m d] in simp)
  then show "out_run d m d m'" "rc = MOSQ_ERR_SUCCESS" by simp_all
qed

section \<open>Removing and updating messages\<close>

lemma find_mid_Some:
  "find_mid mid before l = Some (b, msg, behind) \<Longrightarrow>
   before @ l = b @ msg # behind \<and> cm_mid msg = mid \<and>
   (\<exists>c. b = before @ c \<and> (\<forall>x \<in> set c. cm_mid x \<noteq> mid))"
proof (induction l arbitrary: before)
  case (Cons a l)
  show ?case
  proof (cases "cm_mid a = mid")
    case False
    then show ?thesis using Cons.IH [of "before @ [a]"] Cons.prems by auto
  qed (use Cons.prems in auto)
qed simp

lemma find_mid_None: "find_mid mid before l = None \<longleftrightarrow> mid \<notin> cm_mid ` set l"
  by (induction l arbitrary: before) auto

lemma delete_loop_storage:
  "delete_outgoing_loop now_s i md before q = Ok md' \<Longrightarrow> md_storage md' = md_storage md"
  by (induction now_s i md before q rule: delete_outgoing_loop.induct)
    (auto simp: res_bind_Ok_iff db__message_dequeue_first_def Let_def split: if_splits list.splits)

lemma delete_continue_run:
  assumes "out_run d m d1 (m\<lparr>mq_msgs_out := md\<rparr>)"
    and "res_bind (delete_outgoing_loop (db_now_s d1) i md [] (md_queued md)) (\<lambda>md.
         db__message_write_inflight_out_latest
           (d1\<lparr>db_persistence_changes := db_persistence_changes d1 + 1\<rparr>) (m\<lparr>mq_msgs_out := md\<rparr>)) =
      Ok (rc, d', m')"
  shows "out_run d m d' m' \<and> md_storage (mq_msgs_out m') = md_storage md"
proof -
  let ?d = "d1\<lparr>db_persistence_changes := db_persistence_changes d1 + 1\<rparr>"
  obtain md2 where l: "delete_outgoing_loop (db_now_s d1) i md [] (md_queued md) = Ok md2"
    and w: "db__message_write_inflight_out_latest ?d (m\<lparr>mq_msgs_out := md2\<rparr>) = Ok (rc, d', m')"
    using assms(2) by (auto simp: res_bind_Ok_iff)
  have "out_run d1 (m\<lparr>mq_msgs_out := md\<rparr>) ?d ((m\<lparr>mq_msgs_out := md\<rparr>)\<lparr>mq_msgs_out := md2\<rparr>)"
    by (rule out_runI) (use delete_outgoing_steps [OF refl l] in auto)
  then have "out_run d1 (m\<lparr>mq_msgs_out := md\<rparr>) ?d (m\<lparr>mq_msgs_out := md2\<rparr>)" by simp
  also note write_inflight_out_latest_run [OF w, THEN conjunct1]
  finally show ?thesis
    using write_inflight_out_latest_run [OF w] delete_loop_storage [OF l] out_run_trans [OF assms(1)]
    by (simp add: same_waiting_def)
qed

lemma delete_outgoing_run:
  assumes r: "db__message_delete_outgoing d m mid expect qos = Ok (rc, d', m')"
  shows "out_run d m d' m' \<and> md_storage (mq_msgs_out m') = md_storage (mq_msgs_out m)"
proof (cases "find_mid mid [] (md_inflight (mq_msgs_out m))")
  case None
  show ?thesis
    by (rule delete_continue_run [of d m d "mq_msgs_out m"])
      (use r None in \<open>simp_all add: db__message_delete_outgoing_def\<close>)
next
  case (Some x)
  then obtain before tail behind
    where f: "find_mid mid [] (md_inflight (mq_msgs_out m)) = Some (before, tail, behind)"
    by (cases x) auto
  have i: "md_inflight (mq_msgs_out m) = before @ tail # behind" using find_mid_Some [OF f] by simp
  show ?thesis
  proof (cases "cm_qos tail \<noteq> qos \<or> qos = 2 \<and> cm_state tail \<noteq> expect")
    case True
    then show ?thesis using r f by (auto simp: db__message_delete_outgoing_def Let_def split: if_splits)
  next
    case False
    then obtain d1 md where rm: "db__message_remove d (mq_msgs_out m) before tail behind = Ok (d1, md)"
      and k: "res_bind (delete_outgoing_loop (db_now_s d1) (length before) md [] (md_queued md)) (\<lambda>md.
         db__message_write_inflight_out_latest
           (d1\<lparr>db_persistence_changes := db_persistence_changes d1 + 1\<rparr>) (m\<lparr>mq_msgs_out := md\<rparr>)) =
        Ok (rc, d', m')"
      using r f by (auto simp: db__message_delete_outgoing_def Let_def res_bind_Ok_iff)
    show ?thesis using delete_continue_run [OF remove_run(1) [OF rm i] k] remove_run(4) [OF rm i] by simp
  qed
qed

lemma update_outgoing_run:
  assumes "db__message_update_outgoing d m mid mosq_ms_wait_for_pubcomp 2 = (rc, m')"
  shows "out_run d m d m'"
proof (cases "find_mid mid [] (md_inflight (mq_msgs_out m))")
  case (Some x)
  then obtain before tail behind
    where f: "find_mid mid [] (md_inflight (mq_msgs_out m)) = Some (before, tail, behind)"
    by (cases x) auto
  have i: "md_inflight (mq_msgs_out m) = before @ tail # behind" using find_mid_Some [OF f] by simp
  show ?thesis
  proof (cases "cm_qos tail = 2")
    case True
    then show ?thesis
      using advance_run [OF i msg_advance_intros(4) [OF True]] assms f
      by (auto simp: db__message_update_outgoing_def)
  qed (use assms f in \<open>auto simp: db__message_update_outgoing_def\<close>)
qed (use assms in \<open>auto simp: db__message_update_outgoing_def\<close>)

section \<open>Inserting a message\<close>

lemma insert_decide_state:
  assumes "insert_decide d m mosq_md_out qos stored = Ok (Insert_state state rc)"
    and "state \<noteq> mosq_ms_invalid"
  shows "state \<in> {mosq_ms_queued, mosq_ms_storage} \<or> state = mosq_ms_publish_qos0 \<and> qos = 0 \<or>
      state = mosq_ms_publish_qos1 \<and> qos = 1 \<or> state = mosq_ms_publish_qos2 \<and> qos = 2"
  using assms by (auto simp: insert_decide_def split: if_splits)

lemma insert_append_out:
  assumes "insert_append d m mid mosq_md_out qos retain p stored properties state = (msg, md)"
  shows "md = counted 1 (uint (ms_payloadlen stored)) (qos > 0) (appended msg (mq_msgs_out m))"
    and "cm_store msg = p" and "cm_direction msg = mosq_md_out" and "cm_state msg = state"
    and "cm_qos msg \<le> qos" and "cm_dup msg = False" and "cm_mid msg = mid"
    and "state = mosq_ms_storage \<Longrightarrow> cm_storage_time msg = db_monotonic d"
  using assms
  by (auto simp: insert_append_def Let_def msgs_of_def counted_def appended_def split: if_splits)

text \<open>The message is in its list, with a reference and, for an old client, the destination noted.\<close>

lemma insert_append_run:
  assumes inc: "db__msg_store_ref_inc d p = Ok d2" and st: "store_at d p = Some stored"
    and app: "insert_append d2 m mid mosq_md_out qos retain p stored properties state = (msg, md)"
    and state: "state \<in> {mosq_ms_queued, mosq_ms_storage} \<or> state = mosq_ms_publish_qos0 \<and> qos = 0 \<or>
      state = mosq_ms_publish_qos1 \<and> qos = 1 \<or> state = mosq_ms_publish_qos2 \<and> qos = 2"
    and "qos \<le> 2"
  shows "out_run d m d2 (m\<lparr>mq_msgs_out := md\<rparr>)"
proof (rule out_runI)
  note a = insert_append_out [OF app] and i = ref_inc_Ok [OF inc]
  show "out_steps (tv_sec (db_monotonic d)) (store_at d, mq_msgs_out m) (store_at d2, md)"
    unfolding i(1) a(1)
    by (rule r_into_rtranclp, subst a(2) [symmetric], rule insert_new)
      (use a state st i assms(5) in auto)
qed (use ref_inc_Ok [OF inc] in auto)

lemma insert_note_dest_run:
  assumes "insert_note_dest d mosq_md_out retain p ident = Ok d'"
  shows "out_run d m d' m"
proof (cases "\<not> cf_allow_duplicate_messages (db_config d) \<and> \<not> retain")
  case True
  then obtain st where st: "store_at d p = Some st"
    and d': "d' = store_set d p (st\<lparr>ms_dest_ids := ms_dest_ids st @ [ident]\<rparr>)"
    using assms by (auto simp: insert_note_dest_def res_bind_Ok_iff store_get_Ok)
  have "out_run d m d' (m\<lparr>mq_msgs_out := mq_msgs_out m\<rparr>)"
    unfolding d'
    by (rule out_runI) (auto simp: store_at_set [OF st] intro!: r_into_rtranclp note_destination st)
  then show ?thesis by simp
qed (use assms in \<open>auto simp: insert_note_dest_def\<close>)

lemma insert_settle_run: "out_run d m d (insert_settle mosq_md_out msg m)"
proof -
  have "out_run d m d (case mq_bridge m of None \<Rightarrow> m
           | Some br \<Rightarrow> if br_start_type br = bst_lazy \<and> mq_sock m = INVALID_SOCKET \<and>
                 md_msg_count (mq_msgs_out m) \<ge> br_threshold br
               then m\<lparr>mq_bridge := Some (br\<lparr>br_lazy_reconnect := True\<rparr>)\<rparr> else m)"
    by (simp add: out_run_def split: option.split)
  then show ?thesis
    by (auto simp: insert_settle_def Let_def intro: out_run_trans decrement_send_quota_run)
qed

lemma insert_update_run:
  assumes "insert_update d m mosq_md_out update rc = Ok (rc', d', m')" and "clocked_at d m"
  shows "out_run d m d' m'"
proof (cases update)
  case True
  obtain rc1 d1 m1 where w: "db__message_write_inflight_out_latest d m = Ok (rc1, d1, m1)"
    and k: "rc1 \<noteq> 0 \<and> (rc1, d1, m1) = (rc', d', m') \<or> (\<exists>rc2 m2 rc3 m3.
      db__message_write_queued_out m1 = Ok (rc2, m2) \<and>
      db__message_write_storage_out d1 m2 = Ok (rc3, m3) \<and> (rc3, d1, m3) = (rc', d', m'))"
    using assms(1) True
    by (auto simp: insert_update_def res_bind_Ok_iff dest: write_queued_out_run(2) split: if_splits)
  have c: "clocked_at d1 m1" and r: "out_run d m d1 m1"
    using write_inflight_out_latest_run [OF w] assms(2) by (auto dest: out_run_clocked)
  from k show ?thesis
  proof (elim disjE exE conjE)
    fix rc2 m2 rc3 m3
    assume q: "db__message_write_queued_out m1 = Ok (rc2, m2)"
      and s: "db__message_write_storage_out d1 m2 = Ok (rc3, m3)" "(rc3, d1, m3) = (rc', d', m')"
    note rq = write_queued_out_run(1) [OF q, of d1]
    from out_run_trans [OF r out_run_trans [OF rq write_storage_out_run(1) [OF s(1) out_run_clocked [OF rq c]]]]
    show ?thesis using s(2) by simp
  qed (use r in simp)
qed (use assms in \<open>simp add: insert_update_def\<close>)

text \<open>The lists after a message has been put into one of them.\<close>

definition placed :: "mosquitto_msg_data \<Rightarrow> mosquitto_client_msg \<Rightarrow> mosquitto_msg_data \<Rightarrow> bool" where
  "placed md msg md' \<longleftrightarrow> md_inflight md' = md_inflight (appended msg md) \<and>
     md_queued md' = md_queued (appended msg md) \<and> md_storage md' = md_storage (appended msg md)"

lemma insert_settle_lists:
  "md_inflight (mq_msgs_out (insert_settle mosq_md_out msg m)) = md_inflight (mq_msgs_out m)"
  "md_queued (mq_msgs_out (insert_settle mosq_md_out msg m)) = md_queued (mq_msgs_out m)"
  "md_storage (mq_msgs_out (insert_settle mosq_md_out msg m)) = md_storage (mq_msgs_out m)"
  "mq_mode (insert_settle mosq_md_out msg m) = mq_mode m"
  by (simp_all add: insert_settle_def Let_def util__decrement_send_quota_def split: option.split)

lemma ref_inc_present:
  "store_at d p = Some stored \<Longrightarrow> \<exists>d'. db__msg_store_ref_inc d p = Ok d'"
  by (simp add: db__msg_store_ref_inc_def store_get_def)

lemma insert_note_dest_present:
  "store_at d p = Some stored \<Longrightarrow> \<exists>d'. insert_note_dest d dir retain p ident = Ok d'"
  by (simp add: insert_note_dest_def store_get_def)

text \<open>The message is in its list; what is left is to send what can be sent.\<close>

lemma insert_keep_split:
  assumes st: "store_at d p = Some stored" and valid: "state \<noteq> mosq_ms_invalid" and q: "qos \<le> 2"
    and state: "state \<in> {mosq_ms_queued, mosq_ms_storage} \<or> state = mosq_ms_publish_qos0 \<and> qos = 0 \<or>
      state = mosq_ms_publish_qos1 \<and> qos = 1 \<or> state = mosq_ms_publish_qos2 \<and> qos = 2"
  obtains d' m' msg where
    "insert_keep d m mid mosq_md_out qos retain p stored properties update ident state rc =
       insert_update d' m' mosq_md_out update rc"
    "out_run d m d' m'" "placed (mq_msgs_out m) msg (mq_msgs_out m')"
    "cm_store msg = p" "cm_mid msg = mid" "cm_state msg = state"
    "state = mosq_ms_storage \<Longrightarrow> cm_storage_time msg = db_monotonic d"
proof -
  let ?d = "if state = mosq_ms_queued
    then d\<lparr>db_persistence_changes := db_persistence_changes d + 1\<rparr> else d"
  have st': "store_at ?d p = Some stored" using st by simp
  obtain d2 where inc: "db__msg_store_ref_inc ?d p = Ok d2" using ref_inc_present [OF st'] by blast
  have "\<exists>st. store_at d2 p = Some st" using ref_inc_Ok(1) [OF inc] st' by (simp add: ref_taken_def)
  then obtain d3 where note': "insert_note_dest d2 mosq_md_out retain p ident = Ok d3"
    using insert_note_dest_present by blast
  obtain msg md where app: "insert_append d2 m mid mosq_md_out qos retain p stored properties state = (msg, md)"
    by (rule prod.exhaust)
  let ?m = "insert_settle mosq_md_out msg (m\<lparr>mq_msgs_out := md\<rparr>)"
  have "out_run d m ?d m" by (simp add: out_run_def)
  moreover have "out_run ?d m d2 (m\<lparr>mq_msgs_out := md\<rparr>)"
    by (rule insert_append_run [OF inc st' app state q])
  ultimately have "out_run d m d2 (m\<lparr>mq_msgs_out := md\<rparr>)" by (rule out_run_trans)
  also note insert_note_dest_run [OF note']
  also note insert_settle_run [of d3 "m\<lparr>mq_msgs_out := md\<rparr>" msg]
  finally have r: "out_run d m d3 ?m" .
  have k: "insert_keep d m mid mosq_md_out qos retain p stored properties update ident state rc =
       insert_update d3 ?m mosq_md_out update rc"
    unfolding insert_keep_def if_not_P [OF valid] Let_def inc res_bind.simps app prod.case note'
    by (simp add: with_msgs_def)
  have "placed (mq_msgs_out m) msg (mq_msgs_out ?m)"
    by (simp add: placed_def insert_settle_lists insert_append_out(1) [OF app] counted_def)
  moreover have "db_monotonic d2 = db_monotonic d" using ref_inc_Ok(5) [OF inc] by simp
  ultimately show ?thesis
    using that [OF k r] insert_append_out(2,4,7,8) [OF app] by simp
qed

lemma insert_keep_run:
  assumes k: "insert_keep d m mid mosq_md_out qos retain p stored properties update ident state rc =
      Ok (rc', d', m')"
    and st: "store_at d p = Some stored" and c: "clocked_at d m" and q: "qos \<le> 2"
    and state: "state \<noteq> mosq_ms_invalid \<Longrightarrow>
      state \<in> {mosq_ms_queued, mosq_ms_storage} \<or> state = mosq_ms_publish_qos0 \<and> qos = 0 \<or>
      state = mosq_ms_publish_qos1 \<and> qos = 1 \<or> state = mosq_ms_publish_qos2 \<and> qos = 2"
  shows "out_run d m d' m'"
proof -
  have valid: "state \<noteq> mosq_ms_invalid" using k by (auto simp: insert_keep_def)
  obtain d1 m1 where e: "insert_keep d m mid mosq_md_out qos retain p stored properties update ident state rc =
       insert_update d1 m1 mosq_md_out update rc" and r: "out_run d m d1 m1"
    by (rule insert_keep_split [OF st valid q state [OF valid]])
  show ?thesis
    by (rule out_run_trans [OF r insert_update_run [OF k [unfolded e] out_run_clocked [OF r c]]])
qed

lemma insert_overtime_fields [simp]:
  "mq_msgs_out (insert_overtime d m) = mq_msgs_out m" "mq_msgs_in (insert_overtime d m) = mq_msgs_in m"
  "mq_sock (insert_overtime d m) = mq_sock m" "mq_state (insert_overtime d m) = mq_state m"
  "mq_id (insert_overtime d m) = mq_id m" "mq_threshold_l (insert_overtime d m) = mq_threshold_l m"
  "mq_lat_pre (insert_overtime d m) = mq_lat_pre m"
  "mq_count_for_lat (insert_overtime d m) = mq_count_for_lat m"
  "mq_slow_mode_time (insert_overtime d m) = mq_slow_mode_time m" "mq_mount_point (insert_overtime d m) = mq_mount_point m"
  "mq_in_packet (insert_overtime d m) = mq_in_packet m" "session (insert_overtime d m) = session m"
  by (simp_all add: insert_overtime_def mosquitto__set_mode_def)

text \<open>
  When an insertion for a client keeps nothing: the client has no identifier, has had the
  message already, or is away and the message would not be kept for it.
\<close>

definition insert_duplicate :: "db \<Rightarrow> mosquitto \<Rightarrow> bool \<Rightarrow> mosquitto_msg_store \<Rightarrow> bool" where
  "insert_duplicate d m retain stored \<longleftrightarrow>
     mq_protocol m \<noteq> mosq_p_mqtt5 \<and> \<not> cf_allow_duplicate_messages (db_config d) \<and> \<not> retain \<and>
     the (mq_id m) \<in> set (ms_dest_ids stored)"

definition insert_skips :: "db \<Rightarrow> mosquitto \<Rightarrow> u8 \<Rightarrow> bool \<Rightarrow> mosquitto_msg_store \<Rightarrow> bool" where
  "insert_skips d m qos retain stored \<longleftrightarrow>
     mq_id m = None \<or> insert_duplicate d m retain stored \<or>
     mq_sock m = INVALID_SOCKET \<and>
       (qos = 0 \<and> \<not> cf_queue_qos0_messages (db_config d) \<and>
          (case mq_bridge m of None \<Rightarrow> True | Some br \<Rightarrow> br_start_type br \<noteq> bst_lazy) \<or>
        (case mq_bridge m of None \<Rightarrow> False | Some br \<Rightarrow> br_clean_start_local br))"

lemma insert_out_skips:
  "store_at d p = Some stored \<Longrightarrow> insert_skips d m qos retain stored \<Longrightarrow>
   db__message_insert d m mid mosq_md_out qos retain p properties update =
     Ok (if mq_id m = None \<or> insert_duplicate d m retain stored then MOSQ_ERR_SUCCESS else 2, d, m)"
proof -
  assume st: "store_at d p = Some stored" and skips: "insert_skips d m qos retain stored"
  show ?thesis
  proof (cases "mq_id m")
    case (Some ident)
    have "(if insert_duplicate d m retain stored then Ok (MOSQ_ERR_SUCCESS, d, m)
        else if mq_sock m = INVALID_SOCKET \<and> qos = 0 \<and> \<not> cf_queue_qos0_messages (db_config d) \<and>
          (case mq_bridge m of None \<Rightarrow> True | Some br \<Rightarrow> br_start_type br \<noteq> bst_lazy)
        then Ok (2, d, m)
        else if mq_sock m = INVALID_SOCKET \<and>
          (case mq_bridge m of None \<Rightarrow> False | Some br \<Rightarrow> br_clean_start_local br)
        then Ok (2, d, m) else x) =
      Ok (if mq_id m = None \<or> insert_duplicate d m retain stored then MOSQ_ERR_SUCCESS else 2, d, m)"
      for x :: "(rc \<times> db \<times> mosquitto) res"
      using skips unfolding insert_skips_def by (simp only: Some option.distinct simp_thms) auto
    then show ?thesis
      unfolding db__message_insert_def store_get_def st option.case res_bind.simps Some
        insert_duplicate_def option.sel simp_thms .
  qed (simp add: db__message_insert_def store_get_def st)
qed

definition insert_act where
  "insert_act d m mid qos retain p stored properties update ident decision =
     (case decision of
        Insert_return rc \<Rightarrow> Ok (rc, d, m)
      | Insert_drop \<Rightarrow> Ok (2, d\<lparr>db_msgs_dropped := db_msgs_dropped d + 1\<rparr>, m\<lparr>mq_is_dropping := True\<rparr>)
      | Insert_state state rc \<Rightarrow>
          insert_keep d m mid mosq_md_out qos retain p stored properties update ident state rc)"

lemma insert_out_keeps:
  assumes "store_at d p = Some stored" and "\<not> insert_skips d m qos retain stored"
  shows "db__message_insert d m mid mosq_md_out qos retain p properties update =
     res_bind (insert_decide d (insert_overtime d m) mosq_md_out qos stored)
       (insert_act d (insert_overtime d m) mid qos retain p stored properties update (the (mq_id m)))"
proof -
  obtain ident where [simp]: "mq_id m = Some ident"
    using assms(2) by (cases "mq_id m") (auto simp: insert_skips_def)
  have 1: "\<not> (mq_protocol m \<noteq> mosq_p_mqtt5 \<and> \<not> cf_allow_duplicate_messages (db_config d) \<and>
       mosq_md_out = mosq_md_out \<and> \<not> retain \<and> ident \<in> set (ms_dest_ids stored))"
    and 2: "\<not> (mq_sock m = INVALID_SOCKET \<and> qos = 0 \<and> \<not> cf_queue_qos0_messages (db_config d) \<and>
       (case mq_bridge m of None \<Rightarrow> True | Some br \<Rightarrow> br_start_type br \<noteq> bst_lazy))"
    and 3: "\<not> (mq_sock m = INVALID_SOCKET \<and>
       (case mq_bridge m of None \<Rightarrow> False | Some br \<Rightarrow> br_clean_start_local br))"
    using assms(2) unfolding insert_skips_def insert_duplicate_def by auto
  show ?thesis
    unfolding db__message_insert_def store_get_def assms(1) option.case res_bind.simps
      \<open>mq_id m = Some ident\<close> if_not_P [OF 1] if_not_P [OF 2] if_not_P [OF 3] Let_def
    by (simp add: insert_act_def [abs_def])
qed

text \<open>The mode is the only thing outside the messages that an insertion changes.\<close>

lemma insert_run:
  assumes i: "db__message_insert d m mid mosq_md_out qos retain p properties update = Ok (rc, d', m')"
    and c: "clocked_at d m" and q: "qos \<le> 2"
  shows "out_run d m d' m' \<or> out_run d (insert_overtime d m) d' m'"
proof -
  obtain stored where st: "store_at d p = Some stored"
    using i by (auto simp: db__message_insert_def res_bind_Ok_iff store_get_Ok)
  let ?m = "insert_overtime d m"
  have c': "clocked_at d ?m" using c by simp
  show ?thesis
  proof (cases "insert_skips d m qos retain stored")
    case True
    then have "(d', m') = (d, m)"
      using insert_out_skips [OF st] i by simp
    then show ?thesis by simp
  next
    case False
    from insert_out_keeps [OF st False] i obtain decision
      where dec: "insert_decide d ?m mosq_md_out qos stored = Ok decision"
        and k: "insert_act d ?m mid qos retain p stored properties update (the (mq_id m)) decision = Ok (rc, d', m')"
      by (auto simp: res_bind_Ok_iff)
    have "out_run d ?m d' m'"
    proof (cases decision)
      case (Insert_state state rc0)
      then show ?thesis
        using insert_keep_run [OF _ st c' q insert_decide_state] dec k by (simp add: insert_act_def)
    qed (use k in \<open>simp_all add: insert_act_def, auto simp: out_run_def\<close>)
    then show ?thesis ..
  qed
qed

end
