(* ===== verification/Msg_Invariants.thy ===== *)
theory Msg_Invariants
  imports Msg_Refine "HOL-Library.Multiset"
begin

text \<open>
  The invariants of the outgoing messages of a client: its counters tell the number and the
  bytes of its messages, every message it has is in the store, the reference count of a stored
  message is the number of messages that refer to it plus the references held elsewhere, the
  quota is in its range, and a message in flight is in a state that fits its QoS. They are
  proved for the steps of \<open>Msg_Steps\<close> and carried over to the operations of
  \<open>Database\<close> through the locale \<open>out_operation\<close>.
\<close>

section \<open>The messages of a client\<close>

definition all_msgs :: "mosquitto_msg_data \<Rightarrow> mosquitto_client_msg list" where
  "all_msgs md = md_inflight md @ md_queued md @ md_storage md"

text \<open>What identifies a message for the accounting: the stored message and the QoS.\<close>

definition keys :: "mosquitto_msg_data \<Rightarrow> (store_ptr \<times> u8) multiset" where
  "keys md = mset (map (\<lambda>msg. (cm_store msg, cm_qos msg)) (all_msgs md))"

definition stored_bytes :: "stores \<Rightarrow> store_ptr \<Rightarrow> int" where
  "stored_bytes S p = (case S p of None \<Rightarrow> 0 | Some st \<Rightarrow> uint (ms_payloadlen st))"

definition counters_exact :: "stores \<Rightarrow> mosquitto_msg_data \<Rightarrow> bool" where
  "counters_exact S md \<longleftrightarrow>
     md_msg_count md = int (size (keys md)) \<and>
     md_msg_bytes md = (\<Sum>k \<in># keys md. stored_bytes S (fst k)) \<and>
     md_msg_count12 md \<ge> int (size (filter_mset (\<lambda>k. snd k > 0) (keys md)))"

text \<open>\<open>others p\<close> is the number of references to \<open>p\<close> held by the rest of the broker.\<close>

definition refs_balanced :: "(store_ptr \<Rightarrow> int) \<Rightarrow> stores \<Rightarrow> mosquitto_msg_data \<Rightarrow> bool" where
  "refs_balanced others S md \<longleftrightarrow> (\<forall>p. 0 \<le> others p) \<and>
     (\<forall>k \<in># keys md. \<exists>st. S (fst k) = Some st) \<and>
     (\<forall>p st. S p = Some st \<longrightarrow> ms_ref_count st = others p + int (count (image_mset fst (keys md)) p))"

text \<open>
  The handshake a message in flight is in. A message inserted for QoS 2 to a client that
  accepts less is sent at the lower QoS but goes through the states of QoS 2.
\<close>

definition state_fits :: "mosquitto_client_msg \<Rightarrow> bool" where
  "state_fits msg \<longleftrightarrow> (case cm_state msg of
       mosq_ms_publish_qos0 \<Rightarrow> cm_qos msg = 0
     | mosq_ms_publish_qos1 \<Rightarrow> cm_qos msg \<le> 1
     | mosq_ms_wait_for_puback \<Rightarrow> cm_qos msg \<le> 1
     | mosq_ms_publish_qos2 \<Rightarrow> cm_qos msg \<le> 2
     | mosq_ms_wait_for_pubrec \<Rightarrow> cm_qos msg \<le> 2
     | mosq_ms_resend_pubrel \<Rightarrow> cm_qos msg = 2
     | mosq_ms_wait_for_pubcomp \<Rightarrow> cm_qos msg = 2
     | _ \<Rightarrow> False)"

definition states_ok :: "mosquitto_msg_data \<Rightarrow> bool" where
  "states_ok md \<longleftrightarrow> (\<forall>msg \<in> set (all_msgs md). cm_direction msg = mosq_md_out \<and> cm_qos msg \<le> 2) \<and>
     (\<forall>msg \<in> set (md_inflight md). state_fits msg)"

definition msgs_inv :: "(store_ptr \<Rightarrow> int) \<Rightarrow> stores \<times> mosquitto_msg_data \<Rightarrow> bool" where
  "msgs_inv others = (\<lambda>(S, md). quota_ok md \<and> states_ok md \<and> refs_balanced others S md \<and> counters_exact S md)"

section \<open>The accounting of a step\<close>

definition counters :: "mosquitto_msg_data \<Rightarrow> int \<times> int \<times> int" where
  "counters md = (md_msg_count md, md_msg_bytes md, md_msg_count12 md)"

lemma set_publish_state_fields [simp]:
  "cm_store (set_publish_state msg) = cm_store msg" "cm_qos (set_publish_state msg) = cm_qos msg"
  "cm_direction (set_publish_state msg) = cm_direction msg"
  by (simp_all add: set_publish_state_def)

lemma msg_advance_fields:
  "msg_advance msg msg' \<Longrightarrow> cm_store msg' = cm_store msg \<and> cm_qos msg' = cm_qos msg \<and>
     cm_direction msg' = cm_direction msg"
  by (auto simp: msg_advance_def)

lemmas keys_defs = keys_def all_msgs_def counters_def counted_def appended_def

text \<open>A step moves messages about, takes one away or brings one in.\<close>

lemma out_step_account:
  assumes "out_step now (S, md) (S', md')"
  obtains (moved) "keys md' = keys md" "counters md' = counters md"
      "S' = S \<or> (\<exists>p st ids. S p = Some st \<and> S' = S(p \<mapsto> st\<lparr>ms_dest_ids := ids\<rparr>))"
  | (gone) k st where "keys md = add_mset k (keys md')" "S (fst k) = Some st" "S' = ref_dropped S (fst k)"
      "counters md' = counters (counted (- 1) (uint (ms_payloadlen st)) (snd k > 0) md)"
  | (come) k st qos where "keys md' = add_mset k (keys md)" "S (fst k) = Some st" "S' = ref_taken S (fst k)"
      "snd k \<le> qos" "counters md' = counters (counted 1 (uint (ms_payloadlen st)) (qos > 0) md)"
proof (rule out_stepE [OF assms], goal_cases)
  case (7 before msg behind st)
  then show ?thesis by (intro gone [of "(cm_store msg, cm_qos msg)" st]) (simp_all add: keys_defs)
next
  case (8 msg st qos)
  then show ?thesis by (intro come [of "(cm_store msg, cm_qos msg)" st qos]) (simp_all add: keys_defs)
next
  case (6 before msg behind msg')
  then show ?thesis by (intro moved) (simp_all add: keys_defs msg_advance_fields)
qed (auto intro!: moved simp: keys_defs)

section \<open>The invariants are kept\<close>

lemma stored_bytes_update:
  "S p = Some st \<Longrightarrow> ms_payloadlen st' = ms_payloadlen st \<Longrightarrow>
   stored_bytes (S(p \<mapsto> st')) = stored_bytes S"
  by (auto simp: stored_bytes_def fun_eq_iff)

lemma refs_balanced_gone:
  assumes "refs_balanced others S md" and "keys md = add_mset k (keys md')"
    and "S' = ref_dropped S (fst k)"
  shows "refs_balanced others S' md'"
    and "\<forall>k' \<in># keys md'. stored_bytes S' (fst k') = stored_bytes S (fst k')"
proof -
  let ?n = "\<lambda>p. int (count (image_mset fst (keys md')) p)"
  obtain st where st: "S (fst k) = Some st" using assms by (auto simp: refs_balanced_def)
  have cnt: "ms_ref_count st = others (fst k) + ?n (fst k) + 1"
    using assms(1,2) st by (auto simp: refs_balanced_def)
  have last: "k' \<notin># keys md'" if "ms_ref_count st - 1 = 0" "fst k' = fst k" for k'
  proof
    assume "k' \<in># keys md'"
    then have "fst k \<in># image_mset fst (keys md')" using that(2) by (metis image_eqI set_image_mset)
    then have "0 < ?n (fst k)" by (simp add: count_greater_zero_iff)
    moreover have "0 \<le> others (fst k)" using assms(1) by (simp add: refs_balanced_def)
    ultimately show False using cnt that(1) by linarith
  qed
  have bal: "ms_ref_count s = others p + int (count (image_mset fst (keys md)) p)"
    if "S p = Some s" for p s using assms(1) that by (simp add: refs_balanced_def)
  show "refs_balanced others S' md'"
    unfolding refs_balanced_def
  proof (intro conjI allI ballI impI)
    show "0 \<le> others p" for p using assms(1) by (simp add: refs_balanced_def)
    show "\<exists>st. S' (fst k') = Some st" if "k' \<in># keys md'" for k'
      using assms(1,2,3) that last [of k'] st by (auto simp: refs_balanced_def ref_dropped_def)
    show "ms_ref_count s = others p + ?n p" if "S' p = Some s" for p s
      using that assms(2,3) st cnt bal [of p] by (auto simp: ref_dropped_def split: if_splits)
  qed
  show "\<forall>k' \<in># keys md'. stored_bytes S' (fst k') = stored_bytes S (fst k')"
    using last st assms(3) by (auto simp: ref_dropped_def stored_bytes_def)
qed

lemma refs_balanced_come:
  assumes "refs_balanced others S md" and "keys md' = add_mset k (keys md)"
    and "S (fst k) = Some st" and "S' = ref_taken S (fst k)"
  shows "refs_balanced others S' md'" and "stored_bytes S' = stored_bytes S"
  using assms by (auto simp: refs_balanced_def ref_taken_def stored_bytes_update)

lemma out_step_accounts:
  assumes step: "out_step now (S, md) (S', md')"
    and inv: "refs_balanced others S md" "counters_exact S md"
  shows "refs_balanced others S' md' \<and> counters_exact S' md'"
  using step
proof (cases rule: out_step_account)
  case moved
  have "refs_balanced others S' md' \<and> stored_bytes S' = stored_bytes S"
    using moved(3) inv(1) by (auto simp: refs_balanced_def moved(1) stored_bytes_update split: if_splits)
  then show ?thesis using moved inv(2) by (simp add: counters_exact_def counters_def)
next
  case (gone k st)
  note r = refs_balanced_gone [OF inv(1) gone(1,3)]
  have "(\<Sum>k' \<in># keys md'. stored_bytes S' (fst k')) = (\<Sum>k' \<in># keys md'. stored_bytes S (fst k'))"
    using r(2) by (intro arg_cong [where f = sum_mset] image_mset_cong) simp
  then show ?thesis
    using r(1) inv(2) gone
    by (auto simp: counters_exact_def counters_def counted_def stored_bytes_def split: if_splits)
next
  case (come k st qos)
  note r = refs_balanced_come [OF inv(1) come(1,2,3)]
  have "snd k > 0 \<Longrightarrow> qos > 0" using come(4) by (metis order_less_le_trans)
  then show ?thesis
    using r inv(2) come
    by (auto simp: counters_exact_def counters_def counted_def stored_bytes_def split: if_splits)
qed

lemma out_step_quota: "out_step now (S, md) (S', md') \<Longrightarrow> quota_ok md \<Longrightarrow> quota_ok md'"
  by (erule out_stepE) (auto simp: quota_ok_def counted_def appended_def)

lemma state_fits_publish: "cm_qos msg \<le> 2 \<Longrightarrow> state_fits (set_publish_state msg)"
proof -
  assume "cm_qos msg \<le> 2"
  then have "unat (cm_qos msg) \<le> 2" by (simp add: word_le_nat_alt)
  then consider "unat (cm_qos msg) = 0" | "unat (cm_qos msg) = 1" | "unat (cm_qos msg) = 2" by linarith
  then show ?thesis
    by cases (simp_all add: set_publish_state_def state_fits_def word_unat_eq_iff word_le_nat_alt)
qed

lemma state_fits_advance: "msg_advance msg msg' \<Longrightarrow> state_fits msg \<Longrightarrow> state_fits msg'"
  by (auto simp: msg_advance_def state_fits_def)

lemma out_step_states: "out_step now (S, md) (S', md') \<Longrightarrow> states_ok md \<Longrightarrow> states_ok md'"
proof (erule out_stepE, goal_cases)
  case (6 before msg behind msg')
  then show ?case
    using state_fits_advance msg_advance_fields [of msg msg']
    by (auto simp: states_ok_def all_msgs_def)
next
  case (8 msg st qos)
  have "state_fits msg" if "cm_state msg \<notin> {mosq_ms_queued, mosq_ms_storage}"
    using 8 that by (auto simp: state_fits_def word_le_nat_alt unat_eq_0)
  moreover have "cm_qos msg \<le> 2" using 8 by (auto intro: order_trans)
  ultimately show ?case
    using 8 by (auto simp: states_ok_def all_msgs_def counted_def appended_def)
qed (auto simp: states_ok_def all_msgs_def counted_def intro!: state_fits_publish)

lemma out_step_inv: "out_step now s s' \<Longrightarrow> msgs_inv others s \<Longrightarrow> msgs_inv others s'"
  by (cases s; cases s')
    (auto simp: msgs_inv_def dest: out_step_accounts out_step_quota out_step_states)

lemma out_steps_inv: "out_steps now s s' \<Longrightarrow> msgs_inv others s \<Longrightarrow> msgs_inv others s'"
  by (induction rule: rtranclp_induct) (auto dest: out_step_inv)

section \<open>The contract of the operations\<close>

text \<open>
  An operation with arguments \<open>a\<close> on the outgoing messages of a client: whatever it returns,
  the messages have gone through steps, and the incoming messages and the clock are as before.
\<close>

definition out_effect :: "db \<Rightarrow> mosquitto \<Rightarrow> db \<Rightarrow> mosquitto \<Rightarrow> bool" where
  "out_effect d m d' m' \<longleftrightarrow>
     out_steps (tv_sec (db_monotonic d)) (store_at d, mq_msgs_out m) (store_at d', mq_msgs_out m') \<and>
     db_monotonic d' = db_monotonic d \<and> db_next_ptr d' = db_next_ptr d \<and> mq_msgs_in m' = mq_msgs_in m \<and>
     mq_mount_point m' = mq_mount_point m \<and> session m' = session m \<and> db_now_real_s d' = db_now_real_s d"

lemma out_effect_trans: "out_effect d m d1 m1 \<Longrightarrow> out_effect d1 m1 d2 m2 \<Longrightarrow> out_effect d m d2 m2"
  by (auto simp: out_effect_def intro: rtranclp_trans)

lemma out_run_effect: "out_run d m d' m' \<Longrightarrow> out_effect d m d' m'"
  by (simp add: out_run_def out_effect_def)

lemma out_effect_same:
  "mq_msgs_out m' = mq_msgs_out m \<Longrightarrow> mq_msgs_in m' = mq_msgs_in m \<Longrightarrow>
   mq_mount_point m' = mq_mount_point m \<Longrightarrow> session m' = session m \<Longrightarrow> out_effect d m d m'"
  by (simp add: out_effect_def)

definition client_ok :: "(store_ptr \<Rightarrow> int) \<Rightarrow> db \<times> mosquitto \<Rightarrow> bool" where
  "client_ok others = (\<lambda>(d, m). msgs_inv others (store_at d, mq_msgs_out m) \<and> clocked_at d m)"

locale out_operation =
  fixes oper :: "'a \<Rightarrow> db \<Rightarrow> mosquitto \<Rightarrow> (rc \<times> db \<times> mosquitto) res"
    and valid :: "'a \<Rightarrow> bool"
  assumes effect: "oper a d m = Ok (rc, d', m') \<Longrightarrow> valid a \<Longrightarrow> clocked_at d m \<Longrightarrow> out_effect d m d' m'"
begin

lemma keeps_inv:
  assumes "oper a d m = Ok (rc, d', m')" "valid a" "clocked_at d m"
    and "msgs_inv others (store_at d, mq_msgs_out m)"
  shows "msgs_inv others (store_at d', mq_msgs_out m')"
  using effect [OF assms(1-3)] assms(4) by (auto simp: out_effect_def dest: out_steps_inv)

lemma keeps_clocked:
  assumes "oper a d m = Ok (rc, d', m')" "valid a" "clocked_at d m"
  shows "clocked_at d' m'"
  using effect [OF assms] assms(3) by (auto simp: out_effect_def dest: out_steps_clocked)

lemma keeps_incoming:
  "oper a d m = Ok (rc, d', m') \<Longrightarrow> valid a \<Longrightarrow> clocked_at d m \<Longrightarrow> mq_msgs_in m' = mq_msgs_in m"
  using effect by (simp add: out_effect_def)

lemma keeps_client:
  assumes "oper a d m = Ok (rc, d', m')" "valid a" "client_ok others (d, m)"
  shows "client_ok others (d', m')"
  using keeps_inv [OF assms(1,2)] keeps_clocked [OF assms(1,2)] assms(3) by (simp add: client_ok_def)

end

text \<open>The operations that return no database leave it as it is.\<close>

definition with_db :: "db \<Rightarrow> (rc \<times> mosquitto) res \<Rightarrow> (rc \<times> db \<times> mosquitto) res" where
  "with_db d r = res_bind r (\<lambda>(rc, m). Ok (rc, d, m))"

lemma with_db_Ok: "with_db d r = Ok (rc, d', m') \<longleftrightarrow> r = Ok (rc, m') \<and> d' = d"
  by (auto simp: with_db_def res_bind_Ok_iff)

lemma insert_effect:
  assumes "db__message_insert d m mid mosq_md_out qos retain p properties update = Ok (rc, d', m')"
    and "qos \<le> 2" and "clocked_at d m"
  shows "out_effect d m d' m'"
  using insert_run [OF assms(1,3,2)] by (auto simp: out_run_def out_effect_def)

interpretation ins: out_operation
  "\<lambda>(mid, qos, retain, p, properties, update) d m.
     db__message_insert d m mid mosq_md_out qos retain p properties update"
  "\<lambda>(mid, qos, retain, p, properties, update). qos \<le> 2"
  by unfold_locales (auto intro: insert_effect)

interpretation del: out_operation
  "\<lambda>(mid, expect, qos) d m. db__message_delete_outgoing d m mid expect qos" "\<lambda>_. True"
  by unfold_locales (auto intro!: out_run_effect dest: delete_outgoing_run)

interpretation upd: out_operation
  "\<lambda>mid d m. with_db d (Ok (db__message_update_outgoing d m mid mosq_ms_wait_for_pubcomp 2))" "\<lambda>_. True"
  by unfold_locales (auto simp: with_db_Ok intro!: out_run_effect dest: update_outgoing_run)

interpretation sto: out_operation
  "\<lambda>(_ :: unit) d m. with_db d (db__message_write_storage_out d m)" "\<lambda>_. True"
  by unfold_locales (auto simp: with_db_Ok intro!: out_run_effect dest: write_storage_out_run)

interpretation que: out_operation
  "\<lambda>(_ :: unit) d m. with_db d (db__message_write_queued_out m)" "\<lambda>_. True"
  by unfold_locales (auto simp: with_db_Ok intro!: out_run_effect dest: write_queued_out_run)

interpretation inf: out_operation
  "\<lambda>(_ :: unit) d m. db__message_write_inflight_out_all d m" "\<lambda>_. True"
  by unfold_locales (auto intro!: out_run_effect dest: write_inflight_out_all_run)

section \<open>The life of a client\<close>

text \<open>
  What happens to the outgoing messages of a client while it has a session: messages arrive,
  acknowledgements remove or advance them, waiting messages are sent on; between these the
  clocks go on, acknowledgements give back quota, the mode changes and the socket takes bytes.
\<close>

inductive client_step :: "db \<times> mosquitto \<Rightarrow> db \<times> mosquitto \<Rightarrow> bool" where
  arrives: "db__message_insert d m mid mosq_md_out qos retain p properties update = Ok (rc, d', m') \<Longrightarrow>
    qos \<le> 2 \<Longrightarrow> client_step (d, m) (d', m')"
| acknowledged: "db__message_delete_outgoing d m mid expect qos = Ok (rc, d', m') \<Longrightarrow>
    client_step (d, m) (d', m')"
| received: "db__message_update_outgoing d m mid mosq_ms_wait_for_pubcomp 2 = (rc, m') \<Longrightarrow>
    client_step (d, m) (d, m')"
| storage_out: "db__message_write_storage_out d m = Ok (rc, m') \<Longrightarrow> client_step (d, m) (d, m')"
| queued_out: "db__message_write_queued_out m = Ok (rc, m') \<Longrightarrow> client_step (d, m) (d, m')"
| inflight_out: "db__message_write_inflight_out_all d m = Ok (rc, d', m') \<Longrightarrow> client_step (d, m) (d', m')"
| quota_back: "client_step (d, m) (d, util__increment_send_quota m)"
| mode_change: "client_step (d, m) (d, mosquitto__set_mode m mode)"
| socket: "packet__write d m = Ok (rc, m') \<Longrightarrow> client_step (d, m) (d, m')"
| clock: "tv_sec (db_monotonic d) \<le> tv_sec t \<Longrightarrow>
    client_step (d, m) (d\<lparr>db_monotonic := t, db_now_s := s, db_now_real_s := r, db_realtime := rt\<rparr>, m)"

inductive_cases client_stepE: "client_step (d, m) (d', m')"

lemma store_at_clock [simp]:
  "store_at (d\<lparr>db_monotonic := t, db_now_s := s, db_now_real_s := r, db_realtime := rt\<rparr>) = store_at d"
  by (simp add: fun_eq_iff store_at_def)

lemma client_ok_run: "out_run d m d' m' \<Longrightarrow> client_ok others (d, m) \<Longrightarrow> client_ok others (d', m')"
  using out_run_clocked by (auto simp: client_ok_def out_run_def dest: out_steps_inv)

lemma client_ok_same:
  "mq_msgs_out m' = mq_msgs_out m \<Longrightarrow> client_ok others (d, m) \<Longrightarrow> client_ok others (d, m')"
  by (simp add: client_ok_def)

lemma client_step_ok:
  assumes "client_step (d, m) (d', m')" and "client_ok others (d, m)"
  shows "client_ok others (d', m')"
  using assms(1)
proof (rule client_stepE, goal_cases)
  case (1 mid qos retain p properties update rc)
  then show ?case
    using ins.keeps_client [of "(mid, qos, retain, p, properties, update)"] assms(2) by simp
next
  case (2 mid expect qos rc)
  then show ?case using del.keeps_client [of "(mid, expect, qos)"] assms(2) by simp
next
  case (3 mid rc)
  then show ?case using upd.keeps_client assms(2) by (simp add: with_db_Ok)
next
  case (4 rc)
  then show ?case using sto.keeps_client assms(2) by (simp add: with_db_Ok)
next
  case (5 rc)
  then show ?case using que.keeps_client assms(2) by (simp add: with_db_Ok)
next
  case (6 rc)
  then show ?case using inf.keeps_client assms(2) by simp
next
  case 7
  then show ?case using increment_send_quota_run client_ok_run assms(2) by blast
next
  case (8 mode)
  then show ?case using client_ok_same [of m' m] assms(2) by (simp add: mosquitto__set_mode_def)
next
  case (9 rc)
  then show ?case
    using client_ok_same [OF out_frame_fields(1) [OF packet__write_frame]] assms(2) by blast
next
  case (10 t s r rt)
  then show ?case using assms(2) clocked_mono by (auto simp: client_ok_def)
qed

lemma client_steps_ok:
  "client_step\<^sup>*\<^sup>* (d, m) (d', m') \<Longrightarrow> client_ok others (d, m) \<Longrightarrow> client_ok others (d', m')"
  by (induction rule: rtranclp_induct2) (auto dest: client_step_ok)

lemma keys_count: "int (count (image_mset fst (keys md)) p) =
    int (length (filter (\<lambda>msg. cm_store msg = p) (all_msgs md)))"
proof -
  have "image_mset fst (mset (map (\<lambda>msg. (cm_store msg, cm_qos msg)) l)) = mset (map cm_store l)" for l :: "mosquitto_client_msg list"
    by (induction l) simp_all
  moreover have "count (mset (map cm_store l)) p = length (filter (\<lambda>msg. cm_store msg = p) l)"
    for l :: "mosquitto_client_msg list"
    by (induction l) simp_all
  ultimately show ?thesis by (simp only: keys_def)
qed

lemma keys_sum: "(\<Sum>k \<in># keys md. stored_bytes S (fst k)) =
    (\<Sum>msg \<leftarrow> all_msgs md. stored_bytes S (cm_store msg))"
proof -
  have "(\<Sum>k \<in># mset (map (\<lambda>msg. (cm_store msg, cm_qos msg)) l). stored_bytes S (fst k)) =
      (\<Sum>msg \<leftarrow> l. stored_bytes S (cm_store msg))" for l
    by (induction l) simp_all
  then show ?thesis by (simp add: keys_def)
qed

section \<open>Properties\<close>


text \<open>A slow client that is sent one large message: it is put into the storage, and after a change
  to normal mode it goes in flight.\<close>

definition sample_db :: db where
  "sample_db = db_zero\<lparr>db_msg_store := [(7, msg_store_zero\<lparr>ms_topic := Some ''t'', ms_payload := [1, 2],
     ms_payloadlen := 2, ms_ref_count := 1\<rparr>)], db_config := config_zero\<lparr>cf_threshold_s := 2\<rparr>,
     db_realtime := 10, db_monotonic := \<lparr> tv_sec = 5, tv_nsec = 0 \<rparr>\<rparr>"

definition sample_client :: mosquitto where
  "sample_client = mosquitto_zero\<lparr>mq_sock := 3, mq_id := Some ''c'', mq_state := mosq_cs_active,
     mq_mode := slow_mode, mq_max_qos := 2, mq_protocol := mosq_p_mqtt311,
     mq_msgs_out := msg_data_zero\<lparr>md_inflight_maximum := 20, md_inflight_quota := 20\<rparr>\<rparr>"

lemma sample_ok: "client_ok (\<lambda>p. 1) (sample_db, sample_client)"
  by (auto simp: client_ok_def msgs_inv_def quota_ok_def states_ok_def refs_balanced_def keys_def
      all_msgs_def counters_exact_def clocked_def storage_sorted_def sample_db_def sample_client_def
      mosquitto_zero_def msg_data_zero_def db_zero_def msg_store_zero_def store_at_def split: if_splits)

text \<open>What is seen of a state after an operation: the stored messages of the lists, and \<open>msg_count\<close>.\<close>

definition seen :: "(rc \<times> db \<times> mosquitto) res \<Rightarrow> (rc \<times> store_ptr list \<times> store_ptr list \<times> int \<times> int) option" where
  "seen r = (case r of Ok (rc, d, m) \<Rightarrow> let md = mq_msgs_out m in
       Some (rc, map cm_store (md_inflight md), map cm_store (md_storage md), md_msg_count md, md_msg_bytes md)
     | _ \<Rightarrow> None)"

lemma seen_Some:
  assumes "seen r = Some (rc, inflight, storage, n, b)"
  obtains d m where "r = Ok (rc, d, m)" "map cm_store (md_inflight (mq_msgs_out m)) = inflight"
    "map cm_store (md_storage (mq_msgs_out m)) = storage" "md_msg_count (mq_msgs_out m) = n"
    "md_msg_bytes (mq_msgs_out m) = b"
  using assms by (auto simp: seen_def Let_def split: res.splits)

lemma sample_insert:
  "seen (db__message_insert sample_db sample_client 1 mosq_md_out 1 False 7 [] True) =
   Some (0, [], [7], 1, 2)"
  by code_simp

lemma sample_released:
  "seen (res_bind (db__message_insert sample_db sample_client 1 mosq_md_out 1 False 7 [] True)
     (\<lambda>(rc, d, m). with_db d (db__message_write_storage_out d (mosquitto__set_mode m normal_mode)))) =
   Some (0, [7], [], 1, 2)"
  by code_simp


end
