(* ===== verification/Transmit_Policy.thy ===== *)
theory Transmit_Policy
  imports Msg_Invariants "HOL-Library.Sublist"
begin

text \<open>
  The adaptive transmit policy: which messages \<open>db__message_insert\<close> holds back in the
  storage of a slow client, and which ones \<open>db__message_write_storage_out\<close> lets go, where
  they go to and in which order. The functions are those of \<open>Database\<close>
  (\<^verbatim>\<open>src/database.c\<close>).
\<close>

section \<open>Letting messages go\<close>

text \<open>How many of \<open>n\<close> released messages go in flight; the others have to queue.\<close>

definition flight_room :: "mosquitto_msg_data \<Rightarrow> nat \<Rightarrow> nat" where
  "flight_room md n = (if md_inflight_maximum md = 0 then n else min (nat (md_inflight_quota md)) n)"

lemma released_eq:
  "quota_ok md \<Longrightarrow> md_storage md = due @ kept \<Longrightarrow>
   released due kept md = (let k = flight_room md (length due) in
     md\<lparr>md_storage := kept, md_inflight := md_inflight md @ map set_publish_state (take k due),
        md_queued := md_queued md @ drop k due,
        md_inflight_quota := md_inflight_quota md - (if md_inflight_maximum md = 0 then 0 else int k)\<rparr>)"
proof (induction due arbitrary: md)
  case Nil
  then show ?case by (simp add: flight_room_def Let_def)
next
  case (Cons msg due)
  let ?md = "destored msg (due @ kept) md"
  have q: "quota_ok ?md"
    using Cons.prems(1) by (auto simp: quota_ok_def destored_def quota_spent_def)
  note IH = Cons.IH [OF q]
  consider (nolimit) "md_inflight_maximum md = 0" | (full) "md_inflight_maximum md \<noteq> 0" "md_inflight_quota md = 0"
    | (room) "md_inflight_maximum md \<noteq> 0" "md_inflight_quota md > 0"
    using Cons.prems(1) by (force simp: quota_ok_def)
  then show ?case
  proof cases
    case nolimit
    then have "md_inflight_quota md = 0" using Cons.prems(1) by (simp add: quota_ok_def)
    then show ?thesis
      using nolimit IH by (simp add: flight_room_def destored_def quota_spent_def Let_def)
  next
    case full
    then show ?thesis using IH by (simp add: flight_room_def destored_def Let_def)
  next
    case room
    then have n: "nat (md_inflight_quota md) = Suc (nat (md_inflight_quota md - 1))" by simp
    show ?thesis
      using room IH by (simp add: flight_room_def destored_def quota_spent_def Let_def n)
  qed
qed

lemma released_storage: "md_storage md = due @ kept \<Longrightarrow> md_storage (released due kept md) = kept"
  by (induction due kept md rule: released.induct) simp_all

lemma due_split:
  assumes "storage_sorted md"
  shows "\<forall>msg \<in> set (takeWhile (is_due tp timeout mode) (md_storage md)). is_due tp timeout mode msg"
    "\<forall>msg \<in> set (dropWhile (is_due tp timeout mode) (md_storage md)). \<not> is_due tp timeout mode msg"
  using due_prefix [OF assms] by (auto dest: set_takeWhileD)

section \<open>Holding messages back\<close>

definition held_back :: "db \<Rightarrow> mosquitto \<Rightarrow> mosquitto_msg_store \<Rightarrow> bool" where
  "held_back d m stored \<longleftrightarrow> mq_sock m \<noteq> INVALID_SOCKET \<and>
     unat (ms_payloadlen stored) \<ge> unat (cf_threshold_s (db_config d)) \<and>
     mq_mode (insert_overtime d m) = slow_mode \<and> ms_topic stored \<noteq> Some ''latency''"

definition publish_state :: "u8 \<Rightarrow> mosquitto_msg_state" where
  "publish_state qos = (if qos = 0 then mosq_ms_publish_qos0 else if qos = 1 then mosq_ms_publish_qos1
     else mosq_ms_publish_qos2)"

lemma qos_cases:
  assumes "(qos :: u8) \<le> 2"
  obtains "qos = 0" | "qos = 1" | "qos = 2"
proof -
  have "unat qos \<le> 2" using assms by (simp add: word_le_nat_alt)
  then have "unat qos = 0 \<or> unat qos = 1 \<or> unat qos = 2" by linarith
  then show ?thesis using that by (auto simp: word_unat_eq_iff)
qed

lemma publish_state_cases:
  assumes "qos \<le> 2"
  shows "publish_state qos = mosq_ms_publish_qos0 \<and> qos = 0 \<or>
     publish_state qos = mosq_ms_publish_qos1 \<and> qos = 1 \<or> publish_state qos = mosq_ms_publish_qos2 \<and> qos = 2"
  using assms by (rule qos_cases) (simp_all add: publish_state_def)

text \<open>The decision for a client that is connected.\<close>

definition placement :: "db \<Rightarrow> mosquitto \<Rightarrow> u8 \<Rightarrow> mosquitto_msg_store \<Rightarrow> (mosquitto_msg_state \<times> rc) option" where
  "placement d m qos stored =
    (let m1 = insert_overtime d m in
     if held_back d m stored then Some (mosq_ms_storage, 0)
     else if db__ready_for_flight d m1 mosq_md_out qos then Some (publish_state qos, 0)
     else if qos \<noteq> 0 \<and> db__ready_for_queue d m1 qos (mq_msgs_out m1) then Some (mosq_ms_queued, 2)
     else None)"

lemma insert_decide_placement:
  assumes "mq_sock m \<noteq> INVALID_SOCKET" and "ms_topic stored = Some topic" and "qos \<le> 2"
  shows "insert_decide d (insert_overtime d m) mosq_md_out qos stored =
    Ok (case placement d m qos stored of None \<Rightarrow> Insert_drop | Some (state, rc) \<Rightarrow> Insert_state state rc)"
proof (cases "held_back d m stored")
  case True
  then show ?thesis by (simp add: insert_decide_def placement_def held_back_def assms(2) Let_def)
next
  case False
  have "(if qos = 0 then mosq_ms_publish_qos0 else if qos = 1 then mosq_ms_publish_qos1
         else if qos = 2 then mosq_ms_publish_qos2 else mosq_ms_invalid) = publish_state qos"
    using assms(3) by (rule qos_cases) (simp_all add: publish_state_def)
  moreover have "\<not> (unat (ms_payloadlen stored) \<ge> unat (cf_threshold_s (db_config d)) \<and>
      mq_mode (insert_overtime d m) = slow_mode \<and> ms_topic stored \<noteq> Some ''latency'')"
    using False assms(1) by (simp add: held_back_def)
  ultimately show ?thesis
    using assms(1,2) False by (auto simp: insert_decide_def placement_def msgs_of_def Let_def)
qed

lemma placement_state:
  assumes "placement d m qos stored = Some (state, rc)" and "qos \<le> 2"
  shows "state \<noteq> mosq_ms_invalid" and "state \<in> {mosq_ms_queued, mosq_ms_storage} \<or>
      state = mosq_ms_publish_qos0 \<and> qos = 0 \<or>
      state = mosq_ms_publish_qos1 \<and> qos = 1 \<or> state = mosq_ms_publish_qos2 \<and> qos = 2"
  using assms publish_state_cases [OF assms(2)]
  by (auto simp: placement_def Let_def split: if_splits)

lemma connected_insert:
  assumes "store_at d p = Some stored" and "mq_sock m \<noteq> INVALID_SOCKET" and "mq_id m = Some ident"
    and "\<not> insert_duplicate d m retain stored" and "ms_topic stored = Some topic" and "qos \<le> 2"
  shows "db__message_insert d m mid mosq_md_out qos retain p properties update =
    (case placement d m qos stored of
       None \<Rightarrow> Ok (2, d\<lparr>db_msgs_dropped := db_msgs_dropped d + 1\<rparr>,
          (insert_overtime d m)\<lparr>mq_is_dropping := True\<rparr>)
     | Some (state, rc) \<Rightarrow> insert_keep d (insert_overtime d m) mid mosq_md_out qos retain p stored
          properties update ident state rc)"
proof -
  have "\<not> insert_skips d m qos retain stored" using assms by (simp add: insert_skips_def)
  from insert_out_keeps [OF assms(1) this] insert_decide_placement [OF assms(2,5,6)]
  show ?thesis using assms(3) by (simp add: insert_act_def split: option.split)
qed

lemma insert_update_storage:
  assumes u: "insert_update d m mosq_md_out update rc = Ok (rc', d', m')" and c: "clocked_at d m"
  shows "md_storage (mq_msgs_out m') = md_storage (mq_msgs_out m) \<or>
    md_storage (mq_msgs_out m') = dropWhile (is_due (db_monotonic d)
      (cf_msg_store_timeout (db_config d)) (mq_mode m)) (md_storage (mq_msgs_out m))"
proof (cases update)
  case False
  then show ?thesis using u by (simp add: insert_update_def)
next
  case True
  obtain rc1 d1 m1 where w: "db__message_write_inflight_out_latest d m = Ok (rc1, d1, m1)"
    and k: "rc1 \<noteq> 0 \<and> (rc1, d1, m1) = (rc', d', m') \<or> (\<exists>rc2 m2 rc3 m3.
      db__message_write_queued_out m1 = Ok (rc2, m2) \<and>
      db__message_write_storage_out d1 m2 = Ok (rc3, m3) \<and> (rc3, d1, m3) = (rc', d', m'))"
    using u True
    by (auto simp: insert_update_def res_bind_Ok_iff dest: write_queued_out_run(2) split: if_splits)
  note r = write_inflight_out_latest_run [OF w]
  from k show ?thesis
  proof (elim disjE exE conjE)
    fix rc2 m2 rc3 m3
    assume q: "db__message_write_queued_out m1 = Ok (rc2, m2)"
      and s: "db__message_write_storage_out d1 m2 = Ok (rc3, m3)" "(rc3, d1, m3) = (rc', d', m')"
    note rq = write_queued_out_run(1) [OF q, of d1] write_queued_out_run(3) [OF q]
    have m2: "md_storage (mq_msgs_out m2) = md_storage (mq_msgs_out m)" "mq_mode m2 = mq_mode m"
      "db_monotonic d1 = db_monotonic d" "db_config d1 = db_config d" "clocked_at d1 m2"
      using r rq c out_run_clocked [OF out_run_trans [OF conjunct1 [OF r] rq(1)]]
      by (auto simp: out_run_def same_waiting_def)
    show ?thesis
    proof (cases "mq_state m2 = mosq_cs_active")
      case True
      have "storage_sorted (mq_msgs_out m2)" using m2(5) by (simp add: clocked_def)
      from write_storage_out_eq [OF True this, of d1] s
      show ?thesis by (auto simp: Let_def m2 released_storage)
    next
      case False
      then show ?thesis using write_storage_out_inactive s m2(1) by simp
    qed
  qed (use r in \<open>auto simp: same_waiting_def\<close>)
qed

section \<open>Properties\<close>

text \<open>
  C3: releasing the storage of an active client always succeeds. The storage is a part that is
  due, followed by a part that is not: a message is due when the client is in normal mode or
  the message is older than \<open>msg_store_timeout\<close>. The due messages leave in their order; as many
  as the quota allows are made ready to be published and go to the end of \<open>inflight\<close>, taking
  quota, and the rest to the end of \<open>queued\<close>; no message that is due stays, no other leaves.
\<close>

theorem db__message_write_storage_out_releases:
  assumes "mq_state m = mosq_cs_active" and "clocked_at d m" and "quota_ok (mq_msgs_out m)"
  shows "\<exists>due kept. let md = mq_msgs_out m; k = flight_room md (length due);
      is_due = is_due (db_monotonic d) (cf_msg_store_timeout (db_config d)) (mq_mode m) in
    md_storage md = due @ kept \<and> (\<forall>msg \<in> set due. is_due msg) \<and> (\<forall>msg \<in> set kept. \<not> is_due msg) \<and>
    db__message_write_storage_out d m = Ok (MOSQ_ERR_SUCCESS, m\<lparr>mq_msgs_out := md\<lparr>md_storage := kept,
      md_inflight := md_inflight md @ map set_publish_state (take k due),
      md_queued := md_queued md @ drop k due,
      md_inflight_quota := md_inflight_quota md - (if md_inflight_maximum md = 0 then 0 else int k)\<rparr>\<rparr>)"
proof -
  let ?due = "is_due (db_monotonic d) (cf_msg_store_timeout (db_config d)) (mq_mode m)"
  let ?s = "md_storage (mq_msgs_out m)"
  have sorted: "storage_sorted (mq_msgs_out m)" using assms(2) by (simp add: clocked_def)
  have "?s = takeWhile ?due ?s @ dropWhile ?due ?s" by simp
  note split = this and rel = released_eq [OF assms(3) this]
  note due = due_split [OF sorted, of "db_monotonic d" "cf_msg_store_timeout (db_config d)" "mq_mode m"]
  note eq = write_storage_out_eq [OF assms(1) sorted, of d, unfolded Let_def rel]
  show ?thesis
    unfolding Let_def
    by (intro exI [of _ "takeWhile ?due ?s"] exI [of _ "dropWhile ?due ?s"] conjI)
      (rule split due(1) due(2) eq)+
qed

definition sample_msg :: "store_ptr \<Rightarrow> int \<Rightarrow> mosquitto_client_msg" where
  "sample_msg p t = \<lparr> cm_store = p, cm_properties = [], cm_timestamp = 0, cm_mid = 1, cm_qos = 1,
     cm_retain = False, cm_direction = mosq_md_out, cm_state = mosq_ms_storage, cm_dup = False,
     cm_storage_time = \<lparr> tv_sec = t, tv_nsec = 0 \<rparr> \<rparr>"

theorem db__message_write_storage_out_releases_witness:
  "let m = sample_client\<lparr>mq_msgs_out := (mq_msgs_out sample_client)
        \<lparr>md_inflight_quota := 1, md_storage := [sample_msg 1 2, sample_msg 2 3, sample_msg 3 5]\<rparr>\<rparr>;
       d = sample_db\<lparr>db_config := config_zero\<lparr>cf_msg_store_timeout := 1\<rparr>\<rparr>
   in mq_mode m = slow_mode \<and> (\<exists>md. db__message_write_storage_out d m = Ok (0, m\<lparr>mq_msgs_out := md\<rparr>) \<and>
     map cm_store (md_inflight md) = [1] \<and> map cm_store (md_queued md) = [2] \<and> map cm_store (md_storage md) = [3])"
proof -
  define m where "m = sample_client\<lparr>mq_msgs_out := (mq_msgs_out sample_client)
        \<lparr>md_inflight_quota := 1, md_storage := [sample_msg 1 2, sample_msg 2 3, sample_msg 3 5]\<rparr>\<rparr>"
  define d where "d = sample_db\<lparr>db_config := config_zero\<lparr>cf_msg_store_timeout := 1\<rparr>\<rparr>"
  note defs = m_def d_def sample_client_def sample_db_def sample_msg_def mosquitto_zero_def
    msg_data_zero_def db_zero_def config_zero_def
  have "mq_state m = mosq_cs_active" "clocked_at d m" "quota_ok (mq_msgs_out m)"
    by (simp_all add: defs clocked_def storage_sorted_def quota_ok_def)
  from db__message_write_storage_out_releases [OF this] obtain due kept where
    s: "md_storage (mq_msgs_out m) = due @ kept" and
    a: "\<forall>msg \<in> set due. is_due (db_monotonic d) (cf_msg_store_timeout (db_config d)) (mq_mode m) msg" and
    b: "\<forall>msg \<in> set kept. \<not> is_due (db_monotonic d) (cf_msg_store_timeout (db_config d)) (mq_mode m) msg" and
    w: "db__message_write_storage_out d m = Ok (MOSQ_ERR_SUCCESS, m\<lparr>mq_msgs_out := (mq_msgs_out m)
      \<lparr>md_storage := kept,
      md_inflight := md_inflight (mq_msgs_out m) @
        map set_publish_state (take (flight_room (mq_msgs_out m) (length due)) due),
      md_queued := md_queued (mq_msgs_out m) @ drop (flight_room (mq_msgs_out m) (length due)) due,
      md_inflight_quota := md_inflight_quota (mq_msgs_out m) - (if md_inflight_maximum (mq_msgs_out m) = 0
        then 0 else int (flight_room (mq_msgs_out m) (length due)))\<rparr>\<rparr>)"
    unfolding Let_def by blast
  have "due = [sample_msg 1 2, sample_msg 2 3] \<and> kept = [sample_msg 3 5]"
  proof (cases due rule: list.exhaust)
    case Nil
    then show ?thesis using s b by (auto simp: defs is_due_def)
  next
    case (Cons x due')
    then show ?thesis using s a b
      by (cases due'; cases "tl due'"; cases "tl (tl due')") (auto simp: defs is_due_def)
  qed
  then show ?thesis
    using w unfolding m_def [symmetric] d_def [symmetric] Let_def
    by (auto simp: defs flight_room_def set_publish_state_def)
qed



text \<open>
  C4: a message that is held back stays in the storage even when the caller asks for sending to
  go on: after the insertion it is the last message of the storage, still with its time, whatever
  was sent or released meanwhile.
\<close>

theorem db__message_insert_holds_back:
  assumes "store_at d p = Some stored" and "mq_id m = Some ident" and "held_back d m stored"
    and "\<not> insert_duplicate d m retain stored" and "ms_topic stored = Some topic" and "qos \<le> 2"
    and "clocked_at d m" and "0 \<le> cf_msg_store_timeout (db_config d)"
    and "db__message_insert d m mid mosq_md_out qos retain p properties update = Ok (rc, d', m')"
  shows "\<exists>earlier msg. md_storage (mq_msgs_out m') = earlier @ [msg] \<and> suffix earlier (md_storage (mq_msgs_out m)) \<and>
    cm_store msg = p \<and> cm_mid msg = mid \<and> cm_storage_time msg = db_monotonic d"
proof -
  have sock: "mq_sock m \<noteq> INVALID_SOCKET" using assms(3) by (simp add: held_back_def)
  have "placement d m qos stored = Some (mosq_ms_storage, 0)" using assms(3) by (simp add: placement_def)
  then have k: "insert_keep d (insert_overtime d m) mid mosq_md_out qos retain p stored properties update
      ident mosq_ms_storage 0 = Ok (rc, d', m')"
    using connected_insert [OF assms(1) sock assms(2,4,5,6)] assms(9) by simp
  obtain d1 m1 msg where u: "insert_update d1 m1 mosq_md_out update 0 = Ok (rc, d', m')"
    and r: "out_run d (insert_overtime d m) d1 m1" and pl: "placed (mq_msgs_out m) msg (mq_msgs_out m1)"
    and msg: "cm_store msg = p" "cm_mid msg = mid" "cm_state msg = mosq_ms_storage"
      "cm_storage_time msg = db_monotonic d"
    by (rule insert_keep_split [OF assms(1) _ assms(6), of mosq_ms_storage "insert_overtime d m"
          mid retain properties update ident 0]) (use k in auto)
  have s: "md_storage (mq_msgs_out m1) = md_storage (mq_msgs_out m) @ [msg]"
    using pl msg(3) by (simp add: placed_def appended_def)
  have f: "db_monotonic d1 = db_monotonic d" "db_config d1 = db_config d" "mq_mode m1 = slow_mode"
    "clocked_at d1 m1"
    using r assms(3,7) out_run_clocked [OF r] by (auto simp: out_run_def held_back_def)
  have "\<not> is_due (db_monotonic d1) (cf_msg_store_timeout (db_config d1)) (mq_mode m1) msg"
    using f assms(8) by (simp add: is_due_def msg(4))
  then have d: "dropWhile (is_due (db_monotonic d1) (cf_msg_store_timeout (db_config d1)) (mq_mode m1))
      (md_storage (mq_msgs_out m1)) =
    dropWhile (is_due (db_monotonic d1) (cf_msg_store_timeout (db_config d1)) (mq_mode m1))
      (md_storage (mq_msgs_out m)) @ [msg]"
    unfolding s by (simp add: dropWhile_append)
  have "\<exists>earlier. md_storage (mq_msgs_out m') = earlier @ [msg] \<and> suffix earlier (md_storage (mq_msgs_out m))"
    using insert_update_storage [OF u f(4)]
  proof
    assume "md_storage (mq_msgs_out m') = md_storage (mq_msgs_out m1)"
    then show ?thesis using s by auto
  next
    assume "md_storage (mq_msgs_out m') = dropWhile (is_due (db_monotonic d1)
      (cf_msg_store_timeout (db_config d1)) (mq_mode m1)) (md_storage (mq_msgs_out m1))"
    then show ?thesis unfolding d using suffix_dropWhile by blast
  qed
  then show ?thesis using msg by blast
qed

theorem db__message_insert_holds_back_witness:
  "\<exists>d m earlier msg. db__message_insert sample_db sample_client 1 mosq_md_out 1 False 7 [] True = Ok (0, d, m) \<and>
     md_storage (mq_msgs_out m) = earlier @ [msg] \<and> cm_store msg = 7"
proof -
  note defs = sample_client_def sample_db_def mosquitto_zero_def msg_data_zero_def db_zero_def
    config_zero_def msg_store_zero_def
  obtain d m where i: "db__message_insert sample_db sample_client 1 mosq_md_out 1 False 7 [] True = Ok (0, d, m)"
    by (rule seen_Some [OF sample_insert])
  let ?st = "msg_store_zero\<lparr>ms_topic := Some ''t'', ms_payload := [1, 2], ms_payloadlen := 2, ms_ref_count := 1\<rparr>"
  have "store_at sample_db 7 = Some ?st" "mq_id sample_client = Some ''c''"
    "held_back sample_db sample_client ?st" "\<not> insert_duplicate sample_db sample_client False ?st"
    "ms_topic ?st = Some ''t''" "(1 :: u8) \<le> 2" "clocked_at sample_db sample_client"
    "0 \<le> cf_msg_store_timeout (db_config sample_db)"
    by (simp_all add: defs store_at_def insert_duplicate_def held_back_def insert_overtime_def
        clocked_def storage_sorted_def)
  from db__message_insert_holds_back [OF this i] i show ?thesis by blast
qed

end
