(* ===== verification/Handle_Acks.thy ===== *)
theory Handle_Acks
  imports Transmit_Policy "HOL-Library.Signed_Division"
begin

text \<open>
  The handlers of the packets that acknowledge a PUBLISH of the broker
  (\<^verbatim>\<open>lib/handle_pubackcomp.c\<close>, \<^verbatim>\<open>lib/handle_pubrec.c\<close>), of the
  pings (\<^verbatim>\<open>lib/handle_ping.c\<close>), and the initial state of a client
  (\<open>context__init\<close> of \<^verbatim>\<open>src/context.c\<close>), in the broker build. A PUBACK carries
  the measurement of the adaptive transmit policy: the round trip time of the message decides
  the mode of the client and adapts \<open>threshold_l\<close>.

  The incoming packet is \<open>mq_in_packet\<close>. When a reader fails, its position is left where
  the reader started: the caller frees the packet after an error. Integers of type
  \<open>long\<close> divide by truncation, \<open>sdiv\<close> and \<open>smod\<close>. Logging is not modelled.
\<close>

section \<open>The initial state of a client\<close>

text \<open>
  \<open>address_ok\<close> tells whether the address of the peer could be found, which is asked of the
  operating system; the table of clients by socket is not part of the model.
\<close>

definition context__init :: "db \<Rightarrow> int \<Rightarrow> bool \<Rightarrow> mosquitto option" where
  "context__init d sock address_ok =
    (let context = mosquitto_zero;
         context = mosquitto__set_state context mosq_cs_new;
         context = mosquitto__set_mode context normal_mode;
         context = context\<lparr>mq_send_time := (mq_send_time context)\<lparr>tv_sec := 0\<rparr>, mq_slow_mode_time := 0,
             mq_threshold_l := 0, mq_count_for_lat := 0,
             mq_lat_pre := foldl (\<lambda>l i. l[i := 1000000]) (mq_lat_pre context) [1, 2, 3, 4]\<rparr>;
         context = context\<lparr>mq_sock := sock, mq_last_msg_in := db_now_s d,
             mq_next_msg_out := db_now_s d + 60, mq_keepalive := 60, mq_clean_start := True,
             mq_id := None, mq_last_mid := 0, mq_username := None, mq_retain_available := True,
             mq_in_packet := packet__cleanup (mq_in_packet context),
             mq_out_packet := [], mq_current_out_packet := None, mq_out_packet_count := 0\<rparr>
     in if sock \<ge> 0 \<and> \<not> address_ok then None
        else
          let maximum = cf_max_inflight_messages (db_config d);
              limit = (\<lambda>md. md\<lparr>md_inflight_maximum := maximum, md_inflight_quota := uint maximum\<rparr>)
          in Some (context\<lparr>mq_bridge := None, mq_msgs_in := limit (mq_msgs_in context),
               mq_msgs_out := limit (mq_msgs_out context), mq_max_qos := 2\<rparr>))"

section \<open>Reading the packet\<close>

type_synonym handled = "(rc \<times> db \<times> mosquitto) res"

definition on_read :: "'a res \<Rightarrow> db \<times> mosquitto \<Rightarrow> ('a \<Rightarrow> handled) \<Rightarrow> handled" where
  "on_read r s k = (case r of Ok x \<Rightarrow> k x | Err rc \<Rightarrow> Ok (rc, s) | Fault \<Rightarrow> Fault)"

text \<open>The reason code and the properties of an MQTT v5 acknowledgement.\<close>

definition read_reason ::
    "int \<Rightarrow> (u8 \<Rightarrow> bool) \<Rightarrow> db \<Rightarrow> mosquitto \<Rightarrow> (u8 \<Rightarrow> mosquitto \<Rightarrow> handled) \<Rightarrow> handled" where
  "read_reason command valid d mosq k =
    (if mq_protocol mosq = mosq_p_mqtt5 \<and> pk_remaining_length (mq_in_packet mosq) > 2 then
       on_read (packet__read_byte (mq_in_packet mosq)) (d, mosq) (\<lambda>(reason_code, p).
         let mosq = mosq\<lparr>mq_in_packet := p\<rparr> in
         if pk_remaining_length p > 3 then
           on_read (property__read_all command p) (d, mosq) (\<lambda>(properties, p).
             let mosq = mosq\<lparr>mq_in_packet := p\<rparr> in
             if \<not> valid reason_code then Ok (MOSQ_ERR_PROTOCOL, d, mosq) else k reason_code mosq)
         else if \<not> valid reason_code then Ok (MOSQ_ERR_PROTOCOL, d, mosq)
         else k reason_code mosq)
     else k 0 mosq)"

text \<open>The same for the handlers that check the reason code before they read the properties.\<close>

definition read_reason_first ::
    "int \<Rightarrow> (u8 \<Rightarrow> bool) \<Rightarrow> db \<Rightarrow> mosquitto \<Rightarrow> (u8 \<Rightarrow> mosquitto \<Rightarrow> handled) \<Rightarrow> handled" where
  "read_reason_first command valid d mosq k =
    (if mq_protocol mosq = mosq_p_mqtt5 \<and> pk_remaining_length (mq_in_packet mosq) > 2 then
       on_read (packet__read_byte (mq_in_packet mosq)) (d, mosq) (\<lambda>(reason_code, p).
         let mosq = mosq\<lparr>mq_in_packet := p\<rparr> in
         if \<not> valid reason_code then Ok (MOSQ_ERR_PROTOCOL, d, mosq)
         else if pk_remaining_length p > 3 then
           on_read (property__read_all command p) (d, mosq) (\<lambda>(properties, p).
             k reason_code (mosq\<lparr>mq_in_packet := p\<rparr>))
         else k reason_code mosq)
     else k 0 mosq)"

definition all_read :: "mosquitto \<Rightarrow> bool" where
  "all_read mosq \<longleftrightarrow> pk_pos (mq_in_packet mosq) \<ge> pk_remaining_length (mq_in_packet mosq)"

section \<open>The round trip time\<close>

text \<open>
  One measurement: the five samples are updated, the mode is decided with the threshold that the
  last measurement left, and the threshold becomes the average of the samples.
\<close>

definition latency_sample :: "db \<Rightarrow> mosquitto \<Rightarrow> mosquitto res" where
  "latency_sample d mosq =
    (let tp = db_monotonic d; now = db_realtime d;
         mosq = mosq\<lparr>mq_latency_t := \<lparr> tv_sec = tv_sec tp - tv_sec (mq_send_time mosq),
                                       tv_nsec = tv_nsec tp - tv_nsec (mq_send_time mosq) \<rparr>\<rparr>;
         tmp_lat = tv_sec (mq_latency_t mosq) * 1000000 + tv_nsec (mq_latency_t mosq) sdiv 1000;
         mosq = mosq\<lparr>mq_count_for_lat := mq_count_for_lat mosq smod 5\<rparr>
     in if mq_count_for_lat mosq < 0 \<or> nat (mq_count_for_lat mosq) \<ge> length (mq_lat_pre mosq) then Fault
        else
          let mosq = mosq\<lparr>mq_lat_pre := (mq_lat_pre mosq)[nat (mq_count_for_lat mosq) := tmp_lat]\<rparr>;
              threshold_l_total = sum_list (mq_lat_pre mosq);
              mosq = mosq\<lparr>mq_count_for_lat := mq_count_for_lat mosq + 1\<rparr>;
              mosq = (if tmp_lat \<ge> uint (mq_threshold_l mosq) then
                        let mosq = (if mosquitto__get_mode mosq = normal_mode
                                    then mosq\<lparr>mq_slow_mode_time := now\<rparr> else mosq)
                        in mosquitto__set_mode mosq slow_mode
                      else (mosquitto__set_mode mosq normal_mode)\<lparr>mq_slow_mode_time := 0\<rparr>)
          in Ok (mosq\<lparr>mq_threshold_l := word_of_int (threshold_l_total sdiv 5)\<rparr>))"

section \<open>PUBACK and PUBCOMP\<close>

definition puback_reason :: "u8 \<Rightarrow> bool" where
  "puback_reason reason_code \<longleftrightarrow>
     reason_code \<in> {0, 16, 128, 131, 135, 144, 145, 151, 153}"

definition pubcomp_reason :: "u8 \<Rightarrow> bool" where
  "pubcomp_reason reason_code \<longleftrightarrow> reason_code \<in> {0, 146}"

text \<open>What follows once the packet has been read: the measurement and the end of the handshake.\<close>

definition pubackcomp_done :: "db \<Rightarrow> mosquitto \<Rightarrow> u16 \<Rightarrow> u8 \<Rightarrow> handled" where
  "pubackcomp_done d mosq mid qos =
    (let finish = (\<lambda>mosq.
       res_bind (db__message_delete_outgoing d mosq mid mosq_ms_wait_for_pubcomp qos) (\<lambda>(rc, d, mosq).
         Ok (if rc = MOSQ_ERR_NOT_FOUND then MOSQ_ERR_SUCCESS else rc, d, mosq)))
     in if tv_sec (mq_send_time mosq) > 0 \<and> qos = 1 then
          res_bind (latency_sample d mosq) (\<lambda>mosq.
          res_bind (db__message_write_storage_out d mosq) (\<lambda>(rc, mosq).
            if rc \<noteq> 0 then Ok (rc, d, mosq)
            else finish (mosq\<lparr>mq_send_time := (mq_send_time mosq)\<lparr>tv_sec := 0\<rparr>\<rparr>)))
        else finish mosq)"

definition handle__pubackcomp :: "db \<Rightarrow> mosquitto \<Rightarrow> string \<Rightarrow> handled" where
  "handle__pubackcomp d mosq type =
    (if mosquitto__get_state mosq \<noteq> mosq_cs_active then Ok (MOSQ_ERR_PROTOCOL, d, mosq)
     else if mq_protocol mosq \<noteq> mosq_p_mqtt31 \<and> pk_command (mq_in_packet mosq) AND 0x0F \<noteq> 0
     then Ok (MOSQ_ERR_MALFORMED_PACKET, d, mosq)
     else
       let mosq = util__increment_send_quota mosq; ack = (type ! 3 = CHR ''A'') in
       on_read (packet__read_uint16 (mq_in_packet mosq)) (d, mosq) (\<lambda>(mid, p).
         let mosq = mosq\<lparr>mq_in_packet := p\<rparr>; qos = (if ack then 1 else 2) in
         if ack \<and> pk_command p \<noteq> 0x40 \<or> \<not> ack \<and> pk_command p \<noteq> 0x70
         then Ok (MOSQ_ERR_MALFORMED_PACKET, d, mosq)
         else if mid = 0 then Ok (MOSQ_ERR_PROTOCOL, d, mosq)
         else read_reason 0x40 (if ack then puback_reason else pubcomp_reason) d mosq (\<lambda>_ mosq.
           if \<not> all_read mosq then Ok (MOSQ_ERR_MALFORMED_PACKET, d, mosq)
           else pubackcomp_done d mosq mid qos)))"

section \<open>PUBREC and the pings\<close>

definition pubrec_reason :: "u8 \<Rightarrow> bool" where
  "pubrec_reason reason_code \<longleftrightarrow> reason_code \<in> {0, 16, 128, 131, 135, 144, 145, 151}"

definition handle__pubrec :: "db \<Rightarrow> mosquitto \<Rightarrow> handled" where
  "handle__pubrec d mosq =
    (if mosquitto__get_state mosq \<noteq> mosq_cs_active then Ok (MOSQ_ERR_PROTOCOL, d, mosq)
     else if pk_command (mq_in_packet mosq) \<noteq> 0x50 then Ok (MOSQ_ERR_MALFORMED_PACKET, d, mosq)
     else on_read (packet__read_uint16 (mq_in_packet mosq)) (d, mosq) (\<lambda>(mid, p).
       let mosq = mosq\<lparr>mq_in_packet := p\<rparr> in
       if mid = 0 then Ok (MOSQ_ERR_PROTOCOL, d, mosq)
       else read_reason_first 0x50 pubrec_reason d mosq (\<lambda>reason_code mosq.
         if \<not> all_read mosq then Ok (MOSQ_ERR_MALFORMED_PACKET, d, mosq)
         else if reason_code < 0x80 then
           let (rc, mosq) = db__message_update_outgoing d mosq mid mosq_ms_wait_for_pubcomp 2 in
           if rc \<noteq> MOSQ_ERR_NOT_FOUND \<and> rc \<noteq> MOSQ_ERR_SUCCESS then Ok (rc, d, mosq)
           else res_bind (send__pubrel d mosq mid []) (\<lambda>(rc, mosq).
             if rc \<noteq> 0 then Ok (rc, d, mosq) else Ok (MOSQ_ERR_SUCCESS, d, mosq))
         else db__message_delete_outgoing d mosq mid mosq_ms_wait_for_pubrec 2)))"

definition handle__pingreq :: "db \<Rightarrow> mosquitto \<Rightarrow> (rc \<times> mosquitto) res" where
  "handle__pingreq d mosq =
    (if mosquitto__get_state mosq \<noteq> mosq_cs_active then Ok (MOSQ_ERR_PROTOCOL, mosq)
     else if pk_command (mq_in_packet mosq) \<noteq> 0xC0 then Ok (MOSQ_ERR_MALFORMED_PACKET, mosq)
     else send__pingresp d mosq)"

definition handle__pingresp :: "mosquitto \<Rightarrow> rc \<times> mosquitto" where
  "handle__pingresp mosq =
    (if mosquitto__get_state mosq \<noteq> mosq_cs_active then (MOSQ_ERR_PROTOCOL, mosq)
     else
       let mosq = mosq\<lparr>mq_ping_t := 0\<rparr> in
       if mq_bridge mosq = None then (MOSQ_ERR_PROTOCOL, mosq) else (MOSQ_ERR_SUCCESS, mosq))"

section \<open>One measurement\<close>

text \<open>The round trip time in microseconds.\<close>

definition round_trip :: "db \<Rightarrow> mosquitto \<Rightarrow> int" where
  "round_trip d m = (tv_sec (db_monotonic d) - tv_sec (mq_send_time m)) * 1000000 +
     (tv_nsec (db_monotonic d) - tv_nsec (mq_send_time m)) sdiv 1000"

definition window_ok :: "mosquitto \<Rightarrow> bool" where
  "window_ok m \<longleftrightarrow> length (mq_lat_pre m) = 5 \<and> 0 \<le> mq_count_for_lat m"

lemma smod_nonneg: "0 \<le> a \<Longrightarrow> a smod (5 :: int) = a mod 5"
  by (simp add: signed_modulo_int_def signed_divide_int_def sgn_if minus_mult_div_eq_mod)

lemma latency_sample_eq:
  assumes "window_ok m"
  shows "latency_sample d m = Ok (let l = (mq_lat_pre m)[nat (mq_count_for_lat m mod 5) := round_trip d m];
      slow = (round_trip d m \<ge> uint (mq_threshold_l m)) in
    m\<lparr>mq_latency_t := \<lparr> tv_sec = tv_sec (db_monotonic d) - tv_sec (mq_send_time m),
          tv_nsec = tv_nsec (db_monotonic d) - tv_nsec (mq_send_time m) \<rparr>,
      mq_lat_pre := l, mq_count_for_lat := mq_count_for_lat m mod 5 + 1,
      mq_threshold_l := word_of_int (sum_list l sdiv 5),
      mq_mode := (if mq_state m = mosq_cs_disused then mq_mode m else if slow then slow_mode else normal_mode),
      mq_slow_mode_time := (if \<not> slow then 0 else if mq_mode m = normal_mode then db_realtime d
        else mq_slow_mode_time m)\<rparr>)"
proof -
  have c: "mq_count_for_lat m smod 5 = mq_count_for_lat m mod 5"
    using assms by (simp add: window_ok_def smod_nonneg)
  have "\<not> (mq_count_for_lat m mod 5 < 0 \<or> nat (mq_count_for_lat m mod 5) \<ge> length (mq_lat_pre m))"
    using assms by (simp add: window_ok_def not_le nat_less_iff)
  then show ?thesis
    by (cases "round_trip d m \<ge> uint (mq_threshold_l m)"; cases "mq_mode m"; cases "mq_state m = mosq_cs_disused")
      (simp_all add: latency_sample_def Let_def c round_trip_def mosquitto__set_mode_def mosquitto__get_mode_def)
qed

lemma latency_sample_window: "window_ok m \<Longrightarrow> latency_sample d m = Ok m' \<Longrightarrow> window_ok m'"
  by (auto simp: latency_sample_eq window_ok_def Let_def)

section \<open>A series of measurements\<close>

text \<open>Measurements one after the other, each with the clocks and the time its message was sent at.\<close>

fun samples :: "(db \<times> timespec) list \<Rightarrow> mosquitto \<Rightarrow> mosquitto res" where
  "samples [] m = Ok m"
| "samples ((d, t) # xs) m = res_bind (latency_sample d (m\<lparr>mq_send_time := t\<rparr>)) (samples xs)"

definition sample_time :: "db \<times> timespec \<Rightarrow> int" where
  "sample_time = (\<lambda>(d, t). round_trip d (mosquitto_zero\<lparr>mq_send_time := t\<rparr>))"

text \<open>The five samples that a client keeps, the oldest first.\<close>

definition window :: "mosquitto \<Rightarrow> int list" where
  "window m = rotate (nat (mq_count_for_lat m mod 5)) (mq_lat_pre m)"

lemma rotate_update_next:
  assumes "length l = 5" and "i < 5"
  shows "rotate (Suc i mod 5) (l[i := x]) = tl (rotate i l) @ [x]"
proof -
  have "length l = Suc (Suc (Suc (Suc (Suc 0))))" using assms(1) by simp
  then obtain a b c d e where l: "l = [a, b, c, d, e]" by (auto simp: length_Suc_conv)
  consider "i = 0" | "i = 1" | "i = 2" | "i = 3" | "i = 4" using assms(2) by linarith
  then show ?thesis by cases (simp_all add: l rotate_drop_take)
qed

lemma sample_window:
  assumes "window_ok m" and "latency_sample d (m\<lparr>mq_send_time := t\<rparr>) = Ok m'"
  shows "window_ok m'" and "window m' = tl (window m) @ [sample_time (d, t)]"
    and "mq_threshold_l m' = word_of_int (sum_list (window m') sdiv 5)"
    and "mq_state m' = mq_state m"
    and "mq_state m \<noteq> mosq_cs_disused \<Longrightarrow>
      mq_mode m' = (if sample_time (d, t) \<ge> uint (mq_threshold_l m) then slow_mode else normal_mode)"
proof -
  let ?c = "nat (mq_count_for_lat m mod 5)"
  have ok: "window_ok (m\<lparr>mq_send_time := t\<rparr>)" using assms(1) by (simp add: window_ok_def)
  note e = assms(2) [unfolded latency_sample_eq [OF ok]]
  have r: "round_trip d (m\<lparr>mq_send_time := t\<rparr>) = sample_time (d, t)"
    by (simp add: sample_time_def round_trip_def)
  have c: "?c < 5" by (simp add: nat_less_iff)
  have c': "nat ((mq_count_for_lat m mod 5 + 1) mod 5) = Suc ?c mod 5"
    by (simp add: nat_mod_distrib nat_add_distrib)
  show "window_ok m'" using latency_sample_window [OF ok assms(2)] .
  show w: "window m' = tl (window m) @ [sample_time (d, t)]"
    using e r rotate_update_next [OF _ c, of "mq_lat_pre m"] assms(1)
    by (auto simp: window_def Let_def c' window_ok_def)
  have "sum_list (window m') = sum_list (mq_lat_pre m')"
    unfolding window_def rotate_drop_take sum_list.append
    by (metis add.commute append_take_drop_id sum_list.append)
  then show "mq_threshold_l m' = word_of_int (sum_list (window m') sdiv 5)"
    using e by (auto simp: Let_def)
  show "mq_state m' = mq_state m" using e by (auto simp: Let_def)
  show "mq_mode m' = (if sample_time (d, t) \<ge> uint (mq_threshold_l m) then slow_mode else normal_mode)"
    if "mq_state m \<noteq> mosq_cs_disused" using e r that by (auto simp: Let_def)
qed

lemma samples_append: "samples (xs @ ys) m = res_bind (samples xs m) (samples ys)"
proof (induction xs arbitrary: m)
  case (Cons x xs)
  have "samples (xs @ ys) = (\<lambda>m. res_bind (samples xs m) (samples ys))" using Cons.IH by (rule ext)
  then show ?case by (cases x) (simp add: res_bind_assoc)
qed simp

lemma samples_window:
  assumes "window_ok m"
  shows "\<exists>m'. samples xs m = Ok m' \<and> window_ok m' \<and> mq_state m' = mq_state m \<and>
    window m' = drop (length xs) (window m @ map sample_time xs) \<and>
    (xs \<noteq> [] \<longrightarrow> mq_threshold_l m' = word_of_int (sum_list (window m') sdiv 5))"
proof (induction xs rule: rev_induct)
  case Nil
  then show ?case using assms by simp
next
  case (snoc x xs)
  then obtain m1 where m1: "samples xs m = Ok m1" "window_ok m1" "mq_state m1 = mq_state m"
    "window m1 = drop (length xs) (window m @ map sample_time xs)" by blast
  obtain d t where x: "x = (d, t)" by force
  obtain m' where m': "latency_sample d (m1\<lparr>mq_send_time := t\<rparr>) = Ok m'"
    using latency_sample_eq [of "m1\<lparr>mq_send_time := t\<rparr>" d] m1(2) by (simp add: window_ok_def)
  have "length (window m) = 5" using assms by (simp add: window_def window_ok_def)
  then have "Suc (length xs) - length (window m @ map sample_time xs) = 0" by simp
  then have "drop (Suc (length xs)) ((window m @ map sample_time xs) @ [sample_time x]) =
      drop (Suc (length xs)) (window m @ map sample_time xs) @ [sample_time x]"
    by (simp only: drop_append drop_0)
  moreover have "tl (drop (length xs) l) = drop (Suc (length xs)) l" for l :: "int list"
    by (simp add: tl_drop drop_Suc)
  ultimately have "tl (drop (length xs) (window m @ map sample_time xs)) @ [sample_time x] =
      drop (length (xs @ [x])) (window m @ map sample_time (xs @ [x]))"
    by (simp only: length_append_singleton map_append list.map append_assoc)
  then show ?case
    using sample_window [OF m1(2) m'] m1 m' by (auto simp: samples_append x)
qed

section \<open>The acknowledgement of a message\<close>

text \<open>The packet of an acknowledgement without reason code and properties.\<close>

definition is_ack_packet :: "packet \<Rightarrow> u8 \<Rightarrow> u8 \<Rightarrow> u8 \<Rightarrow> bool" where
  "is_ack_packet p command hi lo \<longleftrightarrow> pk_command p = command \<and> pk_payload p = [hi, lo] \<and>
     pk_remaining_length p = 2 \<and> pk_pos p = 0 \<and> \<not> (hi = 0 \<and> lo = 0)"

definition mid_of :: "u8 \<Rightarrow> u8 \<Rightarrow> u16" where
  "mid_of hi lo = push_bit 8 (ucast hi) + ucast lo"

lemma mid_of_zero: "mid_of hi lo = 0 \<longleftrightarrow> hi = 0 \<and> lo = 0"
proof -
  have "unat (mid_of hi lo) = unat hi * 256 + unat lo"
    using unat_u8_less [of hi] unat_u8_less [of lo]
    by (simp add: mid_of_def unat_word_ariths push_bit_eq_mult unsigned_ucast_eq take_bit_nat_eq_self
        take_bit_eq_mod)
  then show ?thesis by (simp add: unat_eq_zero [symmetric])
qed

lemma read_ack_packet:
  assumes "is_ack_packet p command hi lo"
  shows "packet__read_uint16 p = Ok (mid_of hi lo, p\<lparr>pk_pos := 2\<rparr>)"
  using assms by (simp add: is_ack_packet_def packet__read_uint16_def pk_fetch_def mid_of_def)

lemma handle__puback_done:
  assumes "is_ack_packet (mq_in_packet m) 0x40 hi lo" and "mq_state m = mosq_cs_active"
  shows "handle__pubackcomp d m ''PUBACK'' = pubackcomp_done d
    ((util__increment_send_quota m)\<lparr>mq_in_packet := (mq_in_packet m)\<lparr>pk_pos := 2\<rparr>\<rparr>) (mid_of hi lo) 1"
proof -
  have f: "mq_in_packet (util__increment_send_quota m) = mq_in_packet m"
    by (simp add: util__increment_send_quota_def Let_def)
  have "pk_command (mq_in_packet m) = 0x40" "pk_remaining_length (mq_in_packet m) = 2"
    "mid_of hi lo \<noteq> 0" using assms(1) by (simp_all add: is_ack_packet_def mid_of_zero)
  then show ?thesis
    using assms(2) read_ack_packet [OF assms(1)]
    by (simp add: handle__pubackcomp_def mosquitto__get_state_def f Let_def on_read_def read_reason_def
        all_read_def)
qed

lemma latency_sample_fields:
  assumes "latency_sample d m = Ok m'" and "window_ok m"
  shows "mq_msgs_out m' = mq_msgs_out m" "mq_state m' = mq_state m"
  using assms by (auto simp: latency_sample_eq Let_def)

lemma storage_out_drained:
  assumes "mq_state m = mosq_cs_active" and "storage_sorted (mq_msgs_out m)"
  obtains md where "db__message_write_storage_out d m = Ok (MOSQ_ERR_SUCCESS, m\<lparr>mq_msgs_out := md\<rparr>)"
    "md_storage md = dropWhile (is_due (db_monotonic d) (cf_msg_store_timeout (db_config d)) (mq_mode m))
       (md_storage (mq_msgs_out m))"
  using write_storage_out_eq [OF assms, of d] unfolding Let_def
  by (rule that) (simp add: released_storage)

section \<open>The handlers keep the invariants\<close>

text \<open>
  A handler has an effect that the contract of the operations allows, on every path on which it
  returns. The rules follow the program text, so that the proof for a handler is their repeated
  application down to the operations of the database.
\<close>

definition effects :: "db \<Rightarrow> mosquitto \<Rightarrow> handled \<Rightarrow> bool" where
  "effects d m r \<longleftrightarrow> (\<forall>rc d' m'. r = Ok (rc, d', m') \<longrightarrow> out_effect d m d' m')"

named_theorems effect_rules \<open>the effect of a program from that of its parts\<close>

lemma effects_return [effect_rules]: "out_effect d m d' m' \<Longrightarrow> effects d m (Ok (rc, d', m'))"
  by (simp add: effects_def)

interpretation eff: outcome "effects d m" "\<lambda>(rc, d', m'). out_effect d m d' m'" for d m
  by unfold_locales (auto simp: effects_def)

lemmas effects_cases [effect_rules] = eff.good_cases eff.good_bind

lemma effects_read [effect_rules]:
  "out_effect d m d1 m1 \<Longrightarrow> (\<And>x. r = Ok x \<Longrightarrow> effects d m (k x)) \<Longrightarrow> effects d m (on_read r (d1, m1) k)"
  by (cases r) (auto simp: effects_def on_read_def)

lemma effects_trans: "out_effect d m d1 m1 \<Longrightarrow> effects d1 m1 r \<Longrightarrow> effects d m r"
  by (auto simp: effects_def intro: out_effect_trans)

lemma effect_refl [simp, effect_rules]: "out_effect d m d m"
  by (simp add: out_effect_def)

lemma effect_in_packet [simp, effect_rules]:
  "out_effect d m d' m' \<Longrightarrow> out_effect d m d' (m'\<lparr>mq_in_packet := p\<rparr>)"
  by (simp add: out_effect_def)

lemma effects_read_reason [effect_rules]:
  assumes "out_effect d m d m1" and "\<And>r p. effects d m (k r (m1\<lparr>mq_in_packet := p\<rparr>))"
  shows "effects d m (read_reason command valid d m1 k)"
proof -
  have "effects d m (k r m1)" for r using assms(2) [of r "mq_in_packet m1"] by simp
  then show ?thesis unfolding read_reason_def by (intro effect_rules assms) (simp add: assms)
qed

lemma effects_read_reason_first [effect_rules]:
  assumes "out_effect d m d m1" and "\<And>r p. effects d m (k r (m1\<lparr>mq_in_packet := p\<rparr>))"
  shows "effects d m (read_reason_first command valid d m1 k)"
proof -
  have "effects d m (k r m1)" for r using assms(2) [of r "mq_in_packet m1"] by simp
  then show ?thesis unfolding read_reason_first_def by (intro effect_rules assms) (simp add: assms)
qed

lemma increment_effect: "out_effect d m d (util__increment_send_quota m)"
  by (rule out_run_effect [OF increment_send_quota_run])

lemma effects_delete: "effects d m (db__message_delete_outgoing d m mid expect qos)"
  using delete_outgoing_run out_run_effect by (fastforce simp: effects_def)

lemma latency_sample_effect: "latency_sample d m = Ok m' \<Longrightarrow> out_effect d m d m'"
  by (rule out_effect_same)
    (auto simp: latency_sample_def Let_def mosquitto__set_mode_def split: if_splits)

lemma effect_clocked: "out_effect d m d' m' \<Longrightarrow> clocked_at d m \<Longrightarrow> clocked_at d' m'"
  by (auto simp: out_effect_def dest: out_steps_clocked)

lemma storage_out_effect:
  "db__message_write_storage_out d m = Ok (rc, m') \<Longrightarrow> clocked_at d m \<Longrightarrow> out_effect d m d m'"
  using write_storage_out_run(1) out_run_effect by blast

lemma pubackcomp_done_effects: "clocked_at d m \<Longrightarrow> effects d m (pubackcomp_done d m mid qos)"
proof -
  assume c: "clocked_at d m"
  have fin: "effects d m1 (res_bind (db__message_delete_outgoing d m1 mid mosq_ms_wait_for_pubcomp qos)
      (\<lambda>(rc, d, m). Ok (if rc = MOSQ_ERR_NOT_FOUND then MOSQ_ERR_SUCCESS else rc, d, m)))" for m1
    using effects_delete by (auto simp: effects_def res_bind_Ok_iff)
  have t: "out_effect d m1 d m2 \<Longrightarrow> out_effect d m1 d (m2\<lparr>mq_send_time := t\<rparr>)" for m1 m2 t
    by (simp add: out_effect_def)
  have two: "out_effect d m d m2" if "latency_sample d m = Ok m1"
    "db__message_write_storage_out d m1 = Ok (rc, m2)" for m1 rc m2
    using latency_sample_effect [OF that(1)] storage_out_effect [OF that(2)] effect_clocked c
    by (blast intro: out_effect_trans)
  show ?thesis
    unfolding pubackcomp_done_def Let_def
    by (intro eff.good_if eff.good_bind eff.good_prod effects_return effects_trans [OF _ fin] t)
      (auto intro: two fin)
qed

lemma handle__pubackcomp_effects:
  assumes "clocked_at d m"
  shows "effects d m (handle__pubackcomp d m type)"
proof -
  have fin: "effects d m (pubackcomp_done d ((util__increment_send_quota m)\<lparr>mq_in_packet := p\<rparr>) mid qos)" for p mid qos
    using effect_in_packet [OF increment_effect] pubackcomp_done_effects effect_clocked assms
    by (blast intro: effects_trans)
  show ?thesis
    unfolding handle__pubackcomp_def
    by (intro effect_rules increment_effect) (simp_all add: fin)
qed

lemma pubrel_effect: "send__pubrel d m mid props = Ok (rc, m') \<Longrightarrow> out_effect d m d m'"
  using pubrel_run out_run_effect by blast

lemma update_effect:
  "db__message_update_outgoing d m mid mosq_ms_wait_for_pubcomp 2 = (rc, m') \<Longrightarrow> out_effect d m d m'"
  using update_outgoing_run out_run_effect by blast

lemma handle__pubrec_effects: "effects d m (handle__pubrec d m)"
proof -
  have del: "effects d m (db__message_delete_outgoing d (m\<lparr>mq_in_packet := p\<rparr>) mid expect qos)" for p mid expect qos
    by (rule effects_trans [OF _ effects_delete]) simp
  have upd: "out_effect d m d m'"
    if "db__message_update_outgoing d (m\<lparr>mq_in_packet := p\<rparr>) mid mosq_ms_wait_for_pubcomp 2 = (rc, m')" for p mid rc m'
    using update_effect [OF that] by (simp add: out_effect_def)
  show ?thesis
    unfolding handle__pubrec_def
    by (intro effect_rules) (auto intro: upd del out_effect_trans pubrel_effect)
qed

interpretation ack: out_operation "\<lambda>type d m. handle__pubackcomp d m type" "\<lambda>_. True"
  by unfold_locales (use handle__pubackcomp_effects in \<open>auto simp: effects_def\<close>)

interpretation rec: out_operation "\<lambda>(_ :: unit) d m. handle__pubrec d m" "\<lambda>_. True"
  by unfold_locales (use handle__pubrec_effects in \<open>auto simp: effects_def\<close>)

lemma context__init_ok:
  assumes "context__init d sock address_ok = Some m"
  shows "client_ok (\<lambda>p. case store_at d p of None \<Rightarrow> 0 | Some st \<Rightarrow> ms_ref_count st) (d, m) \<longleftrightarrow>
      (\<forall>p st. store_at d p = Some st \<longrightarrow> 0 \<le> ms_ref_count st)"
    and "window_ok m" and "mq_mode m = normal_mode" and "mq_state m = mosq_cs_new"
  using assms
  by (auto simp: context__init_def Let_def mosquitto_zero_def msg_data_zero_def mosquitto__set_state_def
      mosquitto__set_mode_def client_ok_def msgs_inv_def quota_ok_def states_ok_def refs_balanced_def
      keys_def all_msgs_def counters_exact_def clocked_def storage_sorted_def window_ok_def
      split: if_splits option.splits)

section \<open>Properties\<close>

text \<open>
  C1: the PUBACK of a message that was timed. The handler compares the round trip time in
  microseconds with the threshold that the client had: at or above it the client is in slow mode
  from now on, below it in normal mode. The time is stored as one of the five samples and the new
  threshold is their average; the time at which slow mode began is set only when the client was
  in normal mode, and cleared in normal mode. The storage is emptied of everything that is due in
  the new mode, completely in normal mode, before the acknowledged message is deleted, and the
  deletion changes none of this.
\<close>

theorem handle__puback_adapts:
  assumes "is_ack_packet (mq_in_packet m) 0x40 hi lo" and "mq_state m = mosq_cs_active"
    and "tv_sec (mq_send_time m) > 0" and "window_ok m" and "clocked_at d m"
  shows "\<exists>m2. handle__pubackcomp d m ''PUBACK'' =
      res_bind (db__message_delete_outgoing d m2 (mid_of hi lo) mosq_ms_wait_for_pubcomp 1)
        (\<lambda>(rc, d, m). Ok (if rc = MOSQ_ERR_NOT_FOUND then MOSQ_ERR_SUCCESS else rc, d, m)) \<and>
    (let slow = (round_trip d m \<ge> uint (mq_threshold_l m)); md = mq_msgs_out m2;
         lat_pre = (mq_lat_pre m)[nat (mq_count_for_lat m mod 5) := round_trip d m] in
     mq_mode m2 = (if slow then slow_mode else normal_mode) \<and> mq_lat_pre m2 = lat_pre \<and>
     mq_threshold_l m2 = word_of_int (sum_list lat_pre sdiv 5) \<and>
     mq_slow_mode_time m2 = (if \<not> slow then 0 else if mq_mode m = normal_mode then db_realtime d
       else mq_slow_mode_time m) \<and>
     tv_sec (mq_send_time m2) = 0 \<and>
     (\<forall>msg \<in> set (md_storage md). \<not> is_due (db_monotonic d) (cf_msg_store_timeout (db_config d)) (mq_mode m2) msg) \<and>
     (\<not> slow \<longrightarrow> md_storage md = []) \<and>
     (\<forall>rc d' m'. handle__pubackcomp d m ''PUBACK'' = Ok (rc, d', m') \<longrightarrow> mq_mode m' = mq_mode m2 \<and>
       mq_threshold_l m' = mq_threshold_l m2 \<and> md_storage (mq_msgs_out m') = md_storage md))"
proof -
  define m1 where "m1 = (util__increment_send_quota m)\<lparr>mq_in_packet := (mq_in_packet m)\<lparr>pk_pos := 2\<rparr>\<rparr>"
  have f: "mq_send_time m1 = mq_send_time m" "mq_lat_pre m1 = mq_lat_pre m" "mq_mode m1 = mq_mode m"
    "mq_count_for_lat m1 = mq_count_for_lat m" "mq_state m1 = mosq_cs_active"
    "mq_threshold_l m1 = mq_threshold_l m" "mq_slow_mode_time m1 = mq_slow_mode_time m"
    "md_storage (mq_msgs_out m1) = md_storage (mq_msgs_out m)" "round_trip d m1 = round_trip d m"
    using assms(2) by (simp_all add: m1_def util__increment_send_quota_def Let_def round_trip_def)
  have w: "window_ok m1" using assms(4) f by (simp add: window_ok_def)
  obtain ms where ms: "latency_sample d m1 = Ok ms" using latency_sample_eq [OF w] by blast
  note e = ms [unfolded latency_sample_eq [OF w] f] and fs = latency_sample_fields [OF ms w]
  let ?due = "is_due (db_monotonic d) (cf_msg_store_timeout (db_config d)) (mq_mode ms)"
  have sorted: "storage_sorted (mq_msgs_out ms)"
    using assms(5) f fs by (simp add: clocked_def storage_sorted_def)
  obtain md where sto: "db__message_write_storage_out d ms = Ok (MOSQ_ERR_SUCCESS, ms\<lparr>mq_msgs_out := md\<rparr>)"
    and md: "md_storage md = dropWhile ?due (md_storage (mq_msgs_out ms))"
    by (rule storage_out_drained [OF _ sorted]) (use fs f in simp)
  define m2 where "m2 = ms\<lparr>mq_msgs_out := md, mq_send_time := (mq_send_time ms)\<lparr>tv_sec := 0\<rparr>\<rparr>"
  have h: "handle__pubackcomp d m ''PUBACK'' =
      res_bind (db__message_delete_outgoing d m2 (mid_of hi lo) mosq_ms_wait_for_pubcomp 1)
        (\<lambda>(rc, d, m). Ok (if rc = MOSQ_ERR_NOT_FOUND then MOSQ_ERR_SUCCESS else rc, d, m))"
    using handle__puback_done [OF assms(1,2)] assms(3) f(1) sto
    by (simp add: pubackcomp_done_def m1_def [symmetric] ms m2_def Let_def)
  have del: "mq_mode m' = mq_mode m2 \<and> mq_threshold_l m' = mq_threshold_l m2 \<and>
      md_storage (mq_msgs_out m') = md_storage (mq_msgs_out m2)"
    if "handle__pubackcomp d m ''PUBACK'' = Ok (rc, d', m')" for rc d' m'
    using that unfolding h by (auto simp: res_bind_Ok_iff out_run_def dest: delete_outgoing_run)
  have mode: "mq_mode m2 = (if round_trip d m \<ge> uint (mq_threshold_l m) then slow_mode else normal_mode)"
    using e by (auto simp: m2_def Let_def)
  have kept: "\<forall>msg \<in> set (md_storage (mq_msgs_out m2)).
      \<not> is_due (db_monotonic d) (cf_msg_store_timeout (db_config d)) (mq_mode m2) msg"
    using due_split(2) [OF sorted] by (simp add: m2_def md)
  have empty: "\<not> round_trip d m \<ge> uint (mq_threshold_l m) \<longrightarrow> md_storage (mq_msgs_out m2) = []"
    using kept mode by (cases "md_storage (mq_msgs_out m2)") (auto simp: is_due_def split: if_splits)
  have rest: "mq_lat_pre m2 = (mq_lat_pre m)[nat (mq_count_for_lat m mod 5) := round_trip d m]"
    "mq_threshold_l m2 = word_of_int (sum_list ((mq_lat_pre m)[nat (mq_count_for_lat m mod 5) := round_trip d m]) sdiv 5)"
    "mq_slow_mode_time m2 = (if \<not> round_trip d m \<ge> uint (mq_threshold_l m) then 0
       else if mq_mode m = normal_mode then db_realtime d else mq_slow_mode_time m)"
    "tv_sec (mq_send_time m2) = 0"
    using e by (auto simp: m2_def Let_def)
  show ?thesis
    unfolding Let_def by (intro exI [of _ m2] conjI h mode rest kept empty allI impI)
      (use del in blast)+
qed

text \<open>A message sent at 3 s and acknowledged at 5 s, by a client whose threshold is one second.\<close>

definition sample_acked :: mosquitto where
  "sample_acked = sample_client\<lparr>mq_mode := normal_mode, mq_send_time := \<lparr> tv_sec = 3, tv_nsec = 0 \<rparr>,
     mq_threshold_l := 1000000,
     mq_in_packet := packet_zero\<lparr>pk_command := 0x40, pk_payload := [0, 9], pk_remaining_length := 2\<rparr>\<rparr>"

theorem handle__puback_adapts_witness:
  "\<exists>m2. handle__pubackcomp sample_db sample_acked ''PUBACK'' =
      res_bind (db__message_delete_outgoing sample_db m2 9 mosq_ms_wait_for_pubcomp 1)
        (\<lambda>(rc, d, m). Ok (if rc = MOSQ_ERR_NOT_FOUND then MOSQ_ERR_SUCCESS else rc, d, m)) \<and>
    mq_mode m2 = slow_mode \<and> mq_threshold_l m2 = 400000 \<and> mq_slow_mode_time m2 = 10"
proof -
  note defs = sample_acked_def sample_client_def sample_db_def mosquitto_zero_def msg_data_zero_def
    db_zero_def packet_zero_def
  have "is_ack_packet (mq_in_packet sample_acked) 0x40 0 9" "mq_state sample_acked = mosq_cs_active"
    "tv_sec (mq_send_time sample_acked) > 0" "window_ok sample_acked" "clocked_at sample_db sample_acked"
    by (simp_all add: defs is_ack_packet_def window_ok_def clocked_def storage_sorted_def)
  note t = handle__puback_adapts [OF this]
  have r: "round_trip sample_db sample_acked = 2000000" by code_simp
  have "mid_of 0 9 = 9" by code_simp
  moreover have "mq_lat_pre sample_acked = [0, 0, 0, 0, 0]" "mq_count_for_lat sample_acked = 0"
    "mq_threshold_l sample_acked = 1000000" "mq_mode sample_acked = normal_mode" "db_realtime sample_db = 10"
    by (simp_all add: defs)
  moreover have "(2000000 :: int) sdiv 5 = 400000" by code_simp
  ultimately show ?thesis using t unfolding r Let_def by auto
qed

text \<open>
  C8: the threshold adapts to the last five round trip times. A series of measurements always
  succeeds; once a client has five of them, its threshold is the average of the last five,
  rounded towards zero and reduced to 32 bits, and the next measurement puts the client into
  slow mode exactly when it is not below that average.
\<close>

theorem threshold_is_average_of_five:
  assumes "window_ok m" and "mq_state m \<noteq> mosq_cs_disused" and "length xs \<ge> 5"
  shows "let times = map sample_time xs; last5 = drop (length xs - 5) times;
      average = word_of_int (sum_list last5 sdiv 5) :: u32 in
    \<exists>m'. samples xs m = Ok m' \<and> window m' = last5 \<and> mq_threshold_l m' = average \<and>
      (\<exists>m''. samples (xs @ [x]) m = Ok m'' \<and>
         (mq_mode m'' = slow_mode \<longleftrightarrow> sample_time x \<ge> uint average))"
proof -
  obtain m' where m': "samples xs m = Ok m'" "window_ok m'" "mq_state m' = mq_state m"
    "window m' = drop (length xs) (window m @ map sample_time xs)"
    "mq_threshold_l m' = word_of_int (sum_list (window m') sdiv 5)"
    using samples_window [OF assms(1), of xs] assms(3) by force
  have "length (window m) = 5" using assms(1) by (simp add: window_def window_ok_def)
  then have w: "window m' = drop (length xs - 5) (map sample_time xs)"
    using m'(4) assms(3) by simp
  obtain d t where x: "x = (d, t)" by force
  obtain m'' where m'': "latency_sample d (m'\<lparr>mq_send_time := t\<rparr>) = Ok m''"
    using latency_sample_eq [of "m'\<lparr>mq_send_time := t\<rparr>" d] m'(2) by (simp add: window_ok_def)
  have "mq_mode m'' = slow_mode \<longleftrightarrow> sample_time x \<ge> uint (mq_threshold_l m')"
    using sample_window(5) [OF m'(2) m''] m'(3) assms(2) by (simp add: x)
  moreover have "samples (xs @ [x]) m = Ok m''" using m'(1) m'' by (simp add: samples_append x)
  ultimately show ?thesis
    using m'(1,5) w unfolding Let_def by (intro exI [of _ m']) auto
qed

theorem threshold_is_average_of_five_witness:
  "let xs = map (\<lambda>s. (sample_db, \<lparr> tv_sec = s, tv_nsec = 0 \<rparr>)) [4, 4, 3, 4, 4] in
   \<exists>m'. samples xs sample_client = Ok m' \<and> mq_threshold_l m' = 1200000 \<and>
     (\<exists>m''. samples (xs @ [(sample_db, \<lparr> tv_sec = 4, tv_nsec = 0 \<rparr>)]) sample_client = Ok m'' \<and>
        mq_mode m'' = normal_mode)"
proof -
  let ?xs = "map (\<lambda>s. (sample_db, \<lparr> tv_sec = s, tv_nsec = 0 \<rparr>)) [4, 4, 3, 4, 4]"
  have t: "map sample_time ?xs = [1000000, 1000000, 2000000, 1000000, 1000000]"
    "sample_time (sample_db, \<lparr> tv_sec = 4, tv_nsec = 0 \<rparr>) = 1000000"
    "(word_of_int ((1000000 + (1000000 + (2000000 + (1000000 + (1000000 + 0))))) sdiv 5) :: u32) = 1200000"
    "uint (1200000 :: u32) = 1200000"
    by code_simp+
  have "window_ok sample_client" "mq_state sample_client \<noteq> mosq_cs_disused" "length ?xs \<ge> 5"
    by (simp_all add: window_ok_def sample_client_def mosquitto_zero_def)
  from threshold_is_average_of_five [OF this, of "(sample_db, \<lparr> tv_sec = 4, tv_nsec = 0 \<rparr>)"]
  obtain m' m'' where "samples ?xs sample_client = Ok m'" "mq_threshold_l m' = 1200000"
    "samples (?xs @ [(sample_db, \<lparr> tv_sec = 4, tv_nsec = 0 \<rparr>)]) sample_client = Ok m''"
    "mq_mode m'' \<noteq> slow_mode"
    unfolding Let_def t by (auto simp: t)
  then show ?thesis unfolding Let_def by (metis transfer_mode.exhaust)
qed

text \<open>
  C7: the handlers of PUBACK, PUBCOMP and PUBREC keep all that holds of a consistent client,
  whatever the packet contains and on every path, the error returns included: they leave the
  accounting, the references and the order of the storage consistent, and do not touch the
  incoming messages.
\<close>

theorem handlers_keep_client:
  assumes "client_ok others (d, m)"
    and "handle__pubackcomp d m type = Ok (rc, d', m') \<or> handle__pubrec d m = Ok (rc, d', m')"
  shows "client_ok others (d', m') \<and> mq_msgs_in m' = mq_msgs_in m"
proof -
  have c: "clocked_at d m" using assms(1) by (simp add: client_ok_def)
  show ?thesis
    using assms(2)
  proof
    assume h: "handle__pubackcomp d m type = Ok (rc, d', m')"
    show ?thesis using ack.keeps_client [OF h _ assms(1)] ack.keeps_incoming [OF h _ c] by simp
  next
    assume h: "handle__pubrec d m = Ok (rc, d', m')"
    show ?thesis using rec.keeps_client [OF h _ assms(1)] rec.keeps_incoming [OF h _ c] by simp
  qed
qed

theorem handlers_keep_client_witness:
  "\<exists>d m. handle__pubackcomp sample_db sample_acked ''PUBACK'' = Ok (0, d, m) \<and> client_ok (\<lambda>p. 1) (d, m)"
proof -
  have "seen (handle__pubackcomp sample_db sample_acked ''PUBACK'') = Some (0, [], [], 0, 0)" by code_simp
  then obtain d m where h: "handle__pubackcomp sample_db sample_acked ''PUBACK'' = Ok (0, d, m)"
    by (rule seen_Some)
  have ok: "client_ok (\<lambda>p. 1) (sample_db, sample_acked)"
    using sample_ok by (simp add: client_ok_def sample_acked_def)
  from handlers_keep_client [OF ok disjI1 [OF h]] h show ?thesis by blast
qed



end
