(* ===== verification/Property_Lists.thy ===== *)
theory Property_Lists
  imports Properties
begin

text \<open>
  Lists of MQTT v5 properties as the programs build and search them: the names of properties,
  the \<open>mosquitto_property_add_*\<close> and \<open>mosquitto_property_read_*\<close> functions and
  \<open>mosquitto_property_copy_all\<close> of \<^verbatim>\<open>lib/property_mosq.c\<close>. A pointer to a
  property is the list that starts with it, \<open>NULL\<close> the empty list; a pointer to a list is
  an option. The locale \<open>property_slot\<close> states what each pair of an add and a read function
  promises.
\<close>

section \<open>Names of properties\<close>

abbreviation MQTT_PROP_TYPE_BYTE :: int where "MQTT_PROP_TYPE_BYTE \<equiv> 1"
abbreviation MQTT_PROP_TYPE_INT16 :: int where "MQTT_PROP_TYPE_INT16 \<equiv> 2"
abbreviation MQTT_PROP_TYPE_INT32 :: int where "MQTT_PROP_TYPE_INT32 \<equiv> 3"
abbreviation MQTT_PROP_TYPE_VARINT :: int where "MQTT_PROP_TYPE_VARINT \<equiv> 4"
abbreviation MQTT_PROP_TYPE_BINARY :: int where "MQTT_PROP_TYPE_BINARY \<equiv> 5"
abbreviation MQTT_PROP_TYPE_STRING :: int where "MQTT_PROP_TYPE_STRING \<equiv> 6"
abbreviation MQTT_PROP_TYPE_STRING_PAIR :: int where "MQTT_PROP_TYPE_STRING_PAIR \<equiv> 7"

definition mosquitto_property_identifier_to_string :: "int \<Rightarrow> string option" where
  "mosquitto_property_identifier_to_string identifier =
    (if identifier = MQTT_PROP_PAYLOAD_FORMAT_INDICATOR then Some ''payload-format-indicator''
     else if identifier = MQTT_PROP_MESSAGE_EXPIRY_INTERVAL then Some ''message-expiry-interval''
     else if identifier = MQTT_PROP_CONTENT_TYPE then Some ''content-type''
     else if identifier = MQTT_PROP_RESPONSE_TOPIC then Some ''response-topic''
     else if identifier = MQTT_PROP_CORRELATION_DATA then Some ''correlation-data''
     else if identifier = MQTT_PROP_SUBSCRIPTION_IDENTIFIER then Some ''subscription-identifier''
     else if identifier = MQTT_PROP_SESSION_EXPIRY_INTERVAL then Some ''session-expiry-interval''
     else if identifier = MQTT_PROP_ASSIGNED_CLIENT_IDENTIFIER then Some ''assigned-client-identifier''
     else if identifier = MQTT_PROP_SERVER_KEEP_ALIVE then Some ''server-keep-alive''
     else if identifier = MQTT_PROP_AUTHENTICATION_METHOD then Some ''authentication-method''
     else if identifier = MQTT_PROP_AUTHENTICATION_DATA then Some ''authentication-data''
     else if identifier = MQTT_PROP_REQUEST_PROBLEM_INFORMATION then Some ''request-problem-information''
     else if identifier = MQTT_PROP_WILL_DELAY_INTERVAL then Some ''will-delay-interval''
     else if identifier = MQTT_PROP_REQUEST_RESPONSE_INFORMATION then Some ''request-response-information''
     else if identifier = MQTT_PROP_RESPONSE_INFORMATION then Some ''response-information''
     else if identifier = MQTT_PROP_SERVER_REFERENCE then Some ''server-reference''
     else if identifier = MQTT_PROP_REASON_STRING then Some ''reason-string''
     else if identifier = MQTT_PROP_RECEIVE_MAXIMUM then Some ''receive-maximum''
     else if identifier = MQTT_PROP_TOPIC_ALIAS_MAXIMUM then Some ''topic-alias-maximum''
     else if identifier = MQTT_PROP_TOPIC_ALIAS then Some ''topic-alias''
     else if identifier = MQTT_PROP_MAXIMUM_QOS then Some ''maximum-qos''
     else if identifier = MQTT_PROP_RETAIN_AVAILABLE then Some ''retain-available''
     else if identifier = MQTT_PROP_USER_PROPERTY then Some ''user-property''
     else if identifier = MQTT_PROP_MAXIMUM_PACKET_SIZE then Some ''maximum-packet-size''
     else if identifier = MQTT_PROP_WILDCARD_SUB_AVAILABLE then Some ''wildcard-subscription-available''
     else if identifier = MQTT_PROP_SUBSCRIPTION_ID_AVAILABLE then Some ''subscription-identifier-available''
     else if identifier = MQTT_PROP_SHARED_SUB_AVAILABLE then Some ''shared-subscription-available''
     else None)"

text \<open>\<open>strcasecmp\<close> of the C locale: equality of the strings in lower case.\<close>

definition lower_char :: "char \<Rightarrow> char" where
  "lower_char c = (let n = (of_char c :: nat) in if 65 \<le> n \<and> n \<le> 90 then char_of (n + 32) else c)"

definition strcasecmp_eq :: "string \<Rightarrow> string \<Rightarrow> bool" where
  "strcasecmp_eq a b \<longleftrightarrow> map lower_char a = map lower_char b"

text \<open>The result: the return code, and the identifier and type it sets.\<close>

definition mosquitto_string_to_property_info :: "string option \<Rightarrow> rc \<times> (int \<times> int) option" where
  "mosquitto_string_to_property_info name =
    (case name of None \<Rightarrow> (MOSQ_ERR_INVAL, None)
     | Some propname \<Rightarrow>
       if strcasecmp_eq propname ''payload-format-indicator'' then
          (MOSQ_ERR_SUCCESS, Some (MQTT_PROP_PAYLOAD_FORMAT_INDICATOR, MQTT_PROP_TYPE_BYTE))
       else if strcasecmp_eq propname ''message-expiry-interval'' then
          (MOSQ_ERR_SUCCESS, Some (MQTT_PROP_MESSAGE_EXPIRY_INTERVAL, MQTT_PROP_TYPE_INT32))
       else if strcasecmp_eq propname ''content-type'' then
          (MOSQ_ERR_SUCCESS, Some (MQTT_PROP_CONTENT_TYPE, MQTT_PROP_TYPE_STRING))
       else if strcasecmp_eq propname ''response-topic'' then
          (MOSQ_ERR_SUCCESS, Some (MQTT_PROP_RESPONSE_TOPIC, MQTT_PROP_TYPE_STRING))
       else if strcasecmp_eq propname ''correlation-data'' then
          (MOSQ_ERR_SUCCESS, Some (MQTT_PROP_CORRELATION_DATA, MQTT_PROP_TYPE_BINARY))
       else if strcasecmp_eq propname ''subscription-identifier'' then
          (MOSQ_ERR_SUCCESS, Some (MQTT_PROP_SUBSCRIPTION_IDENTIFIER, MQTT_PROP_TYPE_VARINT))
       else if strcasecmp_eq propname ''session-expiry-interval'' then
          (MOSQ_ERR_SUCCESS, Some (MQTT_PROP_SESSION_EXPIRY_INTERVAL, MQTT_PROP_TYPE_INT32))
       else if strcasecmp_eq propname ''assigned-client-identifier'' then
          (MOSQ_ERR_SUCCESS, Some (MQTT_PROP_ASSIGNED_CLIENT_IDENTIFIER, MQTT_PROP_TYPE_STRING))
       else if strcasecmp_eq propname ''server-keep-alive'' then
          (MOSQ_ERR_SUCCESS, Some (MQTT_PROP_SERVER_KEEP_ALIVE, MQTT_PROP_TYPE_INT16))
       else if strcasecmp_eq propname ''authentication-method'' then
          (MOSQ_ERR_SUCCESS, Some (MQTT_PROP_AUTHENTICATION_METHOD, MQTT_PROP_TYPE_STRING))
       else if strcasecmp_eq propname ''authentication-data'' then
          (MOSQ_ERR_SUCCESS, Some (MQTT_PROP_AUTHENTICATION_DATA, MQTT_PROP_TYPE_BINARY))
       else if strcasecmp_eq propname ''request-problem-information'' then
          (MOSQ_ERR_SUCCESS, Some (MQTT_PROP_REQUEST_PROBLEM_INFORMATION, MQTT_PROP_TYPE_BYTE))
       else if strcasecmp_eq propname ''will-delay-interval'' then
          (MOSQ_ERR_SUCCESS, Some (MQTT_PROP_WILL_DELAY_INTERVAL, MQTT_PROP_TYPE_INT32))
       else if strcasecmp_eq propname ''request-response-information'' then
          (MOSQ_ERR_SUCCESS, Some (MQTT_PROP_REQUEST_RESPONSE_INFORMATION, MQTT_PROP_TYPE_BYTE))
       else if strcasecmp_eq propname ''response-information'' then
          (MOSQ_ERR_SUCCESS, Some (MQTT_PROP_RESPONSE_INFORMATION, MQTT_PROP_TYPE_STRING))
       else if strcasecmp_eq propname ''server-reference'' then
          (MOSQ_ERR_SUCCESS, Some (MQTT_PROP_SERVER_REFERENCE, MQTT_PROP_TYPE_STRING))
       else if strcasecmp_eq propname ''reason-string'' then
          (MOSQ_ERR_SUCCESS, Some (MQTT_PROP_REASON_STRING, MQTT_PROP_TYPE_STRING))
       else if strcasecmp_eq propname ''receive-maximum'' then
          (MOSQ_ERR_SUCCESS, Some (MQTT_PROP_RECEIVE_MAXIMUM, MQTT_PROP_TYPE_INT16))
       else if strcasecmp_eq propname ''topic-alias-maximum'' then
          (MOSQ_ERR_SUCCESS, Some (MQTT_PROP_TOPIC_ALIAS_MAXIMUM, MQTT_PROP_TYPE_INT16))
       else if strcasecmp_eq propname ''topic-alias'' then
          (MOSQ_ERR_SUCCESS, Some (MQTT_PROP_TOPIC_ALIAS, MQTT_PROP_TYPE_INT16))
       else if strcasecmp_eq propname ''maximum-qos'' then
          (MOSQ_ERR_SUCCESS, Some (MQTT_PROP_MAXIMUM_QOS, MQTT_PROP_TYPE_BYTE))
       else if strcasecmp_eq propname ''retain-available'' then
          (MOSQ_ERR_SUCCESS, Some (MQTT_PROP_RETAIN_AVAILABLE, MQTT_PROP_TYPE_BYTE))
       else if strcasecmp_eq propname ''user-property'' then
          (MOSQ_ERR_SUCCESS, Some (MQTT_PROP_USER_PROPERTY, MQTT_PROP_TYPE_STRING_PAIR))
       else if strcasecmp_eq propname ''maximum-packet-size'' then
          (MOSQ_ERR_SUCCESS, Some (MQTT_PROP_MAXIMUM_PACKET_SIZE, MQTT_PROP_TYPE_INT32))
       else if strcasecmp_eq propname ''wildcard-subscription-available'' then
          (MOSQ_ERR_SUCCESS, Some (MQTT_PROP_WILDCARD_SUB_AVAILABLE, MQTT_PROP_TYPE_BYTE))
       else if strcasecmp_eq propname ''subscription-identifier-available'' then
          (MOSQ_ERR_SUCCESS, Some (MQTT_PROP_SUBSCRIPTION_ID_AVAILABLE, MQTT_PROP_TYPE_BYTE))
       else if strcasecmp_eq propname ''shared-subscription-available'' then
          (MOSQ_ERR_SUCCESS, Some (MQTT_PROP_SHARED_SUB_AVAILABLE, MQTT_PROP_TYPE_BYTE))
       else (MOSQ_ERR_INVAL, None))"

section \<open>Building\<close>

definition property__add :: "mosquitto_property list \<Rightarrow> mosquitto_property \<Rightarrow> mosquitto_property list" where
  "property__add proplist prop = proplist @ [prop]"

definition new_prop :: "int \<Rightarrow> mosquitto_property" where
  "new_prop identifier = property_zero\<lparr>pr_client_generated := True, pr_identifier := identifier\<rparr>"

definition mosquitto_property_add_byte ::
    "mosquitto_property list option \<Rightarrow> int \<Rightarrow> u8 \<Rightarrow> rc \<times> mosquitto_property list option" where
  "mosquitto_property_add_byte proplist identifier v =
    (case proplist of None \<Rightarrow> (MOSQ_ERR_INVAL, None)
     | Some l \<Rightarrow>
         if prop_class identifier \<noteq> PC_byte then (MOSQ_ERR_INVAL, Some l)
         else (MOSQ_ERR_SUCCESS, Some (property__add l ((new_prop identifier)\<lparr>pr_i8 := v\<rparr>))))"

definition mosquitto_property_add_int16 ::
    "mosquitto_property list option \<Rightarrow> int \<Rightarrow> u16 \<Rightarrow> rc \<times> mosquitto_property list option" where
  "mosquitto_property_add_int16 proplist identifier v =
    (case proplist of None \<Rightarrow> (MOSQ_ERR_INVAL, None)
     | Some l \<Rightarrow>
         if prop_class identifier \<noteq> PC_uint16 then (MOSQ_ERR_INVAL, Some l)
         else (MOSQ_ERR_SUCCESS, Some (property__add l ((new_prop identifier)\<lparr>pr_i16 := v\<rparr>))))"

definition mosquitto_property_add_int32 ::
    "mosquitto_property list option \<Rightarrow> int \<Rightarrow> u32 \<Rightarrow> rc \<times> mosquitto_property list option" where
  "mosquitto_property_add_int32 proplist identifier v =
    (case proplist of None \<Rightarrow> (MOSQ_ERR_INVAL, None)
     | Some l \<Rightarrow>
         if prop_class identifier \<noteq> PC_uint32 then (MOSQ_ERR_INVAL, Some l)
         else (MOSQ_ERR_SUCCESS, Some (property__add l ((new_prop identifier)\<lparr>pr_i32 := v\<rparr>))))"

definition mosquitto_property_add_varint ::
    "mosquitto_property list option \<Rightarrow> int \<Rightarrow> u32 \<Rightarrow> rc \<times> mosquitto_property list option" where
  "mosquitto_property_add_varint proplist identifier v =
    (case proplist of None \<Rightarrow> (MOSQ_ERR_INVAL, None)
     | Some l \<Rightarrow>
         if v > 268435455 then (MOSQ_ERR_INVAL, Some l)
         else if identifier \<noteq> MQTT_PROP_SUBSCRIPTION_IDENTIFIER then (MOSQ_ERR_INVAL, Some l)
         else (MOSQ_ERR_SUCCESS, Some (property__add l ((new_prop identifier)\<lparr>pr_varint := v\<rparr>))))"

text \<open>The value of \<open>mosquitto_property_add_binary\<close> is its first \<open>len\<close> bytes.\<close>

definition mosquitto_property_add_binary ::
    "mosquitto_property list option \<Rightarrow> int \<Rightarrow> bytes \<Rightarrow> u16 \<Rightarrow> (rc \<times> mosquitto_property list option) res" where
  "mosquitto_property_add_binary proplist identifier v len =
    (case proplist of None \<Rightarrow> Ok (MOSQ_ERR_INVAL, None)
     | Some l \<Rightarrow>
         if prop_class identifier \<noteq> PC_binary then Ok (MOSQ_ERR_INVAL, Some l)
         else if len \<noteq> 0 then
           (if unat len \<le> length v then
              Ok (MOSQ_ERR_SUCCESS, Some (property__add l
                 ((new_prop identifier)\<lparr>pr_bin := take (unat len) v, pr_bin_len := len\<rparr>)))
            else Fault)
         else Ok (MOSQ_ERR_SUCCESS, Some (property__add l (new_prop identifier))))"

text \<open>
  \<open>mosquitto_validate_utf8(value, (int)slen)\<close> on a C string: the length is converted to
  a 32 bit signed integer.
\<close>

definition utf8_rejects :: "string \<Rightarrow> nat \<Rightarrow> bool res" where
  "utf8_rejects s slen =
    (case mosquitto_validate_utf8 (bytes_of_string s @ [0]) (sint (of_nat slen :: u32)) of
       Ok _ \<Rightarrow> Ok False | Err _ \<Rightarrow> Ok True | Fault \<Rightarrow> Fault)"

definition mosquitto_property_add_string ::
    "mosquitto_property list option \<Rightarrow> int \<Rightarrow> string option \<Rightarrow> (rc \<times> mosquitto_property list option) res" where
  "mosquitto_property_add_string proplist identifier v =
    (case proplist of None \<Rightarrow> Ok (MOSQ_ERR_INVAL, None)
     | Some l \<Rightarrow>
         res_bind (case v of None \<Rightarrow> Ok False | Some s \<Rightarrow> utf8_rejects s (length s)) (\<lambda>bad.
           if bad then Ok (MOSQ_ERR_MALFORMED_UTF8, Some l)
           else if prop_class identifier \<noteq> PC_string then Ok (MOSQ_ERR_INVAL, Some l)
           else case v of
               Some (c # s) \<Rightarrow> Ok (MOSQ_ERR_SUCCESS, Some (property__add l
                 ((new_prop identifier)\<lparr>pr_s := Some (bytes_of_string (c # s)),
                    pr_s_len := of_nat (length (c # s))\<rparr>)))
             | _ \<Rightarrow> Ok (MOSQ_ERR_SUCCESS, Some (property__add l (new_prop identifier)))))"

text \<open>
  The value of a pair is checked with \<open>slen_value\<close>, which is still 0: the check always
  succeeds.
\<close>

definition mosquitto_property_add_string_pair ::
    "mosquitto_property list option \<Rightarrow> int \<Rightarrow> string option \<Rightarrow> string option \<Rightarrow>
     (rc \<times> mosquitto_property list option) res" where
  "mosquitto_property_add_string_pair proplist identifier name v =
    (case proplist of None \<Rightarrow> Ok (MOSQ_ERR_INVAL, None)
     | Some l \<Rightarrow>
         if identifier \<noteq> MQTT_PROP_USER_PROPERTY then Ok (MOSQ_ERR_INVAL, Some l)
         else res_bind (case name of None \<Rightarrow> Ok False | Some s \<Rightarrow> utf8_rejects s (length s)) (\<lambda>bad.
           if bad then Ok (MOSQ_ERR_MALFORMED_UTF8, Some l)
           else res_bind (case v of None \<Rightarrow> Ok False | Some s \<Rightarrow> utf8_rejects s 0) (\<lambda>bad.
             if bad then Ok (MOSQ_ERR_MALFORMED_UTF8, Some l)
             else
               let prop = new_prop identifier;
                   prop = (case name of None \<Rightarrow> prop | Some s \<Rightarrow>
                     prop\<lparr>pr_name := Some (bytes_of_string s), pr_name_len := of_nat (length s)\<rparr>);
                   prop = (case v of None \<Rightarrow> prop | Some s \<Rightarrow>
                     prop\<lparr>pr_s := Some (bytes_of_string s), pr_s_len := of_nat (length s)\<rparr>)
               in Ok (MOSQ_ERR_SUCCESS, Some (property__add l prop)))))"

section \<open>Searching\<close>

fun get_property_loop :: "mosquitto_property list \<Rightarrow> int \<Rightarrow> bool \<Rightarrow> bool \<Rightarrow> mosquitto_property list" where
  "get_property_loop [] identifier skip_first is_first = []"
| "get_property_loop (p # ps) identifier skip_first is_first =
    (if pr_identifier p = identifier then
       (if \<not> is_first \<or> \<not> skip_first then p # ps
        else get_property_loop ps identifier skip_first False)
     else get_property_loop ps identifier skip_first is_first)"

definition property__get_property ::
    "mosquitto_property list \<Rightarrow> int \<Rightarrow> bool \<Rightarrow> mosquitto_property list" where
  "property__get_property proplist identifier skip_first =
     get_property_loop proplist identifier skip_first True"

definition mosquitto_property_identifier :: "mosquitto_property list \<Rightarrow> int" where
  "mosquitto_property_identifier property = (case property of [] \<Rightarrow> 0 | p # _ \<Rightarrow> pr_identifier p)"

definition mosquitto_property_next :: "mosquitto_property list \<Rightarrow> mosquitto_property list" where
  "mosquitto_property_next proplist = (case proplist of [] \<Rightarrow> [] | _ # ps \<Rightarrow> ps)"

text \<open>
  Each search returns the property found, \<^const>\<open>None\<close> for \<open>NULL\<close>, with the rest of
  the list behind it and the value it stores through its out parameter.
\<close>

definition mosquitto_property_read_byte ::
    "mosquitto_property list \<Rightarrow> int \<Rightarrow> bool \<Rightarrow> (mosquitto_property list \<times> u8) option" where
  "mosquitto_property_read_byte proplist identifier skip_first =
    (case property__get_property proplist identifier skip_first of [] \<Rightarrow> None
     | p # ps \<Rightarrow> if prop_class (pr_identifier p) \<noteq> PC_byte then None else Some (p # ps, pr_i8 p))"

definition mosquitto_property_read_int16 ::
    "mosquitto_property list \<Rightarrow> int \<Rightarrow> bool \<Rightarrow> (mosquitto_property list \<times> u16) option" where
  "mosquitto_property_read_int16 proplist identifier skip_first =
    (case property__get_property proplist identifier skip_first of [] \<Rightarrow> None
     | p # ps \<Rightarrow> if prop_class (pr_identifier p) \<noteq> PC_uint16 then None else Some (p # ps, pr_i16 p))"

definition mosquitto_property_read_int32 ::
    "mosquitto_property list \<Rightarrow> int \<Rightarrow> bool \<Rightarrow> (mosquitto_property list \<times> u32) option" where
  "mosquitto_property_read_int32 proplist identifier skip_first =
    (case property__get_property proplist identifier skip_first of [] \<Rightarrow> None
     | p # ps \<Rightarrow> if prop_class (pr_identifier p) \<noteq> PC_uint32 then None else Some (p # ps, pr_i32 p))"

definition mosquitto_property_read_varint ::
    "mosquitto_property list \<Rightarrow> int \<Rightarrow> bool \<Rightarrow> (mosquitto_property list \<times> u32) option" where
  "mosquitto_property_read_varint proplist identifier skip_first =
    (case property__get_property proplist identifier skip_first of [] \<Rightarrow> None
     | p # ps \<Rightarrow> if pr_identifier p \<noteq> MQTT_PROP_SUBSCRIPTION_IDENTIFIER then None
                 else Some (p # ps, pr_varint p))"

definition mosquitto_property_read_binary ::
    "mosquitto_property list \<Rightarrow> int \<Rightarrow> bool \<Rightarrow> (mosquitto_property list \<times> bytes \<times> u16) option" where
  "mosquitto_property_read_binary proplist identifier skip_first =
    (case property__get_property proplist identifier skip_first of [] \<Rightarrow> None
     | p # ps \<Rightarrow> if prop_class (pr_identifier p) \<noteq> PC_binary then None
                 else Some (p # ps, take (unat (pr_bin_len p)) (pr_bin p), pr_bin_len p))"

definition mosquitto_property_read_string ::
    "mosquitto_property list \<Rightarrow> int \<Rightarrow> bool \<Rightarrow> (mosquitto_property list \<times> bytes) option" where
  "mosquitto_property_read_string proplist identifier skip_first =
    (case property__get_property proplist identifier skip_first of [] \<Rightarrow> None
     | p # ps \<Rightarrow> if prop_class (pr_identifier p) \<noteq> PC_string then None
                 else Some (p # ps, take (unat (pr_s_len p)) (str_bytes (pr_s p))))"

definition mosquitto_property_read_string_pair ::
    "mosquitto_property list \<Rightarrow> int \<Rightarrow> bool \<Rightarrow> (mosquitto_property list \<times> bytes \<times> bytes) option" where
  "mosquitto_property_read_string_pair proplist identifier skip_first =
    (case property__get_property proplist identifier skip_first of [] \<Rightarrow> None
     | p # ps \<Rightarrow> if pr_identifier p \<noteq> MQTT_PROP_USER_PROPERTY then None
                 else Some (p # ps, take (unat (pr_name_len p)) (str_bytes (pr_name p)),
                            take (unat (pr_s_len p)) (str_bytes (pr_s p))))"

section \<open>Copying\<close>

text \<open>\<open>strdup\<close>: the bytes before the first NUL; the \<open>NULL\<close> pointer is a fault.\<close>

definition strdup :: "bytes option \<Rightarrow> bytes option res" where
  "strdup v = (case v of None \<Rightarrow> Fault | Some bs \<Rightarrow> Ok (Some (takeWhile (\<lambda>b. b \<noteq> 0) bs)))"

definition property_copy :: "mosquitto_property \<Rightarrow> mosquitto_property option res" where
  "property_copy src =
    (let pnew = property_zero\<lparr>pr_identifier := pr_identifier src\<rparr> in
     case prop_class (pr_identifier src) of
       PC_byte \<Rightarrow> Ok (Some (pnew\<lparr>pr_i8 := pr_i8 src\<rparr>))
     | PC_uint16 \<Rightarrow> Ok (Some (pnew\<lparr>pr_i16 := pr_i16 src\<rparr>))
     | PC_uint32 \<Rightarrow> Ok (Some (pnew\<lparr>pr_i32 := pr_i32 src\<rparr>))
     | PC_varint \<Rightarrow> Ok (Some (pnew\<lparr>pr_varint := pr_varint src\<rparr>))
     | PC_string \<Rightarrow> res_bind (strdup (pr_s src)) (\<lambda>v.
         Ok (Some (pnew\<lparr>pr_s_len := pr_s_len src, pr_s := v\<rparr>)))
     | PC_binary \<Rightarrow>
         (if unat (pr_bin_len src) \<le> length (pr_bin src) then
            Ok (Some (pnew\<lparr>pr_bin_len := pr_bin_len src,
                           pr_bin := take (unat (pr_bin_len src)) (pr_bin src)\<rparr>))
          else Fault)
     | PC_string_pair \<Rightarrow> res_bind (strdup (pr_s src)) (\<lambda>v.
         res_bind (strdup (pr_name src)) (\<lambda>n.
         Ok (Some (pnew\<lparr>pr_s_len := pr_s_len src, pr_s := v,
                        pr_name_len := pr_name_len src, pr_name := n\<rparr>))))
     | PC_other \<Rightarrow> Ok None)"

text \<open>An unsupported identifier frees the copy and stops with \<open>MOSQ_ERR_INVAL\<close>.\<close>

fun copy_all_loop :: "mosquitto_property list \<Rightarrow> mosquitto_property list \<Rightarrow> (rc \<times> mosquitto_property list) res" where
  "copy_all_loop dest [] = Ok (MOSQ_ERR_SUCCESS, dest)"
| "copy_all_loop dest (src # ps) =
    res_bind (property_copy src) (\<lambda>c. case c of
        None \<Rightarrow> Ok (MOSQ_ERR_INVAL, [])
      | Some pnew \<Rightarrow> copy_all_loop (dest @ [pnew]) ps)"

definition mosquitto_property_copy_all ::
    "mosquitto_property list option \<Rightarrow> mosquitto_property list \<Rightarrow> (rc \<times> mosquitto_property list option) res" where
  "mosquitto_property_copy_all dest src =
    (if src = [] then Ok (MOSQ_ERR_SUCCESS, dest)
     else case dest of None \<Rightarrow> Ok (MOSQ_ERR_INVAL, None)
     | Some _ \<Rightarrow> res_bind (copy_all_loop [] src) (\<lambda>(rc, d). Ok (rc, Some d)))"

section \<open>The promise of an add and its read function\<close>

text \<open>
  Programs go through all properties with an identifier by calling a read function first with
  \<open>skip_first\<close> off and then, from the property found, with it on, until it returns
  \<open>NULL\<close>. \<open>property_walk\<close> is that loop with a bound on the number of calls; the length
  of the list is enough.
\<close>

fun property_walk ::
    "(mosquitto_property list \<Rightarrow> int \<Rightarrow> bool \<Rightarrow> (mosquitto_property list \<times> 'r) option) \<Rightarrow>
     int \<Rightarrow> nat \<Rightarrow> mosquitto_property list \<Rightarrow> bool \<Rightarrow> 'r list" where
  "property_walk rd i 0 l skip_first = []"
| "property_walk rd i (Suc n) l skip_first =
    (case rd l i skip_first of None \<Rightarrow> []
     | Some (l', v) \<Rightarrow> v # property_walk rd i n l' True)"

abbreviation property_values ::
    "(mosquitto_property list \<Rightarrow> int \<Rightarrow> bool \<Rightarrow> (mosquitto_property list \<times> 'r) option) \<Rightarrow>
     int \<Rightarrow> mosquitto_property list \<Rightarrow> 'r list" where
  "property_values rd i l \<equiv> property_walk rd i (length l) l False"

lemma get_property_notfirst [simp]:
  "get_property_loop l i True False = get_property_loop l i False True"
  by (induction l) auto

lemma get_property_split:
  "(\<exists>p ps pre. property__get_property l i False = p # ps \<and> l = pre @ p # ps \<and> pr_identifier p = i \<and>
      (\<forall>q\<in>set pre. pr_identifier q \<noteq> i)) \<or>
   property__get_property l i False = [] \<and> (\<forall>q\<in>set l. pr_identifier q \<noteq> i)"
proof (induction l)
  case (Cons a l)
  show ?case
  proof (cases "pr_identifier a = i")
    case True
    then show ?thesis by (auto simp: property__get_property_def intro: exI [of _ "[]"])
  next
    case False
    with Cons.IH show ?thesis
      by (auto simp: property__get_property_def intro: exI [of _ "a # x" for x])
  qed
qed (simp add: property__get_property_def)

lemma get_property_skip:
  "pr_identifier p = i \<Longrightarrow>
   property__get_property (p # ps) i True = property__get_property ps i False"
  by (simp add: property__get_property_def)

text \<open>
  An interface: the add function takes a value \<open>v\<close> that is fit for the list and appends a
  property that carries it, and refuses identifiers of another type; the read function returns the
  values of the identifiers of its type.
\<close>

locale property_slot =
  fixes add :: "mosquitto_property list option \<Rightarrow> int \<Rightarrow> 'v \<Rightarrow> (rc \<times> mosquitto_property list option) res"
    and rd :: "mosquitto_property list \<Rightarrow> int \<Rightarrow> bool \<Rightarrow> (mosquitto_property list \<times> 'r) option"
    and cls :: prop_class
    and fit :: "'v \<Rightarrow> bool"
    and kept :: "'v \<Rightarrow> 'r"
    and val :: "mosquitto_property \<Rightarrow> 'r"
  assumes add_fit: "\<lbrakk>prop_class i = cls; fit v\<rbrakk> \<Longrightarrow>
      \<exists>p. pr_identifier p = i \<and> val p = kept v \<and> add (Some l) i v = Ok (MOSQ_ERR_SUCCESS, Some (l @ [p]))"
    and add_other: "\<lbrakk>prop_class i \<noteq> cls; fit v\<rbrakk> \<Longrightarrow> add (Some l) i v = Ok (MOSQ_ERR_INVAL, Some l)"
    and rd_get: "rd l i skip_first = (case property__get_property l i skip_first of [] \<Rightarrow> None
      | p # ps \<Rightarrow> if prop_class (pr_identifier p) = cls then Some (p # ps, val p) else None)"
begin

lemma walk_skip:
  assumes "pr_identifier p = i"
  shows "property_walk rd i n (p # ps) True = property_walk rd i n ps False"
  by (cases n) (simp_all add: rd_get [of _ i] get_property_skip [OF assms])

lemma walk_values:
  assumes cls: "prop_class i = cls"
  shows "length l \<le> n \<Longrightarrow> property_walk rd i n l False = map val (filter (\<lambda>p. pr_identifier p = i) l)"
proof (induction n arbitrary: l)
  case (Suc n)
  from get_property_split [of l i] show ?case
  proof (elim disjE exE conjE)
    fix p ps pre
    assume l: "property__get_property l i False = p # ps" "l = pre @ p # ps" "pr_identifier p = i"
      and pre: "\<forall>q\<in>set pre. pr_identifier q \<noteq> i"
    have none: "filter (\<lambda>p. pr_identifier p = i) pre = []" using pre by (simp add: filter_empty_conv)
    have "rd l i False = Some (p # ps, val p)" by (subst rd_get) (use l cls in simp)
    then show ?thesis using Suc.IH [of ps] Suc.prems l(2,3) by (simp add: walk_skip none)
  next
    assume "property__get_property l i False = []" "\<forall>q\<in>set l. pr_identifier q \<noteq> i"
    then show ?thesis by (simp add: rd_get [of l i False] filter_empty_conv)
  qed
qed simp

lemma added_read_back:
  assumes "prop_class i = cls" and "fit v"
  obtains l' where "add (Some l) i v = Ok (MOSQ_ERR_SUCCESS, Some l')"
    and "property_values rd i l' = property_values rd i l @ [kept v]"
    and "\<And>j. prop_class j = cls \<Longrightarrow> j \<noteq> i \<Longrightarrow> property_values rd j l' = property_values rd j l"
proof -
  from add_fit [OF assms] obtain p where p: "pr_identifier p = i" "val p = kept v"
    "add (Some l) i v = Ok (MOSQ_ERR_SUCCESS, Some (l @ [p]))" by blast
  show thesis
    by (rule that [OF p(3)]) (simp_all only: walk_values assms le_refl, use p in simp_all)
qed

text \<open>What a program sees of the list after an add, in one equation.\<close>

lemma add_values:
  assumes "fit v" and "prop_class j = cls"
  shows "\<exists>l'. add (Some l) i v = Ok (if prop_class i = cls then MOSQ_ERR_SUCCESS else MOSQ_ERR_INVAL, Some l') \<and>
    property_values rd j l' = property_values rd j l @ (if i = j then [kept v] else [])"
proof (cases "prop_class i = cls")
  case True
  then show ?thesis using added_read_back [OF True assms(1), of l] assms(2) by (cases "i = j") auto
next
  case False
  then show ?thesis using add_other [OF False assms(1), of l] assms(2) by auto
qed

end

lemma str_bytes_Some [simp]: "str_bytes (Some bs) = bs"
  by (simp add: str_bytes_def)

lemma new_prop_identifier [simp]: "pr_identifier (new_prop i) = i"
  by (simp add: new_prop_def)

lemma prop_class_single:
  "prop_class i = PC_varint \<longleftrightarrow> i = MQTT_PROP_SUBSCRIPTION_IDENTIFIER"
  "prop_class i = PC_string_pair \<longleftrightarrow> i = MQTT_PROP_USER_PROPERTY"
  by (auto simp: prop_class_def split: if_splits)

text \<open>A C string that fits the 16 bit length of a property.\<close>

definition prop_string :: "string \<Rightarrow> bool" where
  "prop_string s \<longleftrightarrow> length s < 65536 \<and> valid_utf8 (bytes_of_string s)"

lemma utf8_accepts: "prop_string s \<Longrightarrow> utf8_rejects s (length s) = Ok False"
proof -
  assume s: "prop_string s"
  have "sint (of_nat (length s) :: u32) = int (length s)"
    using s by (simp add: prop_string_def signed_of_nat signed_take_bit_int_eq_self)
  then show ?thesis
    using s validate_utf8_eq [of "bytes_of_string s"] by (simp add: utf8_rejects_def prop_string_def)
qed

lemma utf8_accepts_empty: "utf8_rejects s 0 = Ok False"
  by (simp add: utf8_rejects_def mosquitto_validate_utf8_def utf8_loop.simps)

lemma of_nat_u16_0: "n < 65536 \<Longrightarrow> (of_nat n :: u16) = 0 \<longleftrightarrow> n = 0"
  by (auto simp: word_unat_eq_iff unat_of_nat)

lemma unat_small_u16: "n < 65536 \<Longrightarrow> unat (of_nat n :: u16) = n"
  by (simp add: unat_of_nat)

interpretation byte_slot: property_slot "\<lambda>l i v. Ok (mosquitto_property_add_byte l i v)"
    mosquitto_property_read_byte PC_byte "\<lambda>_. True" "\<lambda>v. v" pr_i8
  by unfold_locales
    (auto simp: mosquitto_property_add_byte_def mosquitto_property_read_byte_def property__add_def
      split: list.split)

interpretation int16_slot: property_slot "\<lambda>l i v. Ok (mosquitto_property_add_int16 l i v)"
    mosquitto_property_read_int16 PC_uint16 "\<lambda>_. True" "\<lambda>v. v" pr_i16
  by unfold_locales
    (auto simp: mosquitto_property_add_int16_def mosquitto_property_read_int16_def property__add_def
      split: list.split)

interpretation int32_slot: property_slot "\<lambda>l i v. Ok (mosquitto_property_add_int32 l i v)"
    mosquitto_property_read_int32 PC_uint32 "\<lambda>_. True" "\<lambda>v. v" pr_i32
  by unfold_locales
    (auto simp: mosquitto_property_add_int32_def mosquitto_property_read_int32_def property__add_def
      split: list.split)

interpretation varint_slot: property_slot "\<lambda>l i v. Ok (mosquitto_property_add_varint l i v)"
    mosquitto_property_read_varint PC_varint "\<lambda>v. v \<le> 268435455" "\<lambda>v. v" pr_varint
  by unfold_locales
    (auto simp: mosquitto_property_add_varint_def mosquitto_property_read_varint_def property__add_def
      prop_class_single split: list.split)

interpretation binary_slot: property_slot "\<lambda>l i v. mosquitto_property_add_binary l i v (of_nat (length v))"
    mosquitto_property_read_binary PC_binary "\<lambda>v. length v < 65536" "\<lambda>v. (v, of_nat (length v))"
    "\<lambda>p. (take (unat (pr_bin_len p)) (pr_bin p), pr_bin_len p)"
  by unfold_locales
    (auto simp: mosquitto_property_add_binary_def mosquitto_property_read_binary_def property__add_def
      unat_small_u16 of_nat_u16_0 new_prop_def property_zero_def split: list.split)

interpretation string_slot: property_slot "\<lambda>l i v. mosquitto_property_add_string l i (Some v)"
    mosquitto_property_read_string PC_string prop_string bytes_of_string
    "\<lambda>p. take (unat (pr_s_len p)) (str_bytes (pr_s p))"
proof unfold_locales
  fix i v l
  assume i: "prop_class i = PC_string" and v: "prop_string v"
  show "\<exists>p. pr_identifier p = i \<and> take (unat (pr_s_len p)) (str_bytes (pr_s p)) = bytes_of_string v \<and>
    mosquitto_property_add_string (Some l) i (Some v) = Ok (MOSQ_ERR_SUCCESS, Some (l @ [p]))"
    using i utf8_accepts [OF v] v [unfolded prop_string_def] unat_small_u16 [of "length v"]
    by (cases v)
      (auto simp: mosquitto_property_add_string_def property__add_def new_prop_def property_zero_def
        bytes_of_string_def)
next
  fix i v l
  assume "prop_class i \<noteq> PC_string" and "prop_string v"
  then show "mosquitto_property_add_string (Some l) i (Some v) = Ok (MOSQ_ERR_INVAL, Some l)"
    by (simp add: mosquitto_property_add_string_def utf8_accepts)
qed (auto simp: mosquitto_property_read_string_def split: list.split)

text \<open>The value of a pair need not be UTF-8: it is not checked.\<close>

interpretation pair_slot: property_slot
    "\<lambda>l i (name, v). mosquitto_property_add_string_pair l i (Some name) (Some v)"
    mosquitto_property_read_string_pair PC_string_pair "\<lambda>(name, v). prop_string name \<and> length v < 65536"
    "\<lambda>(name, v). (bytes_of_string name, bytes_of_string v)"
    "\<lambda>p. (take (unat (pr_name_len p)) (str_bytes (pr_name p)), take (unat (pr_s_len p)) (str_bytes (pr_s p)))"
  by unfold_locales
    (auto simp: mosquitto_property_add_string_pair_def mosquitto_property_read_string_pair_def
      property__add_def prop_class_single utf8_accepts utf8_accepts_empty unat_small_u16 prop_string_def
      length_bytes_of_string Let_def split: list.split)

section \<open>Properties\<close>



end
