(* ===== verification/Topic_Tok.thy ===== *)
theory Topic_Tok
  imports Topic
begin

text \<open>
  Splitting a topic or a filter into its levels, \<^verbatim>\<open>src/topic_tok.c\<close>. The array of
  tokens is a list of pointers that \<open>calloc\<close> has cleared (\<^const>\<open>None\<close> is
  \<open>NULL\<close>); a store outside of it is a fault. The tokens are parts of a copy of the
  string in which each slash is overwritten by a NUL.
\<close>

section \<open>The tokeniser\<close>

text \<open>\<open>strchr\<close> gives the rest of the string from the first occurrence of a character on.\<close>

definition strchr :: "string \<Rightarrow> char \<Rightarrow> string option" where
  "strchr s c = (case dropWhile (\<lambda>x. x \<noteq> c) s of [] \<Rightarrow> None | r \<Rightarrow> Some r)"

lemma strchr_length: "strchr s c = Some r \<Longrightarrow> length r \<le> length s \<and> r \<noteq> []"
proof -
  assume "strchr s c = Some r"
  then have "r = dropWhile (\<lambda>x. x \<noteq> c) s \<and> r \<noteq> []" by (auto simp: strchr_def split: list.splits)
  then show ?thesis using length_dropWhile_le [of "\<lambda>x. x \<noteq> c" s] by metis
qed

text \<open>One call with the saved pointer: the token and the new saved pointer.\<close>

definition strtok_hier :: "string option \<Rightarrow> string option \<times> string option" where
  "strtok_hier saveptr =
    (case saveptr of None \<Rightarrow> (None, None)
     | Some s \<Rightarrow>
         (case strchr s (CHR ''/'') of
            Some c \<Rightarrow> (Some (take (length s - length c) s), Some (tl c))
          | None \<Rightarrow> (Some s, None)))"

lemma strtok_hier_shorter:
  assumes "strtok_hier (Some s) = (token, Some r)"
  shows "length r < length s"
proof -
  obtain c where c: "strchr s (CHR ''/'') = Some c" "r = tl c"
    using assms by (auto simp: strtok_hier_def split: option.splits)
  then show ?thesis using strchr_length [OF c(1)] by (cases c) auto
qed

function count_loop :: "string \<Rightarrow> nat" where
  "count_loop saveptr =
    1 + (case strchr (tl saveptr) (CHR ''/'') of None \<Rightarrow> 0 | Some c \<Rightarrow> count_loop c)"
  by auto
termination
proof (relation "measure length")
  fix saveptr c assume "strchr (tl saveptr) (CHR ''/'') = Some c"
  then have "length c \<le> length (tl saveptr)" "c \<noteq> []" using strchr_length by blast+
  then have "length c < length saveptr" by (cases saveptr) auto
  then show "(c, saveptr) \<in> measure length" by simp
qed simp

declare count_loop.simps [simp del]

definition topics_store :: "string option list \<Rightarrow> nat \<Rightarrow> string option \<Rightarrow> string option list res" where
  "topics_store topics i v = (if i < length topics then Ok (topics[i := v]) else Fault)"

text \<open>The loop that stores the tokens, from the index \<open>i\<close> on.\<close>

function tokens_loop :: "string option list \<Rightarrow> nat \<Rightarrow> string option \<Rightarrow> string option list res" where
  "tokens_loop topics i saveptr =
    (case saveptr of None \<Rightarrow> Ok topics
     | Some s \<Rightarrow>
         let (token, saveptr') = strtok_hier (Some s) in
         res_bind (topics_store topics i token) (\<lambda>topics. tokens_loop topics (i + 1) saveptr'))"
  by pat_completeness auto
termination
proof (relation "measure (\<lambda>(_, _, p). case p of None \<Rightarrow> 0 | Some s \<Rightarrow> Suc (length s))", goal_cases)
  case (2 topics i saveptr s x token saveptr' topics')
  then show ?case using strtok_hier_shorter [of s token] by (cases saveptr') auto
qed simp

declare tokens_loop.simps [simp del]

definition null_terminated :: "string option list \<Rightarrow> string list" where
  "null_terminated topics = map the (takeWhile (\<lambda>t. t \<noteq> None) topics)"

text \<open>
  The tokens and the name of the share group; an error code is a return without tokens. In a
  shared subscription the tokens behind the name move to the front over it.
\<close>

definition sub__topic_tokenise :: "string \<Rightarrow> (string list \<times> string option) res" where
  "sub__topic_tokenise subtopic =
    (if length subtopic = 0 then Err MOSQ_ERR_INVAL
     else
       let count = count_loop subtopic; topics = replicate (count + 3) None in
       res_bind (if hd subtopic \<noteq> CHR ''$''
                 then res_bind (topics_store topics 0 (Some [])) (\<lambda>topics. Ok (topics, 1))
                 else Ok (topics, 0)) (\<lambda>(topics, topic_index).
       res_bind (tokens_loop topics topic_index (Some subtopic)) (\<lambda>topics.
         if topics ! 0 = Some ''$share'' then
           if count < 2 then Err MOSQ_ERR_PROTOCOL
           else
             let sharename = topics ! 1;
                 topics = foldl (\<lambda>topics i. topics[i := topics ! (i + 1)]) topics [1..<count - 1];
                 topics = topics[0 := Some []];
                 topics = topics[count - 1 := None]
             in Ok (null_terminated topics, sharename)
         else Ok (null_terminated topics, None))))"

section \<open>The tokens are the levels\<close>

lemma strchr_levels:
  "levels s = (case strchr s (CHR ''/'') of None \<Rightarrow> [s]
     | Some c \<Rightarrow> take (length s - length c) s # levels (tl c))"
proof (induction s)
  case (Cons a s)
  show ?case
  proof (cases "a = CHR ''/''")
    case False
    then have e: "strchr (a # s) (CHR ''/'') = strchr s (CHR ''/'')" by (simp add: strchr_def)
    show ?thesis
    proof (cases "strchr s (CHR ''/'')")
      case (Some c)
      then have "length (a # s) - length c = Suc (length s - length c)"
        using strchr_length [OF Some] by (simp add: Suc_diff_le)
      then show ?thesis using Cons False Some e by simp
    qed (use Cons False e in simp)
  qed (simp add: strchr_def)
qed (simp add: strchr_def)

lemma length_levels: "length (levels s) = Suc (length (filter (\<lambda>c. c = CHR ''/'') s))"
  by (induction s) auto

lemma filter_strchr:
  "length (filter (\<lambda>c. c = CHR ''/'') s) = (case strchr s (CHR ''/'') of None \<Rightarrow> 0
     | Some c \<Rightarrow> Suc (length (filter (\<lambda>c. c = CHR ''/'') (tl c))))"
  by (induction s) (auto simp: strchr_def split: list.splits)

lemma count_loop_eq:
  "count_loop s = Suc (length (filter (\<lambda>c. c = CHR ''/'') (tl s)))"
proof (induction s rule: count_loop.induct)
  case (1 s)
  show ?case
    by (subst count_loop.simps, subst filter_strchr) (use 1 in \<open>auto split: option.split\<close>)
qed

text \<open>The array is large enough for the tokens and the NULL behind them.\<close>

lemma levels_count: "s \<noteq> [] \<Longrightarrow>
    length (levels s) = (if hd s = CHR ''/'' then Suc (count_loop s) else count_loop s)"
  by (cases s) (auto simp: length_levels count_loop_eq)

lemma tokens_loop_eq:
  "i + length (levels s) \<le> length topics \<Longrightarrow>
   tokens_loop topics i (Some s) = Ok (blit topics i (map Some (levels s)))"
proof (induction "length s" arbitrary: s i topics rule: less_induct)
  case less
  show ?case
  proof (cases "strchr s (CHR ''/'')")
    case None
    then have l: "levels s = [s]" using strchr_levels [of s] by simp
    then have "i < length topics" using less.prems by simp
    then show ?thesis
      by (subst tokens_loop.simps)
        (simp add: strtok_hier_def None topics_store_def l tokens_loop.simps list_update_blit)
  next
    case (Some c)
    let ?t = "take (length s - length c) s"
    have l: "levels s = ?t # levels (tl c)" using strchr_levels [of s] Some by simp
    have lt: "length (tl c) < length s" using strchr_length [OF Some] by (cases c) auto
    have i: "i < length topics" using less.prems l by simp
    have "tokens_loop topics i (Some s) = tokens_loop (topics[i := Some ?t]) (i + 1) (Some (tl c))"
      by (subst tokens_loop.simps) (simp add: strtok_hier_def Some topics_store_def i)
    also have "\<dots> = Ok (blit (topics[i := Some ?t]) (i + 1) (map Some (levels (tl c))))"
      by (rule less.hyps [OF lt]) (use less.prems l in simp)
    also have "blit (topics[i := Some ?t]) (i + 1) (map Some (levels (tl c))) =
        blit topics i (map Some (levels s))"
      using blit_blit [of i "[Some ?t]" "map Some (levels (tl c))" topics] less.prems i
      by (simp add: l list_update_blit)
    finally show ?thesis .
  qed
qed

lemma foldl_shift:
  "a \<le> n \<Longrightarrow> n < length l \<Longrightarrow>
   foldl (\<lambda>l i. l[i := l ! (i + 1)]) l [a..<n] = take a l @ drop (a + 1) (take (n + 1) l) @ drop n l"
proof (induction "n - a" arbitrary: a l)
  case 0
  then have "a = n" by simp
  then show ?case using 0 by (simp add: append_take_drop_id)
next
  case (Suc k)
  then have lt: "a < n" by simp
  let ?l = "l[a := l ! (a + 1)]"
  have "foldl (\<lambda>l i. l[i := l ! (i + 1)]) l [a..<n] = foldl (\<lambda>l i. l[i := l ! (i + 1)]) ?l [a + 1..<n]"
    using lt by (simp add: upt_conv_Cons)
  also have "\<dots> = take (a + 1) ?l @ drop (a + 2) (take (n + 1) ?l) @ drop n ?l"
    using Suc lt by (subst Suc.hyps(1)) (auto simp: numeral_2_eq_2)
  also have "take (a + 1) ?l = take a l @ [l ! (a + 1)]"
    using lt Suc.prems by (simp add: take_Suc_conv_app_nth)
  also have "drop (a + 2) (take (n + 1) ?l) = drop (a + 2) (take (n + 1) l)"
    by (simp add: take_update_swap)
  also have "drop n ?l = drop n l" using lt by simp
  finally show ?case
    using lt Suc.prems by (simp add: Cons_nth_drop_Suc [symmetric] numeral_2_eq_2)
qed

lemma null_terminated_Some: "null_terminated (map Some xs @ None # l) = xs"
proof -
  have "takeWhile (\<lambda>t. t \<noteq> None) (map Some xs @ None # l) = map Some xs" by (induction xs) auto
  then show ?thesis by (simp add: null_terminated_def comp_def)
qed

text \<open>
  What the tokens are: the levels of the topic, below an empty first level unless the topic
  starts with a dollar sign; in a shared subscription the levels of the filter behind the name.
\<close>

definition topic_tokens :: "string \<Rightarrow> string list" where
  "topic_tokens s = (if char_at s = CHR ''$'' then levels s else [] # levels s)"

lemma stored_tokens:
  assumes "s \<noteq> []"
  shows "\<exists>n. res_bind (if hd s \<noteq> CHR ''$''
                 then res_bind (topics_store (replicate (count_loop s + 3) None) 0 (Some [])) (\<lambda>topics. Ok (topics, 1))
                 else Ok (replicate (count_loop s + 3) None, 0)) (\<lambda>(topics, topic_index).
       tokens_loop topics topic_index (Some s)) =
     Ok (map Some (topic_tokens s) @ replicate (Suc n) None)"
proof -
  let ?t = "topic_tokens s" and ?n = "count_loop s"
  have len: "length (levels s) \<le> ?n + 1" using levels_count [OF assms] by simp
  show ?thesis
  proof (cases "hd s = CHR ''$''")
    case True
    then have "?t = levels s" using assms by (cases s) (auto simp: topic_tokens_def char_at_def)
    moreover have "replicate (?n + 3 - length (levels s)) None = replicate (Suc (?n + 2 - length (levels s))) None"
      using len by (intro arg_cong2 [where f = replicate]) auto
    ultimately show ?thesis
      using True len tokens_loop_eq [of 0 s "replicate (?n + 3) None"]
      by (intro exI [of _ "?n + 2 - length (levels s)"]) (simp add: blit_def)
  next
    case False
    then have "?t = [] # levels s" using assms by (cases s) (auto simp: topic_tokens_def char_at_def)
    moreover have r: "replicate (?n + 2 - length (levels s)) (None :: string option) =
        replicate (Suc (?n + 1 - length (levels s))) None"
      using len by (intro arg_cong2 [where f = replicate]) auto
    have e: "(replicate (?n + 3) None)[0 := Some []] = (Some [] :: string option) # replicate (?n + 2) None"
      by (simp add: numeral_3_eq_3 numeral_2_eq_2)
    have "tokens_loop (Some [] # replicate N None) 1 (Some s) =
        Ok (Some [] # map Some (levels s) @ replicate (N - length (levels s)) None)"
      if "length (levels s) \<le> N" for N
      using that by (subst tokens_loop_eq) (simp_all add: blit_def)
    from this [of "?n + 2"] len have "tokens_loop (Some [] # replicate (?n + 2) None) 1 (Some s) =
        Ok (Some [] # map Some (levels s) @ replicate (?n + 2 - length (levels s)) None)" by simp
    ultimately show ?thesis
      using False e r by (intro exI [of _ "?n + 1 - length (levels s)"]) (simp add: topics_store_def)
  qed
qed

lemma tokenise_bind:
  "res_bind A (\<lambda>(t, i). res_bind (f t i) g) = res_bind (res_bind A (\<lambda>(t, i). f t i)) g"
  by (cases A) (auto split: prod.split)

lemma share_shift:
  assumes "length L \<ge> 2"
  shows "null_terminated (((foldl (\<lambda>l i. l[i := l ! (i + 1)]) (map Some L @ replicate (Suc n) None)
      [1..<length L - 1])[0 := Some []])[length L - 1 := None]) = [] # drop 2 L"
proof -
  obtain a b r where L: "L = a # b # r" using assms by (cases L rule: remdups_adj.cases) auto
  let ?l = "map Some L @ replicate (Suc n) None"
  have "foldl (\<lambda>l i. l[i := l ! (i + 1)]) ?l [1..<length L - 1] =
      take 1 ?l @ drop (1 + 1) (take (length L - 1 + 1) ?l) @ drop (length L - 1) ?l"
    by (rule foldl_shift) (simp_all add: L)
  also have "\<dots> = Some a # map Some r @ drop (Suc (length r)) ?l" by (simp add: L)
  finally have f: "foldl (\<lambda>l i. l[i := l ! (i + 1)]) ?l [1..<length L - 1] =
      Some a # map Some r @ drop (Suc (length r)) ?l" .
  have "length (drop (Suc (length r)) ?l) \<noteq> 0" by (simp add: L)
  then obtain x y where d: "drop (Suc (length r)) ?l = x # y" by (cases "drop (Suc (length r)) ?l") auto
  have "((foldl (\<lambda>l i. l[i := l ! (i + 1)]) ?l [1..<length L - 1])[0 := Some []])[length L - 1 := None] =
      map Some ([] # r) @ None # y"
    unfolding f d by (simp add: L list_update_append)
  then show ?thesis by (simp only: null_terminated_Some) (simp add: L)
qed

lemma sub__topic_tokenise_eq:
  assumes "s \<noteq> []"
  shows "sub__topic_tokenise s =
    (if hd (levels s) = ''$share'' then
       (if length (levels s) < 2 then Err MOSQ_ERR_PROTOCOL
        else Ok ([] # drop 2 (levels s), Some (levels s ! 1)))
     else Ok (topic_tokens s, None))"
proof -
  obtain n where n: "res_bind (if hd s \<noteq> CHR ''$''
                 then res_bind (topics_store (replicate (count_loop s + 3) None) 0 (Some [])) (\<lambda>topics. Ok (topics, 1))
                 else Ok (replicate (count_loop s + 3) None, 0)) (\<lambda>(topics, topic_index).
       tokens_loop topics topic_index (Some s)) =
     Ok (map Some (topic_tokens s) @ replicate (Suc n) None)" (is "_ = Ok ?l")
    using stored_tokens [OF assms] by blast
  have e: "sub__topic_tokenise s = (if ?l ! 0 = Some ''$share'' then
           if count_loop s < 2 then Err MOSQ_ERR_PROTOCOL
           else Ok (null_terminated (((foldl (\<lambda>topics i. topics[i := topics ! (i + 1)]) ?l
             [1..<count_loop s - 1])[0 := Some []])[count_loop s - 1 := None]), ?l ! 1)
         else Ok (null_terminated ?l, None))"
    using assms unfolding sub__topic_tokenise_def Let_def tokenise_bind n by (simp del: One_nat_def)
  show ?thesis
  proof (cases "hd (levels s) = ''$share''")
    case True
    then have "hd s = CHR ''$''" using assms by (cases s) (auto split: if_splits)
    then have t: "topic_tokens s = levels s" and c: "count_loop s = length (levels s)"
      using assms levels_count [OF assms] by (cases s; auto simp: topic_tokens_def char_at_def)+
    have "?l ! 0 = Some ''$share''" using True levels_hd_tl [of s] t by (metis append_Cons list.simps(9) nth_Cons_0)
    moreover have "length (levels s) \<ge> 2 \<Longrightarrow> ?l ! 1 = Some (levels s ! 1)" by (simp add: t nth_append)
    ultimately show ?thesis
      using True share_shift [of "levels s" n] unfolding e t c by (simp del: replicate.simps)
  next
    case False
    have "?l ! 0 = Some (hd (topic_tokens s))"
      by (cases "topic_tokens s") (auto simp: topic_tokens_def split: if_splits)
    moreover have "hd (topic_tokens s) \<noteq> ''$share''" using False by (simp add: topic_tokens_def)
    ultimately show ?thesis
      using False null_terminated_Some [of "topic_tokens s" "replicate n None"] unfolding e by simp
  qed
qed

section \<open>Properties\<close>

text \<open>
  C36: the tokeniser refuses the empty string and \<open>$share\<close> without a group name; of a shared
  subscription it gives the name and the levels behind it, below an empty first level; of any
  other topic the levels, below an empty first level unless the topic starts with a dollar sign.
  It always ends, and never stores outside of the array it has allocated from a separate count of
  the slashes.
\<close>

theorem sub__topic_tokenise_exact:
  "sub__topic_tokenise s =
    (if s = [] then Err MOSQ_ERR_INVAL
     else if s = ''$share'' then Err MOSQ_ERR_PROTOCOL
     else if hd (levels s) = ''$share'' then Ok ([] # drop 2 (levels s), Some (levels s ! 1))
     else if char_at s = CHR ''$'' then Ok (levels s, None)
     else Ok ([] # levels s, None))"
proof (cases "s = []")
  case True
  then show ?thesis by (simp add: sub__topic_tokenise_def)
next
  case False
  have "hd (levels s) = ''$share'' \<and> length (levels s) < 2 \<longleftrightarrow> s = ''$share''"
  proof
    assume a: "hd (levels s) = ''$share'' \<and> length (levels s) < 2"
    then have "levels s = [''$share'']" by (metis One_nat_def Suc_1 length_0_conv length_tl
          less_Suc_eq less_one levels_hd_tl levels_not_Nil diff_self_eq_0)
    then show "s = ''$share''" using strchr_levels [of s] a
      by (auto split: option.splits simp: levels_not_Nil)
  qed simp
  then show ?thesis
    unfolding sub__topic_tokenise_eq [OF False] topic_tokens_def using False by auto
qed

end
