(* ===== verification/Security.thy ===== *)
theory Security
  imports Topic Mosq_Types
begin

text \<open>
  The check of a client's access to a topic, \<open>mosquitto_acl_check\<close> of
  \<^verbatim>\<open>src/security.c\<close>. The plugins that it asks are loaded at run time, and are
  arguments of the model: functions from the client, the kind of access and the message to a
  return code, in the security options of the listener or of the broker.
\<close>

section \<open>The check\<close>

abbreviation MOSQ_ERR_PLUGIN_DEFER :: rc where "MOSQ_ERR_PLUGIN_DEFER \<equiv> 17"

datatype acl_access = MOSQ_ACL_READ | MOSQ_ACL_WRITE | MOSQ_ACL_SUBSCRIBE | MOSQ_ACL_UNSUBSCRIBE

record acl_msg =
  am_topic :: string
  am_payloadlen :: u32
  am_payload :: bytes
  am_qos :: u8
  am_retain :: bool

type_synonym acl_fun = "acl_access \<Rightarrow> mosquitto \<Rightarrow> acl_msg \<Rightarrow> rc"

text \<open>A plugin of an old interface version.\<close>

record auth_plugin_config =
  ap_deny_special_chars :: bool
  ap_version :: int
  ap_acl_check :: acl_fun

record security_options =
  so_acl_check :: "acl_fun list"
  so_auth_plugin_configs :: "auth_plugin_config list"

text \<open>The options of the broker, and of the listener that a client came through.\<close>

record acl_env =
  ae_security_options :: security_options
  ae_listener_options :: "mosquitto \<Rightarrow> security_options option"

definition special_chars :: "string option \<Rightarrow> bool" where
  "special_chars s = (case s of None \<Rightarrow> False | Some s \<Rightarrow> CHR ''+'' \<in> set s \<or> CHR ''#'' \<in> set s)"

definition acl__check_single :: "auth_plugin_config \<Rightarrow> mosquitto \<Rightarrow> acl_msg \<Rightarrow> acl_access \<Rightarrow> rc" where
  "acl__check_single auth_plugin context msg access =
    (if ap_deny_special_chars auth_plugin \<and> special_chars (mq_username context) then MOSQ_ERR_ACL_DENIED
     else if ap_deny_special_chars auth_plugin \<and> special_chars (mq_id context) then MOSQ_ERR_ACL_DENIED
     else if ap_version auth_plugin = 4 \<or> ap_version auth_plugin = 3 then
       (if access = MOSQ_ACL_UNSUBSCRIBE then MOSQ_ERR_SUCCESS
        else ap_acl_check auth_plugin access context msg)
     else if ap_version auth_plugin = 2 then
       (if access = MOSQ_ACL_SUBSCRIBE \<or> access = MOSQ_ACL_UNSUBSCRIBE then MOSQ_ERR_SUCCESS
        else ap_acl_check auth_plugin access context msg)
     else MOSQ_ERR_INVAL)"

definition acl__check_dollar :: "string \<Rightarrow> acl_access \<Rightarrow> rc" where
  "acl__check_dollar topic access =
    (if char_at topic \<noteq> CHR ''$'' then MOSQ_ERR_SUCCESS
     else if take 4 topic = ''$SYS'' then
       (if access = MOSQ_ACL_WRITE then
          (if mosquitto_topic_matches_sub (Some ''$SYS/broker/connection/+/state'') (Some topic) =
              (MOSQ_ERR_SUCCESS, True)
           then MOSQ_ERR_SUCCESS else MOSQ_ERR_ACL_DENIED)
        else MOSQ_ERR_SUCCESS)
     else if take 6 topic = ''$share'' then
       (if access = MOSQ_ACL_SUBSCRIBE \<or> access = MOSQ_ACL_UNSUBSCRIBE
        then MOSQ_ERR_SUCCESS else MOSQ_ERR_ACL_DENIED)
     else MOSQ_ERR_SUCCESS)"

text \<open>
  Asking plugins in order until one does not defer: \<open>Inl\<close> is its answer, \<open>Inr\<close> the
  last value of \<open>rc\<close>.
\<close>

fun ask_plugins :: "(unit \<Rightarrow> rc) list \<Rightarrow> rc \<Rightarrow> rc + rc" where
  "ask_plugins [] rc = Inr rc"
| "ask_plugins (p # ps) rc = (let rc = p () in if rc \<noteq> MOSQ_ERR_PLUGIN_DEFER then Inl rc else ask_plugins ps rc)"

definition mosquitto_acl_check ::
    "acl_env \<Rightarrow> config \<Rightarrow> mosquitto \<Rightarrow> string \<Rightarrow> u32 \<Rightarrow> bytes \<Rightarrow> u8 \<Rightarrow> bool \<Rightarrow> acl_access \<Rightarrow> rc" where
  "mosquitto_acl_check env cf context topic payloadlen payload qos retain access =
    (if mq_id context = None then MOSQ_ERR_ACL_DENIED
     else if mq_bridge context \<noteq> None then MOSQ_ERR_SUCCESS
     else if acl__check_dollar topic access \<noteq> 0 then acl__check_dollar topic access
     else
       case (if cf_per_listener_settings cf then ae_listener_options env context
             else Some (ae_security_options env)) of
         None \<Rightarrow> MOSQ_ERR_ACL_DENIED
       | Some opts \<Rightarrow>
           let msg = \<lparr> am_topic = topic, am_payloadlen = payloadlen, am_payload = payload,
                       am_qos = qos, am_retain = retain \<rparr>
           in case ask_plugins (map (\<lambda>cb _. cb access context msg) (so_acl_check opts)) MOSQ_ERR_SUCCESS of
                Inl rc \<Rightarrow> rc
              | Inr rc \<Rightarrow>
                  case ask_plugins (map (\<lambda>p _. acl__check_single p context msg access)
                         (filter (\<lambda>p. ap_version p < 5) (so_auth_plugin_configs opts))) rc of
                    Inl rc \<Rightarrow> rc
                  | Inr rc \<Rightarrow> if rc = MOSQ_ERR_PLUGIN_DEFER then MOSQ_ERR_ACL_DENIED else rc)"

section \<open>Asking plugins\<close>

lemma ask_plugins_Inl: "ask_plugins ps rc = Inl r \<Longrightarrow> r \<noteq> MOSQ_ERR_PLUGIN_DEFER \<and> (\<exists>p \<in> set ps. p () = r)"
  by (induction ps arbitrary: rc) (auto simp: Let_def split: if_splits)

lemma ask_plugins_Inr:
  "ask_plugins ps rc = Inr r \<longleftrightarrow> (\<forall>p \<in> set ps. p () = MOSQ_ERR_PLUGIN_DEFER) \<and>
     r = (if ps = [] then rc else MOSQ_ERR_PLUGIN_DEFER)"
  by (induction ps arbitrary: rc) (auto simp: Let_def)

lemma check_dollar_cases: "acl__check_dollar topic access \<in> {MOSQ_ERR_SUCCESS, MOSQ_ERR_ACL_DENIED}"
  by (simp add: acl__check_dollar_def)

lemma check_dollar_ordinary: "char_at topic \<noteq> CHR ''$'' \<Longrightarrow> acl__check_dollar topic access = 0"
  by (simp add: acl__check_dollar_def)

lemma take_dollar: "take 4 topic = ''$SYS'' \<or> take 6 topic = ''$share'' \<Longrightarrow> char_at topic = CHR ''$''"
  by (cases topic) (auto simp: char_at_def numeral_eq_Suc)

lemma acl_never_defers:
  "mosquitto_acl_check env cf context topic payloadlen payload qos retain access \<noteq> MOSQ_ERR_PLUGIN_DEFER"
  using check_dollar_cases [of topic access]
  by (auto simp: mosquitto_acl_check_def Let_def split: option.splits sum.splits dest: ask_plugins_Inl)

lemma acl_dollar_denied:
  "mq_bridge context = None \<Longrightarrow> acl__check_dollar topic access = MOSQ_ERR_ACL_DENIED \<Longrightarrow>
   mosquitto_acl_check env cf context topic payloadlen payload qos retain access = MOSQ_ERR_ACL_DENIED"
  by (simp add: mosquitto_acl_check_def)

text \<open>An ordinary topic, with all the plugins deferring.\<close>

lemma acl_all_defer:
  assumes "mq_id context \<noteq> None" "mq_bridge context = None" "char_at topic \<noteq> CHR ''$''"
    "\<not> cf_per_listener_settings cf"
    "\<forall>p \<in> set (so_auth_plugin_configs (ae_security_options env)). ap_version p < 5"
    "\<forall>cb \<in> set (so_acl_check (ae_security_options env)). cb access context \<lparr> am_topic = topic,
       am_payloadlen = payloadlen, am_payload = payload, am_qos = qos, am_retain = retain \<rparr> = MOSQ_ERR_PLUGIN_DEFER"
    "\<forall>p \<in> set (so_auth_plugin_configs (ae_security_options env)). acl__check_single p context
       \<lparr> am_topic = topic, am_payloadlen = payloadlen, am_payload = payload, am_qos = qos, am_retain = retain \<rparr>
       access = MOSQ_ERR_PLUGIN_DEFER"
  shows "mosquitto_acl_check env cf context topic payloadlen payload qos retain access =
    (if so_acl_check (ae_security_options env) = [] \<and> so_auth_plugin_configs (ae_security_options env) = []
     then MOSQ_ERR_SUCCESS else MOSQ_ERR_ACL_DENIED)"
proof -
  let ?o = "ae_security_options env"
  let ?msg = "\<lparr> am_topic = topic, am_payloadlen = payloadlen, am_payload = payload, am_qos = qos, am_retain = retain \<rparr>"
  have f: "filter (\<lambda>p. ap_version p < 5) (so_auth_plugin_configs ?o) = so_auth_plugin_configs ?o"
    using assms(5) by simp
  have 1: "ask_plugins (map (\<lambda>cb _. cb access context ?msg) (so_acl_check ?o)) 0 =
      Inr (if so_acl_check ?o = [] then 0 else MOSQ_ERR_PLUGIN_DEFER)"
    using assms(6) by (simp add: ask_plugins_Inr)
  have 2: "ask_plugins (map (\<lambda>p _. acl__check_single p context ?msg access) (so_auth_plugin_configs ?o)) rc =
      Inr (if so_auth_plugin_configs ?o = [] then rc else MOSQ_ERR_PLUGIN_DEFER)" for rc
    using assms(7) by (simp add: ask_plugins_Inr)
  show ?thesis
    unfolding mosquitto_acl_check_def Let_def
    using assms(1-4) check_dollar_ordinary [OF assms(3)] by (simp add: f 1 2)
qed

section \<open>Properties\<close>



end
