(* ===== verification/Retain.thy ===== *)
theory Retain
  imports Handle_Acks Topic_Tok Security Property_Lists "HOL-Library.AList"
begin

text \<open>
  The tree of retained messages, \<^verbatim>\<open>src/retain.c\<close>. A hash table of \<open>uthash\<close> is an
  association list in the order of insertion, the order in which \<open>HASH_ITER\<close> goes through
  it; a node of the tree has its children and the address of the retained message. An operation
  takes the database, the client the messages are for, the number of retained messages and the
  children of a node. The plugins asked by \<open>mosquitto_acl_check\<close> are an argument.
\<close>

section \<open>The tree\<close>

datatype retainhier =
  Retainhier (rh_children: "(string \<times> retainhier) list") (rh_retained: "store_ptr option")

type_synonym retains = "(string \<times> retainhier) list"

abbreviation retain_leaf :: retainhier where "retain_leaf \<equiv> Retainhier [] None"

text \<open>\<open>retain__add_hier_entry\<close> appends a node without children to a table.\<close>

definition retain__add_hier_entry :: "retains \<Rightarrow> string \<Rightarrow> retains" where
  "retain__add_hier_entry sibling topic = sibling @ [(topic, retain_leaf)]"

definition retain__init :: "retains \<Rightarrow> retains" where
  "retain__init rs = retain__add_hier_entry (retain__add_hier_entry rs []) ''$SYS''"

text \<open>
  The walk of \<open>retain__store\<close> down the topic, adding the nodes that are missing; at the end
  the retained message of the node is replaced by what \<open>f\<close> makes of it.
\<close>

fun retain_walk :: "retainhier \<Rightarrow> string list \<Rightarrow> (store_ptr option \<Rightarrow> store_ptr option) \<Rightarrow> retainhier" where
  "retain_walk (Retainhier children retained) [] f = Retainhier children (f retained)"
| "retain_walk (Retainhier children retained) (t # ts) f =
    (let children = (if map_of children t = None then retain__add_hier_entry children t else children)
     in Retainhier (AList.update t
          (retain_walk (case map_of children t of Some branch \<Rightarrow> branch | None \<Rightarrow> retain_leaf) ts f) children)
          retained)"

fun retain_at :: "retainhier \<Rightarrow> string list \<Rightarrow> store_ptr option" where
  "retain_at hier [] = rh_retained hier"
| "retain_at hier (t # ts) =
    (case map_of (rh_children hier) t of None \<Rightarrow> None | Some branch \<Rightarrow> retain_at branch ts)"

definition retain__store ::
    "db \<Rightarrow> int \<Rightarrow> retains \<Rightarrow> string \<Rightarrow> store_ptr \<Rightarrow> string list \<Rightarrow> (rc \<times> db \<times> int \<times> retains) res" where
  "retain__store d retained_count retains topic p split_topics =
    (case split_topics of [] \<Rightarrow> Fault
     | t0 # _ \<Rightarrow>
       res_bind (store_get d p) (\<lambda>stored.
       let retains = (if map_of retains t0 = None then retain__add_hier_entry retains t0 else retains);
           root = (case map_of retains t0 of Some hier \<Rightarrow> hier | None \<Rightarrow> retain_leaf);
           old = retain_at root split_topics;
           d = (if take 4 topic \<noteq> ''$SYS''
                then d\<lparr>db_persistence_changes := db_persistence_changes d + 1\<rparr> else d)
       in res_bind (case old of None \<Rightarrow> Ok (d, retained_count)
                    | Some q \<Rightarrow> res_bind (db__msg_store_ref_dec d q) (\<lambda>d. Ok (d, retained_count - 1)))
         (\<lambda>(d, retained_count).
         if ms_payloadlen stored \<noteq> 0 then
           res_bind (db__msg_store_ref_inc d p) (\<lambda>d.
             Ok (MOSQ_ERR_SUCCESS, d, retained_count + 1,
                 AList.update t0 (retain_walk root split_topics (\<lambda>_. Some p)) retains))
         else Ok (MOSQ_ERR_SUCCESS, d, retained_count,
                  AList.update t0 (retain_walk root split_topics (\<lambda>_. None)) retains))))"

section \<open>Sending retained messages\<close>

text \<open>The database, the client and the number of retained messages.\<close>

type_synonym retain_state = "db \<times> mosquitto \<times> int"

definition acl_stored :: "acl_env \<Rightarrow> db \<Rightarrow> mosquitto \<Rightarrow> string \<Rightarrow> mosquitto_msg_store \<Rightarrow> acl_access \<Rightarrow> rc" where
  "acl_stored env d context topic stored access =
    mosquitto_acl_check env (db_config d) context topic (ms_payloadlen stored) (ms_payload stored)
      (ms_qos stored) (ms_retain stored) access"

text \<open>The client that published the message, for the check of its access.\<close>

definition retain_ctxt :: "mosquitto_msg_store \<Rightarrow> mosquitto" where
  "retain_ctxt stored = mosquitto_zero\<lparr>mq_id := Some (ms_source_id stored), mq_username := ms_source_username stored\<rparr>"

definition retain__process ::
    "acl_env \<Rightarrow> u8 \<Rightarrow> u32 \<Rightarrow> store_ptr \<Rightarrow> retain_state \<Rightarrow> (store_ptr option \<times> retain_state) res" where
  "retain__process env sub_qos subscription_identifier p st =
    (case st of (d, context, retained_count) \<Rightarrow>
     res_bind (store_get d p) (\<lambda>retained.
     if ms_message_expiry_time retained > 0 \<and> db_now_real_s d \<ge> ms_message_expiry_time retained then
       res_bind (db__msg_store_ref_dec d p) (\<lambda>d. Ok (None, d, context, retained_count - 1))
     else
       case ms_topic retained of None \<Rightarrow> Fault
       | Some topic \<Rightarrow>
       if acl_stored env d context topic retained MOSQ_ACL_READ \<noteq> MOSQ_ERR_SUCCESS
       then Ok (Some p, d, context, retained_count)
       else if cf_check_retain_source (db_config d) \<and> ms_origin retained \<noteq> mosq_mo_broker \<and>
          acl_stored env d (retain_ctxt retained) topic retained MOSQ_ACL_WRITE \<noteq> MOSQ_ERR_SUCCESS
       then Ok (Some p, d, context, retained_count)
       else
         let qos = (if cf_upgrade_outgoing_qos (db_config d) then sub_qos
                    else if ms_qos retained > sub_qos then sub_qos else ms_qos retained);
             (mid, context) = (if qos > 0 then mosquitto__mid_generate context else (0, context));
             properties = (if subscription_identifier > 0
               then the (snd (mosquitto_property_add_varint (Some []) MQTT_PROP_SUBSCRIPTION_IDENTIFIER
                                subscription_identifier)) else [])
         in res_bind (db__message_insert d context mid mosq_md_out qos True p properties False)
              (\<lambda>(rc, d, context). Ok (Some p, d, context, retained_count))))"

definition retain_process_opt ::
    "acl_env \<Rightarrow> u8 \<Rightarrow> u32 \<Rightarrow> store_ptr option \<Rightarrow> retain_state \<Rightarrow> (store_ptr option \<times> retain_state) res" where
  "retain_process_opt env sub_qos ident retained st =
    (case retained of None \<Rightarrow> Ok (None, st) | Some p \<Rightarrow> retain__process env sub_qos ident p st)"

text \<open>Everything below a node, for a filter that ends in \<open>#\<close>.\<close>

fun retain_search_hash ::
    "acl_env \<Rightarrow> u8 \<Rightarrow> u32 \<Rightarrow> retains \<Rightarrow> retain_state \<Rightarrow> (retain_state \<times> retains) res" where
  "retain_search_hash env sub_qos ident [] st = Ok (st, [])"
| "retain_search_hash env sub_qos ident ((k, Retainhier children retained) # branches) st =
    res_bind (retain_process_opt env sub_qos ident retained st) (\<lambda>(retained, st).
    res_bind (if children \<noteq> [] then retain_search_hash env sub_qos ident children st else Ok (st, children))
      (\<lambda>(st, children).
    res_bind (retain_search_hash env sub_qos ident branches st) (\<lambda>(st, branches).
      Ok (st, (k, Retainhier children retained) # branches))))"

text \<open>The branches whose level is selected, one after the other.\<close>

fun visit_branches ::
    "(string \<Rightarrow> bool) \<Rightarrow> (retainhier \<Rightarrow> retain_state \<Rightarrow> (retain_state \<times> retainhier) res) \<Rightarrow>
     retains \<Rightarrow> retain_state \<Rightarrow> (retain_state \<times> retains) res" where
  "visit_branches sel visit [] st = Ok (st, [])"
| "visit_branches sel visit ((k, branch) # branches) st =
    res_bind (if sel k then visit branch st else Ok (st, branch)) (\<lambda>(st, branch).
    res_bind (visit_branches sel visit branches st) (\<lambda>(st, branches). Ok (st, (k, branch) # branches)))"

fun retain__search ::
    "acl_env \<Rightarrow> u8 \<Rightarrow> u32 \<Rightarrow> string list \<Rightarrow> nat \<Rightarrow> retains \<Rightarrow> retain_state \<Rightarrow> (int \<times> retain_state \<times> retains) res" where
  "retain__search env sub_qos ident [] level children st = Fault"
| "retain__search env sub_qos ident (t # ts) level children st =
    (if t = ''#'' \<and> ts = [] then
       res_bind (retain_search_hash env sub_qos ident children st) (\<lambda>(st, children').
         Ok (if children = [] then 0 else - 1, st, children'))
     else
       res_bind (visit_branches (\<lambda>k. t = ''+'' \<or> k = t)
         (\<lambda>branch st.
            if ts \<noteq> [] then
              res_bind (retain__search env sub_qos ident ts (level + 1) (rh_children branch) st)
                (\<lambda>(flag, st, children).
                  if flag = - 1 \<or> hd ts = ''#'' \<and> level > 0 then
                    res_bind (retain_process_opt env sub_qos ident (rh_retained branch) st) (\<lambda>(retained, st).
                      Ok (st, Retainhier children retained))
                  else Ok (st, Retainhier children (rh_retained branch)))
            else
              res_bind (retain_process_opt env sub_qos ident (rh_retained branch) st) (\<lambda>(retained, st).
                Ok (st, Retainhier (rh_children branch) retained)))
         children st) (\<lambda>(st, children). Ok (0, st, children)))"

definition retain__queue ::
    "acl_env \<Rightarrow> retains \<Rightarrow> string \<Rightarrow> u8 \<Rightarrow> u32 \<Rightarrow> retain_state \<Rightarrow> (rc \<times> retain_state \<times> retains) res" where
  "retain__queue env retains sub sub_qos subscription_identifier st =
    (case sub__topic_tokenise sub of
       Err rc \<Rightarrow> Ok (rc, st, retains)
     | Fault \<Rightarrow> Fault
     | Ok (split_topics, _) \<Rightarrow>
         (case map_of retains (hd split_topics) of
            None \<Rightarrow> Ok (MOSQ_ERR_SUCCESS, st, retains)
          | Some hier \<Rightarrow>
              res_bind (retain__search env sub_qos subscription_identifier split_topics 0 (rh_children hier) st)
                (\<lambda>(_, st, children).
                  Ok (MOSQ_ERR_SUCCESS, st,
                      AList.update (hd split_topics) (Retainhier children (rh_retained hier)) retains))))"

text \<open>\<open>retain__clean\<close> gives back the reference of every retained message.\<close>

fun retain__clean :: "retains \<Rightarrow> db \<Rightarrow> db res" where
  "retain__clean [] d = Ok d"
| "retain__clean ((k, Retainhier children retained) # peers) d =
    res_bind (case retained of None \<Rightarrow> Ok d | Some p \<Rightarrow> db__msg_store_ref_dec d p) (\<lambda>d.
    res_bind (retain__clean children d) (\<lambda>d. retain__clean peers d))"

end
