(* ===== verification/Subs.thy ===== *)
theory Subs
  imports Retain
begin

text \<open>
  The tree of subscriptions, \<^verbatim>\<open>src/subs.c\<close>: adding and removing the subscriptions of
  clients, and the search for the subscribers of a message, which inserts it for each of them.
  A client is a number, its address; the state \<open>broker\<close> has the clients at their addresses,
  the database, and the trees of subscriptions and of retained messages.
  A node of the tree is identified by its path from the top. Dereferencing a client that does not
  exist is a fault; failing allocations are not modelled.
\<close>

section \<open>The tree and the broker\<close>

type_synonym client = nat

record subleaf =
  sl_context :: client
  sl_identifier :: u32
  sl_qos :: u8
  sl_no_local :: bool
  sl_retain_as_published :: bool

datatype subhier = Subhier
  (sh_children: "(string \<times> subhier) list")
  (sh_subs: "subleaf list")
  (sh_shared: "(string \<times> subleaf list) list")

abbreviation sub_leaf :: subhier where "sub_leaf \<equiv> Subhier [] [] []"

type_synonym clients = "client \<Rightarrow> mosquitto option"

record broker =
  bk_db :: db
  bk_clients :: clients
  bk_subs :: "(string \<times> subhier) list"
  bk_retains :: retains
  bk_subscription_count :: int
  bk_shared_subscription_count :: int
  bk_retained_count :: int

section \<open>Sending a message to its subscribers\<close>

text \<open>
  A message on its way: the identifier of its source, its topic, QoS and retain flag, and the
  address where it is stored.
\<close>

record sub_msg =
  sm_source_id :: "string option"
  sm_topic :: string
  sm_qos :: u8
  sm_retain :: bool
  sm_stored :: store_ptr

type_synonym send_state = "db \<times> clients"

definition subs__send :: "acl_env \<Rightarrow> sub_msg \<Rightarrow> subleaf \<Rightarrow> send_state \<Rightarrow> (rc \<times> send_state) res" where
  "subs__send env sm leaf st =
    (case st of (d, cs) \<Rightarrow>
     res_bind (store_get d (sm_stored sm)) (\<lambda>stored.
     case cs (sl_context leaf) of None \<Rightarrow> Fault
     | Some context \<Rightarrow>
       let rc2 = acl_stored env d context (sm_topic sm) stored MOSQ_ACL_READ in
       if rc2 = MOSQ_ERR_ACL_DENIED then Ok (MOSQ_ERR_SUCCESS, d, cs)
       else if rc2 = MOSQ_ERR_SUCCESS then
         let client_qos = sl_qos leaf;
             msg_qos = (if cf_upgrade_outgoing_qos (db_config d) then client_qos
                        else if sm_qos sm > client_qos then client_qos else sm_qos sm);
             (mid, context) = (if msg_qos \<noteq> 0 then mosquitto__mid_generate context else (0, context));
             client_retain = (if sl_retain_as_published leaf then sm_retain sm else False);
             properties = (if sl_identifier leaf \<noteq> 0
               then the (snd (mosquitto_property_add_varint (Some []) MQTT_PROP_SUBSCRIPTION_IDENTIFIER
                                (sl_identifier leaf))) else [])
         in res_bind (db__message_insert d context mid mosq_md_out msg_qos client_retain (sm_stored sm)
                        properties True) (\<lambda>(rc, d, context).
              Ok (if rc = 1 then 1 else 0, d, cs(sl_context leaf \<mapsto> context)))
       else Ok (1, d, cs)))"

text \<open>The first member of each share group gets the message and goes to the end of the group.\<close>

fun subs__shared_process ::
    "acl_env \<Rightarrow> sub_msg \<Rightarrow> (string \<times> subleaf list) list \<Rightarrow> send_state \<Rightarrow>
     (rc \<times> send_state \<times> (string \<times> subleaf list) list) res" where
  "subs__shared_process env sm [] st = Ok (0, st, [])"
| "subs__shared_process env sm ((name, subs) # shareds) st =
    (case subs of [] \<Rightarrow> Fault
     | leaf # subs \<Rightarrow>
         res_bind (subs__send env sm leaf st) (\<lambda>(rc2, st).
         res_bind (subs__shared_process env sm shareds st) (\<lambda>(rc, st, shareds).
           Ok (if rc2 \<noteq> 0 then 1 else rc, st, (name, subs @ [leaf]) # shareds))))"

fun subs_process_loop :: "acl_env \<Rightarrow> sub_msg \<Rightarrow> subleaf list \<Rightarrow> rc \<Rightarrow> send_state \<Rightarrow> (rc \<times> send_state) res" where
  "subs_process_loop env sm [] rc st = Ok (rc, st)"
| "subs_process_loop env sm (leaf # leafs) rc st =
    (case sm_source_id sm of None \<Rightarrow> Ok (rc, st)
     | Some source_id \<Rightarrow>
       case snd st (sl_context leaf) of None \<Rightarrow> Fault
       | Some context \<Rightarrow>
         if mq_id context = None \<or> sl_no_local leaf \<and> mq_id context = Some source_id
         then subs_process_loop env sm leafs rc st
         else res_bind (subs__send env sm leaf st) (\<lambda>(rc2, st).
                subs_process_loop env sm leafs (if rc2 \<noteq> 0 then 1 else rc) st))"

definition subs__process :: "acl_env \<Rightarrow> sub_msg \<Rightarrow> subhier \<Rightarrow> send_state \<Rightarrow> (rc \<times> send_state \<times> subhier) res" where
  "subs__process env sm hier st =
    res_bind (subs__shared_process env sm (sh_shared hier) st) (\<lambda>(rc, st, shared).
    res_bind (subs_process_loop env sm (sh_subs hier) rc st) (\<lambda>(rc, st).
      Ok (if sh_subs hier \<noteq> [] \<or> sh_shared hier \<noteq> [] then rc else MOSQ_ERR_NO_SUBSCRIBERS,
          st, Subhier (sh_children hier) (sh_subs hier) shared)))"

section \<open>The search\<close>

text \<open>
  The result of looking at a branch: \<open>Some rc\<close> makes the search return \<open>rc\<close>;
  otherwise the flag tells whether there were subscribers.
\<close>

type_synonym looked = "rc option \<times> bool \<times> send_state \<times> subhier"

definition set_child :: "subhier \<Rightarrow> string \<Rightarrow> subhier \<Rightarrow> subhier" where
  "set_child hier key branch =
     Subhier (AList.update key branch (sh_children hier)) (sh_subs hier) (sh_shared hier)"

definition note_rc :: "rc \<Rightarrow> bool \<Rightarrow> rc option \<times> bool" where
  "note_rc rc have_subscribers =
    (if rc = MOSQ_ERR_SUCCESS then (None, True)
     else if rc \<noteq> MOSQ_ERR_NO_SUBSCRIBERS then (Some rc, have_subscribers)
     else (None, have_subscribers))"

text \<open>
  The branch under a key, literal or \<open>+\<close>: the search below it (\<open>search\<close>), and its own
  subscriptions at the end of the topic (\<open>at_end\<close>).
\<close>

definition search_branch ::
    "acl_env \<Rightarrow> sub_msg \<Rightarrow> (subhier \<Rightarrow> send_state \<Rightarrow> (rc \<times> send_state \<times> subhier) res) \<Rightarrow> bool \<Rightarrow>
     string \<Rightarrow> bool \<Rightarrow> subhier \<Rightarrow> send_state \<Rightarrow> looked res" where
  "search_branch env sm search at_end key have hier st =
    (case map_of (sh_children hier) key of None \<Rightarrow> Ok (None, have, st, hier)
     | Some branch \<Rightarrow>
         res_bind (search branch st) (\<lambda>(rc, st, branch).
         case note_rc rc have of (ret, have) \<Rightarrow>
         if ret \<noteq> None \<or> \<not> at_end then Ok (ret, have, st, set_child hier key branch)
         else
           res_bind (subs__process env sm branch st) (\<lambda>(rc, st, branch).
           case note_rc rc have of (ret, have) \<Rightarrow> Ok (ret, have, st, set_child hier key branch))))"

definition search_hash :: "acl_env \<Rightarrow> sub_msg \<Rightarrow> bool \<Rightarrow> subhier \<Rightarrow> send_state \<Rightarrow> looked res" where
  "search_hash env sm have hier st =
    (case map_of (sh_children hier) ''#'' of None \<Rightarrow> Ok (None, have, st, hier)
     | Some branch \<Rightarrow>
         if sh_children branch \<noteq> [] then Ok (None, have, st, hier)
         else
           res_bind (subs__process env sm branch st) (\<lambda>(rc, st, branch).
           case note_rc rc have of (ret, have) \<Rightarrow> Ok (ret, have, st, set_child hier ''#'' branch)))"

definition search_return :: "looked \<Rightarrow> (rc \<times> send_state \<times> subhier) res" where
  "search_return = (\<lambda>(ret, have, st, hier).
     Ok (case ret of Some rc \<Rightarrow> rc | None \<Rightarrow> if have then MOSQ_ERR_SUCCESS else MOSQ_ERR_NO_SUBSCRIBERS,
         st, hier))"

definition looked_then :: "looked res \<Rightarrow> (bool \<Rightarrow> subhier \<Rightarrow> send_state \<Rightarrow> looked res) \<Rightarrow> looked res" where
  "looked_then r f = res_bind r (\<lambda>(ret, have, st, hier).
     if ret \<noteq> None then Ok (ret, have, st, hier) else f have hier st)"

fun sub__search ::
    "acl_env \<Rightarrow> sub_msg \<Rightarrow> string list \<Rightarrow> subhier \<Rightarrow> send_state \<Rightarrow> (rc \<times> send_state \<times> subhier) res" where
  "sub__search env sm [] hier st = res_bind (search_hash env sm False hier st) search_return"
| "sub__search env sm (t # ts) hier st =
    res_bind
      (looked_then (search_branch env sm (sub__search env sm ts) (ts = []) t False hier st) (\<lambda>have hier st.
       looked_then (search_branch env sm (sub__search env sm ts) (ts = []) ''+'' have hier st)
         (search_hash env sm)))
      search_return"

definition sub__messages_queue ::
    "acl_env \<Rightarrow> broker \<Rightarrow> string option \<Rightarrow> string \<Rightarrow> u8 \<Rightarrow> bool \<Rightarrow> store_ptr \<Rightarrow> (rc \<times> broker) res" where
  "sub__messages_queue env b source_id topic qos retain p =
    (case sub__topic_tokenise topic of Fault \<Rightarrow> Fault | Err _ \<Rightarrow> Ok (1, b)
     | Ok (split_topics, _) \<Rightarrow>
       let sm = \<lparr> sm_source_id = source_id, sm_topic = topic, sm_qos = qos, sm_retain = retain, sm_stored = p \<rparr> in
       res_bind (db__msg_store_ref_inc (bk_db b) p) (\<lambda>d.
       res_bind (case map_of (bk_subs b) (hd split_topics) of
           None \<Rightarrow> Ok (MOSQ_ERR_SUCCESS, b\<lparr>bk_db := d\<rparr>)
         | Some hier \<Rightarrow>
             res_bind (sub__search env sm split_topics hier (d, bk_clients b)) (\<lambda>(rc, (d, cs), hier).
               Ok (rc, b\<lparr>bk_db := d, bk_clients := cs,
                         bk_subs := AList.update (hd split_topics) hier (bk_subs b)\<rparr>)))
         (\<lambda>(rc, b).
       res_bind (if retain then
           res_bind (retain__store (bk_db b) (bk_retained_count b) (bk_retains b) topic p split_topics)
             (\<lambda>(rc2, d, n, rs). Ok (if rc2 \<noteq> 0 then rc2 else rc,
                b\<lparr>bk_db := d, bk_retained_count := n, bk_retains := rs\<rparr>))
         else Ok (rc, b)) (\<lambda>(rc, b).
       res_bind (db__msg_store_ref_dec (bk_db b) p) (\<lambda>d. Ok (rc, b\<lparr>bk_db := d\<rparr>))))))"

section \<open>Adding subscriptions\<close>

text \<open>The identifier of the client at an address, if there is one with an identifier.\<close>

definition client_id :: "clients \<Rightarrow> client \<Rightarrow> string option" where
  "client_id cs c = (case cs c of None \<Rightarrow> None | Some context \<Rightarrow> mq_id context)"

abbreviation MQTT_SUB_OPT_NO_LOCAL :: u8 where "MQTT_SUB_OPT_NO_LOCAL \<equiv> 4"
abbreviation MQTT_SUB_OPT_RETAIN_AS_PUBLISHED :: u8 where "MQTT_SUB_OPT_RETAIN_AS_PUBLISHED \<equiv> 8"

fun sub__add_leaf :: "clients \<Rightarrow> client \<Rightarrow> string \<Rightarrow> u8 \<Rightarrow> u32 \<Rightarrow> u8 \<Rightarrow> subleaf list \<Rightarrow> rc \<times> subleaf list" where
  "sub__add_leaf cs c ident qos identifier options [] =
    (MOSQ_ERR_SUCCESS, [\<lparr> sl_context = c, sl_identifier = identifier, sl_qos = qos,
       sl_no_local = (options AND MQTT_SUB_OPT_NO_LOCAL \<noteq> 0),
       sl_retain_as_published = (options AND MQTT_SUB_OPT_RETAIN_AS_PUBLISHED \<noteq> 0) \<rparr>])"
| "sub__add_leaf cs c ident qos identifier options (leaf # leafs) =
    (if client_id cs (sl_context leaf) = Some ident
     then (MOSQ_ERR_SUB_EXISTS, leaf\<lparr>sl_qos := qos, sl_identifier := identifier\<rparr> # leafs)
     else
       let (rc, leafs) = sub__add_leaf cs c ident qos identifier options leafs in (rc, leaf # leafs))"

text \<open>A subscription goes to the first free slot of the client, or to a new one at the end.\<close>

fun add_client_sub :: "client_sub \<Rightarrow> client_sub option list \<Rightarrow> client_sub option list" where
  "add_client_sub csub [] = [Some csub]"
| "add_client_sub csub (None # subs) = Some csub # subs"
| "add_client_sub csub (Some s # subs) = Some s # add_client_sub csub subs"

definition sub_return :: "mosquitto \<Rightarrow> rc \<Rightarrow> rc" where
  "sub_return context rc =
    (if mq_protocol context = mosq_p_mqtt31 \<or> mq_protocol context = mosq_p_mqtt5 then rc else MOSQ_ERR_SUCCESS)"

text \<open>A subscription request: the client, the filter, the QoS, the identifier and the options.\<close>

record sub_request =
  sq_context :: client
  sq_sub :: string
  sq_qos :: u8
  sq_identifier :: u32
  sq_options :: u8
  sq_sharename :: "string option"

definition sub__add_shared :: "clients \<Rightarrow> sub_request \<Rightarrow> string \<Rightarrow> string \<Rightarrow> subhier \<Rightarrow> rc \<times> subhier" where
  "sub__add_shared cs rq ident sharename hier =
    (let subs = (case map_of (sh_shared hier) sharename of None \<Rightarrow> [] | Some subs \<Rightarrow> subs);
         (rc, subs) = sub__add_leaf cs (sq_context rq) ident (sq_qos rq) (sq_identifier rq) (sq_options rq) subs
     in (rc, Subhier (sh_children hier) (sh_subs hier) (AList.update sharename subs (sh_shared hier))))"

definition sub__add_normal :: "clients \<Rightarrow> sub_request \<Rightarrow> string \<Rightarrow> subhier \<Rightarrow> rc \<times> subhier" where
  "sub__add_normal cs rq ident hier =
    (let (rc, subs) = sub__add_leaf cs (sq_context rq) ident (sq_qos rq) (sq_identifier rq) (sq_options rq)
                        (sh_subs hier)
     in (rc, Subhier (sh_children hier) subs (sh_shared hier)))"

text \<open>
  The walk of \<open>sub__add_context\<close>, adding the nodes that are missing. It stops at a level that
  is too long; at the end the leaf is added when the client has an identifier.
\<close>

fun sub_add_walk :: "clients \<Rightarrow> sub_request \<Rightarrow> string option \<Rightarrow> string list \<Rightarrow> subhier \<Rightarrow> rc \<times> subhier" where
  "sub_add_walk cs rq ident [] hier =
    (case ident of None \<Rightarrow> (MOSQ_ERR_SUCCESS, hier)
     | Some ident \<Rightarrow>
         (case sq_sharename rq of
            Some sharename \<Rightarrow> sub__add_shared cs rq ident sharename hier
          | None \<Rightarrow> sub__add_normal cs rq ident hier))"
| "sub_add_walk cs rq ident (t # ts) hier =
    (if length t > 65535 then (MOSQ_ERR_INVAL, hier)
     else
       let branch = (case map_of (sh_children hier) t of None \<Rightarrow> sub_leaf | Some branch \<Rightarrow> branch);
           (rc, branch) = sub_add_walk cs rq ident ts branch
       in (rc, set_child hier t branch))"

text \<open>
  \<open>sub__add\<close>. The result of the walk is MOSQ_ERR_SUCCESS for a new leaf; then the client
  and the counter note the subscription. The subscription is refused, as it is by
  \<open>sub__topic_tokenise\<close>, without any change.
\<close>

definition sub__add :: "broker \<Rightarrow> client \<Rightarrow> string \<Rightarrow> u8 \<Rightarrow> u32 \<Rightarrow> u8 \<Rightarrow> (rc \<times> broker) res" where
  "sub__add b c sub qos identifier options =
    (case sub__topic_tokenise sub of Fault \<Rightarrow> Fault | Err rc \<Rightarrow> Ok (rc, b)
     | Ok (topics, sharename) \<Rightarrow>
       if length (hd topics) > 65535 then Ok (MOSQ_ERR_INVAL, b)
       else case bk_clients b c of None \<Rightarrow> Fault
       | Some context \<Rightarrow>
         let rq = \<lparr> sq_context = c, sq_sub = sub, sq_qos = qos, sq_identifier = identifier,
                    sq_options = options, sq_sharename = sharename \<rparr>;
             hier = (case map_of (bk_subs b) (hd topics) of None \<Rightarrow> sub_leaf | Some hier \<Rightarrow> hier);
             (rc, hier) = sub_add_walk (bk_clients b) rq (mq_id context) topics hier;
             b = b\<lparr>bk_subs := AList.update (hd topics) hier (bk_subs b)\<rparr>
         in if mq_id context = None \<or> rc > 0 then Ok (rc, b)
            else
              let csub = \<lparr> cs_topic_filter = sub, cs_hier = hd topics # topics, cs_shared = sharename \<rparr>;
                  b = (if rc = MOSQ_ERR_SUB_EXISTS then b
                       else
                         let b = b\<lparr>bk_clients := (bk_clients b)(c \<mapsto>
                                     context\<lparr>mq_subs := add_client_sub csub (mq_subs context)\<rparr>)\<rparr>
                         in if sharename = None
                            then b\<lparr>bk_subscription_count := bk_subscription_count b + 1\<rparr>
                            else b\<lparr>bk_shared_subscription_count := bk_shared_subscription_count b + 1\<rparr>)
              in Ok (sub_return context rc, b))"

section \<open>Removing subscriptions\<close>

text \<open>The first slot of a client with a subscription at a node, and in a share group, is freed.\<close>

fun free_client_sub :: "(client_sub \<Rightarrow> bool) \<Rightarrow> client_sub option list \<Rightarrow> client_sub option list" where
  "free_client_sub sel [] = []"
| "free_client_sub sel (None # subs) = None # free_client_sub sel subs"
| "free_client_sub sel (Some s # subs) = (if sel s then None # subs else Some s # free_client_sub sel subs)"

text \<open>\<open>DL_DELETE\<close> of the first leaf of a client; \<^const>\<open>None\<close> when there is none.\<close>

fun remove_leaf :: "client \<Rightarrow> subleaf list \<Rightarrow> subleaf list option" where
  "remove_leaf c [] = None"
| "remove_leaf c (leaf # leafs) =
    (if sl_context leaf = c then Some leafs
     else case remove_leaf c leafs of None \<Rightarrow> None | Some leafs \<Rightarrow> Some (leaf # leafs))"

definition sub__remove_normal :: "client \<Rightarrow> subhier \<Rightarrow> rc \<times> subhier" where
  "sub__remove_normal c hier =
    (case remove_leaf c (sh_subs hier) of None \<Rightarrow> (MOSQ_ERR_NO_SUBSCRIBERS, hier)
     | Some subs \<Rightarrow> (MOSQ_ERR_SUCCESS, Subhier (sh_children hier) subs (sh_shared hier)))"

text \<open>A share group without members is deleted.\<close>

definition set_shared :: "subhier \<Rightarrow> string \<Rightarrow> subleaf list \<Rightarrow> subhier" where
  "set_shared hier name subs =
     Subhier (sh_children hier) (sh_subs hier)
       (if subs = [] then AList.delete name (sh_shared hier) else AList.update name subs (sh_shared hier))"

definition sub__remove_shared :: "client \<Rightarrow> string \<Rightarrow> subhier \<Rightarrow> rc \<times> subhier" where
  "sub__remove_shared c sharename hier =
    (case map_of (sh_shared hier) sharename of None \<Rightarrow> (MOSQ_ERR_NO_SUBSCRIBERS, hier)
     | Some subs \<Rightarrow>
         (case remove_leaf c subs of None \<Rightarrow> (MOSQ_ERR_NO_SUBSCRIBERS, hier)
          | Some subs \<Rightarrow> (MOSQ_ERR_SUCCESS, set_shared hier sharename subs)))"

definition is_empty :: "subhier \<Rightarrow> bool" where
  "is_empty hier \<longleftrightarrow> sh_children hier = [] \<and> sh_subs hier = [] \<and> sh_shared hier = []"

definition delete_child :: "subhier \<Rightarrow> string \<Rightarrow> subhier" where
  "delete_child hier key = Subhier (AList.delete key (sh_children hier)) (sh_subs hier) (sh_shared hier)"

text \<open>
  The result tells whether a leaf was removed, in which case \<open>*reason\<close> is 0, and the client
  and the counter are to be updated. The return code of the recursive call is not used.
\<close>

fun sub__remove_recurse :: "client \<Rightarrow> string option \<Rightarrow> string list \<Rightarrow> subhier \<Rightarrow> rc \<times> bool \<times> subhier" where
  "sub__remove_recurse c sharename [] hier =
    (let (rc, hier) = (case sharename of Some name \<Rightarrow> sub__remove_shared c name hier
                       | None \<Rightarrow> sub__remove_normal c hier)
     in (rc, rc = MOSQ_ERR_SUCCESS, hier))"
| "sub__remove_recurse c sharename (t # ts) hier =
    (case map_of (sh_children hier) t of None \<Rightarrow> (MOSQ_ERR_SUCCESS, False, hier)
     | Some branch \<Rightarrow>
         let (_, removed, branch) = sub__remove_recurse c sharename ts branch
         in (MOSQ_ERR_SUCCESS, removed,
             if is_empty branch then delete_child hier t else set_child hier t branch))"

definition count_removed :: "string option \<Rightarrow> broker \<Rightarrow> broker" where
  "count_removed sharename b =
    (if sharename = None then b\<lparr>bk_subscription_count := bk_subscription_count b - 1\<rparr>
     else b\<lparr>bk_shared_subscription_count := bk_shared_subscription_count b - 1\<rparr>)"

text \<open>\<open>sub__remove\<close>, with the old value of \<open>*reason\<close>; 17 is
  \<open>MQTT_RC_NO_SUBSCRIPTION_EXISTED\<close>.\<close>

definition sub__remove :: "broker \<Rightarrow> client \<Rightarrow> string \<Rightarrow> u8 \<Rightarrow> (rc \<times> u8 \<times> broker) res" where
  "sub__remove b c sub reason =
    (case sub__topic_tokenise sub of Fault \<Rightarrow> Fault | Err rc \<Rightarrow> Ok (rc, reason, b)
     | Ok (topics, sharename) \<Rightarrow>
         (case map_of (bk_subs b) (hd topics) of None \<Rightarrow> Ok (MOSQ_ERR_SUCCESS, reason, b)
          | Some hier \<Rightarrow>
              let (rc, removed, hier) = sub__remove_recurse c sharename topics hier;
                  b = b\<lparr>bk_subs := AList.update (hd topics) hier (bk_subs b)\<rparr>
              in if \<not> removed then Ok (rc, 17, b)
                 else
                   case bk_clients b c of None \<Rightarrow> Fault
                   | Some context \<Rightarrow>
                       let context = context\<lparr>mq_subs := free_client_sub (\<lambda>s. cs_hier s = hd topics # topics \<and>
                             (sharename = None \<or> cs_shared s = sharename)) (mq_subs context)\<rparr>
                       in Ok (rc, 0, count_removed sharename (b\<lparr>bk_clients := (bk_clients b)(c \<mapsto> context)\<rparr>))))"

text \<open>
  Removing the leaf of one subscription of a client whose session ends, at the path of the node
  below the top of its tree, and the nodes that have become empty. A path that is not in the tree
  is a dangling pointer.
\<close>

fun clean_walk :: "client \<Rightarrow> string option \<Rightarrow> string list \<Rightarrow> subhier \<Rightarrow> (bool \<times> subhier) res" where
  "clean_walk c shared [] hier =
    (case shared of
       Some name \<Rightarrow>
         (case map_of (sh_shared hier) name of None \<Rightarrow> Fault
          | Some subs \<Rightarrow>
              (case remove_leaf c subs of None \<Rightarrow> Ok (False, hier)
               | Some subs \<Rightarrow> Ok (True, set_shared hier name subs)))
     | None \<Rightarrow>
         (case remove_leaf c (sh_subs hier) of None \<Rightarrow> Ok (False, hier)
          | Some subs \<Rightarrow> Ok (True, Subhier (sh_children hier) subs (sh_shared hier))))"
| "clean_walk c shared (t # ts) hier =
    (case map_of (sh_children hier) t of None \<Rightarrow> Fault
     | Some branch \<Rightarrow>
         res_bind (clean_walk c shared ts branch) (\<lambda>(removed, branch).
           Ok (removed, if is_empty branch then delete_child hier t else set_child hier t branch)))"

fun clean_session_loop :: "client \<Rightarrow> client_sub option list \<Rightarrow> broker \<Rightarrow> broker res" where
  "clean_session_loop c [] b = Ok b"
| "clean_session_loop c (None # subs) b = clean_session_loop c subs b"
| "clean_session_loop c (Some csub # subs) b =
    (case cs_hier csub of [] \<Rightarrow> Fault
     | first # path \<Rightarrow>
       (case map_of (bk_subs b) first of None \<Rightarrow> Fault
        | Some hier \<Rightarrow>
            res_bind (clean_walk c (cs_shared csub) path hier) (\<lambda>(removed, hier).
            let b = b\<lparr>bk_subs := AList.update first hier (bk_subs b)\<rparr>
            in clean_session_loop c subs (if removed then count_removed (cs_shared csub) b else b))))"

definition sub__clean_session :: "broker \<Rightarrow> client \<Rightarrow> (rc \<times> broker) res" where
  "sub__clean_session b c =
    (case bk_clients b c of None \<Rightarrow> Fault
     | Some context \<Rightarrow>
         res_bind (clean_session_loop c (mq_subs context) b) (\<lambda>b.
           Ok (MOSQ_ERR_SUCCESS, b\<lparr>bk_clients := (bk_clients b)(c \<mapsto> context\<lparr>mq_subs := []\<rparr>)\<rparr>)))"

end
