(* ===== verification/Subs_Correct.thy ===== *)
theory Subs_Correct
  imports Subs
begin

text \<open>
  What the two trees mean. The tree of subscriptions and the tree of retained messages are
  tables indexed by the path of topic levels (locale \<open>path_table\<close>): adding, removing and
  storing change the entry of one path, whatever nodes are created or pruned for it. The search of
  \<^verbatim>\<open>src/subs.c\<close> processes exactly the nodes whose path matches the topic, each of
  them once, and is the loop over them in the order of the tree.
\<close>

section \<open>Tables\<close>

text \<open>A table and a way to change it that acts on the entry of one key.\<close>

locale path_table =
  fixes look :: "'t \<Rightarrow> 'k \<Rightarrow> 'v"
    and change :: "'a \<Rightarrow> 't \<Rightarrow> 'k \<Rightarrow> 't"
    and act :: "'a \<Rightarrow> 'v \<Rightarrow> 'v"
    and valid :: "'a \<Rightarrow> 'k \<Rightarrow> bool"
  assumes look_change: "valid a p \<Longrightarrow> look (change a t p) q = (if q = p then act a (look t p) else look t q)"
begin

text \<open>After any sequence of changes, an entry shows the changes of its own key, in their order.\<close>

lemma look_foldl:
  "list_all (\<lambda>(a, p). valid a p) cs \<Longrightarrow>
   look (foldl (\<lambda>t (a, p). change a t p) t cs) q =
     foldl (\<lambda>v (a, p). act a v) (look t q) (filter (\<lambda>(a, p). p = q) cs)"
  by (induction cs arbitrary: t) (auto simp: look_change)

end

text \<open>Two ways to change a table, the second of which can undo the first.\<close>

locale undo_table = do: path_table look change act valid + undo: path_table look change' act' valid'
  for look :: "'t \<Rightarrow> 'k \<Rightarrow> 'v" and change act valid
    and change' :: "'b \<Rightarrow> 't \<Rightarrow> 'k \<Rightarrow> 't" and act' valid' +
  fixes fresh :: "'a \<Rightarrow> 'b \<Rightarrow> 'v \<Rightarrow> bool"
  assumes act_undo: "fresh a b v \<Longrightarrow> act' b (act a v) = v"
begin

lemma change_undo:
  assumes "valid a p" "valid' b p" "fresh a b (look t p)"
  shows "look (change' b (change a t p) p) = look t"
  using assms by (auto simp: fun_eq_iff do.look_change undo.look_change act_undo)

end

section \<open>The tree of subscriptions\<close>

fun node_at :: "subhier \<Rightarrow> string list \<Rightarrow> subhier option" where
  "node_at hier [] = Some hier"
| "node_at hier (t # ts) = (case map_of (sh_children hier) t of None \<Rightarrow> None | Some b \<Rightarrow> node_at b ts)"

text \<open>
  The subscriptions at a node, the normal ones or those of a share group; none where there is no
  node or no group.
\<close>

definition members :: "string option \<Rightarrow> subhier \<Rightarrow> subleaf list" where
  "members share n = (case share of None \<Rightarrow> sh_subs n
     | Some name \<Rightarrow> (case map_of (sh_shared n) name of None \<Rightarrow> [] | Some subs \<Rightarrow> subs))"

definition subs_at :: "subhier \<Rightarrow> string option \<times> string list \<Rightarrow> subleaf list" where
  "subs_at hier = (\<lambda>(share, path). case node_at hier path of None \<Rightarrow> [] | Some n \<Rightarrow> members share n)"

definition levels_ok :: "string list \<Rightarrow> bool" where
  "levels_ok path \<longleftrightarrow> (\<forall>t \<in> set path. length t \<le> 65535)"

lemma set_child_sel [simp]:
  "map_of (sh_children (set_child hier t b)) = (map_of (sh_children hier))(t \<mapsto> b)"
  "sh_subs (set_child hier t b) = sh_subs hier" "sh_shared (set_child hier t b) = sh_shared hier"
  by (simp_all add: set_child_def update_conv')

lemma delete_child_sel [simp]:
  "map_of (sh_children (delete_child hier t)) = (map_of (sh_children hier))(t := None)"
  "sh_subs (delete_child hier t) = sh_subs hier" "sh_shared (delete_child hier t) = sh_shared hier"
  by (simp_all add: delete_child_def delete_conv')

lemma node_at_leaf: "node_at sub_leaf path = (if path = [] then Some sub_leaf else None)"
  by (cases path) simp_all

text \<open>A change of one child, where a missing child counts as an empty one.\<close>

abbreviation child :: "subhier \<Rightarrow> string \<Rightarrow> subhier" where
  "child hier t \<equiv> (case map_of (sh_children hier) t of None \<Rightarrow> sub_leaf | Some b \<Rightarrow> b)"

lemma members_leaf [simp]: "members share sub_leaf = []"
  by (simp add: members_def split: option.split)

lemma subs_at_simps:
  "subs_at hier (share, []) = members share hier"
  "subs_at hier (share, t # ts) = subs_at (child hier t) (share, ts)"
  by (auto simp: subs_at_def node_at_leaf split: option.split)

lemma child_set: "child (set_child hier t b) t' = (if t' = t then b else child hier t')"
  by simp

lemma leaf_subs [simp]: "subs_at sub_leaf key = []"
  by (cases key) (simp add: subs_at_def node_at_leaf)

lemma members_child [simp]:
  "members share (set_child hier t b) = members share hier" "members share (delete_child hier t) = members share hier"
  by (cases share; simp add: members_def)+

lemma is_empty_iff: "is_empty b \<longleftrightarrow> b = sub_leaf"
  by (cases b) (simp add: is_empty_def)

section \<open>Adding and removing\<close>

definition add_subs :: "clients \<times> sub_request \<times> string \<Rightarrow> subleaf list \<Rightarrow> subleaf list" where
  "add_subs = (\<lambda>(cs, rq, ident) l.
     snd (sub__add_leaf cs (sq_context rq) ident (sq_qos rq) (sq_identifier rq) (sq_options rq) l))"

definition add_walk :: "clients \<times> sub_request \<times> string \<Rightarrow> subhier \<Rightarrow> string option \<times> string list \<Rightarrow> subhier" where
  "add_walk = (\<lambda>(cs, rq, ident) hier (share, path).
     snd (sub_add_walk cs (rq\<lparr>sq_sharename := share\<rparr>) (Some ident) path hier))"

lemma levels_ok_Cons: "levels_ok (t # ts) \<longleftrightarrow> \<not> length t > 65535 \<and> levels_ok ts"
  by (auto simp: levels_ok_def)

lemma add_walk_Cons:
  "levels_ok (t # ts) \<Longrightarrow>
   add_walk a hier (share, t # ts) = set_child hier t (add_walk a (child hier t) (share, ts))"
  by (cases a) (simp add: add_walk_def levels_ok_Cons Let_def split_beta)

lemma add_walk_Nil:
  "members share' (add_walk a hier (share, [])) =
     (if share' = share then add_subs a (members share hier) else members share' hier)"
  "map_of (sh_children (add_walk a hier (share, []))) = map_of (sh_children hier)"
  by (cases a; cases share; cases share';
      simp add: add_walk_def sub__add_normal_def sub__add_shared_def members_def add_subs_def update_conv' Let_def split_beta)+

lemma add_walk_table:
  "levels_ok p \<Longrightarrow> subs_at (add_walk a hier (share, p)) (share', q) =
     (if share' = share \<and> q = p then add_subs a (subs_at hier (share, p)) else subs_at hier (share', q))"
proof (induction p arbitrary: hier q share')
  case Nil
  then show ?case by (cases q) (auto simp: add_walk_Nil subs_at_simps)
next
  case (Cons t ts)
  then have "levels_ok ts" by (simp add: levels_ok_Cons)
  note IH = Cons.IH [OF this]
  show ?case
    unfolding add_walk_Cons [OF Cons.prems(1)]
    by (cases q) (auto simp: subs_at_simps child_set IH simp del: set_child_sel(1))
qed

definition drop_leaf :: "client \<Rightarrow> subleaf list \<Rightarrow> subleaf list" where
  "drop_leaf c l = (case remove_leaf c l of None \<Rightarrow> l | Some l' \<Rightarrow> l')"

definition remove_walk :: "client \<Rightarrow> subhier \<Rightarrow> string option \<times> string list \<Rightarrow> subhier" where
  "remove_walk c hier = (\<lambda>(share, path). snd (snd (sub__remove_recurse c share path hier)))"

lemma remove_leaf_empty: "drop_leaf c [] = []"
  by (simp add: drop_leaf_def)

lemma remove_walk_Cons:
  "remove_walk c hier (share, t # ts) = (case map_of (sh_children hier) t of None \<Rightarrow> hier
     | Some b \<Rightarrow> if remove_walk c b (share, ts) = sub_leaf then delete_child hier t
                else set_child hier t (remove_walk c b (share, ts)))"
  by (simp add: remove_walk_def is_empty_iff Let_def split_beta split: option.split)

lemma remove_walk_Nil:
  "members share' (remove_walk c hier (share, [])) =
     (if share' = share then drop_leaf c (members share hier) else members share' hier)"
  "map_of (sh_children (remove_walk c hier (share, []))) = map_of (sh_children hier)"
  by (cases share; cases share';
      auto simp: remove_walk_def sub__remove_normal_def sub__remove_shared_def set_shared_def members_def
        drop_leaf_def update_conv' delete_conv' split: option.split)+

lemma remove_walk_table:
  "subs_at (remove_walk c hier (share, p)) (share', q) =
     (if share' = share \<and> q = p then drop_leaf c (subs_at hier (share, p)) else subs_at hier (share', q))"
proof (induction p arbitrary: hier q)
  case Nil
  then show ?case by (cases q) (auto simp: remove_walk_Nil subs_at_simps)
next
  case (Cons t ts)
  show ?case
  proof (cases "map_of (sh_children hier) t")
    case None
    then show ?thesis by (cases q) (auto simp: remove_walk_Cons subs_at_simps remove_leaf_empty)
  next
    case (Some b)
    have "subs_at (remove_walk c hier (share, t # ts)) (share', t' # q') =
        subs_at (if t' = t then remove_walk c b (share, ts) else child hier t') (share', q')" for t' q'
      by (simp add: remove_walk_Cons Some subs_at_simps)
    moreover have "members share' (remove_walk c hier (share, t # ts)) = members share' hier"
      by (simp add: remove_walk_Cons Some)
    ultimately show ?thesis using Cons.IH [of b] Some by (cases q) (auto simp: subs_at_simps)
  qed
qed

text \<open>
  A client without a subscription of its own in a list, and no other client with its identifier
  there: adding appends a leaf, and removing takes it away again.
\<close>

definition no_leaf :: "clients \<times> sub_request \<times> string \<Rightarrow> client \<Rightarrow> subleaf list \<Rightarrow> bool" where
  "no_leaf = (\<lambda>(cs, rq, ident) c l. c = sq_context rq \<and>
     (\<forall>leaf \<in> set l. sl_context leaf \<noteq> c \<and> client_id cs (sl_context leaf) \<noteq> Some ident))"

lemma add_leaf_fresh:
  "\<forall>leaf \<in> set l. client_id cs (sl_context leaf) \<noteq> Some ident \<Longrightarrow>
   sub__add_leaf cs c ident qos identifier options l =
     (MOSQ_ERR_SUCCESS, l @ snd (sub__add_leaf cs c ident qos identifier options []))"
  by (induction l) auto

lemma remove_leaf_append:
  "\<forall>leaf \<in> set l. sl_context leaf \<noteq> c \<Longrightarrow> sl_context x = c \<Longrightarrow> remove_leaf c (l @ [x]) = Some l"
  by (induction l) auto

lemma drop_add_leaf: "no_leaf a c l \<Longrightarrow> drop_leaf c (add_subs a l) = l"
  by (cases a) (auto simp: no_leaf_def add_subs_def drop_leaf_def add_leaf_fresh remove_leaf_append)

interpretation subs_tab: undo_table subs_at add_walk add_subs "\<lambda>_ (_, p). levels_ok p"
  remove_walk drop_leaf "\<lambda>_ _. True" no_leaf
  by unfold_locales (simp_all add: add_walk_table remove_walk_table drop_add_leaf split_paired_all)

text \<open>The tree of retained messages.\<close>

lemma retain_at_leaf: "retain_at retain_leaf path = None"
  by (cases path) simp_all

lemma retain_at_Cons:
  "retain_at hier (t # ts) =
     retain_at (case map_of (rh_children hier) t of None \<Rightarrow> retain_leaf | Some b \<Rightarrow> b) ts"
  by (simp add: retain_at_leaf split: option.split)

lemma retain_walk_table:
  "retain_at (retain_walk hier p f) q = (if q = p then f (retain_at hier p) else retain_at hier q)"
proof (induction p arbitrary: hier q)
  case Nil
  then show ?case by (cases hier; cases q) simp_all
next
  case (Cons t ts)
  obtain children retained where h: "hier = Retainhier children retained" by (cases hier)
  let ?b = "case map_of children t of None \<Rightarrow> retain_leaf | Some b \<Rightarrow> b"
  have e: "map_of (rh_children (retain_walk hier (t # ts) f)) = (map_of children)(t \<mapsto> retain_walk ?b ts f)"
    "rh_retained (retain_walk hier (t # ts) f) = retained"
    by (auto simp: h Let_def retain__add_hier_entry_def update_conv' map_of_append map_add_def
        split: option.split)
  show ?case
    by (cases q) (simp_all add: h retain_at_Cons e [unfolded h] Cons.IH del: retain_at.simps(2) retain_walk.simps(2))
qed

interpretation retain_tab: path_table retain_at "\<lambda>f hier p. retain_walk hier p f" "\<lambda>f v. f v" "\<lambda>_ _. True"
  by unfold_locales (rule retain_walk_table)

section \<open>The search\<close>

text \<open>The nodes that a search processes, in order, as their paths below the node it starts at.\<close>

definition hash_hits :: "subhier \<Rightarrow> string list list" where
  "hash_hits hier = (case map_of (sh_children hier) ''#'' of None \<Rightarrow> []
     | Some b \<Rightarrow> if sh_children b \<noteq> [] then [] else [[''#'']])"

fun hits :: "string list \<Rightarrow> subhier \<Rightarrow> string list list" where
  "hits [] hier = hash_hits hier"
| "hits (t # ts) hier =
    (let below = (\<lambda>key. case map_of (sh_children hier) key of None \<Rightarrow> []
           | Some b \<Rightarrow> map ((#) key) (hits ts b) @ (if ts = [] then [[key]] else []))
     in below t @ below ''+'' @ hash_hits hier)"

text \<open>Replacing the node at a path, and processing the nodes at some paths one after the other.\<close>

fun put_node :: "subhier \<Rightarrow> string list \<Rightarrow> subhier \<Rightarrow> subhier" where
  "put_node hier [] n = n"
| "put_node hier (t # ts) n = set_child hier t (put_node (child hier t) ts n)"

fun process_paths ::
    "acl_env \<Rightarrow> sub_msg \<Rightarrow> string list list \<Rightarrow> bool \<Rightarrow> subhier \<Rightarrow> send_state \<Rightarrow> looked res" where
  "process_paths env sm [] have hier st = Ok (None, have, st, hier)"
| "process_paths env sm (path # paths) have hier st =
    (case node_at hier path of None \<Rightarrow> Fault
     | Some n \<Rightarrow> looked_then
         (res_bind (subs__process env sm n st) (\<lambda>(rc, st, n).
            case note_rc rc have of (ret, have) \<Rightarrow> Ok (ret, have, st, put_node hier path n)))
         (process_paths env sm paths))"

lemma looked_then_simps [simp]:
  "looked_then Fault f = Fault" "looked_then (Err e) f = Err e"
  "looked_then (Ok (None, h, st, x)) f = f h x st" "looked_then (Ok (Some rc, h, st, x)) f = Ok (Some rc, h, st, x)"
  by (simp_all add: looked_then_def)

lemma looked_then_assoc: "looked_then (looked_then r f) g = looked_then r (\<lambda>h x s. looked_then (f h x s) g)"
  by (cases r) (auto simp: looked_then_def split: prod.split)

lemma process_paths_append:
  "process_paths env sm (ps @ qs) have hier st =
     looked_then (process_paths env sm ps have hier st) (process_paths env sm qs)"
proof (induction ps arbitrary: "have" hier st)
  case Nil
  then show ?case by (simp add: looked_then_def)
next
  case (Cons p ps)
  have "process_paths env sm (ps @ qs) =
      (\<lambda>h x s. looked_then (process_paths env sm ps h x s) (process_paths env sm qs))"
    using Cons.IH by (intro ext)
  then show ?case by (simp add: looked_then_assoc split: option.split)
qed

text \<open>Paths below a child are processed in the child.\<close>

lemma set_child_same: "map_of (sh_children hier) key = Some b \<Longrightarrow> set_child hier key b = hier"
  by (cases hier) (simp add: set_child_def update_triv)

lemma set_child_last [simp]: "set_child (set_child hier key b) key b' = set_child hier key b'"
  by (simp add: set_child_def)

definition in_child :: "subhier \<Rightarrow> string \<Rightarrow> looked res \<Rightarrow> looked res" where
  "in_child hier key r = res_bind r (\<lambda>(ret, have, st, b). Ok (ret, have, st, set_child hier key b))"

lemma process_paths_child:
  "map_of (sh_children hier) key = Some b \<Longrightarrow>
   process_paths env sm (map ((#) key) ps) have hier st = in_child hier key (process_paths env sm ps have b st)"
proof (induction ps arbitrary: hier b "have" st)
  case Nil
  then show ?case by (simp add: in_child_def set_child_same)
next
  case (Cons p ps)
  have IH: "process_paths env sm (map ((#) key) ps) h (set_child hier key b') st' =
      in_child hier key (process_paths env sm ps h b' st')" for h b' st'
    using Cons.IH [of "set_child hier key b'" b' h st'] by (simp add: in_child_def)
  show ?case
  proof (cases "node_at b p")
    case None
    then show ?thesis using Cons.prems by (simp add: in_child_def)
  next
    case (Some n)
    show ?thesis
    proof (cases "subs__process env sm n st")
      case (Ok r)
      obtain rc st' n' where r: "r = (rc, st', n')" by (cases r) auto
      obtain ret have' where note': "note_rc rc have = (ret, have')" by fastforce
      show ?thesis
        using Cons.prems Some Ok r note' IH [of have' "put_node b p n'" st']
        by (cases ret) (simp_all add: in_child_def)
    qed (use Some Cons.prems in \<open>simp_all add: in_child_def\<close>)
  qed
qed

text \<open>The flag of earlier subscribers only adds to the result.\<close>

lemma note_rc_have: "note_rc rc have = (fst (note_rc rc False), have \<or> snd (note_rc rc False))"
  by (simp add: note_rc_def)

lemma note_rc_error: "note_rc rc have = (Some rc', have') \<Longrightarrow> rc' = rc \<and> rc \<noteq> 0 \<and> rc \<noteq> MOSQ_ERR_NO_SUBSCRIBERS"
  by (auto simp: note_rc_def split: if_splits)

lemma process_paths_have:
  "process_paths env sm ps have hier st = res_bind (process_paths env sm ps False hier st)
     (\<lambda>(ret, h, s). Ok (ret, have \<or> h, s))"
proof (induction ps arbitrary: "have" hier st)
  case (Cons p ps)
  show ?case
  proof (cases "node_at hier p")
    case (Some n)
    show ?thesis
    proof (cases "subs__process env sm n st")
      case (Ok r)
      obtain rc st' n' where r: "r = (rc, st', n')" by (cases r) auto
      obtain ret h where n0: "note_rc rc False = (ret, h)" by fastforce
      then have n1: "note_rc rc have = (ret, have \<or> h)" using note_rc_have [of rc "have"] by simp
      have "process_paths env sm ps (have \<or> h) (put_node hier p n') st' =
          res_bind (process_paths env sm ps h (put_node hier p n') st') (\<lambda>(ret, h, s). Ok (ret, have \<or> h, s))"
        by (subst (1 2) Cons.IH) (simp add: res_bind_assoc, rule arg_cong [where f = "res_bind _"], auto)
      then show ?thesis using Some Ok r n0 n1 by (cases ret) simp_all
    qed (use Some in simp_all)
  qed simp
qed simp

lemma process_paths_error:
  "process_paths env sm ps have hier st = Ok (Some rc, h, st', hier') \<Longrightarrow>
   rc \<noteq> 0 \<and> rc \<noteq> MOSQ_ERR_NO_SUBSCRIBERS"
proof (induction ps arbitrary: "have" hier st)
  case (Cons p ps)
  then obtain n where n: "node_at hier p = Some n" by (auto split: option.splits)
  with Cons.prems obtain rc1 st1 n1 where p: "subs__process env sm n st = Ok (rc1, st1, n1)"
    by (cases "subs__process env sm n st") auto
  obtain ret have' where note': "note_rc rc1 have = (ret, have')" by fastforce
  show ?case
  proof (cases ret)
    case None
    then show ?thesis using Cons n p note' by simp
  next
    case (Some rc2)
    then show ?thesis using Cons.prems n p note' note_rc_error [of rc1 "have" rc2 have'] by simp
  qed
qed simp

text \<open>Results of a search that differ only in what a return ignores.\<close>

definition looked_norm :: "looked res \<Rightarrow> looked res" where
  "looked_norm r = res_bind r (\<lambda>(ret, have, s). Ok (ret, ret = None \<and> have, s))"

lemma looked_norm_then:
  "looked_norm r = looked_norm r' \<Longrightarrow> looked_norm (looked_then r f) = looked_norm (looked_then r' f)"
proof (cases r; cases r')
  fix x x' assume n: "looked_norm r = looked_norm r'" and r: "r = Ok x" "r' = Ok x'"
  obtain ret h st t where x: "x = (ret, h, st, t)" by (cases x) auto
  obtain ret' h' st' t' where x': "x' = (ret', h', st', t')" by (cases x') auto
  show ?thesis
    using n by (cases ret; cases ret') (simp_all add: r x x' looked_norm_def)
qed (auto simp: looked_norm_def)

lemma looked_norm_then2:
  "(\<And>h x s. looked_norm (f h x s) = looked_norm (g h x s)) \<Longrightarrow>
   looked_norm (looked_then r f) = looked_norm (looked_then r g)"
  by (cases r) (auto simp: looked_then_def)

lemma looked_norm_return: "looked_norm r = looked_norm r' \<Longrightarrow> res_bind r search_return = res_bind r' search_return"
proof -
  have "res_bind r search_return = res_bind (looked_norm r) search_return" for r
    by (cases r) (auto simp: looked_norm_def search_return_def split: option.split)
  then show "looked_norm r = looked_norm r' \<Longrightarrow> ?thesis" by metis
qed

lemma search_hash_paths: "search_hash env sm have hier st = process_paths env sm (hash_hits hier) have hier st"
proof (cases "map_of (sh_children hier) ''#''")
  case (Some b)
  show ?thesis
    by (cases "subs__process env sm b st")
      (auto simp: search_hash_def hash_hits_def Some looked_then_def split: prod.splits)
qed (simp add: search_hash_def hash_hits_def)

definition branch_hits :: "string list \<Rightarrow> subhier \<Rightarrow> string \<Rightarrow> string list list" where
  "branch_hits ts hier key = (case map_of (sh_children hier) key of None \<Rightarrow> []
     | Some b \<Rightarrow> map ((#) key) (hits ts b) @ (if ts = [] then [[key]] else []))"

lemma search_branch_paths:
  assumes "\<And>b st. search b st = res_bind (process_paths env sm (hits ts b) False b st) search_return"
  shows "looked_norm (search_branch env sm search (ts = []) key have hier st) =
    looked_norm (process_paths env sm (branch_hits ts hier key) have hier st)"
proof (cases "map_of (sh_children hier) key")
  case None
  then show ?thesis by (simp add: search_branch_def branch_hits_def)
next
  case (Some b)
  let ?r = "process_paths env sm (hits ts b) False b st"
  have "looked_norm (search_branch env sm search (ts = []) key have hier st) =
     looked_norm (looked_then (in_child hier key (process_paths env sm (hits ts b) have b st))
       (process_paths env sm (if ts = [] then [[key]] else [])))"
  proof (cases ?r)
    case (Ok x)
    obtain ret h st' b' where x: "x = (ret, h, st', b')" by (cases x) auto
    have p: "process_paths env sm (hits ts b) have b st = Ok (ret, have \<or> h, st', b')"
      by (subst process_paths_have) (simp add: Ok x)
    show ?thesis
    proof (cases ret)
      case (Some rc)
      then have "rc \<noteq> 0" "rc \<noteq> MOSQ_ERR_NO_SUBSCRIBERS" using process_paths_error Ok x by blast+
      then show ?thesis
        using Some Ok x p \<open>map_of (sh_children hier) key = Some b\<close>
        by (simp add: search_branch_def assms search_return_def note_rc_def in_child_def looked_norm_def)
    next
      case None
      then have n: "note_rc (if h then MOSQ_ERR_SUCCESS else MOSQ_ERR_NO_SUBSCRIBERS) have = (None, have \<or> h)"
        by (simp add: note_rc_def)
      show ?thesis
        using None Ok x p n \<open>map_of (sh_children hier) key = Some b\<close>
        by (cases "subs__process env sm b' st'")
          (auto simp: search_branch_def assms search_return_def in_child_def looked_then_def split: prod.splits)
    qed
  next
    case (Err e)
    then show ?thesis
      using Some process_paths_have [of env sm "hits ts b" "have" b st]
      by (simp add: search_branch_def assms in_child_def)
  next
    case Fault
    then show ?thesis
      using Some process_paths_have [of env sm "hits ts b" "have" b st]
      by (simp add: search_branch_def assms in_child_def)
  qed
  then show ?thesis by (simp add: branch_hits_def Some process_paths_append process_paths_child)
qed

text \<open>Processing a node changes no node of the tree but the order inside its share groups.\<close>

definition same_nodes :: "subhier \<Rightarrow> subhier \<Rightarrow> bool" where
  "same_nodes h h' \<longleftrightarrow> (\<forall>path. (node_at h path = None) = (node_at h' path = None))"

lemma same_nodes_refl [simp]: "same_nodes h h"
  by (simp add: same_nodes_def)

lemma same_nodes_trans: "same_nodes a b \<Longrightarrow> same_nodes b c \<Longrightarrow> same_nodes a c"
  by (simp add: same_nodes_def)

lemma same_nodes_child:
  assumes "same_nodes h h'"
  shows "map_of (sh_children h) t = None \<longleftrightarrow> map_of (sh_children h') t = None"
    and "map_of (sh_children h) t = Some b \<Longrightarrow> map_of (sh_children h') t = Some b' \<Longrightarrow> same_nodes b b'"
proof -
  have "(node_at h (t # p) = None) = (node_at h' (t # p) = None)" for p
    using assms unfolding same_nodes_def by blast
  note e = this
  show "map_of (sh_children h) t = None \<longleftrightarrow> map_of (sh_children h') t = None"
    using e [of "[]"] by (auto split: option.splits)
  show "map_of (sh_children h) t = Some b \<Longrightarrow> map_of (sh_children h') t = Some b' \<Longrightarrow> same_nodes b b'"
    using e by (simp add: same_nodes_def)
qed

lemma children_empty: "sh_children h = [] \<longleftrightarrow> (\<forall>t. map_of (sh_children h) t = None)"
  by (auto simp: map_of_eq_empty_iff [symmetric] fun_eq_iff)

lemma same_nodes_empty: "same_nodes h h' \<Longrightarrow> sh_children h = [] \<longleftrightarrow> sh_children h' = []"
  by (simp add: children_empty same_nodes_child)

lemma hash_hits_same: "same_nodes h h' \<Longrightarrow> hash_hits h' = hash_hits h"
  using same_nodes_child [of h h' "''#''"] same_nodes_empty
  by (fastforce simp: hash_hits_def split: option.split)

lemma branch_hits_same:
  assumes "same_nodes h h'" and "\<And>b b'. same_nodes b b' \<Longrightarrow> hits ts b' = hits ts b"
  shows "branch_hits ts h' key = branch_hits ts h key"
  using same_nodes_child [OF assms(1), of key] assms(2)
  by (cases "map_of (sh_children h) key"; cases "map_of (sh_children h') key")
    (simp_all add: branch_hits_def)

lemma hits_Cons: "hits (t # ts) h = branch_hits ts h t @ branch_hits ts h ''+'' @ hash_hits h"
  by (simp add: branch_hits_def Let_def)

lemma hits_same: "same_nodes h h' \<Longrightarrow> hits ts h' = hits ts h"
  by (induction ts arbitrary: h h')
    (simp_all add: hash_hits_same hits_Cons branch_hits_same del: hits.simps(2))

lemma process_children: "subs__process env sm n st = Ok (rc, st', n') \<Longrightarrow> sh_children n' = sh_children n"
  by (auto simp: subs__process_def res_bind_Ok_iff)

lemma same_nodes_put:
  "node_at h p = Some n \<Longrightarrow> sh_children n' = sh_children n \<Longrightarrow> same_nodes h (put_node h p n')"
proof (induction p arbitrary: h)
  case Nil
  then have "(node_at h path = None) = (node_at n' path = None)" for path by (cases path) auto
  then show ?case using Nil by (simp add: same_nodes_def)
next
  case (Cons t ts)
  then obtain b where b: "map_of (sh_children h) t = Some b" "node_at b ts = Some n"
    by (auto split: option.splits)
  have "same_nodes b (put_node b ts n')" using Cons.IH [OF b(2) Cons.prems(2)] .
  then have "(node_at h path = None) = (node_at (put_node h (t # ts) n') path = None)" for path
    using b(1) by (cases path) (auto simp: same_nodes_def)
  then show ?case by (simp add: same_nodes_def)
qed

lemma process_paths_same:
  "process_paths env sm ps have hier st = Ok (ret, h, st', hier') \<Longrightarrow> same_nodes hier hier'"
proof (induction ps arbitrary: "have" hier st)
  case (Cons p ps)
  then obtain n where n: "node_at hier p = Some n" by (auto split: option.splits)
  with Cons.prems obtain rc1 st1 n1 where p: "subs__process env sm n st = Ok (rc1, st1, n1)"
    by (cases "subs__process env sm n st") auto
  obtain ret1 have' where note': "note_rc rc1 have = (ret1, have')" by fastforce
  have same: "same_nodes hier (put_node hier p n1)" using same_nodes_put [OF n process_children [OF p]] .
  show ?case
  proof (cases ret1)
    case None
    then have "process_paths env sm ps have' (put_node hier p n1) st1 = Ok (ret, h, st', hier')"
      using Cons.prems n p note' by simp
    from same_nodes_trans [OF same Cons.IH [OF this]] show ?thesis .
  next
    case (Some rc2)
    then show ?thesis using Cons.prems n p note' same by simp
  qed
qed simp

lemma looked_then_cong:
  "(\<And>h x s. r = Ok (None, h, s, x) \<Longrightarrow> f h x s = g h x s) \<Longrightarrow> looked_then r f = looked_then r g"
  by (cases r) (auto simp: looked_then_def)

text \<open>The search is the loop over the nodes it hits.\<close>

lemma sub__search_paths:
  "sub__search env sm ts hier st = res_bind (process_paths env sm (hits ts hier) False hier st) search_return"
proof (induction ts arbitrary: hier st)
  case Nil
  then show ?case by (simp add: search_hash_paths)
next
  case (Cons t ts)
  let ?b = "search_branch env sm (sub__search env sm ts) (ts = [])"
  note branch = search_branch_paths [of "sub__search env sm ts", OF Cons.IH]
  have "looked_norm (looked_then (?b t False hier st) (\<lambda>h x s. looked_then (?b ''+'' h x s) (search_hash env sm))) =
      looked_norm (looked_then (process_paths env sm (branch_hits ts hier t) False hier st)
        (\<lambda>h x s. looked_then (process_paths env sm (branch_hits ts x ''+'') h x s)
           (\<lambda>h x s. process_paths env sm (hash_hits x) h x s)))"
    unfolding search_hash_paths [abs_def]
    by (rule trans [OF looked_norm_then [OF branch]]) (intro looked_norm_then2 looked_norm_then branch)
  also have "looked_then (process_paths env sm (branch_hits ts hier t) False hier st)
        (\<lambda>h x s. looked_then (process_paths env sm (branch_hits ts x ''+'') h x s)
           (\<lambda>h x s. process_paths env sm (hash_hits x) h x s)) =
      looked_then (process_paths env sm (branch_hits ts hier t) False hier st)
        (\<lambda>h x s. looked_then (process_paths env sm (branch_hits ts hier ''+'') h x s)
           (process_paths env sm (hash_hits hier)))"
  proof (intro looked_then_cong)
    fix h x s assume "process_paths env sm (branch_hits ts hier t) False hier st = Ok (None, h, s, x)"
    then have sx: "same_nodes hier x" by (rule process_paths_same)
    have "looked_then (process_paths env sm (branch_hits ts hier ''+'') h x s)
        (\<lambda>h x s. process_paths env sm (hash_hits x) h x s) =
      looked_then (process_paths env sm (branch_hits ts hier ''+'') h x s) (process_paths env sm (hash_hits hier))"
      by (intro looked_then_cong)
        (metis hash_hits_same process_paths_same same_nodes_trans sx)
    then show "looked_then (process_paths env sm (branch_hits ts x ''+'') h x s)
           (\<lambda>h x s. process_paths env sm (hash_hits x) h x s) =
        looked_then (process_paths env sm (branch_hits ts hier ''+'') h x s) (process_paths env sm (hash_hits hier))"
      using branch_hits_same [OF sx hits_same] by simp
  qed
  also have "(\<lambda>h x s. looked_then (process_paths env sm (branch_hits ts hier ''+'') h x s)
      (process_paths env sm (hash_hits hier))) = process_paths env sm (branch_hits ts hier ''+'' @ hash_hits hier)"
    by (intro ext) (rule process_paths_append [symmetric])
  also have "looked_then (process_paths env sm (branch_hits ts hier t) False hier st) \<dots> =
      process_paths env sm (hits (t # ts) hier) False hier st"
    unfolding hits_Cons by (rule process_paths_append [symmetric])
  finally show ?case unfolding sub__search.simps by (rule looked_norm_return)
qed

section \<open>The nodes that are hit\<close>

definition no_wildcards :: "string list \<Rightarrow> bool" where
  "no_wildcards ts \<longleftrightarrow> ''+'' \<notin> set ts \<and> ''#'' \<notin> set ts"

text \<open>
  A path that matches the topic and has a node in the tree; a node for \<open>#\<close> with children is
  not one, which filters that are checked never make.
\<close>

definition matching :: "subhier \<Rightarrow> string list \<Rightarrow> string list \<Rightarrow> bool" where
  "matching hier ts path \<longleftrightarrow> path \<noteq> [] \<and> level_match path ts \<and>
     (\<exists>n. node_at hier path = Some n \<and> (last path = ''#'' \<longrightarrow> sh_children n = []))"

lemma hash_hits_iff:
  "path \<in> set (hash_hits hier) \<longleftrightarrow> path = [''#''] \<and>
     (\<exists>n. node_at hier path = Some n \<and> sh_children n = [])"
  by (cases "map_of (sh_children hier) ''#''") (auto simp: hash_hits_def)

lemma level_match_Nil: "path \<noteq> [] \<Longrightarrow> level_match path [] \<longleftrightarrow> path = [''#'']"
  by (cases path) auto

lemma branch_hits_iff:
  assumes "\<And>b. path' \<in> set (hits ts b) \<longleftrightarrow> matching b ts path'" and "key \<noteq> ''#''"
  shows "key' # path' \<in> set (branch_hits ts hier key) \<longleftrightarrow> key' = key \<and>
    (\<exists>b. map_of (sh_children hier) key = Some b \<and> (matching b ts path' \<or> ts = [] \<and> path' = []))"
  using assms by (cases "map_of (sh_children hier) key") (auto simp: branch_hits_def)

lemma matching_Cons:
  assumes "key \<noteq> ''#''"
  shows "matching hier (t # ts) (key # path) \<longleftrightarrow> (key = ''+'' \<or> key = t) \<and>
    (\<exists>b. map_of (sh_children hier) key = Some b \<and> (matching b ts path \<or> ts = [] \<and> path = []))"
proof (cases path)
  case Nil
  then show ?thesis using assms by (auto simp: matching_def split: option.splits)
next
  case (Cons k p)
  then show ?thesis using assms by (auto simp: matching_def split: option.splits)
qed

lemma matching_hash:
  assumes "t \<noteq> ''#''"
  shows "matching hier (t # ts) (''#'' # path) \<longleftrightarrow> path = [] \<and>
    (\<exists>n. node_at hier [''#''] = Some n \<and> sh_children n = [])"
  using assms by (cases path) (auto simp: matching_def split: option.splits)

lemma hits_iff: "no_wildcards ts \<Longrightarrow> path \<in> set (hits ts hier) \<longleftrightarrow> matching hier ts path"
proof (induction ts arbitrary: path hier)
  case Nil
  then show ?case by (auto simp: hash_hits_iff matching_def level_match_Nil)
next
  case (Cons t ts)
  then have w: "t \<noteq> ''+''" "t \<noteq> ''#''" "no_wildcards ts" by (auto simp: no_wildcards_def)
  note IH = Cons.IH [OF w(3)]
  show ?case
  proof (cases path)
    case Nil
    then show ?thesis
      by (auto simp: hits_Cons matching_def branch_hits_def hash_hits_iff simp del: hits.simps(2) split: option.splits)
  next
    case (Cons key p)
    show ?thesis
    proof (cases "key = ''#''")
      case True
      then show ?thesis
        using w unfolding Cons hits_Cons
        by (simp add: branch_hits_iff [OF IH] hash_hits_iff matching_hash) auto
    next
      case False
      then show ?thesis
        using w unfolding Cons hits_Cons
        by (auto simp: branch_hits_iff [OF IH] hash_hits_iff matching_Cons)
    qed
  qed
qed

lemma hits_distinct: "no_wildcards ts \<Longrightarrow> distinct (hits ts hier)"
proof (induction ts arbitrary: hier)
  case Nil
  then show ?case by (simp add: hash_hits_def split: option.split)
next
  case (Cons t ts)
  then have w: "t \<noteq> ''+''" "t \<noteq> ''#''" "no_wildcards ts" by (auto simp: no_wildcards_def)
  have b: "distinct (branch_hits ts hier key)" for key
    using Cons.IH [OF w(3)] hits_iff [OF w(3)]
    by (auto simp: branch_hits_def distinct_map matching_def split: option.split)
  have k: "path \<in> set (branch_hits ts hier key) \<Longrightarrow> \<exists>p. path = key # p" for key path
    by (auto simp: branch_hits_def split: option.splits if_splits)
  have "distinct (hash_hits hier)" by (simp add: hash_hits_def split: option.split)
  moreover have h: "path \<in> set (hash_hits hier) \<Longrightarrow> path = [''#'']" for path by (simp add: hash_hits_iff)
  moreover have "set (branch_hits ts hier ''+'') \<inter> set (hash_hits hier) = {}"
    using h k [of _ "''+''"] by fastforce
  moreover have "set (branch_hits ts hier t) \<inter> (set (branch_hits ts hier ''+'') \<union> set (hash_hits hier)) = {}"
    using h k [of _ "''+''"] k [of _ t] w(1,2) by fastforce
  ultimately show ?case
    using b unfolding hits_Cons by simp
qed

text \<open>
  C22: the search for the subscribers of a message published to a topic without wildcards processes
  exactly the nodes of the tree whose path matches the levels of the topic, each of them once:
  the recursive search over literal, \<open>+\<close> and \<open>#\<close> branches is the loop over these
  nodes in the order \<open>hits\<close>, stopping at the first error, and it reports no subscribers
  when none of the nodes had any.
\<close>

theorem sub__search_visits_matching:
  assumes "no_wildcards ts"
  shows "sub__search env sm ts hier st =
      res_bind (process_paths env sm (hits ts hier) False hier st) search_return \<and>
    distinct (hits ts hier) \<and> (path \<in> set (hits ts hier) \<longleftrightarrow> matching hier ts path)"
  using sub__search_paths hits_distinct [OF assms] hits_iff [OF assms] by blast

definition sample_tree :: subhier where
  "sample_tree = Subhier [([], Subhier [(''a'', Subhier [(''#'', sub_leaf)] [] []), (''+'', sub_leaf)] [] [])] [] []"

theorem sub__search_visits_matching_witness:
  "hits [[], ''a''] sample_tree = [[[], ''a'', ''#''], [[], ''a''], [[], ''+'']] \<and>
   (\<forall>env sm st. sub__search env sm [[], ''a''] sample_tree st =
      res_bind (process_paths env sm [[[], ''a'', ''#''], [[], ''a''], [[], ''+'']] False sample_tree st) search_return) \<and>
   matching sample_tree [[], ''a''] [[], ''+'']"
proof (intro conjI allI)
  have n: "no_wildcards [[], ''a'']" by (simp add: no_wildcards_def)
  show h: "hits [[], ''a''] sample_tree = [[[], ''a'', ''#''], [[], ''a''], [[], ''+'']]"
    by (simp add: sample_tree_def hash_hits_def)
  fix env sm st
  show "sub__search env sm [[], ''a''] sample_tree st =
      res_bind (process_paths env sm [[[], ''a'', ''#''], [[], ''a''], [[], ''+'']] False sample_tree st) search_return"
    using sub__search_visits_matching [OF n, of env sm sample_tree st] unfolding h by blast
  show "matching sample_tree [[], ''a''] [[], ''+'']"
    using sub__search_visits_matching [OF n, of _ _ sample_tree _ "[[], ''+'']"] unfolding h by simp
qed

end
