(* ===== verification/Subs_Match.thy ===== *)
theory Subs_Match
  imports Subs_Correct
begin

text \<open>
  The tree of subscriptions of the whole broker: a well-formedness invariant that every operation
  of \<^verbatim>\<open>src/subs.c\<close> keeps when filters are checked before they are added; delivery
  of a published message to the nodes whose filter matches its topic, in the sense of
  \<^const>\<open>topic_matches\<close>; and subscribing followed by unsubscribing as the identity on
  what the tree holds.
\<close>

section \<open>Well-formed trees\<close>

text \<open>
  Share groups have members, subscriptions have a QoS of at most 2, names are unique, and there is
  nothing below a \<open>#\<close>.
\<close>

definition leafs_ok :: "subleaf list \<Rightarrow> bool" where
  "leafs_ok leafs \<longleftrightarrow> (\<forall>leaf \<in> set leafs. sl_qos leaf \<le> 2)"

definition node_ok :: "subhier \<Rightarrow> bool" where
  "node_ok n \<longleftrightarrow> leafs_ok (sh_subs n) \<and> (\<forall>(name, subs) \<in> set (sh_shared n). subs \<noteq> [] \<and> leafs_ok subs) \<and>
     distinct (map fst (sh_shared n)) \<and> distinct (map fst (sh_children n))"

definition tree_ok :: "subhier \<Rightarrow> bool" where
  "tree_ok hier \<longleftrightarrow> (\<forall>path n. node_at hier path = Some n \<longrightarrow>
     node_ok n \<and> (path \<noteq> [] \<and> last path = ''#'' \<longrightarrow> sh_children n = []))"

lemma tree_okD:
  assumes ok: "tree_ok hier"
  shows tree_ok_node_ok: "node_ok hier"
    and tree_ok_below: "map_of (sh_children hier) t = Some b \<Longrightarrow> tree_ok b"
    and tree_ok_below_hash: "map_of (sh_children hier) ''#'' = Some b \<Longrightarrow> sh_children b = []"
proof -
  show "node_ok hier" using ok [unfolded tree_ok_def, rule_format, of "[]"] by simp
  show "map_of (sh_children hier) ''#'' = Some b \<Longrightarrow> sh_children b = []"
    using ok [unfolded tree_ok_def, rule_format, of "[''#'']" b] by simp
  assume b: "map_of (sh_children hier) t = Some b"
  show "tree_ok b"
    unfolding tree_ok_def
  proof (intro allI impI)
    fix path n assume "node_at b path = Some n"
    then have n: "node_at hier (t # path) = Some n" using b by simp
    from ok [unfolded tree_ok_def, rule_format, OF n]
    show "node_ok n \<and> (path \<noteq> [] \<and> last path = ''#'' \<longrightarrow> sh_children n = [])" by (cases path) auto
  qed
qed

lemma tree_okI:
  assumes "node_ok hier" and "\<And>t b. map_of (sh_children hier) t = Some b \<Longrightarrow> tree_ok b"
    and "\<And>b. map_of (sh_children hier) ''#'' = Some b \<Longrightarrow> sh_children b = []"
  shows "tree_ok hier"
  unfolding tree_ok_def
proof (intro allI impI)
  fix path n assume n: "node_at hier path = Some n"
  show "node_ok n \<and> (path \<noteq> [] \<and> last path = ''#'' \<longrightarrow> sh_children n = [])"
  proof (cases path)
    case (Cons t p)
    then obtain b where b: "map_of (sh_children hier) t = Some b" "node_at b p = Some n"
      using n by (auto split: option.splits)
    note below = assms(2) [OF b(1), unfolded tree_ok_def, rule_format, OF b(2)]
    show ?thesis
    proof (cases "p = []")
      case True
      then have "n = b" using b(2) by simp
      moreover have "t = ''#'' \<Longrightarrow> sh_children b = []" using assms(3) b(1) by blast
      ultimately show ?thesis using below True unfolding Cons by simp
    qed (use below in \<open>simp add: Cons\<close>)
  qed (use assms(1) n in simp)
qed

lemma leaf_ok [simp]: "tree_ok sub_leaf"
  by (rule tree_okI) (simp_all add: node_ok_def leafs_ok_def)

lemma tree_ok_child: "tree_ok hier \<Longrightarrow> tree_ok (child hier t)"
  by (simp add: tree_ok_below split: option.split)

lemma tree_ok_hash: "tree_ok hier \<Longrightarrow> sh_children (child hier ''#'') = []"
  using tree_ok_below_hash [of hier] by (cases "map_of (sh_children hier) ''#''") (simp, fastforce)

lemma tree_ok_set_child:
  assumes "tree_ok hier" "tree_ok b" "t = ''#'' \<Longrightarrow> sh_children b = []"
  shows "tree_ok (set_child hier t b)"
proof (rule tree_okI)
  show "node_ok (set_child hier t b)"
    using tree_ok_node_ok [OF assms(1)] by (simp add: node_ok_def set_child_def distinct_update)
  show "map_of (sh_children (set_child hier t b)) t' = Some b' \<Longrightarrow> tree_ok b'" for t' b'
    using tree_ok_below [OF assms(1)] assms(2) by (auto split: if_splits)
  show "map_of (sh_children (set_child hier t b)) ''#'' = Some b' \<Longrightarrow> sh_children b' = []" for b'
    using tree_ok_below_hash [OF assms(1), of b'] assms(3) by (cases "t = ''#''") auto
qed

lemma tree_ok_delete_child:
  assumes "tree_ok hier"
  shows "tree_ok (delete_child hier t)"
proof (rule tree_okI)
  show "node_ok (delete_child hier t)"
    using tree_ok_node_ok [OF assms] by (simp add: node_ok_def delete_child_def distinct_delete)
  show "map_of (sh_children (delete_child hier t)) t' = Some b' \<Longrightarrow> tree_ok b'" for t' b'
    using tree_ok_below [OF assms] by (auto split: if_splits)
  show "map_of (sh_children (delete_child hier t)) ''#'' = Some b' \<Longrightarrow> sh_children b' = []" for b'
    using tree_ok_below_hash [OF assms, of b'] by (cases "t = ''#''") auto
qed

lemma tree_ok_node:
  "tree_ok hier \<Longrightarrow> node_ok hier' \<Longrightarrow> sh_children hier' = sh_children hier \<Longrightarrow> tree_ok hier'"
  by (rule tree_okI) (auto intro: tree_ok_below tree_ok_below_hash)

section \<open>The operations keep trees well-formed\<close>

lemma update_all:
  "list_all P (AList.update k v xs)" if "list_all P xs" "P (k, v)" for P :: "'k \<times> 'v \<Rightarrow> bool"
  using that by (induction xs) auto

lemma delete_all: "list_all P (AList.delete k xs)" if "list_all P xs" for P :: "'k \<times> 'v \<Rightarrow> bool"
  using that by (auto simp: AList.delete_eq list_all_iff)

lemma add_leaf_ok:
  "qos \<le> 2 \<Longrightarrow> leafs_ok l \<Longrightarrow> leafs_ok (snd (sub__add_leaf cs c ident qos identifier options l)) \<and>
     snd (sub__add_leaf cs c ident qos identifier options l) \<noteq> []"
  by (induction l) (auto simp: leafs_ok_def split_beta)

lemma remove_leaf_ok: "remove_leaf c l = Some l' \<Longrightarrow> leafs_ok l \<Longrightarrow> leafs_ok l'"
  by (induction l arbitrary: l') (auto simp: leafs_ok_def split: if_splits option.splits)

lemma node_ok_alt: "node_ok n \<longleftrightarrow> leafs_ok (sh_subs n) \<and> list_all (\<lambda>(name, subs). subs \<noteq> [] \<and> leafs_ok subs) (sh_shared n) \<and>
     distinct (map fst (sh_shared n)) \<and> distinct (map fst (sh_children n))"
  by (simp add: node_ok_def list_all_iff)

lemma node_ok_set_shared:
  "node_ok n \<Longrightarrow> leafs_ok subs \<Longrightarrow> node_ok (set_shared n name subs)"
  unfolding node_ok_alt set_shared_def by (simp add: update_all delete_all distinct_update distinct_delete)

lemma set_shared_children [simp]: "sh_children (set_shared n name subs) = sh_children n"
  by (simp add: set_shared_def)

lemma node_ok_subs: "node_ok n \<Longrightarrow> leafs_ok subs \<Longrightarrow> node_ok (Subhier (sh_children n) subs (sh_shared n))"
  by (simp add: node_ok_def)

lemma node_ok_members: "node_ok n \<Longrightarrow> leafs_ok (sh_subs n)"
  "node_ok n \<Longrightarrow> map_of (sh_shared n) name = Some subs \<Longrightarrow> leafs_ok subs"
  by (auto simp: node_ok_def dest: map_of_SomeD)

definition hash_last :: "string list \<Rightarrow> bool" where
  "hash_last ts \<longleftrightarrow> ''#'' \<notin> set (butlast ts)"

lemma add_end_ok:
  assumes "node_ok hier" "sq_qos rq \<le> 2"
  shows "node_ok (snd (sub_add_walk cs rq ident [] hier))"
    and "sh_children (snd (sub_add_walk cs rq ident [] hier)) = sh_children hier"
proof -
  note leaf = add_leaf_ok [OF assms(2)]
  have "leafs_ok (case map_of (sh_shared hier) name of None \<Rightarrow> [] | Some subs \<Rightarrow> subs)" for name
    using node_ok_members(2) [OF assms(1)] by (cases "map_of (sh_shared hier) name") (simp_all add: leafs_ok_def)
  then have "node_ok (snd (sub__add_shared cs rq i name hier))" for i name
    using assms leaf by (simp add: sub__add_shared_def Let_def node_ok_alt update_all distinct_update split_beta)
  moreover have "node_ok (snd (sub__add_normal cs rq i hier))" for i
    using assms leaf [OF node_ok_members(1) [OF assms(1)]] by (simp add: sub__add_normal_def node_ok_subs split_beta)
  ultimately show "node_ok (snd (sub_add_walk cs rq ident [] hier))"
    using assms by (simp split: option.split)
  show "sh_children (snd (sub_add_walk cs rq ident [] hier)) = sh_children hier"
    by (simp add: sub__add_shared_def sub__add_normal_def Let_def split: option.split prod.split)
qed

lemma sub_add_walk_ok:
  "tree_ok hier \<Longrightarrow> hash_last ts \<Longrightarrow> sq_qos rq \<le> 2 \<Longrightarrow> tree_ok (snd (sub_add_walk cs rq ident ts hier))"
proof (induction ts arbitrary: hier)
  case Nil
  then show ?case by (metis add_end_ok tree_ok_node tree_ok_node_ok)
next
  case (Cons t ts)
  have ts: "hash_last ts" "t = ''#'' \<Longrightarrow> ts = []"
    using Cons.prems(2) by (auto simp: hash_last_def split: if_splits)
  let ?b = "snd (sub_add_walk cs rq ident ts (child hier t))"
  have "tree_ok ?b" using Cons.IH [OF tree_ok_child [OF Cons.prems(1)] ts(1) Cons.prems(3)] .
  moreover have "t = ''#'' \<Longrightarrow> sh_children ?b = []"
    using ts(2) add_end_ok(2) [OF tree_ok_node_ok [OF tree_ok_child] Cons.prems(3)] tree_ok_hash Cons.prems(1) by metis
  ultimately have "tree_ok (set_child hier t ?b)" by (rule tree_ok_set_child [OF Cons.prems(1)])
  then show ?case using Cons.prems(1) by (simp add: Let_def split_beta)
qed

lemma remove_end_ok:
  assumes "node_ok hier"
  shows "node_ok (snd (snd (sub__remove_recurse c sharename [] hier)))"
    and "sh_children (snd (snd (sub__remove_recurse c sharename [] hier))) = sh_children hier"
  using assms
  by (simp_all add: sub__remove_normal_def sub__remove_shared_def split_beta Let_def split: option.split)
    (auto intro: node_ok_subs node_ok_set_shared remove_leaf_ok node_ok_members)

lemma sub__remove_recurse_ok:
  "tree_ok hier \<Longrightarrow> tree_ok (snd (snd (sub__remove_recurse c sharename ts hier))) \<and>
   (sh_children hier = [] \<longrightarrow> sh_children (snd (snd (sub__remove_recurse c sharename ts hier))) = [])"
proof (induction ts arbitrary: hier)
  case Nil
  then show ?case using remove_end_ok tree_ok_node tree_ok_node_ok by metis
next
  case (Cons t ts)
  show ?case
  proof (cases "map_of (sh_children hier) t")
    case (Some b)
    let ?b = "snd (snd (sub__remove_recurse c sharename ts b))"
    have b: "tree_ok b" using tree_ok_below [OF Cons.prems Some] .
    have "t = ''#'' \<Longrightarrow> sh_children ?b = []"
      using tree_ok_below_hash [OF Cons.prems] Some Cons.IH [OF b] by metis
    then have "tree_ok (set_child hier t ?b)"
      using Cons.IH [OF b] by (intro tree_ok_set_child [OF Cons.prems]) blast+
    then show ?thesis
      using Some tree_ok_delete_child [OF Cons.prems] by (auto simp: split_beta Let_def)
  qed (use Cons.prems in simp)
qed

lemma clean_walk_ok:
  "clean_walk c shared ts hier = Ok (removed, hier') \<Longrightarrow> tree_ok hier \<Longrightarrow>
   tree_ok hier' \<and> (sh_children hier = [] \<longrightarrow> sh_children hier' = [])"
proof (induction ts arbitrary: hier hier')
  case Nil
  then have "node_ok hier' \<and> sh_children hier' = sh_children hier"
    by (auto intro: node_ok_subs node_ok_set_shared remove_leaf_ok node_ok_members tree_ok_node_ok split: option.splits)
  then show ?case using Nil tree_ok_node by metis
next
  case (Cons t ts)
  then obtain b b' where b: "map_of (sh_children hier) t = Some b" "clean_walk c shared ts b = Ok (removed, b')"
    and h': "hier' = (if is_empty b' then delete_child hier t else set_child hier t b')"
    by (auto simp: res_bind_Ok_iff split: option.splits)
  note IH = Cons.IH [OF b(2) tree_ok_below [OF Cons.prems(2) b(1)]]
  have "t = ''#'' \<Longrightarrow> sh_children b' = []" using tree_ok_below_hash [OF Cons.prems(2)] b(1) IH by metis
  then have "tree_ok (set_child hier t b')" using IH by (intro tree_ok_set_child [OF Cons.prems(2)]) blast+
  then show ?case using h' b(1) tree_ok_delete_child [OF Cons.prems(2)] by auto
qed

lemma shared_process_groups:
  "subs__shared_process env sm shareds st = Ok (rc, st', shareds') \<Longrightarrow>
   map fst shareds' = map fst shareds \<and>
   (list_all (\<lambda>(name, subs). subs \<noteq> [] \<and> leafs_ok subs) shareds \<longrightarrow>
    list_all (\<lambda>(name, subs). subs \<noteq> [] \<and> leafs_ok subs) shareds')"
proof (induction shareds arbitrary: st rc st' shareds')
  case (Cons g shareds)
  obtain name subs where g: "g = (name, subs)" by (cases g)
  from Cons.prems g obtain leaf rest rc2 st2 rc3 s3
    where p: "subs = leaf # rest" "subs__send env sm leaf st = Ok (rc2, st2)"
      "subs__shared_process env sm shareds st2 = Ok (rc3, st', s3)" "shareds' = (name, rest @ [leaf]) # s3"
    by (auto simp: res_bind_Ok_iff split: list.splits)
  from Cons.IH [OF p(3)] show ?case by (auto simp: p g leafs_ok_def)
qed simp

lemma process_node_ok: "subs__process env sm n st = Ok (rc, st', n') \<Longrightarrow> node_ok n \<Longrightarrow> node_ok n'"
  by (auto simp: subs__process_def res_bind_Ok_iff node_ok_alt dest!: shared_process_groups)

lemma put_node_ok:
  "tree_ok h \<Longrightarrow> node_at h p = Some n \<Longrightarrow> node_ok n' \<Longrightarrow> sh_children n' = sh_children n \<Longrightarrow>
   tree_ok (put_node h p n') \<and> (sh_children h = [] \<longrightarrow> sh_children (put_node h p n') = [])"
proof (induction p arbitrary: h)
  case Nil
  then show ?case using tree_ok_node [of h n'] by simp
next
  case (Cons t ts)
  then obtain b where b: "map_of (sh_children h) t = Some b" "node_at b ts = Some n"
    by (auto split: option.splits)
  note IH = Cons.IH [OF tree_ok_below [OF Cons.prems(1) b(1)] b(2) Cons.prems(3,4)]
  have "t = ''#'' \<Longrightarrow> sh_children (put_node b ts n') = []"
    using tree_ok_below_hash [OF Cons.prems(1)] b(1) IH by metis
  then have "tree_ok (set_child h t (put_node b ts n'))"
    using IH by (intro tree_ok_set_child [OF Cons.prems(1)]) blast+
  then show ?case using b(1) by auto
qed

lemma process_paths_ok:
  "process_paths env sm ps have hier st = Ok (ret, h, st', hier') \<Longrightarrow> tree_ok hier \<Longrightarrow> tree_ok hier'"
proof (induction ps arbitrary: "have" hier st)
  case (Cons p ps)
  then obtain n where n: "node_at hier p = Some n" by (auto split: option.splits)
  with Cons.prems obtain rc1 st1 n1 where p: "subs__process env sm n st = Ok (rc1, st1, n1)"
    by (cases "subs__process env sm n st") auto
  obtain ret1 have' where note': "note_rc rc1 have = (ret1, have')" by fastforce
  have "node_ok n" using Cons.prems(2) n unfolding tree_ok_def by blast
  then have ok: "tree_ok (put_node hier p n1)"
    using put_node_ok [OF Cons.prems(2) n process_node_ok [OF p] process_children [OF p]] by blast
  show ?case
  proof (cases ret1)
    case None
    then have "process_paths env sm ps have' (put_node hier p n1) st1 = Ok (ret, h, st', hier')"
      using Cons.prems n p note' by simp
    from Cons.IH [OF this ok] show ?thesis .
  next
    case (Some rc2)
    then show ?thesis using Cons.prems n p note' ok by simp
  qed
qed simp

lemma sub__search_ok: "sub__search env sm ts hier st = Ok (rc, st', hier') \<Longrightarrow> tree_ok hier \<Longrightarrow> tree_ok hier'"
  unfolding sub__search_paths by (auto simp: res_bind_Ok_iff search_return_def intro: process_paths_ok)

section \<open>The tree of the broker\<close>

text \<open>The trees of the broker as one tree, below a node without subscriptions.\<close>

definition forest :: "broker \<Rightarrow> subhier" where
  "forest b = Subhier (bk_subs b) [] []"

lemma forest_sel [simp]:
  "sh_children (forest b) = bk_subs b" "sh_subs (forest b) = []" "sh_shared (forest b) = []"
  by (simp_all add: forest_def)

lemma forest_update: "bk_subs b' = AList.update t h (bk_subs b) \<Longrightarrow> forest b' = set_child (forest b) t h"
  by (simp add: forest_def set_child_def)

lemma forest_same: "bk_subs b' = bk_subs b \<Longrightarrow> forest b' = forest b"
  by (simp add: forest_def)

abbreviation trees_ok :: "broker \<Rightarrow> bool" where "trees_ok b \<equiv> tree_ok (forest b)"

text \<open>The tokens of filters and topics.\<close>

lemma tokenise_cases:
  assumes "sub__topic_tokenise s = Ok (ts, share)"
  obtains (shared) "s \<noteq> []" "hd (levels s) = ''$share''" "ts = [] # drop 2 (levels s)" "share = Some (levels s ! 1)"
  | (normal) "s \<noteq> []" "ts = topic_tokens s" "share = None"
  using assms sub__topic_tokenise_eq [of s]
  by (cases "s = []") (auto simp: sub__topic_tokenise_def split: if_splits)

lemma hd_levels_char: "s \<noteq> [] \<Longrightarrow> char_at s = CHR ''$'' \<Longrightarrow> \<exists>l. hd (levels s) = CHR ''$'' # l"
  by (cases s) (simp_all add: char_at_def)

lemma tokens_hd: "sub__topic_tokenise s = Ok (ts, share) \<Longrightarrow> ts \<noteq> [] \<and> hd ts \<noteq> ''#'' \<and> hd ts \<noteq> ''+''"
  by (erule tokenise_cases) (auto simp: topic_tokens_def dest!: hd_levels_char)

lemma valid_filter_hash_last: "valid_filter fs \<Longrightarrow> hash_last fs"
  by (induction fs) (auto simp: hash_last_def is_wild_def)

lemma hash_last_drop: "hash_last fs \<Longrightarrow> hash_last (drop n fs)"
proof (induction n arbitrary: fs)
  case (Suc n)
  then show ?case by (cases fs) (auto simp: hash_last_def split: if_splits)
qed simp

lemma hash_last_mount: "CHR ''#'' \<notin> set mount \<Longrightarrow> hash_last (levels s) \<Longrightarrow> hash_last (levels (mount @ s))"
proof (induction mount)
  case (Cons c mount)
  then have "hash_last (levels (mount @ s))" by simp
  moreover obtain l ls where "levels (mount @ s) = l # ls" using levels_hd_tl by blast
  ultimately show ?case using Cons.prems(1) by (auto simp: hash_last_def split: if_splits)
qed simp

lemma tokens_hash_last:
  assumes "sub__topic_tokenise s = Ok (ts, share)" and l: "hash_last (levels s)"
  shows "hash_last ts"
proof -
  have c: "hash_last ([] # l)" if "hash_last l" for l using that by (simp add: hash_last_def)
  from assms(1) show ?thesis
  proof (cases rule: tokenise_cases)
    case shared
    then show ?thesis using c [OF hash_last_drop [OF l]] by simp
  next
    case normal
    then show ?thesis using l c [OF l] by (simp add: topic_tokens_def)
  qed
qed

section \<open>Every operation keeps the trees of the broker well-formed\<close>

lemma trees_ok_set:
  "trees_ok b \<Longrightarrow> tree_ok h \<Longrightarrow> (t = ''#'' \<Longrightarrow> sh_children h = []) \<Longrightarrow> bk_subs b' = AList.update t h (bk_subs b) \<Longrightarrow>
   trees_ok b'"
  using tree_ok_set_child [of "forest b" h t] forest_update [of b' t h b] by simp

lemma trees_ok_cong: "bk_subs b' = bk_subs b \<Longrightarrow> trees_ok b' = trees_ok b"
  by (simp add: forest_def)

lemma sub__add_subs:
  assumes "sub__add b c sub qos identifier options = Ok (rc, b')"
  shows "bk_subs b' = bk_subs b \<or> (\<exists>ts share rq ident. sub__topic_tokenise sub = Ok (ts, share) \<and>
     sq_qos rq = qos \<and> bk_subs b' = AList.update (hd ts)
       (snd (sub_add_walk (bk_clients b) rq ident ts (child (forest b) (hd ts)))) (bk_subs b))"
proof (cases "sub__topic_tokenise sub")
  case (Ok x)
  obtain ts share where x: "x = (ts, share)" by (cases x)
  show ?thesis
  proof (cases "length (hd ts) > 65535 \<or> bk_clients b c = None")
    case True
    then show ?thesis using assms Ok x by (auto simp: sub__add_def split: if_splits)
  next
    case False
    then obtain ctx where c: "bk_clients b c = Some ctx" "\<not> length (hd ts) > 65535" by auto
    have "bk_subs b' = AList.update (hd ts) (snd (sub_add_walk (bk_clients b) (\<lparr> sq_context = c, sq_sub = sub,
        sq_qos = qos, sq_identifier = identifier, sq_options = options, sq_sharename = share \<rparr>) (mq_id ctx) ts
        (child (forest b) (hd ts)))) (bk_subs b)"
      using assms Ok x c by (auto simp: sub__add_def Let_def split_beta split: if_splits)
    then show ?thesis
      using Ok x by (intro disjI2 exI [of _ ts] exI [of _ share] exI [of _ "sub_request.make c sub qos identifier options share"]
          exI [of _ "mq_id ctx"]) (simp add: sub_request.defs)
  qed
qed (use assms in \<open>simp_all add: sub__add_def\<close>)

lemma sub__add_ok:
  assumes "sub__add b c sub qos identifier options = Ok (rc, b')" "trees_ok b" "hash_last (levels sub)" "qos \<le> 2"
  shows "trees_ok b'"
  using sub__add_subs [OF assms(1)]
proof (elim disjE exE conjE)
  fix ts share rq ident
  assume ts: "sub__topic_tokenise sub = Ok (ts, share)" and q: "sq_qos rq = qos" and e: "bk_subs b' = AList.update (hd ts)
    (snd (sub_add_walk (bk_clients b) rq ident ts (child (forest b) (hd ts)))) (bk_subs b)"
  show ?thesis
    by (rule trees_ok_set [OF assms(2) sub_add_walk_ok [OF tree_ok_child [OF assms(2)] tokens_hash_last [OF ts assms(3)]] _ e])
      (use tokens_hd [OF ts] q assms(4) in auto)
qed (use assms(2) trees_ok_cong in blast)

lemma count_removed_sel [simp]:
  "bk_subs (count_removed share b) = bk_subs b" "bk_clients (count_removed share b) = bk_clients b"
  by (simp_all add: count_removed_def)

lemma sub__remove_ok:
  assumes "sub__remove b c sub reason = Ok (rc, reason', b')" "trees_ok b"
  shows "trees_ok b'"
proof -
  have "bk_subs b' = bk_subs b \<or> (\<exists>ts share h. sub__topic_tokenise sub = Ok (ts, share) \<and>
      map_of (bk_subs b) (hd ts) = Some h \<and>
      bk_subs b' = AList.update (hd ts) (snd (snd (sub__remove_recurse c share ts h))) (bk_subs b))"
    using assms(1)
    by (auto simp: sub__remove_def Let_def split_beta split: res.splits option.splits if_splits prod.splits)
  then show ?thesis
  proof (elim disjE exE conjE)
    fix ts share h
    assume ts: "sub__topic_tokenise sub = Ok (ts, share)" and h: "map_of (bk_subs b) (hd ts) = Some h"
      and e: "bk_subs b' = AList.update (hd ts) (snd (snd (sub__remove_recurse c share ts h))) (bk_subs b)"
    have "tree_ok h" using tree_ok_below [OF assms(2)] h by simp
    then show ?thesis
      by (intro trees_ok_set [OF assms(2) _ _ e] sub__remove_recurse_ok [THEN conjunct1])
        (use tokens_hd [OF ts] in blast)+
  qed (use assms(2) trees_ok_cong in blast)
qed

lemma clean_session_loop_ok: "clean_session_loop c subs b = Ok b' \<Longrightarrow> trees_ok b \<Longrightarrow> trees_ok b'"
proof (induction c subs b rule: clean_session_loop.induct)
  case (3 c csub subs b)
  from "3.prems"(1) obtain first path hier removed hier' where p: "cs_hier csub = first # path"
      "map_of (bk_subs b) first = Some hier" "clean_walk c (cs_shared csub) path hier = Ok (removed, hier')"
    and r: "clean_session_loop c subs (if removed then count_removed (cs_shared csub)
        (b\<lparr>bk_subs := AList.update first hier' (bk_subs b)\<rparr>)
      else b\<lparr>bk_subs := AList.update first hier' (bk_subs b)\<rparr>) = Ok b'" (is "clean_session_loop _ _ ?b = _")
    by (auto simp: res_bind_Ok_iff Let_def split: list.splits option.splits)
  note h = clean_walk_ok [OF p(3) tree_ok_below [OF "3.prems"(2), of first, unfolded forest_sel, OF p(2)]]
  have "first = ''#'' \<Longrightarrow> sh_children hier' = []"
    using tree_ok_below_hash [OF "3.prems"(2)] p(2) h by (metis forest_sel(1))
  then have "trees_ok ?b" using h by (intro trees_ok_set [OF "3.prems"(2), of hier' first]) auto
  from "3.IH" [OF p(1,2) refl r this] show ?case .
qed simp_all

lemma sub__messages_queue_subs:
  assumes "sub__messages_queue env b source_id topic qos retain p = Ok (rc, b')"
  shows "bk_subs b' = bk_subs b \<or> (\<exists>ts share h sm st rc st' h'. sub__topic_tokenise topic = Ok (ts, share) \<and>
     map_of (bk_subs b) (hd ts) = Some h \<and> sub__search env sm ts h st = Ok (rc, st', h') \<and>
     bk_subs b' = AList.update (hd ts) h' (bk_subs b))"
proof (cases "sub__topic_tokenise topic")
  case (Ok x)
  obtain ts share where x: "x = (ts, share)" by (cases x)
  show ?thesis
  proof (cases "map_of (bk_subs b) (hd ts)")
    case None
    then show ?thesis
      using assms Ok x by (auto simp: sub__messages_queue_def Let_def res_bind_Ok_iff split: if_splits)
  next
    case (Some h)
    then obtain sm st rc st' h' where "sub__search env sm ts h st = Ok (rc, st', h')"
        "bk_subs b' = AList.update (hd ts) h' (bk_subs b)"
      using assms Ok x by (auto simp: sub__messages_queue_def Let_def res_bind_Ok_iff split: if_splits)
    then show ?thesis using Ok x Some by blast
  qed
qed (use assms in \<open>simp_all add: sub__messages_queue_def\<close>)

lemma sub__messages_queue_ok:
  assumes "sub__messages_queue env b source_id topic qos retain p = Ok (rc, b')" "trees_ok b"
  shows "trees_ok b'"
  using sub__messages_queue_subs [OF assms(1)]
proof (elim disjE exE conjE)
  fix ts share h sm st rc st' h'
  assume ts: "sub__topic_tokenise topic = Ok (ts, share)" and h: "map_of (bk_subs b) (hd ts) = Some h"
    and s: "sub__search env sm ts h st = Ok (rc, st', h')" and e: "bk_subs b' = AList.update (hd ts) h' (bk_subs b)"
  have "tree_ok h" using tree_ok_below [OF assms(2)] h by simp
  from trees_ok_set [OF assms(2) sub__search_ok [OF s this] _ e] tokens_hd [OF ts] show ?thesis by blast
qed (use assms(2) trees_ok_cong in blast)

text \<open>
  What happens to the subscriptions: subscribing with a filter that passed
  \<open>mosquitto_sub_topic_check\<close>, unsubscribing, publishing, and the end of a session.
\<close>

inductive sub_step :: "broker \<Rightarrow> broker \<Rightarrow> bool" where
  add: "cstring sub \<Longrightarrow> mosquitto_sub_topic_check (Some sub) = MOSQ_ERR_SUCCESS \<Longrightarrow> qos \<le> 2 \<Longrightarrow>
    sub__add b c sub qos identifier options = Ok (rc, b') \<Longrightarrow> sub_step b b'"
| remove: "sub__remove b c sub reason = Ok (rc, reason', b') \<Longrightarrow> sub_step b b'"
| queue: "sub__messages_queue env b source_id topic qos retain p = Ok (rc, b') \<Longrightarrow> sub_step b b'"
| clean: "sub__clean_session b c = Ok (rc, b') \<Longrightarrow> sub_step b b'"

lemma sub_step_ok: "sub_step b b' \<Longrightarrow> trees_ok b \<Longrightarrow> trees_ok b'"
proof (induction rule: sub_step.induct)
  case (add sub b c q i opts rc b')
  then show ?case by (simp add: sub__add_ok sub_topic_check_iff valid_filter_hash_last)
next
  case (clean b c rc b')
  from clean(1) obtain b1 and ctx :: mosquitto where "clean_session_loop c (mq_subs ctx) b = Ok b1" "bk_subs b' = bk_subs b1"
    by (auto simp: sub__clean_session_def res_bind_Ok_iff split: option.splits)
  then show ?case using clean_session_loop_ok [OF _ clean(2)] trees_ok_cong [of b' b1] by metis
qed (auto intro: sub__remove_ok sub__messages_queue_ok)

text \<open>The trees that \<open>db__open\<close> makes.\<close>

definition new_subs :: "(string \<times> subhier) list" where
  "new_subs = [([], sub_leaf), (''$SYS'', sub_leaf)]"

lemma new_subs_ok: "bk_subs b = new_subs \<Longrightarrow> trees_ok b"
proof (rule tree_okI)
  assume b: "bk_subs b = new_subs"
  then show "node_ok (forest b)" by (simp add: node_ok_def new_subs_def leafs_ok_def)
  show "map_of (sh_children (forest b)) t = Some h \<Longrightarrow> tree_ok h" for t h
    using b leaf_ok by (auto simp: new_subs_def split: if_splits)
  show "map_of (sh_children (forest b)) ''#'' = Some h \<Longrightarrow> sh_children h = []" for h
    using b by (simp add: new_subs_def)
qed

text \<open>
  C34: from the empty trees of a new broker on, through any sequence of subscriptions with
  checked filters, unsubscriptions, published messages and ended sessions, the trees stay
  well-formed: no share group is empty (the search dereferences its first member), no subscription has a
  QoS above 2, no level and
  no group is there twice, and no node lies below a \<open>#\<close> (the search would not find it).
\<close>

theorem subscription_trees_well_formed:
  assumes "bk_subs b0 = new_subs" "sub_step\<^sup>*\<^sup>* b0 b" "node_at (forest b) path = Some n"
  shows "(\<forall>(name, subs) \<in> set (sh_shared n). subs \<noteq> []) \<and>
     (\<forall>leaf \<in> set (concat (sh_subs n # map snd (sh_shared n))). sl_qos leaf \<le> 2) \<and> distinct (map fst (sh_shared n)) \<and>
     distinct (map fst (sh_children n)) \<and> (path \<noteq> [] \<and> last path = ''#'' \<longrightarrow> sh_children n = [])"
proof -
  have "trees_ok b" using assms(2) by (induction) (auto intro: new_subs_ok sub_step_ok assms(1))
  then have "node_ok n \<and> (path \<noteq> [] \<and> last path = ''#'' \<longrightarrow> sh_children n = [])"
    using assms(3) unfolding tree_ok_def by blast
  then show ?thesis by (auto simp: node_ok_def leafs_ok_def)
qed

section \<open>Filters and the nodes of the tree\<close>

lemma level_match_hd:
  "level_match fs ts \<Longrightarrow> fs \<noteq> [] \<Longrightarrow> hd fs \<noteq> ''+'' \<Longrightarrow> hd fs \<noteq> ''#'' \<Longrightarrow> hd fs = hd ts"
  by (cases fs; cases ts) auto

lemma level_match_empty: "fs \<noteq> [] \<Longrightarrow> level_match ([] # fs) ([] # ts) \<longleftrightarrow> level_match fs ts"
  by simp

lemma tokens_match:
  assumes "sub__topic_tokenise sub = Ok (fs, None)" "sub__topic_tokenise topic = Ok (ts, None)"
  shows "hd fs = hd ts \<and> level_match fs ts \<longleftrightarrow> topic_matches sub topic"
proof -
  have f: "sub \<noteq> []" "fs = topic_tokens sub" and t: "topic \<noteq> []" "ts = topic_tokens topic"
    using assms by (auto elim: tokenise_cases)
  have d: "\<exists>l. hd (levels s) = CHR ''$'' # l" if "s \<noteq> []" "char_at s = CHR ''$''" for s
    using hd_levels_char that by blast
  show ?thesis
  proof (cases "char_at sub = CHR ''$''"; cases "char_at topic = CHR ''$''")
    assume "char_at sub = CHR ''$''" "char_at topic = CHR ''$''"
    then show ?thesis
      using d [OF f(1)] level_match_hd [of "levels sub" "levels topic"]
      by (auto simp: f t topic_tokens_def topic_matches_def)
  qed (use d [OF f(1)] d [OF t(1)] in \<open>auto simp: f t topic_tokens_def topic_matches_def\<close>)
qed

lemma pub_check_no_wildcards:
  assumes "mosquitto_pub_topic_check (Some topic) = MOSQ_ERR_SUCCESS" "sub__topic_tokenise topic = Ok (ts, share)"
  shows "no_wildcards ts"
proof -
  have "l \<in> set (levels s) \<Longrightarrow> c \<in> set l \<Longrightarrow> c \<in> set s" for l c s
    by (induction s arbitrary: l) (auto split: if_splits, (metis levels_hd_tl levels_not_Nil list.set_intros list.sel list.set_sel)+)
  then have "x \<notin> set (levels topic)" if "x = ''+'' \<or> x = ''#''" for x
    using assms(1) that by (auto simp: pub_topic_check_iff list_ex_iff is_wild_def)
  then have "no_wildcards (levels topic)" by (simp add: no_wildcards_def)
  then show ?thesis
    using assms(2) by (elim tokenise_cases) (auto simp: no_wildcards_def topic_tokens_def dest: in_set_dropD)
qed

section \<open>Delivery\<close>

text \<open>The nodes that get a message published to a topic, as paths in the forest.\<close>

definition visited :: "broker \<Rightarrow> string \<Rightarrow> string list list" where
  "visited b topic = (case sub__topic_tokenise topic of
     Ok (ts, _) \<Rightarrow> (case map_of (bk_subs b) (hd ts) of None \<Rightarrow> [] | Some h \<Rightarrow> map ((#) (hd ts)) (hits ts h))
   | _ \<Rightarrow> [])"

lemma visited_distinct:
  "sub__topic_tokenise topic = Ok (ts, share) \<Longrightarrow> no_wildcards ts \<Longrightarrow> distinct (visited b topic)"
  by (simp add: visited_def distinct_map hits_distinct split: option.split)

lemma visited_iff:
  assumes "sub__topic_tokenise topic = Ok (ts, share)" "no_wildcards ts" "trees_ok b"
    and "node_at (forest b) (f # fs) = Some n" "fs \<noteq> []"
  shows "f # fs \<in> set (visited b topic) \<longleftrightarrow> f = hd ts \<and> level_match fs ts"
proof -
  obtain h where h: "map_of (bk_subs b) f = Some h" "node_at h fs = Some n"
    using assms(4) by (auto split: option.splits)
  have "last fs = ''#'' \<Longrightarrow> sh_children n = []"
    using assms(3,4,5) unfolding tree_ok_def by (metis last_ConsR list.distinct(1))
  then have "matching h ts fs \<longleftrightarrow> level_match fs ts" using h(2) assms(5) by (auto simp: matching_def)
  then show ?thesis
    using h assms(1) hits_iff [OF assms(2), of fs h] by (auto simp: visited_def split: option.split)
qed

text \<open>Publishing without the retain flag, as the loop over the nodes that get the message.\<close>

definition queue_to ::
    "acl_env \<Rightarrow> broker \<Rightarrow> string option \<Rightarrow> string \<Rightarrow> u8 \<Rightarrow> store_ptr \<Rightarrow> string list list \<Rightarrow> (rc \<times> broker) res" where
  "queue_to env b source_id topic qos p paths =
    res_bind (db__msg_store_ref_inc (bk_db b) p) (\<lambda>d.
    res_bind (process_paths env \<lparr> sm_source_id = source_id, sm_topic = topic, sm_qos = qos, sm_retain = False,
                sm_stored = p \<rparr> paths False (forest b) (d, bk_clients b)) (\<lambda>(ret, have, (d, cs), f).
    res_bind (db__msg_store_ref_dec d p) (\<lambda>d.
      Ok (case ret of Some rc \<Rightarrow> rc
          | None \<Rightarrow> if have \<or> map_of (bk_subs b) (if char_at topic = CHR ''$'' then hd (levels topic) else []) = None
                   then MOSQ_ERR_SUCCESS else MOSQ_ERR_NO_SUBSCRIBERS,
          b\<lparr>bk_clients := cs, bk_subs := sh_children f, bk_db := d\<rparr>))))"

lemma hd_topic_tokens: "hd (topic_tokens s) = (if char_at s = CHR ''$'' then hd (levels s) else [])"
  by (simp add: topic_tokens_def)

lemma sub__messages_queue_eq:
  assumes "sub__topic_tokenise topic = Ok (ts, None)"
  shows "sub__messages_queue env b source_id topic qos False p =
    queue_to env b source_id topic qos p (visited b topic)"
proof -
  have ts: "ts = topic_tokens topic" using assms by (auto elim: tokenise_cases)
  let ?sm = "\<lparr> sm_source_id = source_id, sm_topic = topic, sm_qos = qos, sm_retain = False, sm_stored = p \<rparr>"
  show ?thesis
  proof (cases "map_of (bk_subs b) (hd ts)")
    case None
    then show ?thesis
      using assms ts
      by (simp add: sub__messages_queue_def queue_to_def visited_def res_bind_assoc hd_topic_tokens
          del: fun_upd_apply cong: if_cong)
  next
    case (Some h)
    then have v: "visited b topic = map ((#) (hd ts)) (hits ts h)" using assms by (simp add: visited_def)
    have child: "process_paths env ?sm (visited b topic) False (forest b) st =
        in_child (forest b) (hd ts) (process_paths env ?sm (hits ts h) False h st)" for st
      unfolding v by (rule process_paths_child) (simp add: Some)
    have key: "hd ts = (if char_at topic = CHR ''$'' then hd (levels topic) else [])"
      by (simp add: ts hd_topic_tokens)
    show ?thesis
    proof (cases "db__msg_store_ref_inc (bk_db b) p")
      case (Ok d)
      show ?thesis
      proof (cases "process_paths env ?sm (hits ts h) False h (d, bk_clients b)")
        case r: (Ok x)
        obtain ret h1 d1 cs1 f1 where x: "x = (ret, h1, (d1, cs1), f1)" by (cases x) auto
        show ?thesis
          unfolding sub__messages_queue_def queue_to_def child key [symmetric]
          by (cases ret) (simp_all add: assms Some Ok r x sub__search_paths search_return_def in_child_def set_child_def)
      qed (simp_all add: sub__messages_queue_def queue_to_def child assms Some Ok sub__search_paths in_child_def)
    qed (simp_all add: sub__messages_queue_def queue_to_def assms)
  qed
qed

lemma shared_match:
  assumes "sub__topic_tokenise sub = Ok (fs, Some g)" "sub__topic_tokenise topic = Ok (ts, None)"
  shows "hd fs = hd ts \<and> level_match fs ts \<longleftrightarrow>
    char_at topic \<noteq> CHR ''$'' \<and> level_match (drop 2 (levels sub)) (levels topic)"
proof -
  have f: "fs = [] # drop 2 (levels sub)" and t: "topic \<noteq> []" "ts = topic_tokens topic"
    using assms by (auto elim: tokenise_cases)
  have "char_at topic = CHR ''$'' \<Longrightarrow> hd ts \<noteq> []" using hd_levels_char [OF t(1)] by (auto simp: t topic_tokens_def)
  then show ?thesis by (auto simp: f t topic_tokens_def)
qed

text \<open>
  C33: a message that is published without the retain flag to a checked topic goes to each node
  of the tree of subscriptions at most once, and to a node that a filter leads to exactly when
  the filter matches the topic: as \<open>mosquitto_topic_matches_sub\<close> decides it for a normal
  filter, and for \<open>$share/group/filter\<close> when the rest of the filter matches and the topic
  does not start with a dollar sign.
\<close>

theorem sub__messages_queue_delivers:
  assumes "trees_ok b" "mosquitto_pub_topic_check (Some topic) = MOSQ_ERR_SUCCESS"
    and "sub__topic_tokenise topic = Ok (ts, None)"
    and "sub__topic_tokenise sub = Ok (fs, share)" "node_at (forest b) (hd fs # fs) = Some n"
  shows "sub__messages_queue env b source_id topic qos False p =
      queue_to env b source_id topic qos p (visited b topic) \<and>
    distinct (visited b topic) \<and>
    (hd fs # fs \<in> set (visited b topic) \<longleftrightarrow>
      (if share = None then topic_matches sub topic
       else char_at topic \<noteq> CHR ''$'' \<and> level_match (drop 2 (levels sub)) (levels topic)))"
proof -
  note w = pub_check_no_wildcards [OF assms(2,3)]
  have "fs \<noteq> []" using tokens_hd [OF assms(4)] by blast
  note v = visited_iff [OF assms(3) w assms(1,5) this]
  show ?thesis
  proof (cases share)
    case None
    then show ?thesis
      using sub__messages_queue_eq [OF assms(3)] visited_distinct [OF assms(3) w] v
        tokens_match [OF assms(4) [unfolded None] assms(3)] by simp
  next
    case (Some g)
    then show ?thesis
      using sub__messages_queue_eq [OF assms(3)] visited_distinct [OF assms(3) w] v
        shared_match [OF assms(4) [unfolded Some] assms(3)] by simp
  qed
qed

section \<open>Subscribing and unsubscribing\<close>

lemma sub_add_walk_rc:
  "levels_ok ts \<Longrightarrow> fst (sub_add_walk cs rq (Some ident) ts hier) =
     fst (sub__add_leaf cs (sq_context rq) ident (sq_qos rq) (sq_identifier rq) (sq_options rq)
            (subs_at hier (sq_sharename rq, ts)))"
  by (induction ts arbitrary: hier)
    (auto simp: subs_at_simps members_def sub__add_shared_def sub__add_normal_def levels_ok_Cons Let_def split_beta
      split: option.split)

lemma sub__remove_recurse_removed:
  "fst (snd (sub__remove_recurse c share ts hier)) \<longleftrightarrow> remove_leaf c (subs_at hier (share, ts)) \<noteq> None"
proof (induction ts arbitrary: hier)
  case Nil
  then show ?case
    by (auto simp: subs_at_simps members_def sub__remove_shared_def sub__remove_normal_def split_beta split: option.split)
next
  case (Cons t ts)
  then show ?case by (simp add: subs_at_simps split_beta Let_def split: option.split)
qed

lemma free_add_client_sub:
  "\<forall>x. Some x \<in> set subs \<longrightarrow> \<not> sel x \<Longrightarrow> sel csub \<Longrightarrow>
   filter (\<lambda>x. x \<noteq> None) (free_client_sub sel (add_client_sub csub subs)) = filter (\<lambda>x. x \<noteq> None) subs"
proof (induction csub subs rule: add_client_sub.induct)
  case (2 csub subs)
  then show ?case by simp
next
  case (3 csub x subs)
  then show ?case by simp
qed simp

text \<open>The subscriptions of the broker, by share group and path.\<close>

abbreviation subscriptions :: "broker \<Rightarrow> string option \<times> string list \<Rightarrow> subleaf list" where
  "subscriptions b \<equiv> subs_at (forest b)"

lemma subscriptions_update:
  assumes "bk_subs b' = AList.update t h (bk_subs b)" "subs_at h = subs_at (child (forest b) t)"
  shows "subscriptions b' = subscriptions b"
proof
  fix key :: "string option \<times> string list"
  obtain share path where k: "key = (share, path)" by (cases key)
  show "subscriptions b' key = subscriptions b key"
    using assms(2) by (cases path)
      (auto simp: k forest_update [OF assms(1)] subs_at_simps child_set simp del: set_child_sel(1) forest_sel(1))
qed

lemma sub__add_new:
  assumes "sub__topic_tokenise sub = Ok (fs, share)" "levels_ok fs"
    and "bk_clients b c = Some ctx" "mq_id ctx = Some ident"
    and "\<forall>leaf \<in> set (subscriptions b (share, hd fs # fs)). client_id (bk_clients b) (sl_context leaf) \<noteq> Some ident"
    and "rq = \<lparr> sq_context = c, sq_sub = sub, sq_qos = qos, sq_identifier = identifier,
                sq_options = options, sq_sharename = share \<rparr>"
    and "csub = \<lparr> cs_topic_filter = sub, cs_hier = hd fs # fs, cs_shared = share \<rparr>"
  obtains b1 where "sub__add b c sub qos identifier options = Ok (MOSQ_ERR_SUCCESS, b1)"
    and "bk_subs b1 = AList.update (hd fs) (add_walk (bk_clients b, rq, ident) (child (forest b) (hd fs)) (share, fs)) (bk_subs b)"
    and "bk_clients b1 = (bk_clients b)(c \<mapsto> ctx\<lparr>mq_subs := add_client_sub csub (mq_subs ctx)\<rparr>)"
    and "bk_subscription_count b1 = bk_subscription_count b + (if share = None then 1 else 0)"
    and "bk_shared_subscription_count b1 = bk_shared_subscription_count b + (if share = None then 0 else 1)"
    and "bk_db b1 = bk_db b"
proof -
  let ?h = "child (forest b) (hd fs)"
  have fs: "fs \<noteq> []" using tokens_hd [OF assms(1)] by blast
  then have len: "\<not> length (hd fs) > 65535" using assms(2) by (cases fs) (auto simp: levels_ok_Cons)
  have "fst (sub_add_walk (bk_clients b) rq (Some ident) fs ?h) = MOSQ_ERR_SUCCESS"
    using assms(5) by (simp add: sub_add_walk_rc [OF assms(2)] add_leaf_fresh assms(6) subs_at_simps)
  moreover have "snd (sub_add_walk (bk_clients b) rq (Some ident) fs ?h) =
      add_walk (bk_clients b, rq, ident) ?h (share, fs)"
    by (simp add: add_walk_def assms(6))
  ultimately have w: "sub_add_walk (bk_clients b) rq (Some ident) fs ?h =
      (MOSQ_ERR_SUCCESS, add_walk (bk_clients b, rq, ident) ?h (share, fs))"
    by (metis prod.collapse)
  note add = sub__add_def assms(1,3,4) len w [unfolded assms(6) forest_sel(1)] sub_return_def assms(6,7) Let_def
  obtain b1 where b1: "sub__add b c sub qos identifier options = Ok (MOSQ_ERR_SUCCESS, b1)"
    by (simp add: add)
  show thesis by (rule that [OF b1]) (use b1 in \<open>auto simp: add split: if_splits\<close>)
qed

definition selects :: "string list \<Rightarrow> string option \<Rightarrow> client_sub \<Rightarrow> bool" where
  "selects fs share x \<longleftrightarrow> cs_hier x = hd fs # fs \<and> (share = None \<or> cs_shared x = share)"

lemma sub__remove_found:
  assumes "sub__topic_tokenise sub = Ok (fs, share)" "map_of (bk_subs b) (hd fs) = Some h"
    and "bk_clients b c = Some ctx" "remove_leaf c (subs_at h (share, fs)) \<noteq> None"
  obtains b2 where "sub__remove b c sub reason = Ok (MOSQ_ERR_SUCCESS, 0, b2)"
    and "bk_subs b2 = AList.update (hd fs) (remove_walk c h (share, fs)) (bk_subs b)"
    and "bk_clients b2 = (bk_clients b)(c \<mapsto> ctx\<lparr>mq_subs := free_client_sub (selects fs share) (mq_subs ctx)\<rparr>)"
    and "bk_subscription_count b2 = bk_subscription_count b - (if share = None then 1 else 0)"
    and "bk_shared_subscription_count b2 = bk_shared_subscription_count b - (if share = None then 0 else 1)"
proof -
  have "\<exists>t ts. fs = t # ts" using tokens_hd [OF assms(1)] by (cases fs) auto
  then have rc: "fst (sub__remove_recurse c share fs h) = MOSQ_ERR_SUCCESS"
    by (auto simp: split_beta Let_def split: option.split)
  have "fst (snd (sub__remove_recurse c share fs h))" using assms(4) by (simp add: sub__remove_recurse_removed)
  with rc have rec: "sub__remove_recurse c share fs h = (MOSQ_ERR_SUCCESS, True, remove_walk c h (share, fs))"
    by (simp add: remove_walk_def prod_eq_iff)
  have sel: "(\<lambda>s. cs_hier s = hd fs # fs \<and> (share = None \<or> cs_shared s = share)) = selects fs share"
    by (simp add: selects_def fun_eq_iff)
  note rem = sub__remove_def assms(1-3) rec Let_def count_removed_def sel
  obtain b2 where b2: "sub__remove b c sub reason = Ok (MOSQ_ERR_SUCCESS, 0, b2)" by (simp add: rem)
  show thesis by (rule that [OF b2]) (use b2 in \<open>auto simp: rem split: if_splits\<close>)
qed


section \<open>Samples\<close>

definition sample_broker :: broker where
  "sample_broker = \<lparr> bk_db = sample_db, bk_clients = [1 \<mapsto> sample_client], bk_subs = new_subs, bk_retains = [],
     bk_subscription_count = 0, bk_shared_subscription_count = 0, bk_retained_count = 0 \<rparr>"

lemma sample_tokens: "sub__topic_tokenise ''a/#'' = Ok ([[], ''a'', ''#''], None)"
  "sub__topic_tokenise ''$share/g/a'' = Ok ([[], ''a''], Some ''g'')" "sub__topic_tokenise ''a'' = Ok ([[], ''a''], None)"
  by (simp_all add: sub__topic_tokenise_eq topic_tokens_def char_at_def)

lemma sample_client_sel: "mq_id sample_client = Some ''c''" "mq_subs sample_client = []"
  "mq_protocol sample_client = mosq_p_mqtt311"
  by (simp_all add: sample_client_def mosquitto_zero_def)

lemmas sample_add = sub__add_def sample_tokens sample_broker_def new_subs_def sample_client_sel set_child_def
  sub__add_normal_def sub__add_shared_def sub_return_def


theorem subscription_trees_well_formed_witness:
  "\<exists>b n. sub_step\<^sup>*\<^sup>* sample_broker b \<and> node_at (forest b) [[], [], ''a'', ''#''] = Some n \<and> sh_children n = []"
proof -
  obtain b where b: "sub__add sample_broker 1 ''a/#'' 1 0 0 = Ok (0, b)"
    by (simp add: sample_add)
  obtain n where n: "node_at (forest b) [[], [], ''a'', ''#''] = Some n"
    using b by (auto simp: sample_add)
  have "sub_step sample_broker b"
    using b by (intro sub_step.add [of "''a/#''"]) (simp_all add: cstring_def mosquitto_sub_topic_check_def char_at_def word_le_nat_alt)
  then have r: "sub_step\<^sup>*\<^sup>* sample_broker b" by blast
  have "bk_subs sample_broker = new_subs" by (simp add: sample_broker_def)
  from subscription_trees_well_formed [OF this r n] r n show ?thesis by auto
qed

theorem sub__messages_queue_delivers_witness:
  "\<exists>b. sub__add sample_broker 1 ''a/#'' 1 0 0 = Ok (0, b) \<and> visited b ''a'' = [[[], [], ''a'', ''#''], [[], [], ''a'']] \<and>
     (\<forall>env. sub__messages_queue env b (Some ''p'') ''a'' 1 False 7 =
        queue_to env b (Some ''p'') ''a'' 1 7 [[[], [], ''a'', ''#''], [[], [], ''a'']]) \<and> topic_matches ''a/#'' ''a''"
proof -
  obtain b where b: "sub__add sample_broker 1 ''a/#'' 1 0 0 = Ok (0, b)"
    by (simp add: sample_add)
  obtain n where n: "node_at (forest b) (hd [[], ''a'', ''#''] # [[], ''a'', ''#'']) = Some n"
    using b by (auto simp: sample_add)
  have v: "visited b ''a'' = [[[], [], ''a'', ''#''], [[], [], ''a'']]"
    using b by (auto simp: sample_add visited_def hash_hits_def)
  have "bk_subs sample_broker = new_subs" by (simp add: sample_broker_def)
  then have ok: "trees_ok b" using sub__add_ok [OF b new_subs_ok] by (simp add: hash_last_def word_le_nat_alt)
  have p: "mosquitto_pub_topic_check (Some ''a'') = MOSQ_ERR_SUCCESS" by (simp add: mosquitto_pub_topic_check_def)
  note t = sub__messages_queue_delivers [OF ok p sample_tokens(3,1) n]
  show ?thesis using b v t [unfolded v] by auto
qed

text \<open>
  Unsubscribing from a normal subscription can free the reference that the client keeps of a
  shared one at the same node, because \<open>sub__remove_normal\<close> compares only the node: after
  subscribing to \<open>$share/g/a\<close> and to \<open>a\<close>, and unsubscribing from \<open>a\<close>, the end
  of the session leaves the client in the share group, where the next message finds it.
\<close>

lemma clean_session_forgets_shared:
  "\<exists>b1 b2 b3 b4. sub__add sample_broker 1 ''$share/g/a'' 1 0 0 = Ok (MOSQ_ERR_SUCCESS, b1) \<and>
     sub__add b1 1 ''a'' 1 0 0 = Ok (MOSQ_ERR_SUCCESS, b2) \<and> sub__remove b2 1 ''a'' 0 = Ok (MOSQ_ERR_SUCCESS, 0, b3) \<and>
     sub__clean_session b3 1 = Ok (MOSQ_ERR_SUCCESS, b4) \<and>
     map sl_context (subscriptions b4 (Some ''g'', [[], [], ''a''])) = [1]"
  by (simp add: sample_add client_id_def sub__remove_def sub__remove_normal_def is_empty_def count_removed_def
      sub__clean_session_def subs_at_def members_def delete_child_def)

end
