(* ===== verification/Handle_Publish.thy ===== *)
theory Handle_Publish
  imports Subs_Match
begin

text \<open>
  Receiving messages: topic aliases (\<^verbatim>\<open>lib/alias_mosq.c\<close>), the topic mapping of
  bridges, the message and control plugins, and the handlers of PUBLISH
  (\<^verbatim>\<open>src/handle_publish.c\<close>) and PUBREL (\<^verbatim>\<open>lib/handle_pubrel.c\<close>) in the broker
  build, with the two functions of \<^verbatim>\<open>src/database.c\<close> that go through the subscriptions.
  The handlers run for the client at an address of the broker: delivering its message may change
  the client itself. Plugins are arguments, and answer without changing the broker; a double
  \<open>free\<close> is a fault.
\<close>

section \<open>Topic aliases\<close>

fun alias__add :: "(u16 \<times> string) list \<Rightarrow> string \<Rightarrow> u16 \<Rightarrow> (u16 \<times> string) list" where
  "alias__add [] topic alias = [(alias, topic)]"
| "alias__add ((a, t) # aliases) topic alias =
    (if a = alias then (a, topic) # aliases else (a, t) # alias__add aliases topic alias)"

fun alias__find :: "(u16 \<times> string) list \<Rightarrow> u16 \<Rightarrow> string res" where
  "alias__find [] alias = Err MOSQ_ERR_INVAL"
| "alias__find ((a, t) # aliases) alias = (if a = alias then Ok t else alias__find aliases alias)"

definition alias__free_all :: "mosquitto \<Rightarrow> mosquitto" where
  "alias__free_all mosq = mosq\<lparr>mq_aliases := []\<rparr>"

section \<open>Topics from bridges\<close>

text \<open>
  The new topic. When the matcher fails the topic is freed here and, with the message, again by
  the caller; a topic that is \<open>NULL\<close> can be freed any number of times.
\<close>

fun remap_in_loop :: "bridge_topic list \<Rightarrow> string option \<Rightarrow> string option res" where
  "remap_in_loop [] topic = Ok topic"
| "remap_in_loop (cur_topic # topics) topic =
    (if (bt_direction cur_topic = bd_both \<or> bt_direction cur_topic = bd_in) \<and>
        (bt_remote_prefix cur_topic \<noteq> None \<or> bt_local_prefix cur_topic \<noteq> None) then
       (case mosquitto_topic_matches_sub (Some (bt_remote_topic cur_topic)) topic of (rc, match) \<Rightarrow>
          if rc \<noteq> 0 then (if topic = None then Err rc else Fault)
          else if match then
            (case topic of None \<Rightarrow> Fault
             | Some t \<Rightarrow>
                 let t = (case bt_remote_prefix cur_topic of None \<Rightarrow> t
                          | Some pre \<Rightarrow> if take (length pre) t = pre then drop (length pre) t else t)
                 in Ok (Some (case bt_local_prefix cur_topic of None \<Rightarrow> t | Some pre \<Rightarrow> pre @ t)))
          else remap_in_loop topics topic)
     else remap_in_loop topics topic)"

definition bridge__remap_topic_in :: "mosquitto \<Rightarrow> string option \<Rightarrow> string option res" where
  "bridge__remap_topic_in context topic =
    (case mq_bridge context of None \<Rightarrow> Ok topic
     | Some br \<Rightarrow> if br_topics br \<noteq> [] \<and> br_topic_remapping br then remap_in_loop (br_topics br) topic else Ok topic)"

section \<open>Plugins\<close>

text \<open>
  What a message plugin sees and may change; \<open>em_new_payload\<close> tells that the pointer to the
  payload is not the original one.
\<close>

record evt_message =
  em_topic :: "string option"
  em_payload :: bytes
  em_payloadlen :: u32
  em_new_payload :: bool
  em_qos :: u8
  em_retain :: bool
  em_properties :: "mosquitto_property list"

type_synonym message_fun = "mosquitto \<Rightarrow> evt_message \<Rightarrow> rc \<times> evt_message"

text \<open>A control plugin answers with a return code and a reason string.\<close>

type_synonym control_fun = "mosquitto \<Rightarrow> mosquitto_msg_store \<Rightarrow> rc \<times> string option"

record plugin_env =
  pe_acl :: acl_env
  pe_message :: "message_fun list"
  pe_listener_message :: "mosquitto \<Rightarrow> message_fun list option"
  pe_control :: "string \<Rightarrow> control_fun option"
  pe_listener_control :: "mosquitto \<Rightarrow> (string \<Rightarrow> control_fun option) option"

fun message_loop :: "message_fun list \<Rightarrow> mosquitto \<Rightarrow> rc \<Rightarrow> evt_message \<Rightarrow> rc \<times> evt_message" where
  "message_loop [] context rc ev = (rc, ev)"
| "message_loop (cb # cbs) context rc ev =
    (case cb context ev of (rc, ev) \<Rightarrow> if rc \<noteq> MOSQ_ERR_SUCCESS then (rc, ev) else message_loop cbs context rc ev)"

definition plugin__handle_message ::
    "plugin_env \<Rightarrow> config \<Rightarrow> mosquitto \<Rightarrow> mosquitto_msg_store \<Rightarrow> rc \<times> mosquitto_msg_store" where
  "plugin__handle_message env cf context stored =
    (case (if cf_per_listener_settings cf then pe_listener_message env context else Some (pe_message env)) of
       None \<Rightarrow> (MOSQ_ERR_SUCCESS, stored)
     | Some [] \<Rightarrow> (MOSQ_ERR_SUCCESS, stored)
     | Some cbs \<Rightarrow>
         (case message_loop cbs context MOSQ_ERR_SUCCESS
            \<lparr> em_topic = ms_topic stored, em_payload = ms_payload stored, em_payloadlen = ms_payloadlen stored,
              em_new_payload = False, em_qos = ms_qos stored, em_retain = ms_retain stored,
              em_properties = ms_properties stored \<rparr> of
            (rc, ev) \<Rightarrow>
              let stored = stored\<lparr>ms_topic := em_topic ev\<rparr>;
                  stored = (if em_new_payload ev
                            then stored\<lparr>ms_payload := em_payload ev, ms_payloadlen := em_payloadlen ev\<rparr> else stored)
              in (rc, stored\<lparr>ms_retain := em_retain ev, ms_properties := em_properties ev\<rparr>)))"

definition control__process ::
    "plugin_env \<Rightarrow> db \<Rightarrow> mosquitto \<Rightarrow> mosquitto_msg_store \<Rightarrow> string \<Rightarrow> (rc \<times> mosquitto) res" where
  "control__process env d context stored topic =
    (case (if cf_per_listener_settings (db_config d) then pe_listener_control env context else Some (pe_control env)) of
       None \<Rightarrow> Fault
     | Some control \<Rightarrow>
         res_bind (case control topic of None \<Rightarrow> Ok (MOSQ_ERR_SUCCESS, [])
           | Some cb \<Rightarrow>
               (case cb context stored of (rc, reason_string) \<Rightarrow>
                  if rc \<noteq> 0 \<and> mq_protocol context = mosq_p_mqtt5 \<and> reason_string \<noteq> None then
                    res_bind (mosquitto_property_add_string (Some []) MQTT_PROP_REASON_STRING reason_string)
                      (\<lambda>(_, properties). Ok (rc, case properties of None \<Rightarrow> [] | Some l \<Rightarrow> l))
                  else Ok (rc, []))) (\<lambda>(rc, properties).
         if ms_qos stored = 1 then
           res_bind (send__puback d context (ms_source_mid stored) 0 properties) (\<lambda>(rc2, context).
             Ok (if rc2 \<noteq> 0 then 1 else rc, context))
         else if ms_qos stored = 2 then
           res_bind (send__pubrec d context (ms_source_mid stored) 0 properties) (\<lambda>(rc2, context).
             Ok (if rc2 \<noteq> 0 then 1 else rc, context))
         else Ok (rc, context)))"

section \<open>Reading a PUBLISH\<close>

text \<open>
  Reading ends with a return of the handler, with a message that is acknowledged with a reason
  code but not kept (\<open>process_bad_message\<close>), or with a message, its expiry interval and
  the DUP flag.
\<close>

datatype publish_in = Refused rc | Bad u8 mosquitto_msg_store | Received mosquitto_msg_store u32 bool

abbreviation MOSQ_ERR_RETAIN_NOT_SUPPORTED :: rc where "MOSQ_ERR_RETAIN_NOT_SUPPORTED \<equiv> 28"
abbreviation MOSQ_ERR_TOPIC_ALIAS_INVALID :: rc where "MOSQ_ERR_TOPIC_ALIAS_INVALID \<equiv> 29"

definition or_malformed ::
    "'a res \<Rightarrow> mosquitto \<Rightarrow> ('a \<Rightarrow> (publish_in \<times> mosquitto) res) \<Rightarrow> (publish_in \<times> mosquitto) res" where
  "or_malformed r context k =
    (case r of Ok x \<Rightarrow> k x | Err _ \<Rightarrow> Ok (Refused MOSQ_ERR_MALFORMED_PACKET, context) | Fault \<Rightarrow> Fault)"

text \<open>The properties that stay with the message, the topic alias and the expiry interval.\<close>

fun publish_props_loop :: "mosquitto_property list \<Rightarrow> mosquitto_property list \<Rightarrow> int \<Rightarrow> u32 \<Rightarrow> mosquitto_property list \<times> int \<times> u32" where
  "publish_props_loop [] msg_properties topic_alias expiry = (msg_properties, topic_alias, expiry)"
| "publish_props_loop (p # ps) msg_properties topic_alias expiry =
    (if pr_identifier p \<in> {MQTT_PROP_CONTENT_TYPE, MQTT_PROP_CORRELATION_DATA, MQTT_PROP_PAYLOAD_FORMAT_INDICATOR,
          MQTT_PROP_RESPONSE_TOPIC, MQTT_PROP_USER_PROPERTY}
     then publish_props_loop ps (msg_properties @ [p]) topic_alias expiry
     else if pr_identifier p = MQTT_PROP_TOPIC_ALIAS
     then publish_props_loop ps msg_properties (uint (pr_i16 p)) expiry
     else if pr_identifier p = MQTT_PROP_MESSAGE_EXPIRY_INTERVAL
     then publish_props_loop ps msg_properties topic_alias (pr_i32 p)
     else publish_props_loop ps msg_properties topic_alias expiry)"

definition publish_alias :: "mosquitto \<Rightarrow> string option \<Rightarrow> int \<Rightarrow> rc + mosquitto \<times> string option" where
  "publish_alias context topic topic_alias =
    (if topic_alias = 0 \<or> (case mq_max_topic_alias context of None \<Rightarrow> False | Some maximum \<Rightarrow> topic_alias > uint maximum)
     then Inl MOSQ_ERR_TOPIC_ALIAS_INVALID
     else if topic_alias > 0 then
       (case topic of
          Some t \<Rightarrow> Inr (context\<lparr>mq_aliases := alias__add (mq_aliases context) t (word_of_int topic_alias)\<rparr>, topic)
        | None \<Rightarrow>
            (case alias__find (mq_aliases context) (word_of_int topic_alias) of
               Ok t \<Rightarrow> Inr (context, Some t) | _ \<Rightarrow> Inl MOSQ_ERR_PROTOCOL))
     else Inr (context, topic))"

text \<open>From the topic alias to the payload.\<close>

definition publish_body ::
    "config \<Rightarrow> mosquitto \<Rightarrow> mosquitto_msg_store \<Rightarrow> int \<Rightarrow> u32 \<Rightarrow> bool \<Rightarrow> (publish_in \<times> mosquitto) res" where
  "publish_body cf context msg topic_alias expiry dup =
    (case publish_alias context (ms_topic msg) topic_alias of
       Inl rc \<Rightarrow> Ok (Refused rc, context)
     | Inr (context, topic) \<Rightarrow>
         (case bridge__remap_topic_in context topic of
            Fault \<Rightarrow> Fault | Err rc \<Rightarrow> Ok (Refused rc, context)
          | Ok topic \<Rightarrow>
              if mosquitto_pub_topic_check topic \<noteq> MOSQ_ERR_SUCCESS
              then Ok (Refused MOSQ_ERR_MALFORMED_PACKET, context)
              else
                let p = mq_in_packet context;
                    msg = msg\<lparr>ms_payloadlen := pk_remaining_length p - pk_pos p, ms_topic :=
                      (case mq_mount_point context of None \<Rightarrow> topic
                       | Some mount_point \<Rightarrow> map_option ((@) mount_point) topic)\<rparr>
                in if ms_payloadlen msg = 0 then Ok (Received msg expiry dup, context)
                   else if cf_message_size_limit cf \<noteq> 0 \<and> ms_payloadlen msg > cf_message_size_limit cf
                   then Ok (Bad MQTT_RC_PACKET_TOO_LARGE msg, context)
                   else or_malformed (packet__read_bytes p (ms_payloadlen msg)) context (\<lambda>(payload, p).
                     Ok (Received (msg\<lparr>ms_payload := payload\<rparr>) expiry dup, context\<lparr>mq_in_packet := p\<rparr>))))"

definition publish_mid ::
    "mosquitto \<Rightarrow> mosquitto_msg_store \<Rightarrow> (mosquitto_msg_store \<Rightarrow> mosquitto \<Rightarrow> (publish_in \<times> mosquitto) res) \<Rightarrow>
     (publish_in \<times> mosquitto) res" where
  "publish_mid context msg k =
    (if ms_qos msg > 0 then
       or_malformed (packet__read_uint16 (mq_in_packet context)) context (\<lambda>(mid, p).
         if mid = 0 then Ok (Refused MOSQ_ERR_PROTOCOL, context\<lparr>mq_in_packet := p\<rparr>)
         else k (msg\<lparr>ms_source_mid := mid\<rparr>) (context\<lparr>mq_in_packet := p\<rparr>))
     else k msg context)"

definition publish_read :: "config \<Rightarrow> mosquitto \<Rightarrow> (publish_in \<times> mosquitto) res" where
  "publish_read cf context =
    (let header = pk_command (mq_in_packet context);
         dup = drop_bit 3 (header AND 0x08);
         msg = msg_store_zero\<lparr>ms_qos := drop_bit 1 (header AND 0x06)\<rparr>
     in if mq_state context \<noteq> mosq_cs_active then Ok (Refused MOSQ_ERR_PROTOCOL, context)
        else if dup = 1 \<and> ms_qos msg = 0 then Ok (Refused MOSQ_ERR_MALFORMED_PACKET, context)
        else if ms_qos msg = 3 then Ok (Refused MOSQ_ERR_MALFORMED_PACKET, context)
        else if ms_qos msg > mq_max_qos context then Ok (Refused MOSQ_ERR_QOS_NOT_SUPPORTED, context)
        else
          let msg = msg\<lparr>ms_retain := (header AND 0x01 \<noteq> 0)\<rparr> in
          if ms_retain msg \<and> \<not> cf_retain_available cf then Ok (Refused MOSQ_ERR_RETAIN_NOT_SUPPORTED, context)
          else or_malformed (packet__read_string (mq_in_packet context)) context (\<lambda>(topic, p).
            let context = context\<lparr>mq_in_packet := p\<rparr>;
                msg = msg\<lparr>ms_topic := (if topic = [] then None else Some (string_of_bytes topic))\<rparr>
            in if topic = [] \<and> mq_protocol context \<noteq> mosq_p_mqtt5
               then Ok (Refused MOSQ_ERR_MALFORMED_PACKET, context)
               else publish_mid context msg (\<lambda>msg context.
                 if mq_protocol context = mosq_p_mqtt5 then
                   (case property__read_all 0x30 (mq_in_packet context) of
                      Fault \<Rightarrow> Fault | Err rc \<Rightarrow> Ok (Refused rc, context)
                    | Ok (properties, p) \<Rightarrow>
                        (case publish_props_loop properties [] (- 1) 0 of (msg_properties, topic_alias, expiry) \<Rightarrow>
                           publish_body cf (context\<lparr>mq_in_packet := p\<rparr>) (msg\<lparr>ms_properties := msg_properties\<rparr>)
                             topic_alias expiry (dup = 1)))
                 else publish_body cf context msg (- 1) 0 (dup = 1))))"

section \<open>The handler of PUBLISH\<close>

definition put_client :: "broker \<Rightarrow> client \<Rightarrow> mosquitto \<Rightarrow> broker" where
  "put_client b c context = b\<lparr>bk_clients := (bk_clients b)(c \<mapsto> context)\<rparr>"

text \<open>An operation on the database and the client at an address.\<close>

definition on_client :: "broker \<Rightarrow> client \<Rightarrow> (db \<Rightarrow> mosquitto \<Rightarrow> ('a \<times> db \<times> mosquitto) res) \<Rightarrow> ('a \<times> broker) res" where
  "on_client b c f =
    (case bk_clients b c of None \<Rightarrow> Fault
     | Some context \<Rightarrow> res_bind (f (bk_db b) context) (\<lambda>(x, d, context). Ok (x, put_client (b\<lparr>bk_db := d\<rparr>) c context)))"

definition process_bad_message :: "broker \<Rightarrow> client \<Rightarrow> mosquitto_msg_store \<Rightarrow> u8 \<Rightarrow> (rc \<times> broker) res" where
  "process_bad_message b c msg reason_code =
    (if ms_qos msg = 1 then
       on_client b c (\<lambda>d context. with_db d (send__puback d context (ms_source_mid msg) reason_code []))
     else if ms_qos msg = 2 then
       on_client b c (\<lambda>d context. with_db d (send__pubrec d context (ms_source_mid msg) reason_code []))
     else if ms_qos msg = 0 then Ok (MOSQ_ERR_SUCCESS, b)
     else Ok (1, b))"

text \<open>
  What a stored message is sent on with. \<open>p\<close> is its address, \<open>dup\<close> tells that it had
  been stored before, \<open>mid\<close> is the identifier in the packet and \<open>rc\<close> the value to
  return so far.
\<close>

definition publish_send ::
    "plugin_env \<Rightarrow> broker \<Rightarrow> client \<Rightarrow> store_ptr \<Rightarrow> bool \<Rightarrow> u16 \<Rightarrow> rc \<Rightarrow> (rc \<times> broker) res" where
  "publish_send env b c p dup mid rc =
    res_bind (store_get (bk_db b) p) (\<lambda>stored.
    case bk_clients b c of None \<Rightarrow> Fault
    | Some context \<Rightarrow>
      if ms_qos stored = 0 then
        (case ms_topic stored of None \<Rightarrow> Fault
         | Some topic \<Rightarrow>
             res_bind (sub__messages_queue (pe_acl env) b (mq_id context) topic 0 (ms_retain stored) p) (\<lambda>(rc2, b).
               Ok (if rc2 > 0 then 1 else rc, b)))
      else if ms_qos stored = 1 then
        (case ms_topic stored of None \<Rightarrow> Fault
         | Some topic \<Rightarrow>
             res_bind (sub__messages_queue (pe_acl env) (put_client b c (util__decrement_receive_quota context)) (mq_id context)
                         topic 1 (ms_retain stored) p) (\<lambda>(rc2, b).
               if rc2 = MOSQ_ERR_SUCCESS \<or> mq_protocol context \<noteq> mosq_p_mqtt5 then
                 res_bind (on_client b c (\<lambda>d context. with_db d (send__puback d context mid 0 []))) (\<lambda>(rc3, b).
                   Ok (if rc3 \<noteq> 0 then 1 else rc, b))
               else if rc2 = MOSQ_ERR_NO_SUBSCRIBERS then
                 res_bind (on_client b c (\<lambda>d context. with_db d
                     (send__puback d context mid MQTT_RC_NO_MATCHING_SUBSCRIBERS []))) (\<lambda>(rc3, b).
                   Ok (if rc3 \<noteq> 0 then 1 else rc, b))
               else Ok (rc2, b)))
      else if ms_qos stored = 2 then
        res_bind (if dup then Ok (0, b)
                  else on_client b c (\<lambda>d context. db__message_insert d context (ms_source_mid stored) mosq_md_in
                         (ms_qos stored) (ms_retain stored) p [] False)) (\<lambda>(res, b).
          if res = 0 then
            res_bind (on_client b c (\<lambda>d context. with_db d (send__pubrec d context (ms_source_mid stored) 0 [])))
              (\<lambda>(rc3, b). Ok (if rc3 \<noteq> 0 then 1 else rc, b))
          else Ok (if res = 1 then 1 else rc, b))
      else Ok (rc, b))"

text \<open>A message with the identifier of a stored message, but which is not the same message.\<close>

definition reused_mid :: "mosquitto_msg_store \<Rightarrow> mosquitto_msg_store \<Rightarrow> bool" where
  "reused_mid stored msg \<longleftrightarrow> ms_source_mid msg \<noteq> 0 \<and>
     (ms_qos stored \<noteq> ms_qos msg \<or> ms_payloadlen stored \<noteq> ms_payloadlen msg \<or>
      ms_topic stored \<noteq> ms_topic msg \<or>
      take (unat (ms_payloadlen msg)) (ms_payload stored) \<noteq> take (unat (ms_payloadlen msg)) (ms_payload msg))"

text \<open>Looking for the message among those that were received before.\<close>

definition publish_find :: "broker \<Rightarrow> client \<Rightarrow> mosquitto_msg_store \<Rightarrow> (store_ptr option \<times> broker) res" where
  "publish_find b c msg =
    (if ms_qos msg = 0 then Ok (None, b)
     else
       on_client b c (\<lambda>d context.
         res_bind (db__message_store_find d context (ms_source_mid msg)) (\<lambda>(_, found).
         case found of None \<Rightarrow> Ok (None, d, context)
         | Some p \<Rightarrow>
             res_bind (store_get d p) (\<lambda>stored.
             if reused_mid stored msg then
               res_bind (db__message_remove_incoming d context (ms_source_mid msg)) (\<lambda>(_, d, context). Ok (None, d, context))
             else Ok (Some p, d, context)))))"

definition publish_keep ::
    "plugin_env \<Rightarrow> broker \<Rightarrow> client \<Rightarrow> mosquitto_msg_store \<Rightarrow> u32 \<Rightarrow> (rc \<times> broker) res" where
  "publish_keep env b c msg expiry =
    res_bind (publish_find b c msg) (\<lambda>(found, b).
    case bk_clients b c of None \<Rightarrow> Fault
    | Some context \<Rightarrow>
      let finish = (\<lambda>(rc, b). res_bind (on_client b c (\<lambda>d context. with_db d (db__message_write_queued_in d context)))
                                (\<lambda>(_, b). Ok (rc, b)))
      in case found of
        Some p \<Rightarrow> res_bind (publish_send env b c p True (ms_source_mid msg) 0) finish
      | None \<Rightarrow>
          if ms_qos msg = 0 \<or> db__ready_for_flight (bk_db b) context mosq_md_in (ms_qos msg) \<or>
             db__ready_for_queue (bk_db b) context (ms_qos msg) (mq_msgs_in context) then
            (case db__message_store (bk_db b) (Some context) msg expiry 0 mosq_mo_client of (p, d) \<Rightarrow>
               res_bind (publish_send env (b\<lparr>bk_db := d\<rparr>) c p False (ms_source_mid msg) 0) finish)
          else process_bad_message b c msg MQTT_RC_QUOTA_EXCEEDED)"

definition publish_received ::
    "plugin_env \<Rightarrow> broker \<Rightarrow> client \<Rightarrow> mosquitto \<Rightarrow> mosquitto_msg_store \<Rightarrow> u32 \<Rightarrow> (rc \<times> broker) res" where
  "publish_received env b c context msg expiry =
    (case ms_topic msg of None \<Rightarrow> Fault
     | Some topic \<Rightarrow>
       let rc = mosquitto_acl_check (pe_acl env) (db_config (bk_db b)) context topic (ms_payloadlen msg) (ms_payload msg)
                  (ms_qos msg) (ms_retain msg) MOSQ_ACL_WRITE
       in if rc = MOSQ_ERR_ACL_DENIED then process_bad_message b c msg MQTT_RC_NOT_AUTHORIZED
          else if rc \<noteq> MOSQ_ERR_SUCCESS then Ok (rc, b)
          else if take 9 topic = ''$CONTROL/'' then
            on_client b c (\<lambda>d context. with_db d (control__process env d context msg topic))
          else
            (case plugin__handle_message env (db_config (bk_db b)) context msg of (rc, msg) \<Rightarrow>
               if rc = MOSQ_ERR_ACL_DENIED then process_bad_message b c msg MQTT_RC_NOT_AUTHORIZED
               else if rc \<noteq> MOSQ_ERR_SUCCESS then Ok (rc, b)
               else publish_keep env b c msg expiry))"

definition handle__publish :: "plugin_env \<Rightarrow> broker \<Rightarrow> client \<Rightarrow> (rc \<times> broker) res" where
  "handle__publish env b c =
    (case bk_clients b c of None \<Rightarrow> Fault
     | Some context \<Rightarrow>
         res_bind (publish_read (db_config (bk_db b)) context) (\<lambda>(r, context).
           let b = put_client b c context in
           case r of Refused rc \<Rightarrow> Ok (rc, b)
           | Bad reason_code msg \<Rightarrow> process_bad_message b c msg reason_code
           | Received msg expiry dup \<Rightarrow> publish_received env b c context msg expiry))"

section \<open>Messages of the broker itself\<close>

text \<open>\<open>context\<close> is the client in whose name the message is sent, if there is one.\<close>

definition db__messages_easy_queue ::
    "acl_env \<Rightarrow> broker \<Rightarrow> mosquitto option \<Rightarrow> string option \<Rightarrow> u8 \<Rightarrow> u32 \<Rightarrow> bytes \<Rightarrow> bool \<Rightarrow> u32 \<Rightarrow>
     mosquitto_property list \<Rightarrow> (rc \<times> broker) res" where
  "db__messages_easy_queue env b context topic qos payloadlen payload retain message_expiry_interval properties =
    (case topic of None \<Rightarrow> Ok (MOSQ_ERR_INVAL, b)
     | Some topic \<Rightarrow>
       if unat payloadlen > length payload then Fault
       else
         let stored = msg_store_zero\<lparr>ms_topic := Some topic, ms_qos := qos,
               ms_retain := (if cf_retain_available (db_config (bk_db b)) then retain else False),
               ms_payloadlen := payloadlen, ms_payload := take (unat payloadlen) payload, ms_properties := properties\<rparr>;
             source_id = (case context of None \<Rightarrow> [] | Some s \<Rightarrow> (case mq_id s of None \<Rightarrow> [] | Some i \<Rightarrow> i));
             origin = (if context = None then mosq_mo_broker else mosq_mo_client);
             (p, d) = db__message_store (bk_db b) context stored message_expiry_interval 0 origin
         in sub__messages_queue env (b\<lparr>bk_db := d\<rparr>) (Some source_id) topic qos (ms_retain stored) p)"

section \<open>PUBREL\<close>

text \<open>
  The loop over the messages in flight, which goes on behind a message that it has removed:
  \<open>before\<close> are the messages it has passed. \<open>Inl\<close> is a return.
\<close>

fun release_loop ::
    "acl_env \<Rightarrow> client \<Rightarrow> u16 \<Rightarrow> mosquitto_client_msg list \<Rightarrow> mosquitto_client_msg list \<Rightarrow> bool \<Rightarrow> broker \<Rightarrow>
     ((rc + bool) \<times> broker) res" where
  "release_loop env c mid before [] deleted b = Ok (Inr deleted, b)"
| "release_loop env c mid before (tail # tmp) deleted b =
    (if cm_mid tail = mid then
       res_bind (store_get (bk_db b) (cm_store tail)) (\<lambda>store.
       if ms_qos store \<noteq> 2 then Ok (Inl MOSQ_ERR_PROTOCOL, b)
       else
         res_bind (case ms_topic store of None \<Rightarrow> Ok (MOSQ_ERR_SUCCESS, b)
                   | Some topic \<Rightarrow> sub__messages_queue env b (Some (ms_source_id store)) topic 2 (cm_retain tail) (cm_store tail))
           (\<lambda>(rc, b).
         if rc = MOSQ_ERR_SUCCESS \<or> rc = MOSQ_ERR_NO_SUBSCRIBERS then
           res_bind (on_client b c (\<lambda>d context.
               res_bind (db__message_remove d (mq_msgs_in context) before tail tmp) (\<lambda>(d, md).
                 Ok ((), d, context\<lparr>mq_msgs_in := md\<rparr>)))) (\<lambda>(_, b).
             release_loop env c mid before tmp True b)
         else Ok (Inl 1, b)))
     else release_loop env c mid (before @ [tail]) tmp deleted b)"

fun release_queued_loop ::
    "db \<Rightarrow> int \<Rightarrow> mosquitto_client_msg list \<Rightarrow> mosquitto_client_msg list \<Rightarrow> mosquitto \<Rightarrow> mosquitto res" where
  "release_queued_loop d msg_index before [] context = Ok context"
| "release_queued_loop d msg_index before (tail # tmp) context =
    (if md_inflight_maximum (mq_msgs_in context) \<noteq> 0 \<and> msg_index \<ge> uint (md_inflight_maximum (mq_msgs_in context))
     then Ok context
     else
       let tail = tail\<lparr>cm_timestamp := db_now_s d\<rparr>;
           context = context\<lparr>mq_msgs_in := (mq_msgs_in context)\<lparr>md_queued := before @ tail # tmp\<rparr>\<rparr>
       in if cm_qos tail = 2 then
            res_bind (send__pubrec d context (cm_mid tail) 0 []) (\<lambda>(_, context).
            res_bind (db__message_dequeue_first ((mq_msgs_in context)
                \<lparr>md_queued := before @ tail\<lparr>cm_state := mosq_ms_wait_for_pubrel\<rparr> # tmp\<rparr>)) (\<lambda>md.
              release_queued_loop d (msg_index + 1) (in_front (md_queued md) tmp) tmp (context\<lparr>mq_msgs_in := md\<rparr>)))
          else release_queued_loop d (msg_index + 1) (before @ [tail]) tmp context)"

definition db__message_release_incoming :: "acl_env \<Rightarrow> broker \<Rightarrow> client \<Rightarrow> u16 \<Rightarrow> (rc \<times> broker) res" where
  "db__message_release_incoming env b c mid =
    (case bk_clients b c of None \<Rightarrow> Fault
     | Some context \<Rightarrow>
         let inflight = md_inflight (mq_msgs_in context) in
         res_bind (release_loop env c mid [] inflight False b) (\<lambda>(r, b).
         case r of Inl rc \<Rightarrow> Ok (rc, b)
         | Inr deleted \<Rightarrow>
             res_bind (on_client b c (\<lambda>d context.
                 res_bind (release_queued_loop d (int (length inflight)) [] (md_queued (mq_msgs_in context)) context)
                   (\<lambda>context. Ok ((), d, context)))) (\<lambda>(_, b).
               Ok (if deleted then MOSQ_ERR_SUCCESS else MOSQ_ERR_NOT_FOUND, b))))"

text \<open>Reading the packet: the return code of an error, or the identifier.\<close>

definition pubrel_read :: "db \<Rightarrow> mosquitto \<Rightarrow> ((rc + u16) \<times> db \<times> mosquitto) res" where
  "pubrel_read d mosq =
    (case packet__read_uint16 (mq_in_packet mosq) of Fault \<Rightarrow> Fault | Err rc \<Rightarrow> Ok (Inl rc, d, mosq)
     | Ok (mid, p) \<Rightarrow>
         let mosq = mosq\<lparr>mq_in_packet := p\<rparr> in
         if mid = 0 then Ok (Inl MOSQ_ERR_PROTOCOL, d, mosq)
         else
           res_bind (read_reason_first 0x60 (\<lambda>r. r = 0 \<or> r = 146) d mosq (\<lambda>_ mosq.
               if \<not> all_read mosq then Ok (MOSQ_ERR_MALFORMED_PACKET, d, mosq) else Ok (MOSQ_ERR_SUCCESS, d, mosq)))
             (\<lambda>(rc, d, mosq). Ok (if rc = MOSQ_ERR_SUCCESS then Inr mid else Inl rc, d, mosq)))"

definition handle__pubrel :: "acl_env \<Rightarrow> broker \<Rightarrow> client \<Rightarrow> (rc \<times> broker) res" where
  "handle__pubrel env b c =
    (case bk_clients b c of None \<Rightarrow> Fault
     | Some mosq \<Rightarrow>
         if mosquitto__get_state mosq \<noteq> mosq_cs_active then Ok (MOSQ_ERR_PROTOCOL, b)
         else if mq_protocol mosq \<noteq> mosq_p_mqtt31 \<and> pk_command (mq_in_packet mosq) \<noteq> 0x62
         then Ok (MOSQ_ERR_MALFORMED_PACKET, b)
         else if mq_protocol mosq \<noteq> mosq_p_mqtt31 \<and> pk_command (mq_in_packet mosq) AND 0x0F \<noteq> 0x02
         then Ok (MOSQ_ERR_PROTOCOL, b)
         else
           res_bind (on_client b c pubrel_read) (\<lambda>(r, b).
           case r of Inl rc \<Rightarrow> Ok (rc, b)
           | Inr mid \<Rightarrow>
               res_bind (db__message_release_incoming env b c mid) (\<lambda>(rc, b).
               if rc \<noteq> MOSQ_ERR_NOT_FOUND \<and> rc \<noteq> MOSQ_ERR_SUCCESS then Ok (rc, b)
               else
                 res_bind (on_client b c (\<lambda>d mosq. with_db d (send__pubcomp d mosq mid []))) (\<lambda>(rc, b).
                   Ok (if rc \<noteq> 0 then rc else MOSQ_ERR_SUCCESS, b)))))"

end
