(* ===== verification/Publish_Roundtrip.thy ===== *)
theory Publish_Roundtrip
  imports Handle_Publish
begin

text \<open>
  The reading half of the handler of PUBLISH and the writing of PUBLISH agree: the packet that
  \<open>send__real_publish\<close> makes of a message is read by \<open>handle__publish\<close> as the same message.
\<close>

section \<open>The command byte\<close>

lemma publish_qos_cases:
  fixes qos :: u8
  assumes "qos \<le> 2"
  obtains "qos = 0" | "qos = 1" | "qos = 2"
proof -
  have "unat qos \<le> 2" using assms by (simp add: word_le_nat_alt)
  then have "unat qos = 0 \<or> unat qos = 1 \<or> unat qos = 2" by linarith
  then have "qos = 0 \<or> qos = 1 \<or> qos = 2" by (simp add: word_unat_eq_iff)
  then show thesis using that by blast
qed

lemma publish_command_bits:
  assumes "qos \<le> 2"
  shows "drop_bit 3 (publish_command qos retain dup AND 0x08) = (if dup then 1 else 0)"
    "drop_bit 1 (publish_command qos retain dup AND 0x06) = qos"
    "publish_command qos retain dup AND 0x01 \<noteq> 0 \<longleftrightarrow> retain"
  using assms by (cases rule: publish_qos_cases; simp add: publish_command_def)+

section \<open>Properties\<close>

definition message_prop :: "mosquitto_property \<Rightarrow> bool" where
  "message_prop p \<longleftrightarrow> pr_identifier p \<in> {MQTT_PROP_CONTENT_TYPE, MQTT_PROP_CORRELATION_DATA,
     MQTT_PROP_PAYLOAD_FORMAT_INDICATOR, MQTT_PROP_RESPONSE_TOPIC, MQTT_PROP_USER_PROPERTY}"

lemma props_loop_message:
  "list_all message_prop ps \<Longrightarrow> publish_props_loop (ps @ qs) acc a e = publish_props_loop qs (acc @ ps) a e"
  by (induction ps arbitrary: acc) (auto simp: message_prop_def)

lemma props_loop_ident:
  "list_all (\<lambda>p. pr_identifier p = MQTT_PROP_SUBSCRIPTION_IDENTIFIER) ps \<Longrightarrow>
   publish_props_loop (ps @ qs) acc a e = publish_props_loop qs acc a e"
  by (induction ps) auto

lemma props_loop_publish:
  assumes "list_all (\<lambda>p. pr_identifier p = MQTT_PROP_SUBSCRIPTION_IDENTIFIER) cmsg" "list_all message_prop store"
  shows "publish_props_loop (publish_props cmsg store ex) [] (- 1) 0 = (store, - 1, ex)"
proof -
  have "publish_props_loop (if ex > 0 then [expiry_property ex] else []) store (- 1) 0 = (store, - 1, ex)"
    by (auto simp: expiry_property_def word_gt_0)
  then show ?thesis
    using props_loop_ident [OF assms(1)] props_loop_message [OF assms(2), of _ "[]"] by (simp add: publish_props_def)
qed

section \<open>Reading the packet\<close>

lemma publish_body_received:
  assumes "mq_mount_point m = None" "mq_bridge m = None" "in_wf (mq_in_packet m)" "rest (mq_in_packet m) = pl"
    and "ms_topic msg = Some topic" "mosquitto_pub_topic_check (Some topic) = MOSQ_ERR_SUCCESS" "ms_payload msg = []"
    and "cf_message_size_limit cf = 0 \<or> length pl \<le> unat (cf_message_size_limit cf)"
  shows "publish_body cf m msg (- 1) expiry dup = Ok (Received (msg\<lparr>ms_payloadlen := of_nat (length pl), ms_payload := pl\<rparr>) expiry dup,
    m\<lparr>mq_in_packet := adv (mq_in_packet m) (length pl)\<rparr>)"
proof -
  let ?p = "mq_in_packet m"
  have n: "unat (pk_remaining_length ?p - pk_pos ?p) = length pl"
    using in_wf_pos [OF assms(3)] assms(4) by (simp add: unat_sub word_le_nat_alt)
  then have w: "pk_remaining_length ?p - pk_pos ?p = of_nat (length pl)" by (simp only: flip: n) simp
  have al: "publish_alias m (Some topic) (- 1) = Inr (m, Some topic)"
  proof -
    have "0 \<le> uint x" for x :: u16 by simp
    then have "\<not> uint x < - 1" for x :: u16 by (simp only: not_less) (rule order_trans [of _ 0], simp)
    then show ?thesis by (auto simp: publish_alias_def split: option.split)
  qed
  have remap: "bridge__remap_topic_in m (Some topic) = Ok (Some topic)" by (simp add: bridge__remap_topic_in_def assms(2))
  have "\<not> pk_pos ?p + of_nat (length pl) > pk_remaining_length ?p" by (simp flip: w)
  moreover have "unat (of_nat (length pl) :: u32) = length pl" using n by (simp only: w)
  ultimately have read: "packet__read_bytes ?p (of_nat (length pl)) = Ok (pl, adv ?p (length pl))"
    using pk_copy_out_rest [OF assms(3), of "of_nat (length pl)"] assms(4) by (simp add: packet__read_bytes_def)
  show ?thesis
  proof (cases "length pl = 0")
    case True
    then have "pk_remaining_length ?p = pk_pos ?p" using w by simp
    moreover have "msg\<lparr>ms_payloadlen := 0, ms_topic := Some topic\<rparr> = msg\<lparr>ms_payloadlen := 0, ms_payload := []\<rparr>"
      using assms(5,7) by (cases msg) simp
    ultimately show ?thesis
      using al remap assms(1,5,6) True by (simp add: publish_body_def)
  next
    case False
    have "of_nat (length pl) \<noteq> (0 :: u32)" using n False by (metis unat_0 w)
    moreover have "\<not> (cf_message_size_limit cf \<noteq> 0 \<and> of_nat (length pl) > cf_message_size_limit cf)"
      using assms(8) n by (auto simp: word_less_nat_alt w)
    moreover have "pk_remaining_length ?p \<noteq> pk_pos ?p" using w calculation(1) by auto
    moreover have "msg\<lparr>ms_payloadlen := n, ms_topic := Some topic, ms_payload := pl\<rparr> = msg\<lparr>ms_payloadlen := n, ms_payload := pl\<rparr>" for n
      using assms(5) by (cases msg) simp
    ultimately show ?thesis
      using al remap assms(1,5,6) read by (simp add: publish_body_def Let_def w or_malformed_def del: de_Morgan_conj)
  qed
qed

text \<open>
  C23: a PUBLISH that is read is the one that was sent. For every packet with the bytes that
  \<open>send__real_publish\<close> puts on the wire (\<open>send__real_publish_bytes\<close>) for a topic
  without wildcards, a QoS that the client may use, a message identifier, properties and a payload
  of any length, reading gives back the topic, the QoS, the retain and DUP flags, the identifier,
  the payload, the properties of the message without the subscription identifiers, and the
  remaining expiry interval, and has read the packet to its end.
\<close>

theorem publish_read_back:
  fixes topic :: string
  defines "msg \<equiv> \<lambda>qos mid retain props pl. msg_store_zero\<lparr>ms_qos := qos, ms_retain := retain, ms_topic := Some topic,
      ms_source_mid := (if qos > 0 then mid else 0), ms_properties := props,
      ms_payloadlen := of_nat (length pl), ms_payload := pl\<rparr>"
  assumes p: "in_wf (mq_in_packet m)" "pk_command (mq_in_packet m) = publish_command qos retain dup"
      "rest (mq_in_packet m) = publish_var_header topic qos mid (mq_protocol m = mosq_p_mqtt5) (publish_props cmsg store ex) @ pl"
    and t: "topic \<noteq> []" "length topic < 65536" "valid_utf8 (bytes_of_string topic)"
      "mosquitto_pub_topic_check (Some topic) = MOSQ_ERR_SUCCESS"
    and q: "qos \<le> 2" "qos \<le> mq_max_qos m" "qos = 0 \<Longrightarrow> \<not> dup" "qos \<noteq> 0 \<Longrightarrow> mid \<noteq> 0" "retain \<Longrightarrow> cf_retain_available cf"
    and m: "mq_state m = mosq_cs_active" "mq_mount_point m = None" "mq_bridge m = None"
    and ps: "list_all (\<lambda>p. pr_identifier p = MQTT_PROP_SUBSCRIPTION_IDENTIFIER) cmsg" "list_all message_prop store"
      "\<forall>pr \<in> set (publish_props cmsg store ex). readable_prop pr"
      "mosquitto_property_check_all 0x30 (publish_props cmsg store ex) = MOSQ_ERR_SUCCESS"
      "length (enc_property_list (publish_props cmsg store ex)) < 268435456"
    and l: "cf_message_size_limit cf = 0 \<or> length pl \<le> unat (cf_message_size_limit cf)"
  shows "publish_read cf m = Ok (Received
      (msg qos mid retain (if mq_protocol m = mosq_p_mqtt5 then store else []) pl)
      (if mq_protocol m = mosq_p_mqtt5 then ex else 0) dup,
    m\<lparr>mq_in_packet := adv (mq_in_packet m) (length (rest (mq_in_packet m)))\<rparr>)"
proof -
  let ?p = "mq_in_packet m" and ?tb = "bytes_of_string topic" and ?ps = "publish_props cmsg store ex"
  let ?mid = "if qos > 0 then enc_u16 mid else []"
  let ?pr = "if mq_protocol m = mosq_p_mqtt5 then enc_properties ?ps else []"
  have r: "rest ?p = enc_binary ?tb @ ?mid @ ?pr @ pl" using p(3) by (simp add: publish_var_header_def)
  have tb: "length ?tb < 65536" "?tb \<noteq> []" "string_of_bytes ?tb = topic"
    using t by (simp_all add: bytes_of_string_def) (simp add: string_of_bytes_def comp_def)
  define p1 where "p1 = adv ?p (length (enc_binary ?tb))"
  define p2 where "p2 = adv p1 (length ?mid)"
  define p3 where "p3 = adv p2 (length ?pr)"
  note w1 = adv_append [OF p(1) r, folded p1_def]
  note w2 = adv_append [OF w1, folded p2_def]
  note w3 = adv_append [OF w2, folded p3_def]
  have 1: "packet__read_string ?p = Ok (?tb, p1)"
    using string_codec.reads_encoding [OF _ p(1) r] tb t(3) by (simp add: p1_def)
  have 2: "packet__read_uint16 p1 = Ok (mid, p2)" if "qos > 0"
    using u16_codec.reads_encoding [OF _ w1(1), of mid "?pr @ pl"] w1(2) that by (simp add: p2_def)
  have 3: "property__read_all 0x30 p2 = Ok (?ps, p3)" if "mq_protocol m = mosq_p_mqtt5"
    using property__read_all_Ok [OF w2(1), of "0x30" ?ps p3] w2(2) ps(3-5) that by (simp add: p3_def)
  have no: "\<not> qos > 0 \<Longrightarrow> p2 = p1" "mq_protocol m \<noteq> mosq_p_mqtt5 \<Longrightarrow> p3 = p2" by (simp_all add: p2_def p3_def)
  have fin: "adv p3 (length pl) = adv ?p (length (rest ?p))" by (simp add: p1_def p2_def p3_def r add.assoc)
  have body: "publish_body cf (m\<lparr>mq_in_packet := p3\<rparr>) msg0 (- 1) expiry dup =
      Ok (Received (msg0\<lparr>ms_payloadlen := of_nat (length pl), ms_payload := pl\<rparr>) expiry dup, m\<lparr>mq_in_packet := adv ?p (length (rest ?p))\<rparr>)"
    if "ms_topic msg0 = Some topic" "ms_payload msg0 = []" for msg0 expiry
    using publish_body_received [of "m\<lparr>mq_in_packet := p3\<rparr>" pl msg0 topic cf expiry dup] m w3 that t(4) l
    by (simp add: fin)
  note bits = publish_command_bits [OF q(1), of retain dup]
  have mid: "publish_mid (m\<lparr>mq_in_packet := p1\<rparr>) msg0 k =
      k (msg0\<lparr>ms_source_mid := (if qos > 0 then mid else 0)\<rparr>) (m\<lparr>mq_in_packet := p2\<rparr>)"
    if "ms_qos msg0 = qos" "ms_source_mid msg0 = 0" for msg0 k
  proof -
    have e: "msg0\<lparr>ms_source_mid := 0\<rparr> = msg0" using that(2) by (cases msg0) simp
    show ?thesis
    proof (cases "qos > 0")
      case True
      then show ?thesis using that 2 q(4) by (simp add: publish_mid_def or_malformed_def)
    next
      case False
      then show ?thesis using that(1) no(1) unfolding publish_mid_def if_not_P [OF False] e by simp
    qed
  qed
  have c: "((if dup then 1 else 0 :: u8) = 1 \<and> qos = 0) = False" "(qos = 3) = False" "(qos > mq_max_qos m) = False"
      "(retain \<and> \<not> cf_retain_available cf) = False" "(?tb = []) = False" "(mq_state m \<noteq> mosq_cs_active) = False"
    using q m(1) tb(2) by (auto simp: not_less word_le_nat_alt)
  define msg1 where "msg1 = msg_store_zero\<lparr>ms_qos := qos, ms_retain := retain, ms_topic := Some topic\<rparr>"
  have msg1: "ms_qos msg1 = qos" "ms_source_mid msg1 = 0" "ms_payload msg1 = []" "ms_topic msg1 = Some topic"
    by (simp_all add: msg1_def msg_store_zero_def)
  have "publish_read cf m = publish_mid (m\<lparr>mq_in_packet := p1\<rparr>) msg1 (\<lambda>msg context.
      if mq_protocol context = mosq_p_mqtt5 then
        (case property__read_all 0x30 (mq_in_packet context) of
           Fault \<Rightarrow> Fault | Err rc \<Rightarrow> Ok (Refused rc, context)
         | Ok (properties, p) \<Rightarrow>
             (case publish_props_loop properties [] (- 1) 0 of (msg_properties, topic_alias, expiry) \<Rightarrow>
                publish_body cf (context\<lparr>mq_in_packet := p\<rparr>) (msg\<lparr>ms_properties := msg_properties\<rparr>)
                  topic_alias expiry ((if dup then 1 else 0 :: u8) = 1)))
      else publish_body cf context msg (- 1) 0 ((if dup then 1 else 0 :: u8) = 1))"
    unfolding publish_read_def Let_def p(2) bits or_malformed_def 1 msg1_def
    by (simp add: bits c tb(3))
  note read = this [unfolded mid [OF msg1(1,2)]]
  have d: "((if dup then 1 else 0 :: u8) = 1) = dup" by simp
  show ?thesis
  proof (cases "mq_protocol m = mosq_p_mqtt5")
    case True
    have "publish_body cf (m\<lparr>mq_in_packet := p3\<rparr>) (msg1\<lparr>ms_source_mid := if qos > 0 then mid else 0, ms_properties := store\<rparr>) (- 1) ex dup =
        Ok (Received (msg qos mid retain store pl) ex dup, m\<lparr>mq_in_packet := adv ?p (length (rest ?p))\<rparr>)"
      by (subst body) (simp_all add: msg1 msg_def, simp add: msg1_def)
    then show ?thesis unfolding read d using True 3 props_loop_publish [OF ps(1,2)] by simp
  next
    case False
    have "publish_body cf (m\<lparr>mq_in_packet := p3\<rparr>) (msg1\<lparr>ms_source_mid := if qos > 0 then mid else 0\<rparr>) (- 1) 0 dup =
        Ok (Received (msg qos mid retain [] pl) 0 dup, m\<lparr>mq_in_packet := adv ?p (length (rest ?p))\<rparr>)"
      by (subst body) (simp_all add: msg1 msg_def, simp add: msg1_def msg_store_zero_def)
    then show ?thesis unfolding read d using False no(2) by simp
  qed
qed

text \<open>The retained QoS 1 message \<open>hi\<close> on the topic \<open>t\<close> from an MQTT 3.1.1 client.\<close>

definition sample_publish :: mosquitto where
  "sample_publish = mosquitto_zero\<lparr>mq_state := mosq_cs_active, mq_protocol := mosq_p_mqtt311, mq_max_qos := 2,
     mq_in_packet := packet_zero\<lparr>pk_command := 0x33, pk_payload := [0, 1, 116, 1, 2, 104, 105], pk_remaining_length := 7\<rparr>\<rparr>"

theorem publish_read_back_witness:
  "publish_read (config_zero\<lparr>cf_retain_available := True\<rparr>) sample_publish =
     Ok (Received (msg_store_zero\<lparr>ms_qos := 1, ms_retain := True, ms_topic := Some ''t'', ms_source_mid := 258,
           ms_payloadlen := 2, ms_payload := [104, 105]\<rparr>) 0 False,
         sample_publish\<lparr>mq_in_packet := adv (mq_in_packet sample_publish) 7\<rparr>)"
proof -
  let ?m = sample_publish and ?cf = "config_zero\<lparr>cf_retain_available := True\<rparr>"
  have w: "in_wf (mq_in_packet ?m)" by (simp add: in_wf_def sample_publish_def packet_zero_def)
  have c: "pk_command (mq_in_packet ?m) = publish_command 1 True False"
    by (simp add: sample_publish_def publish_command_def)
  have pr: "(mq_protocol ?m = mosq_p_mqtt5) = False" by (simp add: sample_publish_def)
  have r: "rest (mq_in_packet ?m) = publish_var_header ''t'' 1 258 (mq_protocol ?m = mosq_p_mqtt5) (publish_props [] [] 0) @ [104, 105]"
    unfolding pr by (simp add: rest_def sample_publish_def packet_zero_def publish_var_header_def enc_binary_def enc_u16_def
        MOSQ_MSB_def MOSQ_LSB_def bytes_of_string_def byte_of_char_def)
  have u: "valid_utf8 (bytes_of_string ''t'')"
    unfolding valid_utf8_def
    by (rule exI [of _ "[116]"]) (simp add: utf8_allowed_def utf8_encode_def bytes_of_string_def byte_of_char_def)
  have l: "length (rest (mq_in_packet ?m)) = 7" by (simp add: rest_def sample_publish_def packet_zero_def)
  have "mosquitto_property_check_all 0x30 (publish_props [] [] 0) = MOSQ_ERR_SUCCESS"
    by (simp add: publish_props_def)
  then show ?thesis
    using publish_read_back [OF w c r _ _ u, of ?cf] unfolding l pr
    by (simp add: mosquitto_pub_topic_check_def sample_publish_def mosquitto_zero_def config_zero_def word_le_nat_alt
        publish_props_def msg_store_zero_def)
qed

end
