(* ===== verification/Handle_Subscribe.thy ===== *)
theory Handle_Subscribe
  imports Handle_Publish
begin

text \<open>
  The handlers of SUBSCRIBE and UNSUBSCRIBE (\<^verbatim>\<open>src/handle_subscribe.c\<close>,
  \<^verbatim>\<open>src/handle_unsubscribe.c\<close>) with their acknowledgements
  (\<^verbatim>\<open>src/send_suback.c\<close>, \<^verbatim>\<open>src/send_unsuback.c\<close>). The loops over the filters of a packet
  have fuel; running out of it is a fault, and the length of the packet is enough of it
  (\<open>unsubscribe_fuel\<close>, \<open>subscribe_fuel\<close>).
\<close>

section \<open>Acknowledgements\<close>

definition send__suback :: "db \<Rightarrow> mosquitto \<Rightarrow> u16 \<Rightarrow> bytes \<Rightarrow> (rc \<times> mosquitto) res" where
  "send__suback d context mid payload =
    (let payloadlen = of_nat (length payload);
         remaining_length = 2 + payloadlen;
         remaining_length = (if mq_protocol context = mosq_p_mqtt5
                             then remaining_length + property__get_remaining_length [] else remaining_length);
         packet = packet_zero\<lparr>pk_command := 0x90, pk_remaining_length := remaining_length\<rparr>
     in res_bind (packet__alloc packet) (\<lambda>(rc, packet).
          if rc \<noteq> 0 then Ok (rc, context)
          else
            res_bind (packet__write_uint16 packet mid) (\<lambda>packet.
            res_bind (if mq_protocol context = mosq_p_mqtt5
                      then res_bind (property__write_all packet [] True) (\<lambda>(packet, _). Ok packet)
                      else Ok packet) (\<lambda>packet.
            res_bind (if payloadlen \<noteq> 0 then packet__write_bytes packet payload payloadlen else Ok packet) (\<lambda>packet.
              packet__queue d context packet)))))"

definition send__unsuback ::
    "db \<Rightarrow> mosquitto \<Rightarrow> u16 \<Rightarrow> bytes \<Rightarrow> mosquitto_property list \<Rightarrow> (rc \<times> mosquitto) res" where
  "send__unsuback d mosq mid reason_codes properties =
    (let remaining_length = (if mq_protocol mosq = mosq_p_mqtt5
           then 2 + property__get_remaining_length properties + of_nat (length reason_codes) else 2);
         packet = packet_zero\<lparr>pk_command := 0xB0, pk_remaining_length := remaining_length\<rparr>
     in res_bind (packet__alloc packet) (\<lambda>(rc, packet).
          if rc \<noteq> 0 then Ok (rc, mosq)
          else
            res_bind (packet__write_uint16 packet mid) (\<lambda>packet.
            res_bind (if mq_protocol mosq = mosq_p_mqtt5
                      then res_bind (property__write_all packet properties True) (\<lambda>(packet, _).
                             packet__write_bytes packet reason_codes (of_nat (length reason_codes)))
                      else Ok packet) (\<lambda>packet.
              packet__queue d mosq packet))))"

section \<open>UNSUBSCRIBE\<close>

text \<open>Reading from the packet of the client, where any error is a malformed packet.\<close>

definition read_in ::
    "broker \<Rightarrow> client \<Rightarrow> (packet \<Rightarrow> ('a \<times> packet) res) \<Rightarrow> ('a \<Rightarrow> broker \<Rightarrow> (rc \<times> broker) res) \<Rightarrow> (rc \<times> broker) res" where
  "read_in b c read k =
    (case bk_clients b c of None \<Rightarrow> Fault
     | Some context \<Rightarrow>
         (case read (mq_in_packet context) of
            Fault \<Rightarrow> Fault | Err _ \<Rightarrow> Ok (MOSQ_ERR_MALFORMED_PACKET, b)
          | Ok (x, p) \<Rightarrow> k x (put_client b c (context\<lparr>mq_in_packet := p\<rparr>))))"

text \<open>Reading the properties, where a protocol error counts as a malformed packet.\<close>

definition read_properties ::
    "int \<Rightarrow> broker \<Rightarrow> client \<Rightarrow> (mosquitto_property list \<Rightarrow> broker \<Rightarrow> (rc \<times> broker) res) \<Rightarrow> (rc \<times> broker) res" where
  "read_properties command b c k =
    (case bk_clients b c of None \<Rightarrow> Fault
     | Some context \<Rightarrow>
         if mq_protocol context \<noteq> mosq_p_mqtt5 then k [] b
         else
           (case property__read_all command (mq_in_packet context) of
              Fault \<Rightarrow> Fault
            | Err rc \<Rightarrow> Ok (if rc = MOSQ_ERR_PROTOCOL then MOSQ_ERR_MALFORMED_PACKET else rc, b)
            | Ok (properties, p) \<Rightarrow> k properties (put_client b c (context\<lparr>mq_in_packet := p\<rparr>))))"

definition more_in :: "broker \<Rightarrow> client \<Rightarrow> bool" where
  "more_in b c = (case bk_clients b c of None \<Rightarrow> False | Some context \<Rightarrow> \<not> all_read context)"

text \<open>One filter: unsubscribing from \<open>latency\<close> turns the slow mode off.\<close>

definition unsubscribe_one :: "acl_env \<Rightarrow> broker \<Rightarrow> client \<Rightarrow> string \<Rightarrow> u8 \<Rightarrow> (rc \<times> u8 \<times> broker) res" where
  "unsubscribe_one env b c sub reason =
    (case bk_clients b c of None \<Rightarrow> Fault
     | Some context \<Rightarrow>
         let rc = mosquitto_acl_check env (db_config (bk_db b)) context sub 0 [] 0 False MOSQ_ACL_UNSUBSCRIBE in
         if rc \<noteq> MOSQ_ERR_SUCCESS \<and> rc \<noteq> MOSQ_ERR_ACL_DENIED then Ok (rc, reason, b)
         else
           let b = (if sub = ''latency'' then put_client b c (mosquitto__set_mode context normal_mode) else b)
           in if rc = MOSQ_ERR_SUCCESS then sub__remove b c sub reason
              else Ok (MOSQ_ERR_SUCCESS, MQTT_RC_NOT_AUTHORIZED, b))"

fun unsubscribe_loop ::
    "nat \<Rightarrow> acl_env \<Rightarrow> client \<Rightarrow> u16 \<Rightarrow> u8 \<Rightarrow> bytes \<Rightarrow> broker \<Rightarrow> (rc \<times> broker) res" where
  "unsubscribe_loop fuel env c mid reason reason_codes b =
    (if more_in b c then
       (case fuel of 0 \<Rightarrow> Fault
        | Suc fuel \<Rightarrow>
            read_in b c packet__read_string (\<lambda>sub b.
            if sub = [] then Ok (MOSQ_ERR_MALFORMED_PACKET, b)
            else if mosquitto_sub_topic_check (Some (string_of_bytes sub)) \<noteq> 0 then Ok (MOSQ_ERR_MALFORMED_PACKET, b)
            else
              res_bind (unsubscribe_one env b c (string_of_bytes sub) reason) (\<lambda>(rc, reason, b).
              if rc \<noteq> 0 then Ok (rc, b)
              else unsubscribe_loop fuel env c mid reason (reason_codes @ [reason]) b)))
     else
       let b = b\<lparr>bk_db := (bk_db b)\<lparr>db_persistence_changes := db_persistence_changes (bk_db b) + 1\<rparr>\<rparr>
       in on_client b c (\<lambda>d context. with_db d (send__unsuback d context mid reason_codes [])))"

declare unsubscribe_loop.simps [simp del]

definition handle__unsubscribe :: "acl_env \<Rightarrow> broker \<Rightarrow> client \<Rightarrow> (rc \<times> broker) res" where
  "handle__unsubscribe env b c =
    (case bk_clients b c of None \<Rightarrow> Fault
     | Some context \<Rightarrow>
         if mq_state context \<noteq> mosq_cs_active then Ok (MOSQ_ERR_PROTOCOL, b)
         else if pk_command (mq_in_packet context) \<noteq> 0xA2 then Ok (MOSQ_ERR_MALFORMED_PACKET, b)
         else if mq_protocol context \<noteq> mosq_p_mqtt31 \<and> pk_command (mq_in_packet context) AND 0x0F \<noteq> 0x02
         then Ok (MOSQ_ERR_MALFORMED_PACKET, b)
         else read_in b c packet__read_uint16 (\<lambda>mid b.
           if mid = 0 then Ok (MOSQ_ERR_MALFORMED_PACKET, b)
           else read_properties 0xA0 b c (\<lambda>_ b.
             case bk_clients b c of None \<Rightarrow> Fault
             | Some context \<Rightarrow>
                 if (mq_protocol context = mosq_p_mqtt311 \<or> mq_protocol context = mosq_p_mqtt5) \<and>
                    pk_pos (mq_in_packet context) = pk_remaining_length (mq_in_packet context)
                 then Ok (MOSQ_ERR_MALFORMED_PACKET, b)
                 else unsubscribe_loop (length (pk_payload (mq_in_packet context)) + 1) env c mid 0 [] b)))"

section \<open>SUBSCRIBE\<close>

text \<open>
  The QoS, the options and the handling of retained messages that the byte behind a filter asks
  for; \<open>retain_handling\<close> is the old value. \<^const>\<open>None\<close> is a malformed packet.
\<close>

definition subscribe_options :: "mosquitto \<Rightarrow> u8 \<Rightarrow> u8 \<Rightarrow> (u8 \<times> u8 \<times> u8) option" where
  "subscribe_options context subscription_options retain_handling =
    (if mq_protocol context = mosq_p_mqtt31 \<or> mq_protocol context = mosq_p_mqtt311 then
       let qos = subscription_options;
           options = (if mq_is_bridge context
                      then MQTT_SUB_OPT_RETAIN_AS_PUBLISHED OR MQTT_SUB_OPT_NO_LOCAL else subscription_options)
       in if qos > 2 then None else Some (qos, options, retain_handling)
     else
       let qos = subscription_options AND 0x03;
           options = subscription_options AND 0xFC;
           retain_handling = options AND 0x30
       in if retain_handling = 0x30 \<or> options AND 0xC0 \<noteq> 0 then None
          else if qos > 2 then None else Some (qos, options, retain_handling))"

text \<open>
  The retained messages for a new subscription; \<open>rc2\<close> is the result of \<open>sub__add\<close>.
\<close>

definition subscribe_retained ::
    "acl_env \<Rightarrow> broker \<Rightarrow> client \<Rightarrow> string \<Rightarrow> u8 \<Rightarrow> u32 \<Rightarrow> u8 \<Rightarrow> rc \<Rightarrow> (rc \<times> broker) res" where
  "subscribe_retained env b c sub qos subscription_identifier retain_handling rc2 =
    (case bk_clients b c of None \<Rightarrow> Fault
     | Some context \<Rightarrow>
         let old = (mq_protocol context = mosq_p_mqtt311 \<or> mq_protocol context = mosq_p_mqtt31);
             ident = (if old then 0 else subscription_identifier)
         in if (if old then rc2 = MOSQ_ERR_SUCCESS \<or> rc2 = MOSQ_ERR_SUB_EXISTS
                else retain_handling = 0x00 \<or> rc2 = MOSQ_ERR_SUCCESS \<and> retain_handling = 0x10) then
              res_bind (retain__queue env (bk_retains b) sub qos ident (bk_db b, context, bk_retained_count b))
                (\<lambda>(rc, (d, context, n), retains).
                  Ok (rc, put_client (b\<lparr>bk_db := d, bk_retained_count := n, bk_retains := retains\<rparr>) c context))
            else Ok (0, b))"

text \<open>
  One filter: the code for the SUBACK, or a return of the handler. \<open>rc\<close> is its value so far.
\<close>

definition subscribe_one ::
    "acl_env \<Rightarrow> broker \<Rightarrow> client \<Rightarrow> string \<Rightarrow> u8 \<Rightarrow> u8 \<Rightarrow> u8 \<Rightarrow> u32 \<Rightarrow> rc \<Rightarrow> ((rc + u8 \<times> rc) \<times> broker) res" where
  "subscribe_one env b c sub qos options retain_handling subscription_identifier rc =
    (case bk_clients b c of None \<Rightarrow> Fault
     | Some context \<Rightarrow>
         let qos = (if qos > mq_max_qos context then mq_max_qos context else qos);
             sub = (case mq_mount_point context of None \<Rightarrow> sub | Some mount_point \<Rightarrow> mount_point @ sub);
             rc2 = mosquitto_acl_check env (db_config (bk_db b)) context sub 0 [] qos False MOSQ_ACL_SUBSCRIBE
         in if rc2 = MOSQ_ERR_SUCCESS then
              res_bind (sub__add b c sub qos subscription_identifier options) (\<lambda>(rc2, b).
              if rc2 > 0 then Ok (Inl rc2, b)
              else
                res_bind (subscribe_retained env b c sub qos subscription_identifier retain_handling rc2) (\<lambda>(rc3, b).
                  Ok (Inr (qos, if rc3 \<noteq> 0 then 1 else rc), b)))
            else if rc2 = MOSQ_ERR_ACL_DENIED then
              Ok (Inr (if mq_protocol context = mosq_p_mqtt5 then MQTT_RC_NOT_AUTHORIZED
                       else if mq_protocol context = mosq_p_mqtt311 then 0x80 else qos, rc), b)
            else Ok (Inl rc2, b))"

text \<open>What follows the loop.\<close>

definition subscribe_end :: "broker \<Rightarrow> client \<Rightarrow> u16 \<Rightarrow> bytes \<Rightarrow> rc \<Rightarrow> (rc \<times> broker) res" where
  "subscribe_end b c mid payload rc =
    (case bk_clients b c of None \<Rightarrow> Fault
     | Some context \<Rightarrow>
         if mq_protocol context \<noteq> mosq_p_mqtt31 \<and> payload = [] then Ok (MOSQ_ERR_MALFORMED_PACKET, b)
         else
           on_client b c (\<lambda>d context.
             res_bind (send__suback d context mid payload) (\<lambda>(rc2, context).
             let rc = (if rc2 \<noteq> 0 then 1 else rc);
                 d = d\<lparr>db_persistence_changes := db_persistence_changes d + 1\<rparr>
             in if mq_current_out_packet context = None then
                  res_bind (db__message_write_queued_out context) (\<lambda>(rc, context).
                  if rc \<noteq> 0 then Ok (rc, d, context)
                  else db__message_write_inflight_out_latest d context)
                else Ok (rc, d, context))))"

text \<open>An empty filter is a null pointer, which the loop skips without reading the options behind it.\<close>

fun subscribe_loop ::
    "nat \<Rightarrow> acl_env \<Rightarrow> client \<Rightarrow> u16 \<Rightarrow> u32 \<Rightarrow> u8 \<Rightarrow> bytes \<Rightarrow> rc \<Rightarrow> broker \<Rightarrow> (rc \<times> broker) res" where
  "subscribe_loop fuel env c mid subscription_identifier retain_handling payload rc b =
    (if more_in b c then
       (case fuel of 0 \<Rightarrow> Fault
        | Suc fuel \<Rightarrow>
            read_in b c packet__read_string (\<lambda>sub b.
            if sub = [] then subscribe_loop fuel env c mid subscription_identifier retain_handling payload rc b
            else if mosquitto_sub_topic_check (Some (string_of_bytes sub)) \<noteq> 0 then Ok (MOSQ_ERR_MALFORMED_PACKET, b)
            else read_in b c packet__read_byte (\<lambda>subscription_options b.
              case bk_clients b c of None \<Rightarrow> Fault
              | Some context \<Rightarrow>
                  (case subscribe_options context subscription_options retain_handling of
                     None \<Rightarrow> Ok (MOSQ_ERR_MALFORMED_PACKET, b)
                   | Some (qos, options, retain_handling) \<Rightarrow>
                       res_bind (subscribe_one env b c (string_of_bytes sub) qos options retain_handling
                                   subscription_identifier rc) (\<lambda>(r, b).
                       case r of Inl rc \<Rightarrow> Ok (rc, b)
                       | Inr (code, rc) \<Rightarrow>
                           subscribe_loop fuel env c mid subscription_identifier retain_handling (payload @ [code]) rc b)))))
     else subscribe_end b c mid payload rc)"

declare subscribe_loop.simps [simp del]

definition handle__subscribe :: "acl_env \<Rightarrow> broker \<Rightarrow> client \<Rightarrow> (rc \<times> broker) res" where
  "handle__subscribe env b c =
    (case bk_clients b c of None \<Rightarrow> Fault
     | Some context \<Rightarrow>
         if mq_state context \<noteq> mosq_cs_active then Ok (MOSQ_ERR_PROTOCOL, b)
         else if pk_command (mq_in_packet context) \<noteq> 0x82 then Ok (MOSQ_ERR_MALFORMED_PACKET, b)
         else if mq_protocol context \<noteq> mosq_p_mqtt31 \<and> pk_command (mq_in_packet context) AND 0x0F \<noteq> 0x02
         then Ok (MOSQ_ERR_MALFORMED_PACKET, b)
         else read_in b c packet__read_uint16 (\<lambda>mid b.
           if mid = 0 then Ok (MOSQ_ERR_MALFORMED_PACKET, b)
           else read_properties 0x80 b c (\<lambda>properties b.
             let start = (\<lambda>ident. subscribe_loop (length (pk_payload (mq_in_packet context)) + 1) env c mid ident 0 [] 0 b)
             in case mosquitto_property_read_varint properties MQTT_PROP_SUBSCRIPTION_IDENTIFIER False of
                  None \<Rightarrow> start 0
                | Some (_, ident) \<Rightarrow> if ident = 0 then Ok (MOSQ_ERR_MALFORMED_PACKET, b) else start ident)))"

end
