(* ===== verification/Broker_Refs.thy ===== *)
theory Broker_Refs
  imports Handle_Subscribe
begin

text \<open>
  The references to stored messages in the whole broker. A message is referred to by the messages
  of all clients, outgoing and incoming, and by the tree of retained messages; its reference count
  is the number of these references, so that it is freed when the last one is gone and not before.
  This is shown for everything that the handlers of packets do.
\<close>

section \<open>Accounts\<close>

text \<open>The stores and the number of references to each address agree.\<close>

definition acct :: "stores \<Rightarrow> (store_ptr \<Rightarrow> int) \<Rightarrow> bool" where
  "acct S R \<longleftrightarrow> (\<forall>p. 0 \<le> R p) \<and> (\<forall>p. 0 < R p \<longrightarrow> S p \<noteq> None) \<and>
     (\<forall>p st. S p = Some st \<longrightarrow> ms_ref_count st = R p)"

lemma acct_drop: "acct S R \<Longrightarrow> 1 \<le> R p \<Longrightarrow> acct (ref_dropped S p) (R(p := R p - 1))"
proof -
  assume a: "acct S R" "1 \<le> R p"
  then obtain st where "S p = Some st" unfolding acct_def by fastforce
  with a show ?thesis by (auto simp: acct_def ref_dropped_def)
qed

lemma acct_take: "acct S R \<Longrightarrow> S p \<noteq> None \<Longrightarrow> acct (ref_taken S p) (R(p := R p + 1))"
  by (cases "S p") (auto simp: acct_def ref_taken_def)

lemma acct_note: "acct S R \<Longrightarrow> S p = Some st \<Longrightarrow> acct (S(p \<mapsto> st\<lparr>ms_dest_ids := ids\<rparr>)) R"
  by (auto simp: acct_def)

text \<open>What is stored stays as it is, up to references and the clients it was sent to.\<close>

definition keeps_stored :: "stores \<Rightarrow> stores \<Rightarrow> bool" where
  "keeps_stored S S' \<longleftrightarrow> (\<forall>p st'. S' p = Some st' \<longrightarrow>
     (\<exists>st. S p = Some st \<and> ms_payloadlen st' = ms_payloadlen st))"

lemma keeps_stored_refl [simp]: "keeps_stored S S"
  by (simp add: keeps_stored_def)

lemma keeps_stored_trans: "keeps_stored S S1 \<Longrightarrow> keeps_stored S1 S2 \<Longrightarrow> keeps_stored S S2"
  unfolding keeps_stored_def by metis

lemma keeps_stored_refs [simp]:
  "keeps_stored S (ref_taken S p)" "keeps_stored S (ref_dropped S p)"
  by (auto simp: keeps_stored_def ref_taken_def ref_dropped_def split: option.splits if_splits)

lemma keeps_stored_bytes:
  "keeps_stored S S' \<Longrightarrow> S' p \<noteq> None \<Longrightarrow> stored_bytes S' p = stored_bytes S p"
  by (fastforce simp: keeps_stored_def stored_bytes_def)

text \<open>The references of a list of messages, and of a client.\<close>

definition list_refs :: "mosquitto_client_msg list \<Rightarrow> store_ptr \<Rightarrow> int" where
  "list_refs l p = int (length (filter (\<lambda>msg. cm_store msg = p) l))"

lemma list_refs_simps [simp]:
  "list_refs [] p = 0" "list_refs (x # l) p = (if cm_store x = p then 1 else 0) + list_refs l p"
  "list_refs (l @ l') p = list_refs l p + list_refs l' p"
  by (simp_all add: list_refs_def)

lemma list_refs_nonneg [simp]: "0 \<le> list_refs l p"
  by (simp add: list_refs_def)

lemma list_refs_pos: "0 < list_refs l p \<longleftrightarrow> (\<exists>msg \<in> set l. cm_store msg = p)"
  by (induction l) (auto simp: add_nonneg_pos add_pos_nonneg)

definition md_refs :: "mosquitto_msg_data \<Rightarrow> store_ptr \<Rightarrow> int" where
  "md_refs md = list_refs (all_msgs md)"

lemma md_refs_keys: "md_refs md p = int (count (image_mset fst (keys md)) p)"
  by (simp add: md_refs_def list_refs_def keys_count)

lemma md_refs_nonneg [simp]: "0 \<le> md_refs md p"
  by (simp add: md_refs_def)

definition refs :: "mosquitto \<Rightarrow> store_ptr \<Rightarrow> int" where
  "refs m p = md_refs (mq_msgs_out m) p + md_refs (mq_msgs_in m) p"

definition all_refs :: "clients \<Rightarrow> store_ptr \<Rightarrow> int" where
  "all_refs cs p = (\<Sum>c \<in> dom cs. refs (the (cs c)) p)"

lemma refs_nonneg [simp]: "0 \<le> refs m p"
  by (simp add: refs_def)

lemma all_refs_nonneg [simp]: "0 \<le> all_refs cs p"
  by (simp add: all_refs_def sum_nonneg)

lemma all_refs_remove:
  assumes "finite (dom cs)" "cs c = Some m"
  shows "all_refs cs p = refs m p + (\<Sum>c' \<in> dom cs - {c}. refs (the (cs c')) p)"
  unfolding all_refs_def using assms by (subst sum.remove [of _ c]) auto

lemma all_refs_update:
  assumes "finite (dom cs)" "cs c = Some m"
  shows "all_refs (cs(c \<mapsto> m')) p = all_refs cs p - refs m p + refs m' p"
proof -
  have d: "dom (cs(c \<mapsto> m')) = dom cs" using assms(2) by auto
  have "(\<Sum>c' \<in> dom cs - {c}. refs (the ((cs(c \<mapsto> m')) c')) p) = (\<Sum>c' \<in> dom cs - {c}. refs (the (cs c')) p)"
    by (intro sum.cong) auto
  then show ?thesis
    using all_refs_remove [of "cs(c \<mapsto> m')" c m' p] all_refs_remove [OF assms, of p] assms(1)
    unfolding d by (simp add: d)
qed

section \<open>The steps of outgoing messages\<close>

lemma out_step_acct:
  assumes "out_step now (S, md) (S', md')" "acct S (\<lambda>p. X p + md_refs md p)" "\<And>p. 0 \<le> X p"
  shows "acct S' (\<lambda>p. X p + md_refs md' p) \<and> keeps_stored S S'"
  using assms(1)
proof (cases rule: out_step_account)
  case moved
  then have "md_refs md' = md_refs md" by (auto simp: md_refs_keys fun_eq_iff)
  moreover have "keeps_stored S S'" using moved(3) by (auto simp: keeps_stored_def split: if_splits)
  ultimately show ?thesis using moved(3) assms(2) by (auto simp: acct_note)
next
  case (gone k st)
  have n: "md_refs md p = md_refs md' p + (if p = fst k then 1 else 0)" for p
    unfolding md_refs_keys gone(1) by simp
  have "1 \<le> X (fst k) + md_refs md (fst k)" using assms(3) [of "fst k"] n [of "fst k"] by (simp add: add_nonneg_nonneg)
  from acct_drop [OF assms(2) this]
  have "acct S' (\<lambda>p. X p + md_refs md' p)"
    unfolding gone(3) by (rule back_subst [of "acct _"]) (auto simp: n)
  then show ?thesis by (simp add: gone(3))
next
  case (come k st qos)
  have n: "md_refs md' p = md_refs md p + (if p = fst k then 1 else 0)" for p
    unfolding md_refs_keys come(1) by simp
  have "S (fst k) \<noteq> None" using come(2) by simp
  from acct_take [OF assms(2) this]
  have "acct S' (\<lambda>p. X p + md_refs md' p)"
    unfolding come(3) by (rule back_subst [of "acct _"]) (auto simp: n)
  then show ?thesis by (simp add: come(3))
qed

lemma out_steps_acct:
  assumes "out_steps now (S, md) (S', md')" "acct S (\<lambda>p. X p + md_refs md p)" "\<And>p. 0 \<le> X p"
  shows "acct S' (\<lambda>p. X p + md_refs md' p) \<and> keeps_stored S S'"
  using assms(1)
proof (induction rule: rtranclp_induct2)
  case refl
  then show ?case using assms(2) by simp
next
  case (step S1 md1 S2 md2)
  have "acct S2 (\<lambda>p. X p + md_refs md2 p) \<and> keeps_stored S1 S2"
    by (rule out_step_acct [OF step.hyps(2)]) (use step.IH assms(3) in blast)+
  then show ?case using step.IH keeps_stored_trans by blast
qed

section \<open>The state of the broker\<close>

text \<open>
  The invariants of the outgoing messages of a client; and its mount point has no wildcard, as the
  configuration checks.
\<close>

definition mount_ok :: "mosquitto \<Rightarrow> bool" where
  "mount_ok m \<longleftrightarrow> (case mq_mount_point m of None \<Rightarrow> True | Some mount_point \<Rightarrow> CHR ''#'' \<notin> set mount_point)"

lemma mount_ok_cong: "mq_mount_point m' = mq_mount_point m \<Longrightarrow> mount_ok m' = mount_ok m"
  by (simp add: mount_ok_def)

definition client_fine :: "db \<Rightarrow> mosquitto \<Rightarrow> bool" where
  "client_fine d m \<longleftrightarrow> quota_ok (mq_msgs_out m) \<and> states_ok (mq_msgs_out m) \<and>
     counters_exact (store_at d) (mq_msgs_out m) \<and> clocked_at d m \<and> mount_ok m"

text \<open>\<open>X\<close> are the references that are not held by clients.\<close>

definition send_ok :: "(store_ptr \<Rightarrow> int) \<Rightarrow> db \<Rightarrow> clients \<Rightarrow> bool" where
  "send_ok X d cs \<longleftrightarrow> finite (dom cs) \<and> (\<forall>p. 0 \<le> X p) \<and>
     acct (store_at d) (\<lambda>p. all_refs cs p + X p) \<and> (\<forall>c m. cs c = Some m \<longrightarrow> client_fine d m) \<and>
     (\<forall>p. store_at d p \<noteq> None \<longrightarrow> p < db_next_ptr d)"

lemma send_okD:
  assumes "send_ok X d cs"
  shows "finite (dom cs)" "\<And>p. 0 \<le> X p" "acct (store_at d) (\<lambda>p. all_refs cs p + X p)"
    "\<And>c m. cs c = Some m \<Longrightarrow> client_fine d m" "\<And>p. store_at d p \<noteq> None \<Longrightarrow> p < db_next_ptr d"
  using assms by (auto simp: send_ok_def)

lemma keeps_stored_fresh:
  "keeps_stored (store_at d) (store_at d') \<Longrightarrow> db_next_ptr d' = db_next_ptr d \<Longrightarrow>
   \<forall>p. store_at d p \<noteq> None \<longrightarrow> p < db_next_ptr d \<Longrightarrow> store_at d' p \<noteq> None \<Longrightarrow> p < db_next_ptr d'"
  unfolding keeps_stored_def by force

lemma send_ok_refs_le:
  assumes "finite (dom cs)" "cs c = Some m"
  shows "refs m p \<le> all_refs cs p"
  using all_refs_remove [OF assms, of p] by (simp add: sum_nonneg)

lemma counters_kept:
  assumes "counters_exact S md" "keeps_stored S S'" "\<And>p. 0 < md_refs md p \<Longrightarrow> S' p \<noteq> None"
  shows "counters_exact S' md"
proof -
  have "stored_bytes S' (fst k) = stored_bytes S (fst k)" if "k \<in># keys md" for k
  proof (rule keeps_stored_bytes [OF assms(2)])
    have "0 < md_refs md (fst k)" unfolding md_refs_keys using that by (simp add: count_greater_zero_iff)
    then show "S' (fst k) \<noteq> None" by (rule assms(3))
  qed
  then have "image_mset (\<lambda>k. stored_bytes S' (fst k)) (keys md) = image_mset (\<lambda>k. stored_bytes S (fst k)) (keys md)"
    by (rule image_mset_cong)
  with assms(1) show ?thesis by (simp add: counters_exact_def)
qed

text \<open>A client changes, and with it the stores; the other clients are not concerned.\<close>

lemma send_ok_put:
  assumes "send_ok X d cs" "cs c = Some m"
    and "acct (store_at d') (\<lambda>p. all_refs (cs(c \<mapsto> m')) p + X' p)" "\<And>p. 0 \<le> X' p"
    and "keeps_stored (store_at d) (store_at d')" "db_monotonic d' = db_monotonic d" "client_fine d' m'"
    and "db_next_ptr d' = db_next_ptr d"
  shows "send_ok X' d' (cs(c \<mapsto> m'))"
  unfolding send_ok_def
proof (intro conjI allI impI)
  note ok = send_okD [OF assms(1)]
  show "finite (dom (cs(c \<mapsto> m')))" using ok(1) by simp
  fix c1 m1 assume c1: "(cs(c \<mapsto> m')) c1 = Some m1"
  show "client_fine d' m1"
  proof (cases "c1 = c")
    case False
    then have cs: "cs c1 = Some m1" using c1 by simp
    have "store_at d' p \<noteq> None" if "0 < md_refs (mq_msgs_out m1) p" for p
    proof -
      have "refs m1 p \<le> all_refs (cs(c \<mapsto> m')) p"
        using send_ok_refs_le [of "cs(c \<mapsto> m')" c1 m1 p] c1 ok(1) by simp
      moreover have "0 < refs m1 p" using that by (simp add: refs_def add_pos_nonneg)
      ultimately have "0 < all_refs (cs(c \<mapsto> m')) p + X' p" using assms(4) [of p] by linarith
      then show ?thesis using assms(3) unfolding acct_def by blast
    qed
    then show ?thesis
      using ok(4) [OF cs] counters_kept [OF _ assms(5)] assms(6) by (simp add: client_fine_def)
  qed (use c1 assms(7) in simp)
next
  fix p assume "store_at d' p \<noteq> None"
  then show "p < db_next_ptr d'" using keeps_stored_fresh [OF assms(5,8)] send_okD(5) [OF assms(1)] by blast
qed (use assms(3,4) in auto)

text \<open>Operations on the outgoing messages of a client.\<close>

lemma send_ok_effect:
  assumes "send_ok X d cs" "cs c = Some m" "out_effect d m d' m'"
  shows "send_ok X d' (cs(c \<mapsto> m'))"
proof (rule send_ok_put [OF assms(1,2)])
  note ok = send_okD [OF assms(1)]
  define Y where "Y p = all_refs cs p + X p - md_refs (mq_msgs_out m) p" for p
  have Y: "0 \<le> Y p" for p
  proof -
    have "md_refs (mq_msgs_out m) p \<le> refs m p" by (simp add: refs_def)
    then show ?thesis using send_ok_refs_le [OF ok(1) assms(2), of p] ok(2) [of p] unfolding Y_def by linarith
  qed
  have steps: "out_steps (tv_sec (db_monotonic d)) (store_at d, mq_msgs_out m) (store_at d', mq_msgs_out m')"
    and e: "db_monotonic d' = db_monotonic d" "mq_msgs_in m' = mq_msgs_in m" "db_next_ptr d' = db_next_ptr d"
      "mq_mount_point m' = mq_mount_point m"
    using assms(3) by (auto simp: out_effect_def)
  have a: "acct (store_at d) (\<lambda>p. Y p + md_refs (mq_msgs_out m) p)"
    using ok(3) by (simp add: Y_def)
  have a': "acct (store_at d') (\<lambda>p. Y p + md_refs (mq_msgs_out m') p)" "keeps_stored (store_at d) (store_at d')"
    using out_steps_acct [OF steps a Y] by auto
  have "refs m' p = refs m p - md_refs (mq_msgs_out m) p + md_refs (mq_msgs_out m') p" for p
    by (simp add: refs_def e(2))
  then have "(\<lambda>p. Y p + md_refs (mq_msgs_out m') p) = (\<lambda>p. all_refs (cs(c \<mapsto> m')) p + X p)"
    by (simp add: Y_def all_refs_update [OF ok(1) assms(2)] fun_eq_iff)
  then show "acct (store_at d') (\<lambda>p. all_refs (cs(c \<mapsto> m')) p + X p)" using a'(1) by simp
  show "0 \<le> X p" for p by (rule ok(2))
  show "keeps_stored (store_at d) (store_at d')" "db_monotonic d' = db_monotonic d" "db_next_ptr d' = db_next_ptr d"
    using a'(2) e by auto
  have "refs_balanced Y (store_at d) (mq_msgs_out m)"
    using a Y by (auto simp: refs_balanced_def acct_def md_refs_keys count_greater_zero_iff add_nonneg_pos)
  moreover note fine = ok(4) [OF assms(2)]
  ultimately have "msgs_inv Y (store_at d', mq_msgs_out m')"
    by (intro out_steps_inv [OF steps]) (simp add: msgs_inv_def client_fine_def)
  moreover have "clocked_at d' m'"
    using fine steps e by (auto simp: client_fine_def dest: out_steps_clocked)
  ultimately show "client_fine d' m'" using fine mount_ok_cong [OF e(4)] by (simp add: msgs_inv_def client_fine_def)
qed

text \<open>References of the broker itself.\<close>

lemma send_ok_acct:
  assumes "send_ok X d cs" "acct (store_at d') (\<lambda>p. all_refs cs p + X' p)" "\<And>p. 0 \<le> X' p"
    and "keeps_stored (store_at d) (store_at d')" "db_monotonic d' = db_monotonic d" "db_next_ptr d' = db_next_ptr d"
  shows "send_ok X' d' cs"
  unfolding send_ok_def
proof (intro conjI allI impI)
  note ok = send_okD [OF assms(1)]
  show "finite (dom cs)" by (rule ok(1))
  fix c m assume cs: "cs c = Some m"
  have "store_at d' p \<noteq> None" if "0 < md_refs (mq_msgs_out m) p" for p
  proof -
    have "0 < refs m p" using that by (simp add: refs_def add_pos_nonneg)
    then have "0 < all_refs cs p + X' p" using send_ok_refs_le [OF ok(1) cs, of p] assms(3) [of p] by linarith
    then show ?thesis using assms(2) unfolding acct_def by blast
  qed
  then show "client_fine d' m"
    using ok(4) [OF cs] counters_kept [OF _ assms(4)] assms(5) by (simp add: client_fine_def)
next
  fix p assume "store_at d' p \<noteq> None"
  then show "p < db_next_ptr d'" using keeps_stored_fresh [OF assms(4,6)] send_okD(5) [OF assms(1)] by blast
qed (use assms in auto)

lemma send_ok_inc:
  assumes "send_ok X d cs" "db__msg_store_ref_inc d p = Ok d'"
  shows "send_ok (X(p := X p + 1)) d' cs"
proof (rule send_ok_acct [OF assms(1)])
  note ok = send_okD [OF assms(1)] and inc = ref_inc_Ok [OF assms(2)]
  have "store_at d p \<noteq> None" using inc(2) by auto
  from acct_take [OF ok(3) this]
  show "acct (store_at d') (\<lambda>q. all_refs cs q + (X(p := X p + 1)) q)"
    unfolding inc(1) by (rule back_subst [of "acct _"]) auto
qed (use send_okD(2) [OF assms(1)] ref_inc_Ok [OF assms(2)] in \<open>auto simp: add_nonneg_nonneg\<close>)

lemma send_ok_dec:
  assumes "send_ok X d cs" "db__msg_store_ref_dec d p = Ok d'" "1 \<le> X p"
  shows "send_ok (X(p := X p - 1)) d' cs"
proof (rule send_ok_acct [OF assms(1)])
  note ok = send_okD [OF assms(1)] and dec = ref_dec_Ok [OF assms(2)]
  have "1 \<le> all_refs cs p + X p" using assms(3) by (simp add: add_increasing)
  from acct_drop [OF ok(3) this]
  show "acct (store_at d') (\<lambda>q. all_refs cs q + (X(p := X p - 1)) q)"
    unfolding dec(1) by (rule back_subst [of "acct _"]) auto
qed (use send_okD(2) [OF assms(1)] assms(3) ref_dec_Ok [OF assms(2)] ref_dec_fields [OF assms(2)] in auto)

lemma send_ok_db:
  "send_ok X d cs \<Longrightarrow> store_at d' = store_at d \<Longrightarrow> db_monotonic d' = db_monotonic d \<Longrightarrow>
   db_next_ptr d' = db_next_ptr d \<Longrightarrow> send_ok X d' cs"
  by (rule send_ok_acct) (auto dest: send_okD)

section \<open>Delivery\<close>

text \<open>Delivery leaves the incoming messages and the sessions of all clients alone.\<close>

definition same_in :: "clients \<Rightarrow> clients \<Rightarrow> bool" where
  "same_in cs cs' \<longleftrightarrow> (\<forall>c. map_option (\<lambda>m. (mq_msgs_in m, session m)) (cs' c) =
     map_option (\<lambda>m. (mq_msgs_in m, session m)) (cs c))"

lemma same_in_refl [simp]: "same_in cs cs"
  by (simp add: same_in_def)

lemma same_in_trans: "same_in cs cs1 \<Longrightarrow> same_in cs1 cs2 \<Longrightarrow> same_in cs cs2"
  by (simp add: same_in_def)

lemma same_in_put:
  "cs c = Some m \<Longrightarrow> mq_msgs_in m' = mq_msgs_in m \<Longrightarrow> session m' = session m \<Longrightarrow> same_in cs (cs(c \<mapsto> m'))"
  by (simp add: same_in_def)

lemma same_inD:
  "same_in cs cs' \<Longrightarrow> cs c = Some m \<Longrightarrow> \<exists>m'. cs' c = Some m' \<and> mq_msgs_in m' = mq_msgs_in m \<and> session m' = session m"
  by (auto simp: same_in_def dest: spec [of _ c])

text \<open>What a delivery keeps.\<close>

definition delivers :: "(store_ptr \<Rightarrow> int) \<Rightarrow> send_state \<Rightarrow> send_state \<Rightarrow> bool" where
  "delivers X st st' \<longleftrightarrow>
     (send_ok X (fst st) (snd st) \<longrightarrow> send_ok X (fst st') (snd st') \<and> same_in (snd st) (snd st') \<and>
        db_now_real_s (fst st') = db_now_real_s (fst st))"

lemma delivers_refl [simp]: "delivers X st st"
  by (simp add: delivers_def)

lemma delivers_trans: "delivers X st st1 \<Longrightarrow> delivers X st1 st2 \<Longrightarrow> delivers X st st2"
  by (auto simp: delivers_def intro: same_in_trans)

lemma mid_generate_fields:
  "mosquitto__mid_generate m = (mid, m') \<Longrightarrow>
   mq_msgs_out m' = mq_msgs_out m \<and> mq_msgs_in m' = mq_msgs_in m \<and> mq_mount_point m' = mq_mount_point m \<and>
   mq_in_packet m' = mq_in_packet m \<and> session m' = session m"
  by (auto simp: mosquitto__mid_generate_def Let_def)

lemma delivers_effect:
  assumes "cs c = Some m" "clocked_at d m \<Longrightarrow> out_effect d m d' m'"
  shows "delivers X (d, cs) (d', cs(c \<mapsto> m'))"
  unfolding delivers_def
proof (intro impI conjI)
  assume ok: "send_ok X (fst (d, cs)) (snd (d, cs))"
  then have "clocked_at d m" using send_okD(4) [of X d cs c m] assms(1) by (simp add: client_fine_def)
  then have e: "out_effect d m d' m'" by (rule assms(2))
  then show "send_ok X (fst (d', cs(c \<mapsto> m'))) (snd (d', cs(c \<mapsto> m')))"
    using send_ok_effect [of X d cs c m d' m'] ok assms(1) by simp
  show "same_in (snd (d, cs)) (snd (d', cs(c \<mapsto> m')))"
    using e assms(1) by (auto simp: out_effect_def intro: same_in_put)
  show "db_now_real_s (fst (d', cs(c \<mapsto> m'))) = db_now_real_s (fst (d, cs))" using e by (simp add: out_effect_def)
qed

lemma subs__send_delivers:
  assumes "subs__send env sm leaf st = Ok (rc, st')" "sl_qos leaf \<le> 2" "sm_qos sm \<le> 2"
  shows "delivers X st st'"
proof -
  obtain d cs where st: "st = (d, cs)" by (cases st)
  let ?q = "if cf_upgrade_outgoing_qos (db_config d) then sl_qos leaf
            else if sm_qos sm > sl_qos leaf then sl_qos leaf else sm_qos sm"
  have q: "?q \<le> 2" using assms(2,3) by simp
  obtain m where m: "cs (sl_context leaf) = Some m"
    using assms(1) by (auto simp: subs__send_def st res_bind_Ok_iff split: option.splits)
  obtain mid m1 where g: "(if ?q \<noteq> 0 then mosquitto__mid_generate m else (0, m)) = (mid, m1)" by fastforce
  then have f: "mq_msgs_out m1 = mq_msgs_out m" "mq_msgs_in m1 = mq_msgs_in m" "mq_mount_point m1 = mq_mount_point m"
    "session m1 = session m"
    using mid_generate_fields by (auto split: if_splits)
  consider "st' = (d, cs)" | rc' d' m' retain props where "st' = (d', cs(sl_context leaf \<mapsto> m'))"
      "db__message_insert d m1 mid mosq_md_out ?q retain (sm_stored sm) props True = Ok (rc', d', m')"
    using assms(1) m g unfolding st
    by (auto simp: subs__send_def res_bind_Ok_iff Let_def split: if_splits prod.splits)
  then show ?thesis
  proof cases
    case (2 rc' d' m' retain props)
    have "out_effect d m d' m'" if "clocked_at d m"
      using out_effect_trans [OF out_effect_same [OF f] insert_effect [OF 2(2) q]] that f by simp
    note e = this
    show ?thesis unfolding st 2(1) by (rule delivers_effect) (rule m, rule e)
  qed (simp add: st)
qed

lemma subs_process_loop_delivers:
  "subs_process_loop env sm leafs rc st = Ok (rc', st') \<Longrightarrow> leafs_ok leafs \<Longrightarrow> sm_qos sm \<le> 2 \<Longrightarrow> delivers X st st'"
proof (induction leafs arbitrary: rc st)
  case (Cons leaf leafs)
  have l: "leafs_ok leafs" "sl_qos leaf \<le> 2" using Cons.prems(2) by (auto simp: leafs_ok_def)
  consider "st' = st" | rc1 where "subs_process_loop env sm leafs rc1 st = Ok (rc', st')"
    | rc1 rc2 st2 where "subs__send env sm leaf st = Ok (rc2, st2)" "subs_process_loop env sm leafs rc1 st2 = Ok (rc', st')"
    using Cons.prems(1) by (auto simp: res_bind_Ok_iff split: option.splits if_splits)
  then show ?case
  proof cases
    case (3 rc1 rc2 st2)
    show ?thesis
      using subs__send_delivers [OF 3(1) l(2) Cons.prems(3)] Cons.IH [OF 3(2) l(1) Cons.prems(3)] by (rule delivers_trans)
  qed (use Cons.IH [OF _ l(1) Cons.prems(3)] in auto)
qed simp

lemma subs__shared_process_delivers:
  "subs__shared_process env sm shareds st = Ok (rc, st', shareds') \<Longrightarrow>
   list_all (\<lambda>(name, subs). subs \<noteq> [] \<and> leafs_ok subs) shareds \<Longrightarrow> sm_qos sm \<le> 2 \<Longrightarrow> delivers X st st'"
proof (induction shareds arbitrary: st rc shareds')
  case (Cons g shareds)
  obtain name subs where g: "g = (name, subs)" by (cases g)
  from Cons.prems(1) g obtain leaf rest rc2 st2 rc3 s3
    where p: "subs = leaf # rest" "subs__send env sm leaf st = Ok (rc2, st2)"
      "subs__shared_process env sm shareds st2 = Ok (rc3, st', s3)"
    by (auto simp: res_bind_Ok_iff split: list.splits)
  have l: "sl_qos leaf \<le> 2" "list_all (\<lambda>(name, subs). subs \<noteq> [] \<and> leafs_ok subs) shareds"
    using Cons.prems(2) by (auto simp: g p leafs_ok_def)
  show ?case
    using subs__send_delivers [OF p(2) l(1) Cons.prems(3)] Cons.IH [OF p(3) l(2) Cons.prems(3)] by (rule delivers_trans)
qed simp

lemma subs__process_delivers:
  assumes "subs__process env sm n st = Ok (rc, st', n')" "node_ok n" "sm_qos sm \<le> 2"
  shows "delivers X st st'"
proof -
  obtain rc1 st1 shared rc2 where p: "subs__shared_process env sm (sh_shared n) st = Ok (rc1, st1, shared)"
      "subs_process_loop env sm (sh_subs n) rc1 st1 = Ok (rc2, st')"
    using assms(1) by (auto simp: subs__process_def res_bind_Ok_iff)
  show ?thesis
    using assms(2,3) by (intro delivers_trans [OF subs__shared_process_delivers [OF p(1)] subs_process_loop_delivers [OF p(2)]])
      (simp_all add: node_ok_alt)
qed

lemma process_paths_delivers:
  "process_paths env sm ps have hier st = Ok (ret, h, st', hier') \<Longrightarrow> tree_ok hier \<Longrightarrow> sm_qos sm \<le> 2 \<Longrightarrow> delivers X st st'"
proof (induction ps arbitrary: "have" hier st)
  case (Cons p ps)
  then obtain n where n: "node_at hier p = Some n" by (auto split: option.splits)
  with Cons.prems(1) obtain rc1 st1 n1 where p: "subs__process env sm n st = Ok (rc1, st1, n1)"
    by (cases "subs__process env sm n st") auto
  obtain ret1 have' where note': "note_rc rc1 have = (ret1, have')" by fastforce
  have nok: "node_ok n" using Cons.prems(2) n unfolding tree_ok_def by blast
  have d: "delivers X st st1" by (rule subs__process_delivers [OF p nok Cons.prems(3)])
  show ?case
  proof (cases ret1)
    case None
    then have r: "process_paths env sm ps have' (put_node hier p n1) st1 = Ok (ret, h, st', hier')"
      using Cons.prems n p note' by simp
    have "tree_ok (put_node hier p n1)"
      using put_node_ok [OF Cons.prems(2) n process_node_ok [OF p nok] process_children [OF p]] by blast
    from delivers_trans [OF d Cons.IH [OF r this Cons.prems(3)]] show ?thesis .
  next
    case (Some rc2)
    then show ?thesis using Cons.prems n p note' d by simp
  qed
qed simp

lemma sub__search_delivers:
  "sub__search env sm ts hier st = Ok (rc, st', hier') \<Longrightarrow> tree_ok hier \<Longrightarrow> sm_qos sm \<le> 2 \<Longrightarrow> delivers X st st'"
  unfolding sub__search_paths
  by (auto simp: res_bind_Ok_iff search_return_def intro: process_paths_delivers)

section \<open>Retained messages\<close>

fun retain_refs :: "retains \<Rightarrow> store_ptr \<Rightarrow> int" where
  "retain_refs [] p = 0"
| "retain_refs ((k, Retainhier children retained) # branches) p =
    (if retained = Some p then 1 else 0) + retain_refs children p + retain_refs branches p"

definition node_refs :: "retainhier \<Rightarrow> store_ptr \<Rightarrow> int" where
  "node_refs h p = (if rh_retained h = Some p then 1 else 0) + retain_refs (rh_children h) p"

lemma retain_refs_Cons [simp]: "retain_refs ((k, h) # branches) p = node_refs h p + retain_refs branches p"
  by (cases h) (simp add: node_refs_def)

declare retain_refs.simps(2) [simp del]

lemma node_refs_Retainhier [simp]:
  "node_refs (Retainhier children retained) p = (if retained = Some p then 1 else 0) + retain_refs children p"
  by (simp add: node_refs_def)

lemma retain_refs_nonneg [simp]: "0 \<le> retain_refs rs p"
proof (induction rs p rule: retain_refs.induct)
  case (2 k children retained branches p)
  then show ?case by (simp add: add_nonneg_nonneg)
qed simp

lemma node_refs_nonneg [simp]: "0 \<le> node_refs h p"
  by (simp add: node_refs_def add_nonneg_nonneg)

lemma retain_refs_update:
  "retain_refs (AList.update t h rs) p =
     retain_refs rs p - (case map_of rs t of None \<Rightarrow> 0 | Some h' \<Rightarrow> node_refs h' p) + node_refs h p"
proof (induction rs)
  case (Cons x rs)
  obtain k h' where x: "x = (k, h')" by (cases x)
  from Cons show ?case by (simp add: x)
qed simp

lemma retain_refs_add: "retain_refs (retain__add_hier_entry rs t) p = retain_refs rs p"
proof -
  have "retain_refs (rs @ [(t, retain_leaf)]) p = retain_refs rs p" by (induction rs) auto
  then show ?thesis by (simp add: retain__add_hier_entry_def)
qed

lemma node_refs_walk:
  "node_refs (retain_walk h ts f) p = node_refs h p - (if retain_at h ts = Some p then 1 else 0) +
     (if f (retain_at h ts) = Some p then 1 else 0)"
proof (induction ts arbitrary: h)
  case Nil
  then show ?case by (cases h) simp
next
  case (Cons t ts)
  obtain children retained where h: "h = Retainhier children retained" by (cases h)
  let ?ch = "if map_of children t = None then retain__add_hier_entry children t else children"
  define b where "b = (case map_of children t of None \<Rightarrow> retain_leaf | Some b \<Rightarrow> b)"
  have b: "map_of ?ch t = Some b"
    by (auto simp: b_def retain__add_hier_entry_def map_of_append map_add_def split: option.split)
  have at: "retain_at h (t # ts) = retain_at b ts"
    by (simp add: h b_def retain_at_Cons del: retain_at.simps)
  have "retain_refs ?ch p = retain_refs children p" by (simp add: retain_refs_add)
  then show ?case
    using Cons.IH [of b] b by (simp add: h retain_refs_update at [unfolded h] Let_def del: retain_at.simps)
qed

text \<open>The references of the broker itself while \<open>E\<close> are held by an operation.\<close>

abbreviation kept_refs :: "(store_ptr \<Rightarrow> int) \<Rightarrow> retains \<Rightarrow> store_ptr \<Rightarrow> int" where
  "kept_refs E rs \<equiv> (\<lambda>p. E p + retain_refs rs p)"

lemma retain__store_now: "retain__store d n rs topic p ts = Ok (rc, d', n', rs') \<Longrightarrow> db_now_real_s d' = db_now_real_s d"
  by (auto simp: retain__store_def res_bind_Ok_iff Let_def dest!: ref_dec_fields ref_inc_Ok(7)
      split: list.splits option.splits if_splits)

lemma retain__store_ok:
  assumes "retain__store d n rs topic p ts = Ok (rc, d', n', rs')" "send_ok (kept_refs E rs) d cs" "\<And>p. 0 \<le> E p"
  shows "send_ok (kept_refs E rs') d' cs"
proof -
  obtain t0 ts0 where ts: "ts = t0 # ts0" using assms(1) by (auto simp: retain__store_def split: list.splits)
  define rs1 where "rs1 = (if map_of rs t0 = None then retain__add_hier_entry rs t0 else rs)"
  define root where "root = (case map_of rs t0 of None \<Rightarrow> retain_leaf | Some h \<Rightarrow> h)"
  define d1 where "d1 = (if take 4 topic \<noteq> ''$SYS'' then d\<lparr>db_persistence_changes := db_persistence_changes d + 1\<rparr> else d)"
  have m: "map_of rs1 t0 = Some root"
    by (auto simp: rs1_def root_def retain__add_hier_entry_def map_of_append map_add_def split: option.split)
  have r1: "retain_refs rs1 q = retain_refs rs q" for q by (simp add: rs1_def retain_refs_add)
  have upd: "retain_refs (AList.update t0 (retain_walk root ts (\<lambda>_. v)) rs1) q = retain_refs rs q -
      (if retain_at root ts = Some q then 1 else 0) + (if v = Some q then 1 else 0)" for v q
    by (simp add: retain_refs_update m node_refs_walk r1)
  have ok1: "send_ok (kept_refs E rs) d1 cs"
    by (rule send_ok_db [OF assms(2)]) (simp_all add: d1_def)
  obtain stored d2 n2 where s: "store_get d p = Ok stored"
    and old: "(case retain_at root ts of None \<Rightarrow> Ok (d1, n)
       | Some q \<Rightarrow> res_bind (db__msg_store_ref_dec d1 q) (\<lambda>d. Ok (d, n - 1))) = Ok (d2, n2)"
    and new: "(if ms_payloadlen stored \<noteq> 0 then
        res_bind (db__msg_store_ref_inc d2 p) (\<lambda>d. Ok (MOSQ_ERR_SUCCESS, d, n2 + 1,
          AList.update t0 (retain_walk root ts (\<lambda>_. Some p)) rs1))
      else Ok (MOSQ_ERR_SUCCESS, d2, n2, AList.update t0 (retain_walk root ts (\<lambda>_. None)) rs1)) = Ok (rc, d', n', rs')"
  proof -
    have root: "(case map_of rs1 t0 of Some h \<Rightarrow> h | None \<Rightarrow> retain_leaf) = root" by (simp add: m)
    show thesis
      using assms(1) that
      unfolding retain__store_def ts list.case rs1_def [symmetric] d1_def [symmetric] Let_def root
      by (auto simp: res_bind_Ok_iff)
  qed
  have ok2: "send_ok (\<lambda>q. E q + retain_refs rs q - (if retain_at root ts = Some q then 1 else 0)) d2 cs"
  proof (cases "retain_at root ts")
    case None
    then show ?thesis using old ok1 by simp
  next
    case (Some q)
    have "0 \<le> retain_refs (AList.update t0 (retain_walk root ts (\<lambda>_. None)) rs1) q" by simp
    then have "1 \<le> retain_refs rs q" unfolding upd Some by simp
    then have "1 \<le> kept_refs E rs q" using assms(3) [of q] by linarith
    from send_ok_dec [OF ok1 _ this, of d2]
    have "send_ok ((kept_refs E rs)(q := kept_refs E rs q - 1)) d2 cs"
      using old Some by (auto simp: res_bind_Ok_iff)
    then show ?thesis by (rule back_subst [of "\<lambda>X. send_ok X d2 cs"]) (auto simp: Some)
  qed
  show ?thesis
  proof (cases "ms_payloadlen stored = 0")
    case True
    then have "d' = d2" "rs' = AList.update t0 (retain_walk root ts (\<lambda>_. None)) rs1" using new by auto
    then show ?thesis using ok2 by (simp add: upd add_diff_eq)
  next
    case False
    then have inc: "db__msg_store_ref_inc d2 p = Ok d'"
      and rs': "rs' = AList.update t0 (retain_walk root ts (\<lambda>_. Some p)) rs1"
      using new by (auto simp: res_bind_Ok_iff)
    from send_ok_inc [OF ok2 inc] show ?thesis
      by (rule back_subst [of "\<lambda>X. send_ok X d' cs"]) (auto simp: rs' upd fun_eq_iff)
  qed
qed

section \<open>Publishing\<close>

text \<open>The invariant of the broker, while an operation holds the references \<open>E\<close>.\<close>

definition broker_ok :: "(store_ptr \<Rightarrow> int) \<Rightarrow> broker \<Rightarrow> bool" where
  "broker_ok E b \<longleftrightarrow> (\<forall>p. 0 \<le> E p) \<and> send_ok (kept_refs E (bk_retains b)) (bk_db b) (bk_clients b) \<and> trees_ok b"

lemma sub__messages_queue_keeps:
  assumes "sub__messages_queue env b source_id topic qos retain p = Ok (rc, b')" "broker_ok E b" "qos \<le> 2"
  shows "broker_ok E b' \<and> same_in (bk_clients b) (bk_clients b') \<and> db_now_real_s (bk_db b') = db_now_real_s (bk_db b)"
proof (cases "\<exists>ts share. sub__topic_tokenise topic = Ok (ts, share)")
  case False
  then show ?thesis
    using assms(1,2) by (auto simp: sub__messages_queue_def split: res.splits prod.splits)
next
  case True
  then obtain ts share where ts: "sub__topic_tokenise topic = Ok (ts, share)" by blast
  let ?sm = "\<lparr> sm_source_id = source_id, sm_topic = topic, sm_qos = qos, sm_retain = retain, sm_stored = p \<rparr>"
  let ?E = "E(p := E p + 1)"
  have E: "0 \<le> E q" "0 \<le> ?E q" for q using assms(2) by (simp_all add: broker_ok_def add_nonneg_nonneg)
  have ok: "send_ok (kept_refs E (bk_retains b)) (bk_db b) (bk_clients b)" "trees_ok b"
    using assms(2) by (auto simp: broker_ok_def)
  obtain d1 rc2 b2 rc3 b3 d4 where inc: "db__msg_store_ref_inc (bk_db b) p = Ok d1"
    and search: "(case map_of (bk_subs b) (hd ts) of None \<Rightarrow> Ok (MOSQ_ERR_SUCCESS, b\<lparr>bk_db := d1\<rparr>)
      | Some hier \<Rightarrow> res_bind (sub__search env ?sm ts hier (d1, bk_clients b)) (\<lambda>(rc, (d, cs), hier).
          Ok (rc, b\<lparr>bk_db := d, bk_clients := cs, bk_subs := AList.update (hd ts) hier (bk_subs b)\<rparr>))) = Ok (rc2, b2)"
    and store: "(if retain then res_bind (retain__store (bk_db b2) (bk_retained_count b2) (bk_retains b2) topic p ts)
        (\<lambda>(rc3, d, n, rs). Ok (if rc3 \<noteq> 0 then rc3 else rc2, b2\<lparr>bk_db := d, bk_retained_count := n, bk_retains := rs\<rparr>))
      else Ok (rc2, b2)) = Ok (rc3, b3)"
    and dec: "db__msg_store_ref_dec (bk_db b3) p = Ok d4" "b' = b3\<lparr>bk_db := d4\<rparr>"
    using assms(1) ts by (auto simp: sub__messages_queue_def Let_def res_bind_Ok_iff)
  have "send_ok (kept_refs ?E (bk_retains b)) d1 (bk_clients b)"
    using send_ok_inc [OF ok(1) inc] by (rule back_subst [of "\<lambda>X. send_ok X _ _"]) auto
  note ok1 = this
  have 2: "send_ok (kept_refs ?E (bk_retains b2)) (bk_db b2) (bk_clients b2) \<and> same_in (bk_clients b) (bk_clients b2) \<and>
      bk_retains b2 = bk_retains b \<and> db_now_real_s (bk_db b2) = db_now_real_s (bk_db b)"
  proof (cases "map_of (bk_subs b) (hd ts)")
    case None
    then show ?thesis using search ok1 ref_inc_Ok(7) [OF inc] by auto
  next
    case (Some hier)
    then obtain d cs hier' where h: "sub__search env ?sm ts hier (d1, bk_clients b) = Ok (rc2, (d, cs), hier')"
        "b2 = b\<lparr>bk_db := d, bk_clients := cs, bk_subs := AList.update (hd ts) hier' (bk_subs b)\<rparr>"
      using search by (auto simp: res_bind_Ok_iff)
    have "tree_ok hier" using tree_ok_below [OF ok(2)] Some by simp
    then have "delivers (kept_refs ?E (bk_retains b)) (d1, bk_clients b) (d, cs)"
      using sub__search_delivers [OF h(1)] assms(3) by simp
    then show ?thesis using ok1 h(2) ref_inc_Ok(7) [OF inc] by (simp add: delivers_def)
  qed
  have 3: "send_ok (kept_refs ?E (bk_retains b3)) (bk_db b3) (bk_clients b3) \<and> same_in (bk_clients b) (bk_clients b3) \<and>
      db_now_real_s (bk_db b3) = db_now_real_s (bk_db b)"
    using store 2 retain__store_ok [OF _ _ E(2)] retain__store_now by (auto simp: res_bind_Ok_iff split: if_splits)
  have "1 \<le> kept_refs ?E (bk_retains b3) p" using E(1) [of p] by (simp add: add_nonneg_nonneg)
  from send_ok_dec [OF conjunct1 [OF 3] dec(1) this]
  have "send_ok (kept_refs E (bk_retains b3)) d4 (bk_clients b3)"
    by (rule back_subst [of "\<lambda>X. send_ok X _ _"]) auto
  then show ?thesis
    using 3 E(1) sub__messages_queue_ok [OF assms(1) ok(2)] dec(2) ref_dec_fields [OF dec(1)] by (simp add: broker_ok_def)
qed

text \<open>Operations on the outgoing messages of a client keep the broker.\<close>

lemma broker_ok_put:
  assumes "broker_ok E b" "bk_clients b c = Some m" "clocked_at (bk_db b) m \<Longrightarrow> out_effect (bk_db b) m d' m'"
  shows "broker_ok E (put_client (b\<lparr>bk_db := d'\<rparr>) c m')"
proof -
  have "send_ok (kept_refs E (bk_retains b)) (bk_db b) (bk_clients b)" using assms(1) by (simp add: broker_ok_def)
  moreover have "delivers (kept_refs E (bk_retains b)) (bk_db b, bk_clients b) (d', (bk_clients b)(c \<mapsto> m'))"
    by (rule delivers_effect) (rule assms(2), rule assms(3))
  ultimately show ?thesis
    using assms(1) by (simp add: broker_ok_def delivers_def put_client_def trees_ok_cong [of "_\<lparr>bk_clients := _\<rparr>" b])
qed

lemma on_client_keeps:
  assumes "on_client b c f = Ok (x, b')" "broker_ok E b"
    and "\<And>m d' m'. bk_clients b c = Some m \<Longrightarrow> f (bk_db b) m = Ok (x, d', m') \<Longrightarrow> clocked_at (bk_db b) m \<Longrightarrow>
           out_effect (bk_db b) m d' m'"
  shows "broker_ok E b'"
proof -
  obtain m d' m' where m: "bk_clients b c = Some m" "f (bk_db b) m = Ok (x, d', m')"
    and b': "b' = put_client (b\<lparr>bk_db := d'\<rparr>) c m'"
    using assms(1) by (auto simp: on_client_def res_bind_Ok_iff split: option.splits)
  show ?thesis unfolding b' by (rule broker_ok_put [OF assms(2) m(1)]) (rule assms(3) [OF m])
qed

end
