(* ===== verification/Broker_Steps.thy ===== *)
theory Broker_Steps
  imports Broker_Refs
begin

text \<open>
  What the handlers of packets do to one client, and to the stored messages with it: the operations
  on its incoming messages (inserting, removing, sending the waiting ones on), storing a new message,
  and the walk of a subscriber through the retained messages, which may drop those that have expired.
  Each keeps the accounts of the whole broker.
\<close>

section \<open>Effects on a client\<close>

text \<open>The change of one client, and of the stores with it, keeps the accounts.\<close>

definition client_effect :: "db \<Rightarrow> mosquitto \<Rightarrow> db \<Rightarrow> mosquitto \<Rightarrow> bool" where
  "client_effect d m d' m' \<longleftrightarrow>
     (\<forall>X cs c. send_ok X d cs \<and> cs c = Some m \<longrightarrow> send_ok X d' (cs(c \<mapsto> m')))"

named_theorems client_effect_rules

lemma client_effect_refl [simp, client_effect_rules]: "client_effect d m d m"
  by (simp add: client_effect_def fun_upd_idem)

lemma client_effect_trans: "client_effect d m d1 m1 \<Longrightarrow> client_effect d1 m1 d2 m2 \<Longrightarrow> client_effect d m d2 m2"
  unfolding client_effect_def by (metis fun_upd_same fun_upd_upd)

lemma client_effect_out: "(clocked_at d m \<Longrightarrow> out_effect d m d' m') \<Longrightarrow> client_effect d m d' m'"
  unfolding client_effect_def
proof (intro allI impI)
  fix X cs c assume o: "clocked_at d m \<Longrightarrow> out_effect d m d' m'" and ok: "send_ok X d cs \<and> cs c = Some m"
  then have "clocked_at d m" using send_okD(4) [of X d cs c m] by (simp add: client_fine_def)
  then show "send_ok X d' (cs(c \<mapsto> m'))" using send_ok_effect ok o by blast
qed

text \<open>An operation on the incoming messages.\<close>

definition in_effect :: "db \<Rightarrow> mosquitto \<Rightarrow> db \<Rightarrow> mosquitto \<Rightarrow> bool" where
  "in_effect d m d' m' \<longleftrightarrow> mq_msgs_out m' = mq_msgs_out m \<and> mq_mount_point m' = mq_mount_point m \<and> db_monotonic d' = db_monotonic d \<and>
     db_next_ptr d' = db_next_ptr d \<and> keeps_stored (store_at d) (store_at d') \<and>
     (\<forall>Y. (\<forall>p. 0 \<le> Y p) \<longrightarrow> acct (store_at d) (\<lambda>p. Y p + md_refs (mq_msgs_in m) p) \<longrightarrow>
        acct (store_at d') (\<lambda>p. Y p + md_refs (mq_msgs_in m') p))"

lemma client_effect_in: "in_effect d m d' m' \<Longrightarrow> client_effect d m d' m'"
  unfolding client_effect_def
proof (intro allI impI, elim conjE)
  fix X cs c assume e: "in_effect d m d' m'" and ok: "send_ok X d cs" and m: "cs c = Some m"
  note okD = send_okD [OF ok]
  define Y where "Y p = all_refs cs p + X p - md_refs (mq_msgs_in m) p" for p
  have Y: "0 \<le> Y p" for p
  proof -
    have "md_refs (mq_msgs_in m) p \<le> refs m p" by (simp add: refs_def)
    then show ?thesis using send_ok_refs_le [OF okD(1) m, of p] okD(2) [of p] unfolding Y_def by linarith
  qed
  have "acct (store_at d) (\<lambda>p. Y p + md_refs (mq_msgs_in m) p)" using okD(3) by (simp add: Y_def)
  then have a: "acct (store_at d') (\<lambda>p. Y p + md_refs (mq_msgs_in m') p)" using e Y by (simp add: in_effect_def)
  have "(\<lambda>p. Y p + md_refs (mq_msgs_in m') p) = (\<lambda>p. all_refs (cs(c \<mapsto> m')) p + X p)"
    using e by (simp add: Y_def all_refs_update [OF okD(1) m] fun_eq_iff refs_def in_effect_def)
  with a have a': "acct (store_at d') (\<lambda>p. all_refs (cs(c \<mapsto> m')) p + X p)" by simp
  have "store_at d' p \<noteq> None" if "0 < md_refs (mq_msgs_out m') p" for p
  proof -
    have "refs m' p \<le> all_refs (cs(c \<mapsto> m')) p"
      using send_ok_refs_le [of "cs(c \<mapsto> m')" c m' p] okD(1) by simp
    moreover have "0 < refs m' p" using that by (simp add: refs_def add_pos_nonneg)
    ultimately have "0 < all_refs (cs(c \<mapsto> m')) p + X p" using okD(2) [of p] by linarith
    then show ?thesis using a' unfolding acct_def by blast
  qed
  then have "client_fine d' m'"
    using e okD(4) [OF m] counters_kept [of "store_at d" "mq_msgs_out m'" "store_at d'"]
      mount_ok_cong [of m' m]
    by (simp add: in_effect_def client_fine_def)
  then show "send_ok X d' (cs(c \<mapsto> m'))"
    using e okD(2) by (intro send_ok_put [OF ok m a']) (auto simp: in_effect_def)
qed

lemma in_effect_moved:
  "mq_msgs_out m' = mq_msgs_out m \<Longrightarrow> mq_mount_point m' = mq_mount_point m \<Longrightarrow>
   md_refs (mq_msgs_in m') = md_refs (mq_msgs_in m) \<Longrightarrow> in_effect d m d m'"
  by (simp add: in_effect_def)

lemma client_effect_moved:
  "mq_msgs_out m' = mq_msgs_out m \<Longrightarrow> mq_mount_point m' = mq_mount_point m \<Longrightarrow>
   md_refs (mq_msgs_in m') = md_refs (mq_msgs_in m) \<Longrightarrow> client_effect d m d m'"
  by (intro client_effect_in in_effect_moved)

lemma client_effect_in_packet [client_effect_rules]:
  "client_effect d m d' m' \<Longrightarrow> client_effect d m d' (m'\<lparr>mq_in_packet := p\<rparr>)"
  by (erule client_effect_trans) (rule client_effect_moved, simp_all)

text \<open>Every result of an operation is such a change.\<close>

definition settles :: "db \<Rightarrow> mosquitto \<Rightarrow> ('x \<times> db \<times> mosquitto) res \<Rightarrow> bool" where
  "settles d m r \<longleftrightarrow> (\<forall>x d' m'. r = Ok (x, d', m') \<longrightarrow> client_effect d m d' m')"

named_theorems settle_rules

lemma settles_Ok [settle_rules]: "client_effect d m d' m' \<Longrightarrow> settles d m (Ok (x, d', m'))"
  by (simp add: settles_def)

interpretation settle: outcome "settles d m" "\<lambda>(x, d', m'). client_effect d m d' m'" for d m
  by unfold_locales (auto simp: settles_def)

context outcome
begin

lemma good_decision:
  "(\<And>rc. x = Insert_return rc \<Longrightarrow> good (f rc)) \<Longrightarrow> (x = Insert_drop \<Longrightarrow> good g) \<Longrightarrow>
   (\<And>state rc. x = Insert_state state rc \<Longrightarrow> good (h state rc)) \<Longrightarrow>
   good (case x of Insert_return rc \<Rightarrow> f rc | Insert_drop \<Rightarrow> g | Insert_state state rc \<Rightarrow> h state rc)"
  by (cases x) simp_all

end

lemmas settles_cases [settle_rules] = settle.good_cases settle.good_bind settle.good_decision

lemma settles_after: "client_effect d m d1 m1 \<Longrightarrow> settles d1 m1 r \<Longrightarrow> settles d m r"
  by (auto simp: settles_def intro: client_effect_trans)

section \<open>Incoming messages\<close>

lemma remove_in_effect:
  assumes "db__message_remove d (mq_msgs_in m) before item behind = Ok (d', md')"
    and "md_inflight (mq_msgs_in m) = before @ item # behind"
  shows "in_effect d m d' (m\<lparr>mq_msgs_in := md'\<rparr>)" "md_inflight md' = before @ behind" "md_queued md' = md_queued (mq_msgs_in m)"
proof -
  have dec: "db__msg_store_ref_dec d (cm_store item) = Ok d'"
    and md': "md_inflight md' = before @ behind" "md_queued md' = md_queued (mq_msgs_in m)"
      "md_storage md' = md_storage (mq_msgs_in m)"
    using assms(1) by (auto simp: db__message_remove_def res_bind_Ok_iff Let_def split: if_splits)
  have n: "md_refs (mq_msgs_in m) p = md_refs md' p + (if p = cm_store item then 1 else 0)" for p
    using assms(2) md' by (simp add: md_refs_def all_msgs_def)
  have "acct (store_at d') (\<lambda>p. Y p + md_refs md' p)"
    if Y: "\<forall>p. 0 \<le> Y p" and a: "acct (store_at d) (\<lambda>p. Y p + md_refs (mq_msgs_in m) p)" for Y
  proof -
    have "1 \<le> Y (cm_store item) + md_refs (mq_msgs_in m) (cm_store item)" using Y n by (simp add: add_nonneg_nonneg)
    from acct_drop [OF a this] show ?thesis
      unfolding ref_dec_Ok(1) [OF dec] by (rule back_subst [of "acct _"]) (auto simp: n)
  qed
  then show "in_effect d m d' (m\<lparr>mq_msgs_in := md'\<rparr>)"
    using ref_dec_Ok(1) [OF dec] ref_dec_fields [OF dec] by (simp add: in_effect_def)
qed (use assms(1) in \<open>auto simp: db__message_remove_def res_bind_Ok_iff Let_def split: if_splits\<close>)

lemma remove_incoming_effect:
  assumes "db__message_remove_incoming d m mid = Ok (rc, d', m')"
  shows "client_effect d m d' m'"
proof (cases "find_mid mid [] (md_inflight (mq_msgs_in m))")
  case None
  then show ?thesis using assms by (simp add: db__message_remove_incoming_def)
next
  case (Some x)
  obtain before tail behind where x: "x = (before, tail, behind)" by (cases x)
  have i: "md_inflight (mq_msgs_in m) = before @ tail # behind"
    using find_mid_Some [of mid "[]"] Some x by fastforce
  obtain store where st: "store_get d (cm_store tail) = Ok store"
    using assms Some x by (auto simp: db__message_remove_incoming_def res_bind_Ok_iff)
  show ?thesis
  proof (cases "ms_qos store = 2")
    case True
    then obtain md where r: "db__message_remove d (mq_msgs_in m) before tail behind = Ok (d', md)"
        "m' = m\<lparr>mq_msgs_in := md\<rparr>"
      using assms Some x st by (auto simp: db__message_remove_incoming_def res_bind_Ok_iff)
    show ?thesis unfolding r(2) by (rule client_effect_in) (rule remove_in_effect(1) [OF r(1) i])
  qed (use assms Some x st in \<open>simp add: db__message_remove_incoming_def\<close>)
qed

lemma quota_effect [client_effect_rules]:
  "client_effect d m d (util__increment_receive_quota m)" "client_effect d m d (util__decrement_receive_quota m)"
  by (auto simp: quota_defs Let_def md_refs_def all_msgs_def intro!: client_effect_moved)

lemma command_effect:
  "send__command_with_mid d m command mid dup reason props = Ok (rc, m') \<Longrightarrow> client_effect d m d m'"
  using send__command_with_mid_frame out_frame_fields(1,2,18) by (metis client_effect_moved)

lemma acks_effect:
  "send__puback d m mid reason props = Ok (rc, m') \<Longrightarrow> client_effect d m d m'"
  "send__pubrec d m mid reason props = Ok (rc, m') \<Longrightarrow> client_effect d m d m'"
  "send__pubcomp d m mid props = Ok (rc, m') \<Longrightarrow> client_effect d m d m'"
  unfolding send__puback_def send__pubrec_def send__pubcomp_def Let_def
  by (auto intro: client_effect_trans [OF quota_effect(1) command_effect] command_effect split: if_splits)

lemma insert_append_refs:
  "insert_append d m mid dir qos retain p stored props state = (msg, md) \<Longrightarrow>
   md_refs md q = md_refs (msgs_of dir m) q + (if q = p then 1 else 0)"
  by (auto simp: insert_append_def Let_def md_refs_def all_msgs_def)

lemma insert_settle_in:
  "mq_msgs_out (insert_settle mosq_md_in msg m) = mq_msgs_out m" "mq_msgs_in (insert_settle mosq_md_in msg m) = mq_msgs_in m"
  "mq_mount_point (insert_settle mosq_md_in msg m) = mq_mount_point m"
  by (auto simp: insert_settle_def Let_def split: option.split)

lemma insert_in_effect:
  assumes "db__message_insert d m mid mosq_md_in qos retain p props False = Ok (rc, d', m')"
  shows "client_effect d m d' m'"
proof -
  have keep: "in_effect d m d' m'"
    if k: "insert_keep d (insert_overtime d m) mid mosq_md_in qos retain p stored props False ident state rc0 = Ok (rc, d', m')"
    for stored ident state rc0 and rc :: rc and d' m'
  proof -
    let ?d = "if state = mosq_ms_queued then d\<lparr>db_persistence_changes := db_persistence_changes d + 1\<rparr> else d"
    obtain d1 msg md where inc: "db__msg_store_ref_inc ?d p = Ok d'"
      and app: "insert_append d1 (insert_overtime d m) mid mosq_md_in qos retain p stored props state = (msg, md)"
      and m': "m' = insert_settle mosq_md_in msg (with_msgs mosq_md_in (insert_overtime d m) md)"
      using k unfolding insert_keep_def insert_note_dest_def insert_update_def Let_def
      by (simp add: res_bind_Ok_iff split_beta split: if_split_asm) (metis prod.collapse)+
    have out: "mq_msgs_out m' = mq_msgs_out m" "mq_mount_point m' = mq_mount_point m" by (simp_all add: m' insert_settle_in with_msgs_def)
    have n: "md_refs (mq_msgs_in m') q = md_refs (mq_msgs_in m) q + (if q = p then 1 else 0)" for q
      using insert_append_refs [OF app, of q] by (simp add: m' insert_settle_in with_msgs_def msgs_of_def)
    have S: "store_at ?d = store_at d" "db_monotonic ?d = db_monotonic d" "db_next_ptr ?d = db_next_ptr d" by simp_all
    note i = ref_inc_Ok [OF inc, unfolded S]
    have "acct (store_at d') (\<lambda>q. Y q + md_refs (mq_msgs_in m') q)"
      if a: "acct (store_at d) (\<lambda>q. Y q + md_refs (mq_msgs_in m) q)" for Y
    proof -
      have "store_at d p \<noteq> None" using i(2) by auto
      from acct_take [OF a this] show ?thesis
        unfolding i(1) by (rule back_subst [of "acct _"]) (auto simp: n)
    qed
    then show ?thesis using out i by (simp add: in_effect_def)
  qed
  have same: "client_effect d m d (insert_overtime d m)" by (rule client_effect_moved) simp_all
  have drop: "client_effect d m (d\<lparr>db_msgs_dropped := db_msgs_dropped d + 1\<rparr>) ((insert_overtime d m)\<lparr>mq_is_dropping := True\<rparr>)"
    by (rule client_effect_in) (simp add: in_effect_def)
  have "settles d m (db__message_insert d m mid mosq_md_in qos retain p props False)"
    unfolding db__message_insert_def
    by (intro settle_rules same drop) (auto simp: settles_def intro: client_effect_in keep)
  then show ?thesis using assms by (simp add: settles_def)
qed

text \<open>Messages that move from the queue to the messages in flight.\<close>

definition in_moved :: "mosquitto \<Rightarrow> mosquitto \<Rightarrow> bool" where
  "in_moved m m' \<longleftrightarrow> mq_msgs_out m' = mq_msgs_out m \<and> mq_mount_point m' = mq_mount_point m \<and>
     md_refs (mq_msgs_in m') = md_refs (mq_msgs_in m)"

lemma in_moved_trans: "in_moved m m1 \<Longrightarrow> in_moved m1 m2 \<Longrightarrow> in_moved m m2"
  by (simp add: in_moved_def)

lemma in_moved_effect: "in_moved m m' \<Longrightarrow> client_effect d m d m'"
  by (simp add: in_moved_def client_effect_moved)

lemma pubrec_same:
  "send__pubrec d m mid 0 props = Ok (rc, m') \<Longrightarrow>
   mq_msgs_out m' = mq_msgs_out m \<and> mq_msgs_in m' = mq_msgs_in m \<and> mq_mount_point m' = mq_mount_point m"
  unfolding send__pubrec_def using send__command_with_mid_frame out_frame_fields(1,2,18) by fastforce

lemma dequeue_first_refs:
  assumes "db__message_dequeue_first (md\<lparr>md_queued := before @ msg # tmp\<rparr>) = Ok md'"
  shows "md_inflight md' = md_inflight md @ [hd (before @ [msg])]" "md_queued md' = tl (before @ [msg]) @ tmp"
    "md_storage md' = md_storage md" "in_front (md_queued md') tmp = tl (before @ [msg])"
  using assms by (cases before; force simp: db__message_dequeue_first_def in_front_def Let_def split: if_splits)+

lemma write_queued_in_moved:
  "write_queued_in_loop d m before q = Ok (rc, m') \<Longrightarrow> md_queued (mq_msgs_in m) = before @ q \<Longrightarrow> in_moved m m'"
proof (induction q arbitrary: m before)
  case (Cons msg tmp)
  show ?case
  proof (cases "(md_inflight_maximum (mq_msgs_out m) \<noteq> 0 \<and> md_inflight_quota (mq_msgs_in m) = 0) \<or> cm_qos msg \<noteq> 2")
    case True
    then show ?thesis using Cons by (auto simp: in_moved_def split: if_splits)
  next
    case False
    then have full: "(md_inflight_maximum (mq_msgs_out m) \<noteq> 0 \<and> md_inflight_quota (mq_msgs_in m) = 0) = False"
      and qos: "cm_qos msg = 2" by auto
    let ?sent = "msg\<lparr>cm_state := mosq_ms_send_pubrec\<rparr>" and ?wait = "msg\<lparr>cm_state := mosq_ms_wait_for_pubrel\<rparr>"
    obtain md rc1 m1 where de: "db__message_dequeue_first ((mq_msgs_in m)\<lparr>md_queued := before @ ?sent # tmp\<rparr>) = Ok md"
      and rec: "send__pubrec d (m\<lparr>mq_msgs_in := md\<rparr>) (cm_mid msg) 0 [] = Ok (rc1, m1)"
      using Cons.prems(1) False by (auto simp: res_bind_Ok_iff split: if_splits)
    note md = dequeue_first_refs [OF de] and m1 = pubrec_same [OF rec]
    have refs1: "md_refs md = md_refs (mq_msgs_in m)"
      using Cons.prems(2) md by (cases before) (auto simp: md_refs_def all_msgs_def fun_eq_iff)
    show ?thesis
    proof (cases "rc1 = 0")
      case True
      define md2 where "md2 = (if before = [] then md\<lparr>md_inflight := butlast (md_inflight md) @ [?wait]\<rparr>
         else md\<lparr>md_queued := butlast (in_front (md_queued md) tmp) @ [?wait] @ tmp\<rparr>)"
      have q2: "md_queued md2 = in_front (md_queued md2) tmp @ tmp"
        using md by (cases before) (simp_all add: md2_def in_front_def)
      have "md_refs md2 = md_refs md"
        using md by (cases before) (auto simp: md2_def md_refs_def all_msgs_def fun_eq_iff butlast_append)
      moreover have "write_queued_in_loop d (m1\<lparr>mq_msgs_in := md2\<rparr>) (in_front (md_queued md2) tmp) tmp = Ok (rc, m')"
        using Cons.prems(1) qos de rec True m1 unfolding write_queued_in_loop.simps full if_False
        by (cases before) (simp_all add: md2_def Let_def)
      then have "in_moved (m1\<lparr>mq_msgs_in := md2\<rparr>) m'"
        by (rule Cons.IH [where before = "in_front (md_queued md2) tmp"]) (use q2 in simp)
      ultimately show ?thesis using m1 refs1 by (simp add: in_moved_def)
    next
      case False
      then show ?thesis
        using Cons.prems(1) qos de rec m1 refs1 unfolding write_queued_in_loop.simps full if_False
        by (simp add: in_moved_def)
    qed
  qed
qed (simp add: in_moved_def)

lemma write_queued_in_effect: "db__message_write_queued_in d m = Ok (rc, m') \<Longrightarrow> client_effect d m d m'"
  by (auto simp: db__message_write_queued_in_def intro: in_moved_effect write_queued_in_moved split: if_splits)

lemma release_queued_moved:
  "release_queued_loop d i before q m = Ok m' \<Longrightarrow> md_queued (mq_msgs_in m) = before @ q \<Longrightarrow> in_moved m m'"
proof (induction q arbitrary: m before i)
  case (Cons msg tmp)
  let ?m = "m\<lparr>mq_msgs_in := (mq_msgs_in m)\<lparr>md_queued := before @ msg\<lparr>cm_timestamp := db_now_s d\<rparr> # tmp\<rparr>\<rparr>"
  have m1: "in_moved m ?m" using Cons.prems(2) by (auto simp: in_moved_def md_refs_def all_msgs_def fun_eq_iff)
  consider "m' = m" | "cm_qos msg \<noteq> 2" "release_queued_loop d (i + 1) (before @ [msg\<lparr>cm_timestamp := db_now_s d\<rparr>]) tmp ?m = Ok m'"
    | rc m2 md where "send__pubrec d ?m (cm_mid msg) 0 [] = Ok (rc, m2)"
        "db__message_dequeue_first ((mq_msgs_in m2)\<lparr>md_queued := before @ msg\<lparr>cm_timestamp := db_now_s d,
           cm_state := mosq_ms_wait_for_pubrel\<rparr> # tmp\<rparr>) = Ok md"
        "release_queued_loop d (i + 1) (in_front (md_queued md) tmp) tmp (m2\<lparr>mq_msgs_in := md\<rparr>) = Ok m'"
    using Cons.prems(1) by (auto simp: res_bind_Ok_iff Let_def split: if_splits)
  then show ?case
  proof cases
    case 2
    have "in_moved ?m m'" by (rule Cons.IH [OF 2(2)]) simp
    then show ?thesis by (rule in_moved_trans [OF m1])
  next
    case (3 rc m2 md)
    note md = dequeue_first_refs [OF 3(2)] and m2 = pubrec_same [OF 3(1)]
    have "in_moved ?m (m2\<lparr>mq_msgs_in := md\<rparr>)"
      using m2 md by (cases before) (auto simp: in_moved_def md_refs_def all_msgs_def fun_eq_iff)
    moreover have "in_moved (m2\<lparr>mq_msgs_in := md\<rparr>) m'"
      by (rule Cons.IH [OF 3(3)]) (use md in simp)
    ultimately show ?thesis using in_moved_trans m1 by blast
  qed (simp add: in_moved_def)
qed (simp add: in_moved_def)

section \<open>Storing a message\<close>

lemma message_store_fields:
  assumes "db__message_store d source msg expiry store_id origin = (p, d')"
  obtains st where "store_at d' = (store_at d)(p \<mapsto> st)" "ms_ref_count st = ms_ref_count msg" "ms_qos st = ms_qos msg"
    "ms_topic st = ms_topic msg" "p = db_next_ptr d" "db_next_ptr d' = db_next_ptr d + 1" "db_monotonic d' = db_monotonic d"
    "db_now_real_s d' = db_now_real_s d"
proof -
  have e: "p = fst (db__message_store d source msg expiry store_id origin)"
    "d' = snd (db__message_store d source msg expiry store_id origin)" by (simp_all add: assms)
  define st where "st = snd (hd (db_msg_store d'))"
  show thesis
    by (rule that [of st]) (simp_all add: e st_def db__message_store_def db__msg_store_add_def Let_def store_at_def fun_eq_iff
        split: option.split)
qed

lemma message_store_ok:
  assumes "send_ok X d cs" "db__message_store d source msg expiry store_id origin = (p, d')" "ms_ref_count msg = 0"
  shows "send_ok X d' cs" "\<exists>st. store_at d' p = Some st \<and> ms_qos st = ms_qos msg"
proof -
  note ok = send_okD [OF assms(1)]
  obtain st where st: "store_at d' = (store_at d)(p \<mapsto> st)" "ms_ref_count st = 0" "ms_qos st = ms_qos msg"
    and p: "p = db_next_ptr d" "db_next_ptr d' = db_next_ptr d + 1" "db_monotonic d' = db_monotonic d"
    using message_store_fields [OF assms(2)] assms(3) by metis
  then show "\<exists>st. store_at d' p = Some st \<and> ms_qos st = ms_qos msg" by auto
  have new: "store_at d p = None" using ok(5) [of p] p(1) by blast
  have "all_refs cs p + X p = 0"
  proof -
    have "\<not> 0 < all_refs cs p + X p" "0 \<le> all_refs cs p + X p" using ok(3) new unfolding acct_def by blast+
    then show ?thesis by linarith
  qed
  then have a: "acct (store_at d') (\<lambda>p. all_refs cs p + X p)" using ok(3) new st by (auto simp: acct_def)
  have "client_fine d' m" if "cs c = Some m" for c m
  proof -
    have zero: "refs m p = 0"
      using send_ok_refs_le [OF ok(1) that, of p] \<open>all_refs cs p + X p = 0\<close> ok(2) [of p] refs_nonneg [of m p]
        all_refs_nonneg [of cs p] by linarith
    then have "md_refs (mq_msgs_out m) p = 0"
      using md_refs_nonneg [of "mq_msgs_out m" p] md_refs_nonneg [of "mq_msgs_in m" p] unfolding refs_def by linarith
    then have "p \<notin># image_mset fst (keys (mq_msgs_out m))" by (simp only: md_refs_keys of_nat_eq_0_iff count_eq_zero_iff not_False_eq_True)
    then have "image_mset (\<lambda>k. stored_bytes (store_at d') (fst k)) (keys (mq_msgs_out m)) =
        image_mset (\<lambda>k. stored_bytes (store_at d) (fst k)) (keys (mq_msgs_out m))"
      by (intro image_mset_cong) (auto simp: stored_bytes_def st(1))
    then show ?thesis using ok(4) [OF that] p(3) by (simp add: client_fine_def counters_exact_def)
  qed
  moreover have "q < db_next_ptr d'" if "store_at d' q \<noteq> None" for q
    using ok(5) [of q] that p by (auto simp: st(1) split: if_splits)
  ultimately show "send_ok X d' cs" using ok(1,2) a by (auto simp: send_ok_def)
qed

section \<open>Retained messages for a subscriber\<close>

text \<open>
  A walk through a part of the tree of retained messages for the client at \<open>c\<close>: it may send them
  to the client, and drop those that have expired. \<open>r\<close> and \<open>r'\<close> are the references of the
  part before and after.
\<close>

definition hands ::
    "clients \<Rightarrow> client \<Rightarrow> (store_ptr \<Rightarrow> int) \<Rightarrow> retain_state \<Rightarrow> (store_ptr \<Rightarrow> int) \<Rightarrow> retain_state \<Rightarrow> bool" where
  "hands cs c r st r' st' \<longleftrightarrow> (\<forall>E. (\<forall>p. 0 \<le> E p) \<longrightarrow>
     send_ok (\<lambda>p. E p + r p) (fst st) (cs(c \<mapsto> fst (snd st))) \<longrightarrow>
     send_ok (\<lambda>p. E p + r' p) (fst st') (cs(c \<mapsto> fst (snd st')))) \<and>
     mq_in_packet (fst (snd st')) = mq_in_packet (fst (snd st))"

lemma hands_refl [simp]: "hands cs c r st r st"
  by (simp add: hands_def)

lemma hands_trans: "hands cs c r st r1 st1 \<Longrightarrow> hands cs c r1 st1 r2 st2 \<Longrightarrow> hands cs c r st r2 st2"
  by (auto simp: hands_def)

lemma hands_frame:
  assumes "hands cs c r st r' st'" "\<And>p. 0 \<le> k p" "R = (\<lambda>p. r p + k p)" "R' = (\<lambda>p. r' p + k p)"
  shows "hands cs c R st R' st'"
  unfolding hands_def
proof (intro conjI allI impI)
  fix E :: "store_ptr \<Rightarrow> int"
  assume E: "\<forall>p. 0 \<le> E p" and ok: "send_ok (\<lambda>p. E p + R p) (fst st) (cs(c \<mapsto> fst (snd st)))"
  have "\<forall>p. 0 \<le> E p + k p" using E assms(2) by (simp add: add_nonneg_nonneg)
  then show "send_ok (\<lambda>p. E p + R' p) (fst st') (cs(c \<mapsto> fst (snd st')))"
    using assms(1) ok unfolding hands_def assms(3,4)
    by (auto simp: ac_simps dest!: spec [of _ "\<lambda>p. E p + k p"])
qed (use assms(1) in \<open>simp add: hands_def\<close>)

text \<open>Sending retained messages does not touch the packet that is being read.\<close>

definition unread :: "mosquitto \<Rightarrow> (rc \<times> db \<times> mosquitto) res \<Rightarrow> bool" where
  "unread m r \<longleftrightarrow> (\<forall>rc d' m'. r = Ok (rc, d', m') \<longrightarrow> mq_in_packet m' = mq_in_packet m)"

interpretation unr: outcome "unread m" "\<lambda>(rc, d', m'). mq_in_packet m' = mq_in_packet m" for m
  by unfold_locales (auto simp: unread_def)

lemma insert_in_packet:
  assumes "db__message_insert d m mid mosq_md_out qos retain p props False = Ok (rc, d', m')"
  shows "mq_in_packet m' = mq_in_packet m"
proof -
  have "unread m (insert_keep d (insert_overtime d m) mid mosq_md_out qos retain p stored props False ident state rc)"
    for stored ident state rc
    unfolding insert_keep_def insert_update_def Let_def insert_settle_def
    by (intro unr.good_cases unr.good_bind)
      (auto simp: unread_def with_msgs_def quota_defs Let_def split: option.split)
  then have "unread m (db__message_insert d m mid mosq_md_out qos retain p props False)"
    unfolding db__message_insert_def Let_def
    by (intro unr.good_cases unr.good_bind unr.good_decision) (auto simp: unread_def)
  then show ?thesis using assms by (simp add: unread_def)
qed

abbreviation opt_refs :: "store_ptr option \<Rightarrow> store_ptr \<Rightarrow> int" where
  "opt_refs retained \<equiv> (\<lambda>p. if retained = Some p then 1 else 0)"

lemma retain__process_hands:
  assumes "retain__process env q ident p st = Ok (retained, st')" "q \<le> 2"
  shows "hands cs c (opt_refs (Some p)) st (opt_refs retained) st'"
proof -
  obtain d m n where st: "st = (d, m, n)" by (cases st)
  consider "retained = Some p" "st' = st"
    | d' where "db__msg_store_ref_dec d p = Ok d'" "retained = None" "st' = (d', m, n - 1)"
    | mid m1 qos props rc d' m' where "mq_msgs_out m1 = mq_msgs_out m" "mq_msgs_in m1 = mq_msgs_in m" "mq_mount_point m1 = mq_mount_point m" "qos \<le> 2"
        "mq_in_packet m1 = mq_in_packet m \<and> session m1 = session m"
        "db__message_insert d m1 mid mosq_md_out qos True p props False = Ok (rc, d', m')" "retained = Some p" "st' = (d', m', n)"
  proof -
    obtain st0 where st0: "store_get d p = Ok st0"
      using assms(1) by (auto simp: retain__process_def st res_bind_Ok_iff)
    let ?q = "if cf_upgrade_outgoing_qos (db_config d) then q else if ms_qos st0 > q then q else ms_qos st0"
    obtain mid m1 where g: "(if ?q > 0 then mosquitto__mid_generate m else (0, m)) = (mid, m1)" by fastforce
    have f: "mq_msgs_out m1 = mq_msgs_out m" "mq_msgs_in m1 = mq_msgs_in m" "mq_mount_point m1 = mq_mount_point m"
      and i: "mq_in_packet m1 = mq_in_packet m \<and> session m1 = session m"
      using g mid_generate_fields by (auto split: if_splits)
    have q: "?q \<le> 2" using assms(2) by (auto simp: not_less intro: order_trans)
    show thesis
      using assms(1) that(1,2) that(3) [OF f q i] unfolding retain__process_def st Let_def prod.case st0 res_bind.simps g
      by (simp split: if_split_asm option.split_asm) (auto simp: res_bind_Ok_iff)
  qed
  then show ?thesis
  proof cases
    case (2 d')
    show ?thesis
      unfolding hands_def
    proof (intro conjI allI impI)
      fix E :: "store_ptr \<Rightarrow> int"
      assume E: "\<forall>q. 0 \<le> E q" and ok: "send_ok (\<lambda>q. E q + opt_refs (Some p) q) (fst st) (cs(c \<mapsto> fst (snd st)))"
      have "1 \<le> E p + opt_refs (Some p) p" using E by simp
      from send_ok_dec [OF ok _ this, of d'] 2 show "send_ok (\<lambda>q. E q + opt_refs retained q) (fst st') (cs(c \<mapsto> fst (snd st')))"
        by (simp add: st) (erule back_subst [of "\<lambda>X. send_ok X _ _"], auto)
    qed (simp add: st 2(3))
  next
    case (3 mid m1 qos props rc d' m')
    have "client_effect d m d' m'"
    proof (rule client_effect_out)
      assume "clocked_at d m"
      then have "clocked_at d m1" using 3(1) by simp
      then show "out_effect d m d' m'"
        by (rule out_effect_trans [OF out_effect_same [OF 3(1-3) conjunct2 [OF 3(5)]] insert_effect [OF 3(6,4)]])
    qed
    then have "send_ok X d' (cs(c \<mapsto> m'))" if "send_ok X d (cs(c \<mapsto> m))" for X
      using that by (auto simp: client_effect_def dest!: spec [of _ X] spec [of _ "cs(c \<mapsto> m)"] spec [of _ c])
    moreover have "mq_in_packet m' = mq_in_packet m" using insert_in_packet [OF 3(6)] 3(5) by simp
    ultimately show ?thesis by (simp add: hands_def 3(7,8) st)
  qed simp
qed

lemma retain_process_opt_hands:
  "retain_process_opt env q ident retained st = Ok (retained', st') \<Longrightarrow> q \<le> 2 \<Longrightarrow>
   hands cs c (opt_refs retained) st (opt_refs retained') st'"
  unfolding retain_process_opt_def by (auto split: option.splits simp del: option.inject dest: retain__process_hands)

lemma retain_search_hash_hands:
  "retain_search_hash env q ident rs st = Ok (st', rs') \<Longrightarrow> q \<le> 2 \<Longrightarrow>
   hands cs c (retain_refs rs) st (retain_refs rs') st'"
proof (induction env q ident rs st arbitrary: st' rs' rule: retain_search_hash.induct)
  case (2 env q ident k children retained branches st)
  obtain retained' st1 st2 children' branches'
    where p: "retain_process_opt env q ident retained st = Ok (retained', st1)"
      and ch: "retain_search_hash env q ident children st1 = Ok (st2, children')"
      and br: "retain_search_hash env q ident branches st2 = Ok (st', branches')"
      and rs': "rs' = (k, Retainhier children' retained') # branches'"
    using "2.prems"(1) by (auto simp: res_bind_Ok_iff split: if_splits)
  have c: "hands cs c (retain_refs children) st1 (retain_refs children') st2"
    using "2.IH"(1) [OF _ ch] ch "2.prems"(2) by (cases "children = []") auto
  have b: "hands cs c (retain_refs branches) st2 (retain_refs branches') st'"
    by (rule "2.IH"(2)) (use br "2.prems"(2) in auto)
  have 1: "hands cs c (retain_refs ((k, Retainhier children retained) # branches)) st
      (retain_refs ((k, Retainhier children retained') # branches)) st1"
    by (rule hands_frame [OF retain_process_opt_hands [OF p "2.prems"(2)], of "\<lambda>p. retain_refs children p + retain_refs branches p"])
      (auto simp: fun_eq_iff add_nonneg_nonneg)
  have 2: "hands cs c (retain_refs ((k, Retainhier children retained') # branches)) st1
      (retain_refs ((k, Retainhier children' retained') # branches)) st2"
    by (rule hands_frame [OF c, of "\<lambda>p. opt_refs retained' p + retain_refs branches p"])
      (auto simp: fun_eq_iff add_nonneg_nonneg)
  have 3: "hands cs c (retain_refs ((k, Retainhier children' retained') # branches)) st2 (retain_refs rs') st'"
    unfolding rs' by (rule hands_frame [OF b, of "\<lambda>p. opt_refs retained' p + retain_refs children' p"])
      (auto simp: fun_eq_iff add_nonneg_nonneg)
  from hands_trans [OF hands_trans [OF 1 2] 3] show ?case .
qed simp

lemma visit_branches_hands:
  assumes "\<And>branch st st' branch'. visit branch st = Ok (st', branch') \<Longrightarrow>
    hands cs c (node_refs branch) st (node_refs branch') st'"
  shows "visit_branches sel visit rs st = Ok (st', rs') \<Longrightarrow> hands cs c (retain_refs rs) st (retain_refs rs') st'"
proof (induction rs arbitrary: st st' rs')
  case (Cons x rs)
  obtain k branch where x: "x = (k, branch)" by (cases x)
  obtain st1 branch' branches' where v: "(if sel k then visit branch st else Ok (st, branch)) = Ok (st1, branch')"
      "visit_branches sel visit rs st1 = Ok (st', branches')" "rs' = (k, branch') # branches'"
    using Cons.prems by (auto simp: x res_bind_Ok_iff)
  have n: "hands cs c (node_refs branch) st (node_refs branch') st1"
    using v(1) assms by (auto split: if_splits)
  have 1: "hands cs c (retain_refs (x # rs)) st (retain_refs ((k, branch') # rs)) st1"
    by (rule hands_frame [OF n, of "retain_refs rs"]) (auto simp: x fun_eq_iff)
  have 2: "hands cs c (retain_refs ((k, branch') # rs)) st1 (retain_refs rs') st'"
    unfolding v(3) by (rule hands_frame [OF Cons.IH [OF v(2)], of "node_refs branch'"]) (auto simp: fun_eq_iff)
  from hands_trans [OF 1 2] show ?case .
qed simp

lemma retain__search_hands:
  "retain__search env q ident ts level rs st = Ok (flag, st', rs') \<Longrightarrow> q \<le> 2 \<Longrightarrow>
   hands cs c (retain_refs rs) st (retain_refs rs') st'"
proof (induction ts arbitrary: level rs st flag st' rs')
  case (Cons t ts)
  show ?case
  proof (cases "t = ''#'' \<and> ts = []")
    case True
    then show ?thesis using Cons.prems by (auto simp: res_bind_Ok_iff intro: retain_search_hash_hands)
  next
    case False
    have own: "hands cs c (node_refs (Retainhier children retained)) st (node_refs (Retainhier children retained')) st1"
      if "retain_process_opt env q ident retained st = Ok (retained', st1)" for children retained retained' st st1
      by (rule hands_frame [OF retain_process_opt_hands [OF that Cons.prems(2)], of "retain_refs children"])
        (auto simp: fun_eq_iff)
    have below: "hands cs c (node_refs (Retainhier children retained)) st (node_refs (Retainhier children' retained)) st1"
      if "retain__search env q ident ts (level + 1) children st = Ok (flag, st1, children')"
      for children children' retained st st1 flag
      by (rule hands_frame [OF Cons.IH [OF that Cons.prems(2)], of "opt_refs retained"]) (auto simp: fun_eq_iff)
    define visit where "visit = (\<lambda>branch st.
            if ts \<noteq> [] then
              res_bind (retain__search env q ident ts (level + 1) (rh_children branch) st)
                (\<lambda>(flag, st, children).
                  if flag = - 1 \<or> hd ts = ''#'' \<and> level > 0 then
                    res_bind (retain_process_opt env q ident (rh_retained branch) st) (\<lambda>(retained, st).
                      Ok (st, Retainhier children retained))
                  else Ok (st, Retainhier children (rh_retained branch)))
            else
              res_bind (retain_process_opt env q ident (rh_retained branch) st) (\<lambda>(retained, st).
                Ok (st, Retainhier (rh_children branch) retained)))"
    have v: "visit_branches (\<lambda>k. t = ''+'' \<or> k = t) visit rs st = Ok (st', rs')"
      using Cons.prems(1) False unfolding visit_def by (auto simp: res_bind_Ok_iff)
    have "hands cs c (node_refs branch) st (node_refs branch') st'"
      if "visit branch st = Ok (st', branch')" for branch st st' branch'
      using that unfolding visit_def
      by (cases branch) (auto simp: res_bind_Ok_iff simp del: node_refs_Retainhier split: if_split_asm
          intro: own below hands_trans [OF below own])
    from visit_branches_hands [OF this v] show ?thesis .
  qed
qed simp

lemma retain_refs_below: "map_of rs t = Some h \<Longrightarrow> node_refs h p \<le> retain_refs rs p"
proof (induction rs)
  case (Cons x rs)
  then show ?case by (cases x) (auto simp: add_increasing split: if_splits)
qed simp

lemma retain__queue_hands:
  assumes "retain__queue env rs sub q ident st = Ok (rc, st', rs')" "q \<le> 2"
  shows "hands cs c (retain_refs rs) st (retain_refs rs') st'"
proof (cases "st' = st \<and> rs' = rs")
  case False
  then obtain ts share hier flag children where ts: "sub__topic_tokenise sub = Ok (ts, share)"
    and h: "map_of rs (hd ts) = Some hier"
    and s: "retain__search env q ident ts 0 (rh_children hier) st = Ok (flag, st', children)"
    and rs': "rs' = AList.update (hd ts) (Retainhier children (rh_retained hier)) rs"
    using assms(1) by (auto simp: retain__queue_def res_bind_Ok_iff split: res.splits option.splits)
  let ?k = "\<lambda>p. retain_refs rs p - retain_refs (rh_children hier) p"
  have k: "0 \<le> ?k p" for p
    using retain_refs_below [OF h, of p] by (auto simp: node_refs_def split: if_splits)
  show ?thesis
    by (rule hands_frame [OF retain__search_hands [OF s assms(2)] k])
      (auto simp: rs' retain_refs_update h node_refs_def fun_eq_iff)
qed simp

end
