(* ===== verification/Broker_Handlers.thy ===== *)
theory Broker_Handlers
  imports Broker_Steps
begin

text \<open>
  The handlers of PUBLISH, PUBREL, SUBSCRIBE, UNSUBSCRIBE, PUBACK, PUBREC and PUBCOMP keep the
  invariant of the broker on all their paths: every message that a client or the tree of retained
  messages refers to is stored, and its reference count is the number of these references.
\<close>

section \<open>Keeping the invariant\<close>

abbreviation broker_fine :: "broker \<Rightarrow> bool" where "broker_fine \<equiv> broker_ok (\<lambda>_. 0)"

lemma put_client_fine:
  assumes "broker_fine b" "bk_clients b c = Some m" "client_effect (bk_db b) m d' m'"
  shows "broker_fine (put_client (b\<lparr>bk_db := d'\<rparr>) c m')"
  using assms by (simp add: broker_ok_def put_client_def client_effect_def trees_ok_cong [of "_\<lparr>bk_clients := _\<rparr>" b])

lemma put_client_same_fine:
  assumes "broker_fine b" "bk_clients b c = Some m" "client_effect (bk_db b) m (bk_db b) m'"
  shows "broker_fine (put_client b c m')"
  using put_client_fine [OF assms] by simp

lemma put_client_sel [simp]:
  "bk_clients (put_client b c m) c = Some m" "bk_db (put_client b c m) = bk_db b"
  "bk_retains (put_client b c m) = bk_retains b" "bk_subs (put_client b c m) = bk_subs b"
  by (simp_all add: put_client_def)

definition keeps :: "('x \<times> broker) res \<Rightarrow> bool" where
  "keeps r \<longleftrightarrow> (\<forall>x b. r = Ok (x, b) \<longrightarrow> broker_fine b)"

named_theorems keep_rules

lemma keepsD: "keeps r \<Longrightarrow> r = Ok (x, b) \<Longrightarrow> broker_fine b"
  by (simp add: keeps_def)

lemma keeps_Ok [keep_rules]: "broker_fine b \<Longrightarrow> keeps (Ok (x, b))"
  by (simp add: keeps_def)

interpretation keep: outcome keeps "\<lambda>(x, b). broker_fine b"
  by unfold_locales (auto simp: keeps_def)

lemmas keeps_cases [keep_rules] = keep.good_cases

lemma keeps_bind: "keeps r \<Longrightarrow> (\<And>x b. r = Ok (x, b) \<Longrightarrow> broker_fine b \<Longrightarrow> keeps (f (x, b))) \<Longrightarrow> keeps (res_bind r f)"
  by (auto simp: keeps_def res_bind_Ok_iff)

lemma keeps_on_client:
  assumes "broker_fine b" "\<And>m. bk_clients b c = Some m \<Longrightarrow> settles (bk_db b) m (f (bk_db b) m)"
  shows "keeps (on_client b c f)"
  unfolding keeps_def
proof (intro allI impI)
  fix x b' assume "on_client b c f = Ok (x, b')"
  then obtain m d' m' where m: "bk_clients b c = Some m" "f (bk_db b) m = Ok (x, d', m')"
    and b': "b' = put_client (b\<lparr>bk_db := d'\<rparr>) c m'"
    by (auto simp: on_client_def res_bind_Ok_iff split: option.splits)
  show "broker_fine b'"
    unfolding b' by (rule put_client_fine [OF assms(1) m(1)]) (use assms(2) [OF m(1)] m(2) in \<open>simp add: settles_def\<close>)
qed

lemma settles_with_db: "(\<And>rc m'. r = Ok (rc, m') \<Longrightarrow> client_effect d m d m') \<Longrightarrow> settles d m (with_db d r)"
  by (auto simp: settles_def with_db_Ok)

lemma keeps_messages_queue:
  assumes "broker_fine b" "qos \<le> 2"
  shows "keeps (sub__messages_queue env b source_id topic qos retain p)"
  using sub__messages_queue_keeps assms unfolding keeps_def by blast

lemma keeps_puback: "broker_fine b \<Longrightarrow> keeps (on_client b c (\<lambda>d m. with_db d (send__puback d m mid reason props)))"
  by (intro keeps_on_client settles_with_db) (assumption, erule acks_effect)

lemma keeps_pubrec: "broker_fine b \<Longrightarrow> keeps (on_client b c (\<lambda>d m. with_db d (send__pubrec d m mid reason props)))"
  by (intro keeps_on_client settles_with_db) (assumption, erule acks_effect)

lemma keeps_pubcomp: "broker_fine b \<Longrightarrow> keeps (on_client b c (\<lambda>d m. with_db d (send__pubcomp d m mid props)))"
  by (intro keeps_on_client settles_with_db) (assumption, erule acks_effect)

lemma process_bad_message_keeps [keep_rules]: "broker_fine b \<Longrightarrow> keeps (process_bad_message b c msg reason)"
  unfolding process_bad_message_def by (intro keep_rules keeps_puback keeps_pubrec)

section \<open>PUBLISH\<close>

text \<open>Reading the packet changes only the packet and the aliases, and gives a message with a QoS.\<close>

definition reads :: "mosquitto \<Rightarrow> (publish_in \<times> mosquitto) res \<Rightarrow> bool" where
  "reads m r \<longleftrightarrow> (\<forall>x m'. r = Ok (x, m') \<longrightarrow>
     mq_msgs_out m' = mq_msgs_out m \<and> mq_msgs_in m' = mq_msgs_in m \<and> mq_mount_point m' = mq_mount_point m \<and>
     (\<forall>msg expiry dup. x = Received msg expiry dup \<longrightarrow> ms_ref_count msg = 0 \<and> ms_qos msg \<le> 2))"

named_theorems read_rules

definition sets_up :: "mosquitto \<Rightarrow> mosquitto \<Rightarrow> bool" where
  "sets_up m m' \<longleftrightarrow> mq_msgs_out m' = mq_msgs_out m \<and> mq_msgs_in m' = mq_msgs_in m \<and>
     mq_mount_point m' = mq_mount_point m"

lemma sets_up_simps [simp]:
  "sets_up m m" "sets_up m (m'\<lparr>mq_in_packet := p\<rparr>) \<longleftrightarrow> sets_up m m'" "sets_up m (m'\<lparr>mq_aliases := l\<rparr>) \<longleftrightarrow> sets_up m m'"
  by (simp_all add: sets_up_def)

lemma sets_up_effect: "sets_up m m' \<Longrightarrow> client_effect d m d m'"
  by (rule client_effect_moved) (simp_all add: sets_up_def)

lemma reads_Refused [read_rules]: "sets_up m m' \<Longrightarrow> reads m (Ok (Refused rc, m'))"
  by (simp add: reads_def sets_up_def)

lemma reads_Bad [read_rules]: "sets_up m m' \<Longrightarrow> reads m (Ok (Bad reason msg, m'))"
  by (simp add: reads_def sets_up_def)

lemma reads_Received [read_rules]:
  "sets_up m m' \<Longrightarrow> ms_ref_count msg = 0 \<Longrightarrow> ms_qos msg \<le> 2 \<Longrightarrow> reads m (Ok (Received msg expiry dup, m'))"
  by (simp add: reads_def sets_up_def)

interpretation rd: outcome "reads m" "\<lambda>(x, m'). mq_msgs_out m' = mq_msgs_out m \<and> mq_msgs_in m' = mq_msgs_in m \<and>
    mq_mount_point m' = mq_mount_point m \<and>
    (\<forall>msg expiry dup. x = Received msg expiry dup \<longrightarrow> ms_ref_count msg = 0 \<and> ms_qos msg \<le> 2)" for m
  by unfold_locales (auto simp: reads_def)

lemmas reads_cases [read_rules] = rd.good_cases

lemma reads_malformed [read_rules]:
  "sets_up m m' \<Longrightarrow> (\<And>x. r = Ok x \<Longrightarrow> reads m (k x)) \<Longrightarrow> reads m (or_malformed r m' k)"
  unfolding or_malformed_def by (intro read_rules)

lemma publish_alias_sets_up: "publish_alias m0 topic a = Inr (m', topic') \<Longrightarrow> sets_up m m0 \<Longrightarrow> sets_up m m'"
  by (auto simp: publish_alias_def split: if_splits option.splits res.splits)

lemma publish_body_reads:
  assumes "sets_up m m0" "ms_ref_count msg = 0" "ms_qos msg \<le> 2"
  shows "reads m (publish_body cf m0 msg a expiry dup)"
proof (cases "publish_alias m0 (ms_topic msg) a")
  case (Inl rc)
  then show ?thesis using assms by (simp add: publish_body_def reads_Refused)
next
  case (Inr x)
  obtain m1 topic where x: "x = (m1, topic)" by (cases x)
  have m1: "sets_up m m1" using publish_alias_sets_up Inr x assms(1) by blast
  show ?thesis
    unfolding publish_body_def Inr sum.case x prod.case Let_def
    by (intro read_rules) (simp_all add: m1 assms)
qed

lemma publish_mid_reads:
  assumes "sets_up m m0" "ms_ref_count msg = 0" "ms_qos msg \<le> 2"
    and "\<And>msg m1. sets_up m m1 \<Longrightarrow> ms_ref_count msg = 0 \<Longrightarrow> ms_qos msg \<le> 2 \<Longrightarrow> reads m (k msg m1)"
  shows "reads m (publish_mid m0 msg k)"
  unfolding publish_mid_def by (intro read_rules assms) (simp_all add: assms(1-3))

lemma header_qos: "x AND 3 \<noteq> (3 :: u8) \<Longrightarrow> x AND 3 \<le> (2 :: u8)" for x :: u8
proof -
  assume "x AND 3 \<noteq> 3"
  then have "unat (x AND 3) \<noteq> unat (3 :: u8)" by (simp only: word_unat_eq_iff not_False_eq_True)
  moreover have "unat (x AND 3) \<le> unat (3 :: u8)" using word_and_le1 [of x 3] by (simp only: word_le_nat_alt)
  ultimately show ?thesis by (simp add: word_le_nat_alt)
qed

lemma publish_read_reads: "reads m (publish_read cf m)"
  unfolding publish_read_def Let_def
  by (intro read_rules publish_mid_reads publish_body_reads) (auto simp: msg_store_zero_def intro: header_qos)

lemma control_effect: "control__process env d m stored topic = Ok (rc, m') \<Longrightarrow> client_effect d m d m'"
  by (auto simp: control__process_def res_bind_Ok_iff dest: acks_effect(1,2) split: option.splits if_splits)

lemma handle_message_fields:
  "plugin__handle_message env cf m msg = (rc, msg') \<Longrightarrow> ms_ref_count msg' = ms_ref_count msg \<and> ms_qos msg' = ms_qos msg"
  by (auto simp: plugin__handle_message_def Let_def split: option.splits list.splits prod.splits if_splits)

lemma publish_find_keeps: "broker_fine b \<Longrightarrow> keeps (publish_find b c msg)"
  unfolding publish_find_def
  by (intro keep_rules keeps_on_client settle_rules) (simp_all add: remove_incoming_effect)

lemma publish_send_keeps: "broker_fine b \<Longrightarrow> keeps (publish_send env b c p dup mid rc)"
  unfolding publish_send_def
proof (rule keep.good_bind, intro keep.good_option keep.good_if keep_rules)
  fix stored m topic
  assume b: "broker_fine b" and m: "bk_clients b c = Some m"
  show "keeps (res_bind (sub__messages_queue (pe_acl env) b (mq_id m) topic 0 (ms_retain stored) p)
      (\<lambda>(rc2, b). Ok (if rc2 > 0 then 1 else rc, b)))"
    by (rule keeps_bind [OF keeps_messages_queue [OF b]]) (auto intro: keep_rules)
  have b1: "broker_fine (put_client b c (util__decrement_receive_quota m))"
    by (rule put_client_same_fine [OF b m quota_effect(2)])
  show "keeps (res_bind (sub__messages_queue (pe_acl env) (put_client b c (util__decrement_receive_quota m)) (mq_id m)
          topic 1 (ms_retain stored) p) (\<lambda>(rc2, b).
      if rc2 = MOSQ_ERR_SUCCESS \<or> mq_protocol m \<noteq> mosq_p_mqtt5 then
        res_bind (on_client b c (\<lambda>d context. with_db d (send__puback d context mid 0 []))) (\<lambda>(rc3, b).
          Ok (if rc3 \<noteq> 0 then 1 else rc, b))
      else if rc2 = MOSQ_ERR_NO_SUBSCRIBERS then
        res_bind (on_client b c (\<lambda>d context. with_db d (send__puback d context mid MQTT_RC_NO_MATCHING_SUBSCRIBERS [])))
          (\<lambda>(rc3, b). Ok (if rc3 \<noteq> 0 then 1 else rc, b))
      else Ok (rc2, b)))"
    by (rule keeps_bind [OF keeps_messages_queue [OF b1]])
      (auto intro!: keep_rules keeps_bind [OF keeps_puback])
  show "keeps (res_bind (if dup then Ok (0, b)
        else on_client b c (\<lambda>d context. db__message_insert d context (ms_source_mid stored) mosq_md_in
               (ms_qos stored) (ms_retain stored) p [] False)) (\<lambda>(res, b).
      if res = 0 then
        res_bind (on_client b c (\<lambda>d context. with_db d (send__pubrec d context (ms_source_mid stored) 0 [])))
          (\<lambda>(rc3, b). Ok (if rc3 \<noteq> 0 then 1 else rc, b))
      else Ok (if res = 1 then 1 else rc, b)))"
  proof (rule keeps_bind)
    show "keeps (if dup then Ok (0, b)
        else on_client b c (\<lambda>d context. db__message_insert d context (ms_source_mid stored) mosq_md_in
               (ms_qos stored) (ms_retain stored) p [] False))"
      by (intro keep_rules keeps_on_client b) (auto simp: settles_def dest: insert_in_effect)
  qed (auto intro!: keep_rules keeps_bind [OF keeps_pubrec])
qed

lemma store_fine:
  assumes "broker_fine b" "db__message_store (bk_db b) source msg expiry store_id origin = (p, d')" "ms_ref_count msg = 0"
  shows "broker_fine (b\<lparr>bk_db := d'\<rparr>)"
  using assms(1) message_store_ok(1) [OF _ assms(2,3)] by (auto simp: broker_ok_def trees_ok_cong [of "b\<lparr>bk_db := d'\<rparr>" b])

lemma publish_keep_keeps:
  assumes "broker_fine b" "ms_ref_count msg = 0"
  shows "keeps (publish_keep env b c msg expiry)"
  unfolding publish_keep_def
proof (rule keeps_bind [OF publish_find_keeps [OF assms(1)]], unfold prod.case, rule keep.good_option)
  fix found b m
  assume b: "broker_fine b"
  let ?finish = "\<lambda>(rc :: rc, b). res_bind (on_client b c (\<lambda>d context. with_db d (db__message_write_queued_in d context)))
     (\<lambda>(_, b). Ok (rc, b))"
  have fin: "keeps (?finish (rc, b))" if "broker_fine b" for rc b
    unfolding prod.case
    by (rule keeps_bind [OF keeps_on_client [OF that]]) (auto intro!: keep_rules settles_with_db write_queued_in_effect)
  have send: "keeps (res_bind (publish_send env b c p dup mid 0) ?finish)" if "broker_fine b" for b p dup mid
    by (rule keeps_bind [OF publish_send_keeps [OF that]]) (rule fin)
  show "keeps (let finish = ?finish
      in case found of
        Some p \<Rightarrow> res_bind (publish_send env b c p True (ms_source_mid msg) 0) finish
      | None \<Rightarrow>
          if ms_qos msg = 0 \<or> db__ready_for_flight (bk_db b) m mosq_md_in (ms_qos msg) \<or>
             db__ready_for_queue (bk_db b) m (ms_qos msg) (mq_msgs_in m) then
            (case db__message_store (bk_db b) (Some m) msg expiry 0 mosq_mo_client of (p, d) \<Rightarrow>
               res_bind (publish_send env (b\<lparr>bk_db := d\<rparr>) c p False (ms_source_mid msg) 0) finish)
          else process_bad_message b c msg MQTT_RC_QUOTA_EXCEEDED)"
    unfolding Let_def
    by (intro keep_rules send b store_fine [OF b]) (use assms(2) in auto)
qed (rule keep_rules)

lemma publish_received_keeps:
  assumes "broker_fine b" "ms_ref_count msg = 0"
  shows "keeps (publish_received env b c m msg expiry)"
  unfolding publish_received_def Let_def
  by (intro keep_rules keeps_on_client settles_with_db publish_keep_keeps assms(1))
    (use assms(2) control_effect handle_message_fields in fastforce)+

lemma handle__publish_keeps: "broker_fine b \<Longrightarrow> keeps (handle__publish env b c)"
  unfolding handle__publish_def
proof (rule keep.good_option, rule keep.good_error, rule keep.good_bind)
  fix m x assume b: "broker_fine b" and m: "bk_clients b c = Some m" and x: "publish_read (db_config (bk_db b)) m = Ok x"
  obtain r m' where xr: "x = (r, m')" by (cases x)
  have r: "sets_up m m'" "\<And>msg expiry dup. r = Received msg expiry dup \<Longrightarrow> ms_ref_count msg = 0"
    using publish_read_reads [of m "db_config (bk_db b)"] x xr by (auto simp: reads_def sets_up_def)
  have b': "broker_fine (put_client b c m')" by (rule put_client_same_fine [OF b m sets_up_effect [OF r(1)]])
  show "keeps (case x of (r, context) \<Rightarrow>
      let b = put_client b c context
      in case r of Refused rc \<Rightarrow> Ok (rc, b) | Bad reason_code msg \<Rightarrow> process_bad_message b c msg reason_code
         | Received msg expiry dup \<Rightarrow> publish_received env b c context msg expiry)"
    unfolding xr prod.case Let_def
    by (cases r) (auto intro: keep_rules publish_received_keeps b' r(2))
qed

lemma easy_queue_keeps:
  "broker_fine b \<Longrightarrow> qos \<le> 2 \<Longrightarrow>
   keeps (db__messages_easy_queue env b context topic qos payloadlen payload retain expiry properties)"
  unfolding db__messages_easy_queue_def Let_def
  by (intro keep_rules keeps_messages_queue store_fine) (auto simp: msg_store_zero_def)

section \<open>PUBREL\<close>

lemma remove_incoming_fine:
  assumes "on_client b c (\<lambda>d context.
      res_bind (db__message_remove d (mq_msgs_in context) before msg tmp) (\<lambda>(d, md).
        Ok (x, d, context\<lparr>mq_msgs_in := md\<rparr>))) = Ok (y, b')"
    and "broker_fine b" "bk_clients b c = Some m" "md_inflight (mq_msgs_in m) = before @ msg # tmp"
  shows "broker_fine b'" "\<exists>m'. bk_clients b' c = Some m' \<and> md_inflight (mq_msgs_in m') = before @ tmp"
proof -
  obtain d' md where r: "db__message_remove (bk_db b) (mq_msgs_in m) before msg tmp = Ok (d', md)"
    and b': "b' = put_client (b\<lparr>bk_db := d'\<rparr>) c (m\<lparr>mq_msgs_in := md\<rparr>)"
    using assms(1,3) by (auto simp: on_client_def res_bind_Ok_iff)
  note e = remove_in_effect [OF r assms(4)]
  show "broker_fine b'" unfolding b' by (rule put_client_fine [OF assms(2,3) client_effect_in [OF e(1)]])
  show "\<exists>m'. bk_clients b' c = Some m' \<and> md_inflight (mq_msgs_in m') = before @ tmp" using e(2) by (simp add: b')
qed

lemma release_loop_keeps:
  assumes "broker_fine b" "bk_clients b c = Some m" "md_inflight (mq_msgs_in m) = before @ l"
  shows "keeps (release_loop env c mid before l deleted b)"
  using assms
proof (induction l arbitrary: before deleted b m)
  case (Cons msg tmp)
  show ?case
  proof (cases "cm_mid msg = mid")
    case False
    then show ?thesis using Cons.IH [OF Cons.prems(1,2), of "before @ [msg]"] Cons.prems(3) by simp
  next
    case True
    have *: "broker_fine b1 \<and> (\<exists>m1. bk_clients b1 c = Some m1 \<and> mq_msgs_in m1 = mq_msgs_in m)"
      if "(case ms_topic store of None \<Rightarrow> Ok (MOSQ_ERR_SUCCESS, b)
        | Some topic \<Rightarrow> sub__messages_queue env b (Some (ms_source_id store)) topic 2 (cm_retain msg) (cm_store msg)) = Ok (rc, b1)"
      for store rc b1
      using that Cons.prems(1,2) sub__messages_queue_keeps [of env b _ _ 2 "cm_retain msg" "cm_store msg" rc b1] same_inD
      by (fastforce split: option.splits)
    show ?thesis
      unfolding release_loop.simps if_P [OF True]
    proof (rule keep.good_bind, rule keep.good_if, rule keeps_Ok [OF Cons.prems(1)], rule keep.good_bind, goal_cases)
      case (1 store x)
      obtain rc b1 where x: "x = (rc, b1)" by (cases x)
      note b1 = * [OF 1(3) [unfolded x]]
      then obtain m1 where m1: "bk_clients b1 c = Some m1" "md_inflight (mq_msgs_in m1) = before @ msg # tmp"
        using Cons.prems(3) by auto
      show ?case
        unfolding x prod.case
      proof (rule keep.good_if, rule keep.good_bind, goal_cases)
        case (1 y)
        obtain b2 where y: "y = ((), b2)" by (cases y) auto
        from remove_incoming_fine [OF 1(2) [unfolded y]] b1 m1 obtain m2
          where "broker_fine b2" "bk_clients b2 c = Some m2" "md_inflight (mq_msgs_in m2) = before @ tmp"
          by (auto simp: split_beta)
        from Cons.IH [OF this] show ?case by (simp add: y)
      qed (use b1 in \<open>auto intro: keep_rules\<close>)
    qed
  qed
qed (simp add: keep_rules)

lemma release_incoming_keeps: "broker_fine b \<Longrightarrow> keeps (db__message_release_incoming env b c mid)"
  unfolding db__message_release_incoming_def Let_def
proof (rule keep.good_option, rule keep.good_error, rule keeps_bind)
  fix m assume b: "broker_fine b" and m: "bk_clients b c = Some m"
  show "keeps (release_loop env c mid [] (md_inflight (mq_msgs_in m)) False b)"
    by (rule release_loop_keeps [OF b m]) simp
  fix r b1 assume b1: "broker_fine b1"
  have q: "keeps (on_client b1 c (\<lambda>d context.
      res_bind (release_queued_loop d i [] (md_queued (mq_msgs_in context)) context) (\<lambda>context. Ok ((), d, context))))" for i
    by (intro keeps_on_client [OF b1] settle_rules) (auto intro: in_moved_effect release_queued_moved)
  show "keeps (case (r, b1) of (r, b) \<Rightarrow> case r of Inl rc \<Rightarrow> Ok (rc, b)
      | Inr deleted \<Rightarrow>
          res_bind (on_client b c (\<lambda>d context.
            res_bind (release_queued_loop d (int (length (md_inflight (mq_msgs_in m)))) []
              (md_queued (mq_msgs_in context)) context) (\<lambda>context. Ok ((), d, context)))) (\<lambda>(_, b).
            Ok (if deleted then MOSQ_ERR_SUCCESS else MOSQ_ERR_NOT_FOUND, b)))"
    unfolding prod.case by (intro keep_rules b1 keeps_bind [OF q]) auto
qed

lemma settles_read [settle_rules]:
  "client_effect d m d1 m1 \<Longrightarrow> (\<And>x. r = Ok x \<Longrightarrow> settles d m (k x)) \<Longrightarrow> settles d m (on_read r (d1, m1) k)"
  by (cases r) (auto simp: settles_def on_read_def)

lemma settles_map: "settles d m r \<Longrightarrow> settles d m (res_bind r (\<lambda>(x, d, m). Ok (g x, d, m)))"
  by (auto simp: settles_def res_bind_Ok_iff)

lemma pubrel_read_settles: "settles d m (pubrel_read d m)"
  unfolding pubrel_read_def read_reason_first_def Let_def
  by (intro settle_rules settles_map client_effect_rules)

lemma handle__pubrel_keeps: "broker_fine b \<Longrightarrow> keeps (handle__pubrel env b c)"
  unfolding handle__pubrel_def
proof (intro keep_rules, goal_cases)
  case (4 m)
  have "keeps (on_client b c pubrel_read)" by (rule keeps_on_client [OF 4(1)]) (rule pubrel_read_settles)
  then show ?case
    by (rule keeps_bind)
      (auto intro!: keep_rules keeps_bind [OF release_incoming_keeps] keeps_bind [OF keeps_pubcomp] split: sum.split)
qed

section \<open>SUBSCRIBE and UNSUBSCRIBE\<close>

lemma utf8_encode_pos: "utf8_allowed c \<Longrightarrow> 0 \<notin> set (utf8_encode c)"
  by (auto simp: utf8_encode_def utf8_allowed_def)

lemma valid_utf8_cstring: "valid_utf8 bs \<Longrightarrow> cstring (string_of_bytes bs)"
proof -
  assume "valid_utf8 bs"
  then obtain cs where cs: "list_all utf8_allowed cs" "map unat bs = concat (map utf8_encode cs)"
    by (auto simp: valid_utf8_def)
  have "0 \<notin> set (map unat bs)" using cs(1) utf8_encode_pos unfolding cs(2) by (auto simp: list_all_iff)
  then have "unat w \<noteq> 0" if "w \<in> set bs" for w using that by force
  moreover have "unat w = 0" if "char_of_byte w = CHR 0x00" for w
  proof -
    have "w = byte_of_char (CHR 0x00)" using byte_of_char_of_byte [of w] unfolding that by simp
    then show ?thesis by (simp add: byte_of_char_def)
  qed
  ultimately show ?thesis unfolding cstring_def string_of_bytes_def by fastforce
qed

lemma read_string_cstring:
  assumes "packet__read_string p = Ok (str, p')"
  shows "cstring (string_of_bytes str)"
proof -
  obtain p1 where r: "packet__read_binary p = Ok (str, p1)"
    and v: "length str \<noteq> 0 \<Longrightarrow> mosquitto_validate_utf8 (str @ [0]) (int (length str)) = Ok ()"
    using assms by (auto simp: packet__read_string_def res_bind_Ok_iff split: if_splits res.splits)
  have "length str \<le> 65536"
  proof -
    obtain slen q where "packet__read_uint16 p = Ok (slen, q)" "str = [] \<or> pk_copy_out q (ucast slen) = Ok (str, p1)"
      using r by (auto simp: packet__read_binary_def res_bind_Ok_iff split: if_splits)
    then have "length str \<le> unat (ucast slen :: u32)" by (auto simp: pk_copy_out_def split: if_splits)
    then show ?thesis using unat_u16_less [of slen] unfolding unat_ucast_u16_u32 by linarith
  qed
  then have "valid_utf8 str" if "length str \<noteq> 0" using v [OF that] by (simp add: validate_utf8_eq split: if_splits)
  then show ?thesis using valid_utf8_cstring by (cases "str = []") (auto simp: cstring_def string_of_bytes_def)
qed

lemma subs_change_effect: "client_effect d m d (m\<lparr>mq_subs := subs\<rparr>)"
  by (rule client_effect_moved) simp_all

lemma sub__add_keeps:
  assumes "broker_fine b" "hash_last (levels sub)" "qos \<le> 2"
  shows "keeps (sub__add b c sub qos ident options)"
  unfolding keeps_def
proof (intro allI impI)
  fix rc b' assume r: "sub__add b c sub qos ident options = Ok (rc, b')"
  have "trees_ok b'" using sub__add_ok [OF r] assms by (simp add: broker_ok_def)
  moreover have "bk_db b' = bk_db b \<and> bk_retains b' = bk_retains b \<and> (bk_clients b' = bk_clients b \<or>
      (\<exists>m subs. bk_clients b c = Some m \<and> bk_clients b' = (bk_clients b)(c \<mapsto> m\<lparr>mq_subs := subs\<rparr>)))"
    using r by (auto simp: sub__add_def Let_def split_beta split: res.splits option.splits if_splits)
  ultimately show "broker_fine b'"
    using assms(1) subs_change_effect unfolding broker_ok_def client_effect_def by auto
qed

lemma sub__remove_keeps:
  assumes "broker_fine b" "sub__remove b c sub reason = Ok (rc, reason', b')"
  shows "broker_fine b'"
proof -
  have "trees_ok b'" using sub__remove_ok [OF assms(2)] assms(1) by (simp add: broker_ok_def)
  moreover have "bk_db b' = bk_db b \<and> bk_retains b' = bk_retains b \<and> (bk_clients b' = bk_clients b \<or>
      (\<exists>m subs. bk_clients b c = Some m \<and> bk_clients b' = (bk_clients b)(c \<mapsto> m\<lparr>mq_subs := subs\<rparr>)))"
    using assms(2) by (auto simp: sub__remove_def count_removed_def Let_def split_beta split: res.splits option.splits if_splits)
  ultimately show "broker_fine b'"
    using assms(1) subs_change_effect unfolding broker_ok_def client_effect_def by auto
qed

lemma keeps_read_in:
  assumes "broker_fine b"
    and "\<And>m x p. bk_clients b c = Some m \<Longrightarrow> read (mq_in_packet m) = Ok (x, p) \<Longrightarrow>
      broker_fine (put_client b c (m\<lparr>mq_in_packet := p\<rparr>)) \<Longrightarrow> keeps (k x (put_client b c (m\<lparr>mq_in_packet := p\<rparr>)))"
  shows "keeps (read_in b c read k)"
  unfolding read_in_def
  by (intro keep_rules assms) (auto intro: put_client_same_fine assms(1) client_effect_rules)

lemma keeps_read_properties:
  assumes "broker_fine b" "\<And>props b1. broker_fine b1 \<Longrightarrow> keeps (k props b1)"
  shows "keeps (read_properties command b c k)"
  unfolding read_properties_def
  by (intro keep_rules assms) (auto intro: put_client_same_fine assms(1) client_effect_rules)

lemma packet_queue_effect: "packet__queue d m pk = Ok (rc, m') \<Longrightarrow> client_effect d m d m'"
  using packet__queue_frame out_frame_fields(1,2,18) by (metis client_effect_moved)

lemma suback_effect:
  "send__suback d m mid payload = Ok (rc, m') \<Longrightarrow> client_effect d m d m'"
  "send__unsuback d m mid codes props = Ok (rc, m') \<Longrightarrow> client_effect d m d m'"
  by (auto simp: send__suback_def send__unsuback_def Let_def res_bind_Ok_iff dest: packet_queue_effect split: if_splits)

lemma set_mode_effect: "client_effect d m d (mosquitto__set_mode m mode)"
  by (rule client_effect_moved) (simp_all add: mosquitto__set_mode_def)

lemma unsubscribe_one_keeps:
  assumes "unsubscribe_one env b c sub reason = Ok (rc, reason', b')" "broker_fine b"
  shows "broker_fine b'"
proof -
  obtain m where m: "bk_clients b c = Some m" using assms(1) by (auto simp: unsubscribe_one_def split: option.splits)
  define b1 where "b1 = (if sub = ''latency'' then put_client b c (mosquitto__set_mode m normal_mode) else b)"
  have b1: "broker_fine b1" using put_client_same_fine [OF assms(2) m set_mode_effect] assms(2) by (simp add: b1_def)
  have "b' = b \<or> b' = b1 \<or> sub__remove b1 c sub reason = Ok (rc, reason', b')"
    using assms(1) unfolding unsubscribe_one_def m option.case Let_def b1_def [symmetric] by (auto split: if_split_asm)
  then show ?thesis using assms(2) b1 sub__remove_keeps by blast
qed

lemma persistence_fine:
  assumes "broker_fine b"
  shows "broker_fine (b\<lparr>bk_db := (bk_db b)\<lparr>db_persistence_changes := n\<rparr>\<rparr>)"
proof -
  let ?d = "(bk_db b)\<lparr>db_persistence_changes := n\<rparr>"
  have "send_ok (kept_refs (\<lambda>_. 0) (bk_retains b)) ?d (bk_clients b)"
    by (rule send_ok_db [of _ "bk_db b"]) (use assms in \<open>simp_all add: broker_ok_def\<close>)
  then show ?thesis using assms trees_ok_cong [of "b\<lparr>bk_db := ?d\<rparr>" b] by (simp add: broker_ok_def)
qed

lemma unsubscribe_loop_keeps: "broker_fine b \<Longrightarrow> keeps (unsubscribe_loop fuel env c mid reason codes b)"
proof (induction fuel arbitrary: reason codes b)
  case 0
  then show ?case
    by (subst unsubscribe_loop.simps) (auto simp: Let_def intro!: keep_rules keeps_on_client persistence_fine settles_with_db suback_effect)
next
  case (Suc fuel)
  show ?case
    apply (subst unsubscribe_loop.simps)
    apply (simp only: nat.case Let_def)
    apply (intro keep.good_if keeps_read_in Suc.prems keeps_Ok keep.good_bind keeps_on_client persistence_fine settles_with_db)
    by (auto intro!: keep_rules Suc.IH suback_effect dest: unsubscribe_one_keeps)
qed

lemma handle__unsubscribe_keeps: "broker_fine b \<Longrightarrow> keeps (handle__unsubscribe env b c)"
  unfolding handle__unsubscribe_def
  by (intro keep_rules keeps_read_in keeps_read_properties unsubscribe_loop_keeps)

lemma subscribe_options_qos: "subscribe_options m opts rh = Some (qos, options, rh') \<Longrightarrow> qos \<le> 2"
  by (auto simp: subscribe_options_def Let_def not_less split: if_splits)

lemma subscribe_retained_keeps:
  assumes "broker_fine b" "qos \<le> 2"
  shows "keeps (subscribe_retained env b c sub qos ident rh rc2)"
  unfolding subscribe_retained_def Let_def
proof (intro keep.good_option keep.good_error keep.good_if keep.good_bind keeps_Ok assms(1), goal_cases)
  case (1 m x)
  obtain rc d m' n rs where x: "x = (rc, (d, m', n), rs)" by (cases x) auto
  from retain__queue_hands [OF 1(3) [unfolded x] assms(2), of "bk_clients b" c]
  have "send_ok (kept_refs (\<lambda>_. 0) (bk_retains b)) (bk_db b) ((bk_clients b)(c \<mapsto> m)) \<Longrightarrow>
      send_ok (kept_refs (\<lambda>_. 0) rs) d ((bk_clients b)(c \<mapsto> m'))"
    by (auto simp: hands_def dest!: spec [of _ "\<lambda>_. 0"])
  then have "broker_fine (put_client (b\<lparr>bk_db := d, bk_retained_count := n, bk_retains := rs\<rparr>) c m')"
    using assms(1) 1(1) trees_ok_cong [of "put_client (b\<lparr>bk_db := d, bk_retained_count := n, bk_retains := rs\<rparr>) c m'" b]
    by (simp add: broker_ok_def put_client_def fun_upd_idem)
  then show ?case by (simp add: x keeps_Ok)
qed

lemma mount_hash_last:
  assumes "broker_fine b" "bk_clients b c = Some m" "hash_last (levels sub)"
  shows "hash_last (levels (case mq_mount_point m of None \<Rightarrow> sub | Some mount_point \<Rightarrow> mount_point @ sub))"
proof -
  have "mount_ok m" using assms(1,2) by (auto simp: broker_ok_def send_ok_def client_fine_def)
  then show ?thesis using assms(3) hash_last_mount by (auto simp: mount_ok_def split: option.splits)
qed

lemma subscribe_one_keeps:
  assumes "broker_fine b" "hash_last (levels sub)" "qos \<le> 2"
  shows "keeps (subscribe_one env b c sub qos options rh ident rc)"
  unfolding subscribe_one_def Let_def
proof (intro keep.good_option keep.good_error keep.good_if keeps_Ok assms(1), goal_cases)
  case (1 m)
  have q: "(if qos > mq_max_qos m then mq_max_qos m else qos) \<le> 2" using assms(3) by (auto intro: order_trans)
  show ?case
    by (rule keeps_bind [OF sub__add_keeps [OF assms(1) mount_hash_last [OF assms(1) 1(1) assms(2)] q]])
      (unfold prod.case, intro keep.good_if keeps_Ok keeps_bind subscribe_retained_keeps q, simp_all add: keeps_Ok)
qed

lemma waiting_out_effect:
  "db__message_write_queued_out m = Ok (rc, m') \<Longrightarrow> client_effect d m d m'"
  "db__message_write_inflight_out_latest d m = Ok (rc, d', m') \<Longrightarrow> client_effect d m d' m'"
  by (auto intro!: client_effect_out out_run_effect dest: write_queued_out_run write_inflight_out_latest_run)

lemma waiting_settles:
  "settles d m (res_bind (db__message_write_queued_out m) (\<lambda>(rc, m).
     if rc \<noteq> 0 then Ok (rc, d, m) else db__message_write_inflight_out_latest d m))"
proof (rule settle.good_bind, goal_cases)
  case (1 x)
  obtain rc m1 where x: "x = (rc, m1)" by (cases x)
  have l: "settles d m1 (db__message_write_inflight_out_latest d m1)" by (auto simp: settles_def dest: waiting_out_effect(2))
  note e = waiting_out_effect(1) [OF 1 [unfolded x], of d]
  from settles_after [OF e l] e show ?case by (simp add: x settles_Ok)
qed

lemma persistence_effect: "client_effect d m (d\<lparr>db_persistence_changes := n\<rparr>) m"
  by (rule client_effect_in) (simp add: in_effect_def)

lemma subscribe_end_keeps:
  assumes "broker_fine b"
  shows "keeps (subscribe_end b c mid payload rc)"
  unfolding subscribe_end_def
proof (intro keep_rules assms keeps_on_client settle.good_bind)
  fix d :: db and m x assume s: "send__suback d m mid payload = Ok x"
  obtain rc2 m1 where x: "x = (rc2, m1)" by (cases x)
  let ?d = "d\<lparr>db_persistence_changes := db_persistence_changes d + 1\<rparr>"
  have e: "client_effect d m ?d m1"
    using client_effect_trans [OF suback_effect(1) [OF s [unfolded x]] persistence_effect] .
  show "settles d m (case x of (rc2, context) \<Rightarrow>
      let rc = (if rc2 \<noteq> 0 then 1 else rc); d = d\<lparr>db_persistence_changes := db_persistence_changes d + 1\<rparr>
      in if mq_current_out_packet context = None then
           res_bind (db__message_write_queued_out context) (\<lambda>(rc, context).
           if rc \<noteq> 0 then Ok (rc, d, context) else db__message_write_inflight_out_latest d context)
         else Ok (rc, d, context))"
    unfolding x prod.case Let_def
    by (rule settles_after [OF e], intro settle.good_if settles_Ok client_effect_refl waiting_settles)
qed

lemma subscribe_loop_keeps:
  "broker_fine b \<Longrightarrow> keeps (subscribe_loop fuel env c mid ident rh payload rc b)"
proof (induction fuel arbitrary: rh payload rc b)
  case 0
  then show ?case by (subst subscribe_loop.simps) (auto intro!: keep_rules subscribe_end_keeps)
next
  case (Suc fuel)
  show ?case
    unfolding subscribe_loop.simps [of "Suc fuel"] nat.case
  proof (intro keep.good_if keeps_read_in keep.good_option keep.good_error keeps_Ok subscribe_end_keeps Suc.prems Suc.IH, assumption+, goal_cases)
    case (1 m sub p m1 opts p1 m2 o2)
    have cs: "cstring (string_of_bytes sub)" using 1 read_string_cstring by blast
    have h: "hash_last (levels (string_of_bytes sub))"
      using 1 cs by (simp add: sub_topic_check_iff valid_filter_hash_last)
    obtain qos options rh' where o2: "o2 = (qos, options, rh')" by (cases o2)
    have q: "qos \<le> 2" using 1 o2 subscribe_options_qos by metis
    show ?case
      unfolding o2 prod.case
      by (rule keeps_bind [OF subscribe_one_keeps [OF _ h q]]) (use 1 in \<open>auto intro!: keep_rules Suc.IH split: sum.split\<close>)
  qed
qed

lemma handle__subscribe_keeps: "broker_fine b \<Longrightarrow> keeps (handle__subscribe env b c)"
  unfolding handle__subscribe_def Let_def
  by (intro keep_rules keeps_read_in keeps_read_properties subscribe_loop_keeps)

section \<open>The steps of the broker\<close>

text \<open>Every operation with the contract of the outgoing messages keeps the broker.\<close>

context out_operation
begin

lemma keeps_operation:
  assumes "broker_fine b" "valid a"
  shows "keeps (on_client b c (oper a))"
proof (rule keeps_on_client [OF assms(1)])
  fix m
  show "settles (bk_db b) m (oper a (bk_db b) m)"
    unfolding settles_def using effect [of a "bk_db b" m] assms(2) client_effect_out by blast
qed

end

text \<open>
  What happens to the broker: packets of the clients are handled, the broker sends messages of its
  own, clients connect, waiting messages are sent on, the socket takes bytes and the clock goes on.
  Everything else about a client, such as the packet that has arrived, its state, mode or thresholds,
  may change at any time.
\<close>

inductive broker_step :: "broker \<Rightarrow> broker \<Rightarrow> bool" where
  publish: "handle__publish env b c = Ok (rc, b') \<Longrightarrow> broker_step b b'"
| pubrel: "handle__pubrel aenv b c = Ok (rc, b') \<Longrightarrow> broker_step b b'"
| pubackcomp: "on_client b c (\<lambda>d m. handle__pubackcomp d m type) = Ok (rc, b') \<Longrightarrow> broker_step b b'"
| pubrec: "on_client b c handle__pubrec = Ok (rc, b') \<Longrightarrow> broker_step b b'"
| subscribe: "handle__subscribe aenv b c = Ok (rc, b') \<Longrightarrow> broker_step b b'"
| unsubscribe: "handle__unsubscribe aenv b c = Ok (rc, b') \<Longrightarrow> broker_step b b'"
| easy_queue: "db__messages_easy_queue aenv b context topic qos payloadlen payload retain expiry properties = Ok (rc, b') \<Longrightarrow>
    qos \<le> 2 \<Longrightarrow> broker_step b b'"
| accept: "bk_clients b c = None \<Longrightarrow> context__init (bk_db b) sock address_ok = Some m \<Longrightarrow> mount_ok (m\<lparr>mq_mount_point := mp\<rparr>) \<Longrightarrow>
    broker_step b (put_client b c (m\<lparr>mq_mount_point := mp\<rparr>))"
| other: "bk_clients b c = Some m \<Longrightarrow> sets_up m m' \<Longrightarrow> broker_step b (put_client b c m')"
| storage_out: "on_client b c (\<lambda>d m. with_db d (db__message_write_storage_out d m)) = Ok (rc, b') \<Longrightarrow> broker_step b b'"
| queued_out: "on_client b c (\<lambda>d m. with_db d (db__message_write_queued_out m)) = Ok (rc, b') \<Longrightarrow> broker_step b b'"
| inflight_out: "on_client b c db__message_write_inflight_out_all = Ok (rc, b') \<Longrightarrow> broker_step b b'"
| socket: "on_client b c (\<lambda>d m. with_db d (packet__write d m)) = Ok (rc, b') \<Longrightarrow> broker_step b b'"
| clock: "tv_sec (db_monotonic (bk_db b)) \<le> tv_sec t \<Longrightarrow> broker_step b
    (b\<lparr>bk_db := (bk_db b)\<lparr>db_monotonic := t, db_now_s := s, db_now_real_s := r, db_realtime := rt\<rparr>\<rparr>)"

lemma init_fine:
  assumes "context__init d sock address_ok = Some m" "mount_ok (m\<lparr>mq_mount_point := mp\<rparr>)"
  shows "client_fine d (m\<lparr>mq_mount_point := mp\<rparr>)" "refs (m\<lparr>mq_mount_point := mp\<rparr>) p = 0"
  using assms
  by (auto simp: client_fine_def refs_def md_refs_def context__init_def Let_def mosquitto_zero_def msg_data_zero_def
      mosquitto__set_state_def mosquitto__set_mode_def quota_ok_def states_ok_def keys_def all_msgs_def counters_exact_def
      clocked_def storage_sorted_def split: if_splits option.splits)

lemma accept_fine:
  assumes "broker_fine b" "bk_clients b c = None" "client_fine (bk_db b) m" "\<And>p. refs m p = 0"
  shows "broker_fine (put_client b c m)"
proof -
  let ?X = "kept_refs (\<lambda>_. 0) (bk_retains b)"
  have ok: "send_ok ?X (bk_db b) (bk_clients b)" using assms(1) by (simp add: broker_ok_def)
  note okD = send_okD [OF ok]
  have "all_refs ((bk_clients b)(c \<mapsto> m)) p = all_refs (bk_clients b) p" for p
  proof -
    have d: "c \<notin> dom (bk_clients b)" using assms(2) by auto
    have "(\<Sum>c' \<in> dom (bk_clients b). refs (the (((bk_clients b)(c \<mapsto> m)) c')) p) = all_refs (bk_clients b) p"
      unfolding all_refs_def using d by (intro sum.cong) auto
    then show ?thesis
      using all_refs_remove [of "(bk_clients b)(c \<mapsto> m)" c m p] okD(1) d assms(4) by (simp add: Diff_insert_absorb)
  qed
  then have "send_ok ?X (bk_db b) ((bk_clients b)(c \<mapsto> m))"
    using okD assms(3) unfolding send_ok_def by (auto split: if_splits)
  then show ?thesis using assms(1) trees_ok_cong [of "put_client b c m" b] by (simp add: broker_ok_def put_client_def)
qed

lemma clock_fine:
  assumes "broker_fine b" "tv_sec (db_monotonic (bk_db b)) \<le> tv_sec t"
  shows "broker_fine (b\<lparr>bk_db := (bk_db b)\<lparr>db_monotonic := t, db_now_s := s, db_now_real_s := r, db_realtime := rt\<rparr>\<rparr>)"
proof -
  let ?d = "(bk_db b)\<lparr>db_monotonic := t, db_now_s := s, db_now_real_s := r, db_realtime := rt\<rparr>"
  have "client_fine ?d m" if "client_fine (bk_db b) m" for m
    using that clocked_mono assms(2) by (auto simp: client_fine_def)
  then have "send_ok X ?d (bk_clients b)" if "send_ok X (bk_db b) (bk_clients b)" for X
    using that unfolding send_ok_def by auto
  then show ?thesis using assms(1) trees_ok_cong [of "b\<lparr>bk_db := ?d\<rparr>" b] by (simp add: broker_ok_def)
qed

lemma broker_step_fine: "broker_step b b' \<Longrightarrow> broker_fine b \<Longrightarrow> broker_fine b'"
proof (induction rule: broker_step.induct)
  case (pubackcomp b c type rc b')
  from keepsD [OF ack.keeps_operation [OF pubackcomp(2)] pubackcomp(1)] show ?case by simp
next
  case (pubrec b c rc b')
  from keepsD [OF rec.keeps_operation [OF pubrec(2)] pubrec(1)] show ?case by simp
next
  case (accept b c sock address_ok m mp)
  then show ?case using accept_fine init_fine by blast
next
  case (other b c m m')
  then show ?case using put_client_same_fine sets_up_effect by blast
next
  case (storage_out b c rc b')
  from keepsD [OF sto.keeps_operation [OF storage_out(2)] storage_out(1)] show ?case by simp
next
  case (queued_out b c rc b')
  from keepsD [OF que.keeps_operation [OF queued_out(2)] queued_out(1)] show ?case by simp
next
  case (inflight_out b c rc b')
  from keepsD [OF inf.keeps_operation [OF inflight_out(2)] inflight_out(1)] show ?case by simp
next
  case (socket b c rc b')
  have "packet__write d m = Ok (rc, m') \<Longrightarrow> client_effect d m d m'" for d m rc m'
    using packet__write_frame out_frame_fields(1,2,18) by (metis client_effect_moved)
  then have "keeps (on_client b c (\<lambda>d m. with_db d (packet__write d m)))"
    by (intro keeps_on_client [OF socket(2)] settles_with_db)
  from keepsD [OF this socket(1)] show ?case .
qed (auto intro: clock_fine keepsD [OF handle__publish_keeps] keepsD [OF handle__pubrel_keeps]
    keepsD [OF handle__subscribe_keeps] keepsD [OF handle__unsubscribe_keeps] keepsD [OF easy_queue_keeps])

text \<open>The broker when it starts.\<close>

definition new_broker :: "db \<Rightarrow> broker" where
  "new_broker d = \<lparr> bk_db = d\<lparr>db_msg_store := []\<rparr>, bk_clients = Map.empty, bk_subs = new_subs, bk_retains = retain__init [],
     bk_subscription_count = 0, bk_shared_subscription_count = 0, bk_retained_count = 0 \<rparr>"

lemma new_broker_fine: "broker_fine (new_broker d)"
  using new_subs_ok [of "new_broker d"]
  by (simp add: broker_ok_def send_ok_def new_broker_def acct_def all_refs_def store_at_def retain__init_def retain_refs_add)

section \<open>Properties\<close>


text \<open>A retained message that the broker publishes when it starts.\<close>

definition sample_start :: broker where
  "sample_start = new_broker (db_zero\<lparr>db_config := config_zero\<lparr>cf_retain_available := True\<rparr>\<rparr>)"

lemma sample_retained:
  "\<exists>rc b. db__messages_easy_queue env sample_start None (Some ''a'') 0 1 [7] True 0 [] = Ok (rc, b) \<and>
     retain_refs (bk_retains b) 0 = 1 \<and> bk_clients b = Map.empty"
  by (simp add: db__messages_easy_queue_def sample_start_def new_broker_def db_zero_def config_zero_def msg_store_zero_def
      db__message_store_def db__msg_store_add_def sub__messages_queue_def sample_tokens new_subs_def Let_def
      db__msg_store_ref_inc_def db__msg_store_ref_dec_def db__msg_store_remove_def store_get_def store_set_def store_at_def
      retain__store_def retain__init_def retain__add_hier_entry_def subs__process_def search_return_def search_hash_def
      search_branch_def note_rc_def)


end
