(* ===== verification/Handler_Loops.thy ===== *)
theory Handler_Loops
  imports Broker_Handlers
begin

text \<open>
  The loops of SUBSCRIBE and UNSUBSCRIBE over the filters of a packet end: every round reads at least
  two bytes of the packet, and nothing that a round does, up to sending retained messages to the
  client, touches the packet. So their fuel, the length of the packet and one, is never used up.
\<close>

section \<open>What is left to read\<close>

definition reading :: "broker \<Rightarrow> client \<Rightarrow> nat \<Rightarrow> bool" where
  "reading b c n \<longleftrightarrow> (\<exists>m. bk_clients b c = Some m \<and> in_wf (mq_in_packet m) \<and> length (rest (mq_in_packet m)) \<le> n)"

lemma reading_mono: "reading b c n \<Longrightarrow> n \<le> n' \<Longrightarrow> reading b c n'"
  by (auto simp: reading_def)

lemma dec_string_two: "dec_string bs = Inr (s, n) \<Longrightarrow> 2 \<le> n"
  by (auto simp: dec_string_def dec_binary_def split: sum.splits if_splits prod.splits)

lemma read_in_cong:
  assumes "bk_clients b c = Some m"
    and "\<And>x p. read (mq_in_packet m) = Ok (x, p) \<Longrightarrow>
      k x (put_client b c (m\<lparr>mq_in_packet := p\<rparr>)) = k' x (put_client b c (m\<lparr>mq_in_packet := p\<rparr>))"
  shows "read_in b c read k = read_in b c read k'"
  using assms by (auto simp: read_in_def split: res.split)

lemma res_bind_cong: "(\<And>x. r = Ok x \<Longrightarrow> f x = g x) \<Longrightarrow> res_bind r f = res_bind r g"
  by (cases r) auto

lemma reading_string:
  assumes "in_wf p" "length (rest p) \<le> n + 2" "packet__read_string p = Ok (s, p')"
  shows "reading (put_client b c (m\<lparr>mq_in_packet := p'\<rparr>)) c n"
proof -
  obtain k where k: "dec_string (rest p) = Inr (s, k)" "p' = adv p k" "k \<le> length (rest p)"
    using string_codec.reads [OF assms(1,3)] .
  have "length (rest p') + k = length (rest p)" "in_wf p'"
    using in_wf_adv [OF assms(1) k(3)] k by auto
  then show ?thesis using dec_string_two [OF k(1)] assms(2) by (auto simp: reading_def)
qed

lemma reading_byte:
  assumes "in_wf p" "length (rest p) \<le> n" "packet__read_byte p = Ok (s, p')"
  shows "reading (put_client b c (m\<lparr>mq_in_packet := p'\<rparr>)) c n"
proof -
  obtain k where k: "dec_byte (rest p) = Inr (s, k)" "p' = adv p k" "k \<le> length (rest p)"
    using byte_rd.reads [OF assms(1,3)] .
  have "length (rest p') + k = length (rest p)" "in_wf p'"
    using in_wf_adv [OF assms(1) k(3)] k by auto
  then show ?thesis using assms(2) by (auto simp: reading_def)
qed

lemma more_in_rest:
  assumes "bk_clients b c = Some m" "in_wf (mq_in_packet m)"
  shows "more_in b c \<longleftrightarrow> rest (mq_in_packet m) \<noteq> []"
  using assms by (simp add: more_in_def all_read_def in_wf_def rest_def word_le_nat_alt not_le)

section \<open>One filter leaves the packet alone\<close>

text \<open>The packet of the client after an operation of the broker.\<close>

definition same_packet :: "broker \<Rightarrow> client \<Rightarrow> broker \<Rightarrow> bool" where
  "same_packet b c b' \<longleftrightarrow> (\<forall>m. bk_clients b c = Some m \<longrightarrow>
     (\<exists>m'. bk_clients b' c = Some m' \<and> mq_in_packet m' = mq_in_packet m))"

lemma same_packet_refl [simp]: "same_packet b c b"
  by (simp add: same_packet_def)

lemma same_packet_trans: "same_packet b c b1 \<Longrightarrow> same_packet b1 c b2 \<Longrightarrow> same_packet b c b2"
  by (auto simp: same_packet_def)

lemma same_packet_reading: "same_packet b c b' \<Longrightarrow> reading b c n \<Longrightarrow> reading b' c n"
  by (fastforce simp: same_packet_def reading_def)

lemma sub__remove_packet: "sub__remove b c sub reason = Ok (rc, reason', b') \<Longrightarrow> same_packet b c b'"
  by (auto simp: sub__remove_def count_removed_def Let_def split_beta same_packet_def split: res.splits option.splits if_splits)

lemma sub__add_packet: "sub__add b c sub qos ident options = Ok (rc, b') \<Longrightarrow> same_packet b c b'"
  by (auto simp: sub__add_def Let_def split_beta same_packet_def split: res.splits option.splits if_splits)

lemma unsubscribe_one_packet:
  assumes "unsubscribe_one env b c sub reason = Ok (rc, reason', b')"
  shows "same_packet b c b'"
proof -
  obtain m where m: "bk_clients b c = Some m" using assms(1) by (auto simp: unsubscribe_one_def split: option.splits)
  define b1 where "b1 = (if sub = ''latency'' then put_client b c (mosquitto__set_mode m normal_mode) else b)"
  have b1: "same_packet b c b1" using m by (simp add: b1_def same_packet_def mosquitto__set_mode_def)
  have "b' = b \<or> b' = b1 \<or> sub__remove b1 c sub reason = Ok (rc, reason', b')"
    using assms(1) unfolding unsubscribe_one_def m option.case Let_def b1_def [symmetric] by (auto split: if_split_asm)
  then show ?thesis using b1 sub__remove_packet same_packet_trans by auto
qed

lemma if_cases: "(if c then x else y) = y \<or> (if c then x else y) = x"
  by simp

lemma subscribe_retained_packet:
  assumes "subscribe_retained env b c sub qos ident rh rc2 = Ok (rc, b')" "qos \<le> 2"
  shows "same_packet b c b'"
proof -
  obtain m where m: "bk_clients b c = Some m" using assms(1) by (auto simp: subscribe_retained_def split: option.splits)
  define i where "i = (if mq_protocol m = mosq_p_mqtt311 \<or> mq_protocol m = mosq_p_mqtt31 then 0 else ident)"
  have "subscribe_retained env b c sub qos ident rh rc2 = Ok (0, b) \<or> subscribe_retained env b c sub qos ident rh rc2 =
      res_bind (retain__queue env (bk_retains b) sub qos i (bk_db b, m, bk_retained_count b)) (\<lambda>(rc, (d, context, n), retains).
        Ok (rc, put_client (b\<lparr>bk_db := d, bk_retained_count := n, bk_retains := retains\<rparr>) c context))"
    unfolding subscribe_retained_def m option.case Let_def i_def by (rule if_cases)
  then show ?thesis
  proof
    assume "subscribe_retained env b c sub qos ident rh rc2 = Ok (0, b)"
    then show ?thesis using assms(1) by simp
  next
    assume e: "subscribe_retained env b c sub qos ident rh rc2 =
      res_bind (retain__queue env (bk_retains b) sub qos i (bk_db b, m, bk_retained_count b)) (\<lambda>(rc, (d, context, n), retains).
        Ok (rc, put_client (b\<lparr>bk_db := d, bk_retained_count := n, bk_retains := retains\<rparr>) c context))"
    obtain rc1 d m' n rs where q: "retain__queue env (bk_retains b) sub qos i (bk_db b, m, bk_retained_count b) = Ok (rc1, (d, m', n), rs)"
      and b': "b' = put_client (b\<lparr>bk_db := d, bk_retained_count := n, bk_retains := rs\<rparr>) c m'"
      using assms(1) unfolding e by (auto elim!: res_bind_OkE)
    have "mq_in_packet m' = mq_in_packet m"
      using retain__queue_hands [OF q assms(2), of Map.empty c] by (simp add: hands_def)
    then show ?thesis using m by (simp add: b' same_packet_def)
  qed
qed

lemma subscribe_one_packet:
  assumes "subscribe_one env b c sub qos options rh ident rc = Ok (r, b')" "qos \<le> 2"
  shows "same_packet b c b'"
proof -
  obtain m where m: "bk_clients b c = Some m" using assms(1) by (auto simp: subscribe_one_def split: option.splits)
  define q where "q = (if qos > mq_max_qos m then mq_max_qos m else qos)"
  have q: "q \<le> 2" using assms(2) by (auto simp: q_def intro: order_trans)
  consider "b' = b" | rc2 b1 sub' where "sub__add b c sub' q ident options = Ok (rc2, b1)"
      "b' = b1 \<or> (\<exists>rc3. subscribe_retained env b1 c sub' q ident rh rc2 = Ok (rc3, b'))"
    using assms(1) unfolding subscribe_one_def m option.case Let_def q_def [symmetric]
    by (auto simp: res_bind_Ok_iff split: if_split_asm)
  then show ?thesis
  proof cases
    case (2 rc2 b1 sub')
    have "b' = b1 \<or> same_packet b1 c b'" using 2(2) subscribe_retained_packet [OF _ q] by auto
    then show ?thesis using sub__add_packet [OF 2(1)] same_packet_trans by auto
  qed simp
qed

section \<open>The loops end\<close>

lemma unsubscribe_fuel:
  "reading b c n \<Longrightarrow> n < fuel \<Longrightarrow> n < fuel' \<Longrightarrow>
   unsubscribe_loop fuel env c mid reason codes b = unsubscribe_loop fuel' env c mid reason codes b"
proof (induction n arbitrary: fuel fuel' reason codes b rule: less_induct)
  case (less n)
  obtain m where m: "bk_clients b c = Some m" "in_wf (mq_in_packet m)" "length (rest (mq_in_packet m)) \<le> n"
    using less.prems(1) by (auto simp: reading_def)
  obtain f f' where f: "fuel = Suc f" "fuel' = Suc f'" using less.prems(2,3) by (metis not_less0 not0_implies_Suc)
  show ?case
  proof (cases "more_in b c")
    case True
    then have n: "0 < n" using more_in_rest [OF m(1,2)] m(3) by (cases "rest (mq_in_packet m)") auto
    show ?thesis
      unfolding f unsubscribe_loop.simps [of "Suc _"] nat.case
    proof (intro if_cong refl read_in_cong [OF m(1)] res_bind_cong)
      fix sub p x
      assume r: "packet__read_string (mq_in_packet m) = Ok (sub, p)"
        and x: "unsubscribe_one env (put_client b c (m\<lparr>mq_in_packet := p\<rparr>)) c (string_of_bytes sub) reason = Ok x"
      obtain rc reason' b1 where x': "x = (rc, reason', b1)" by (cases x)
      have "reading b1 c (n - 2)"
        using same_packet_reading [OF unsubscribe_one_packet [OF x [unfolded x']] reading_string [OF m(2) _ r]] m(3) by simp
      from less.IH [OF _ this, of f f'] n less.prems(2,3) f
      show "(case x of (rc, reason, b) \<Rightarrow> if rc \<noteq> 0 then Ok (rc, b)
            else unsubscribe_loop f env c mid reason (codes @ [reason]) b) =
          (case x of (rc, reason, b) \<Rightarrow> if rc \<noteq> 0 then Ok (rc, b)
            else unsubscribe_loop f' env c mid reason (codes @ [reason]) b)"
        by (simp add: x')
    qed
  next
    case False
    then show ?thesis by (simp add: unsubscribe_loop.simps)
  qed
qed

lemma subscribe_fuel:
  "reading b c n \<Longrightarrow> n < fuel \<Longrightarrow> n < fuel' \<Longrightarrow>
   subscribe_loop fuel env c mid ident rh payload rc b = subscribe_loop fuel' env c mid ident rh payload rc b"
proof (induction n arbitrary: fuel fuel' rh payload rc b rule: less_induct)
  case (less n)
  obtain m where m: "bk_clients b c = Some m" "in_wf (mq_in_packet m)" "length (rest (mq_in_packet m)) \<le> n"
    using less.prems(1) by (auto simp: reading_def)
  obtain f f' where f: "fuel = Suc f" "fuel' = Suc f'" using less.prems(2,3) by (metis not_less0 not0_implies_Suc)
  show ?case
  proof (cases "more_in b c")
    case True
    then have n: "0 < n" using more_in_rest [OF m(1,2)] m(3) by (cases "rest (mq_in_packet m)") auto
    have IH: "subscribe_loop f env c mid ident rh payload rc b1 = subscribe_loop f' env c mid ident rh payload rc b1"
      if "reading b1 c (n - 2)" for rh payload rc b1
      using less.IH [OF _ that, of f f'] n less.prems(2,3) f by simp
    show ?thesis
      unfolding f subscribe_loop.simps [of "Suc _"] nat.case
    proof (intro if_cong refl read_in_cong [OF m(1)])
      fix sub p
      assume "packet__read_string (mq_in_packet m) = Ok (sub, p)"
      then have r: "reading (put_client b c (m\<lparr>mq_in_packet := p\<rparr>)) c (n - 2)"
        using reading_string [OF m(2)] m(3) by simp
      then show "subscribe_loop f env c mid ident rh payload rc (put_client b c (m\<lparr>mq_in_packet := p\<rparr>)) =
          subscribe_loop f' env c mid ident rh payload rc (put_client b c (m\<lparr>mq_in_packet := p\<rparr>))" by (rule IH)
      have w: "in_wf p" "length (rest p) \<le> n - 2" using r by (auto simp: reading_def)
      let ?next = "\<lambda>f opts b. case bk_clients b c of None \<Rightarrow> Fault
          | Some context \<Rightarrow> (case subscribe_options context opts rh of None \<Rightarrow> Ok (MOSQ_ERR_MALFORMED_PACKET, b)
            | Some (qos, options, rh) \<Rightarrow>
                res_bind (subscribe_one env b c (string_of_bytes sub) qos options rh ident rc) (\<lambda>(r, b).
                  case r of Inl rc \<Rightarrow> Ok (rc, b)
                  | Inr (code, rc) \<Rightarrow> subscribe_loop f env c mid ident rh (payload @ [code]) rc b))"
      show "read_in (put_client b c (m\<lparr>mq_in_packet := p\<rparr>)) c packet__read_byte (?next f) =
          read_in (put_client b c (m\<lparr>mq_in_packet := p\<rparr>)) c packet__read_byte (?next f')"
      proof (rule read_in_cong [OF put_client_sel(1)])
        fix opts p1
        let ?m = "m\<lparr>mq_in_packet := p\<rparr>"
        let ?b = "put_client (put_client b c ?m) c (?m\<lparr>mq_in_packet := p1\<rparr>)"
        assume "packet__read_byte (mq_in_packet ?m) = Ok (opts, p1)"
        then have rb: "reading ?b c (n - 2)" using reading_byte [of p "n - 2" opts p1] w by simp
        have "res_bind (subscribe_one env ?b c (string_of_bytes sub) qos options rh' ident rc) (\<lambda>(r, b).
            case r of Inl rc \<Rightarrow> Ok (rc, b) | Inr (code, rc) \<Rightarrow> subscribe_loop f env c mid ident rh' (payload @ [code]) rc b) =
          res_bind (subscribe_one env ?b c (string_of_bytes sub) qos options rh' ident rc) (\<lambda>(r, b).
            case r of Inl rc \<Rightarrow> Ok (rc, b) | Inr (code, rc) \<Rightarrow> subscribe_loop f' env c mid ident rh' (payload @ [code]) rc b)"
          if "qos \<le> 2" for qos options rh'
          by (rule res_bind_cong)
            (auto split: sum.split intro!: IH same_packet_reading [OF subscribe_one_packet [OF _ that] rb])
        then show "?next f opts ?b = ?next f' opts ?b" by (auto dest: subscribe_options_qos split: option.split)
      qed
    qed
  next
    case False
    then show ?thesis by (simp add: subscribe_loop.simps)
  qed
qed

section \<open>Properties\<close>



end
