(* ===== verification/Payload_Lifetime.thy ===== *)
theory Payload_Lifetime
  imports Transmit_Policy
begin

text \<open>
  How long the payload of a PUBLISH lives. A packet of this program does not copy the payload:
  \<open>payload_store\<close> points into the stored message until the last byte is written
  (\<^verbatim>\<open>lib/send_publish.c\<close>, \<^verbatim>\<open>lib/packet_mosq.c\<close>), but the packet takes no reference of
  the message. With QoS 0 the reference of the client is given back as soon as the packet is queued.
\<close>

section \<open>An example\<close>

definition late_db :: db where
  "late_db = db_zero\<lparr>db_msg_store := [(1, msg_store_zero\<lparr>ms_topic := Some ''a'', ms_payload := [1, 2, 3], ms_payloadlen := 3,
     ms_ref_count := 1\<rparr>)], db_msg_store_count := 1, db_msg_store_bytes := 3\<rparr>"

definition late_msg :: mosquitto_client_msg where
  "late_msg = \<lparr> cm_store = 1, cm_properties = [], cm_timestamp = 0, cm_mid = 0, cm_qos = 0, cm_retain = False,
     cm_direction = mosq_md_out, cm_state = mosq_ms_publish_qos0, cm_dup = False,
     cm_storage_time = \<lparr> tv_sec = 0, tv_nsec = 0 \<rparr> \<rparr>"

definition late_client :: mosquitto where
  "late_client = mosquitto_zero\<lparr>mq_sock := 3, mq_state := mosq_cs_active, mq_protocol := mosq_p_mqtt311, mq_id := Some ''c'',
     mq_retain_available := True, mq_max_qos := 2,
     mq_msgs_out := msg_data_zero\<lparr>md_inflight := [late_msg], md_msg_count := 1, md_msg_bytes := 3\<rparr>\<rparr>"

section \<open>Properties\<close>


end
