(* ===== verification/Send_Control.thy ===== *)
theory Send_Control
  imports Send_Mosq Property_Lists
begin

text \<open>
  The packets that open and close a connection: CONNACK (\<^verbatim>\<open>src/send_connack.c\<close>),
  DISCONNECT (\<^verbatim>\<open>lib/send_disconnect.c\<close>) and AUTH (\<^verbatim>\<open>src/send_auth.c\<close>). Logging and
  failing allocations are not modelled.
\<close>

section \<open>DISCONNECT\<close>

definition send__disconnect :: "db \<Rightarrow> mosquitto \<Rightarrow> u8 \<Rightarrow> mosquitto_property list \<Rightarrow> (rc \<times> mosquitto) res" where
  "send__disconnect d mosq reason_code properties =
    (let coded = (mq_protocol mosq = mosq_p_mqtt5 \<and> (reason_code \<noteq> 0 \<or> properties \<noteq> []));
         remaining_length = (if coded then
           (if properties \<noteq> [] then 1 + property__get_remaining_length properties else 1) else 0)
     in res_bind (packet__alloc (packet_zero\<lparr>pk_command := 0xE0, pk_remaining_length := remaining_length\<rparr>))
       (\<lambda>(rc, packet).
          if rc \<noteq> 0 then Ok (rc, mosq)
          else
            res_bind (if coded then
                res_bind (packet__write_byte packet reason_code) (\<lambda>packet.
                  if properties \<noteq> [] then
                    res_bind (property__write_all packet properties True) (\<lambda>(packet, _). Ok packet)
                  else Ok packet)
              else Ok packet)
            (packet__queue d mosq)))"

lemma send__disconnect_stream:
  assumes "out_wf d m"
  shows "\<exists>rc m'. send__disconnect d m reason_code [] = Ok (rc, m') \<and> out_frame m m' \<and> out_wf d m' \<and>
    count_gap m' = count_gap m \<and> mq_wire m' @ out_stream d m' = mq_wire m @ out_stream d m @
      packet_of 0xE0 (if mq_protocol m = mosq_p_mqtt5 \<and> reason_code \<noteq> 0 then [reason_code] else [])"
proof -
  let ?coded = "mq_protocol m = mosq_p_mqtt5 \<and> reason_code \<noteq> 0"
  have "emits (\<lambda>p. if ?coded then packet__write_byte p reason_code else Ok p) (if ?coded then [reason_code] else [])"
    using byte_wr.wr_emits [OF TrueI, of reason_code] emits_Ok by (rule emits_if)
  note sent = packet_sent [OF assms this, of "if ?coded then 1 else 0" "0xE0"]
  have "res_bind r Ok = r" for r :: "packet res" by (cases r) auto
  then have "send__disconnect d m reason_code [] =
    res_bind (packet__alloc (packet_zero\<lparr>pk_command := 0xE0, pk_remaining_length := (if ?coded then 1 else 0)\<rparr>))
      (\<lambda>(rc, packet). if rc \<noteq> 0 then Ok (rc, m)
        else res_bind (if ?coded then packet__write_byte packet reason_code else Ok packet) (packet__queue d m))"
    by (simp add: send__disconnect_def Let_def cong: if_cong)
  with sent show ?thesis by simp
qed

section \<open>CONNACK\<close>

text \<open>
  One of the properties that \<open>send__connack\<close> adds. An addition that fails ends the function with
  its return code, \<open>Inl\<close> here.
\<close>

definition connack_add :: "bool \<Rightarrow> (mosquitto_property list option \<Rightarrow> rc \<times> mosquitto_property list option) \<Rightarrow>
    rc + mosquitto_property list \<Rightarrow> rc + mosquitto_property list" where
  "connack_add wanted add props = (case props of Inl rc \<Rightarrow> Inl rc
     | Inr l \<Rightarrow> if wanted then
         (case add (Some l) of (rc, l') \<Rightarrow> if rc \<noteq> 0 then Inl rc else Inr (case l' of None \<Rightarrow> [] | Some l \<Rightarrow> l))
       else Inr l)"

text \<open>The properties of a CONNACK with MQTT v5: those given and those about the limits of the broker.\<close>

definition connack_properties ::
    "config \<Rightarrow> u8 \<Rightarrow> u8 \<Rightarrow> mosquitto_property list \<Rightarrow> rc + mosquitto_property list" where
  "connack_properties cf max_qos reason_code props =
    (let props = Inr props;
         props = connack_add (reason_code < 128 \<and> \<not> cf_retain_available cf)
           (\<lambda>l. mosquitto_property_add_byte l MQTT_PROP_RETAIN_AVAILABLE 0) props;
         props = connack_add (reason_code < 128 \<and> cf_max_packet_size cf > 0)
           (\<lambda>l. mosquitto_property_add_int32 l MQTT_PROP_MAXIMUM_PACKET_SIZE (cf_max_packet_size cf)) props;
         props = connack_add (reason_code < 128 \<and> cf_max_inflight_messages cf > 0)
           (\<lambda>l. mosquitto_property_add_int16 l MQTT_PROP_RECEIVE_MAXIMUM (cf_max_inflight_messages cf)) props
     in connack_add (max_qos \<noteq> 2) (\<lambda>l. mosquitto_property_add_byte l MQTT_PROP_MAXIMUM_QOS max_qos) props)"

definition send__connack ::
    "db \<Rightarrow> mosquitto \<Rightarrow> u8 \<Rightarrow> u8 \<Rightarrow> mosquitto_property list \<Rightarrow> (rc \<times> mosquitto) res" where
  "send__connack d context ack reason_code properties =
    res_bind (mosquitto_property_copy_all (Some []) properties) (\<lambda>(rc, connack_props).
      if rc \<noteq> 0 then Ok (rc, context)
      else
        let connack_props = (case connack_props of None \<Rightarrow> [] | Some l \<Rightarrow> l) in
        res_bind (if mq_protocol context = mosq_p_mqtt5 then
            (case mq_listener context of None \<Rightarrow> Fault
             | Some listener \<Rightarrow>
                 Ok (connack_properties (db_config d) (li_max_qos listener) reason_code connack_props))
          else Ok (Inr connack_props)) (\<lambda>r.
        case r of Inl rc \<Rightarrow> Ok (rc, context)
        | Inr connack_props \<Rightarrow>
            let remaining_length = (if mq_protocol context = mosq_p_mqtt5
                  then 2 + property__get_remaining_length connack_props else 2)
            in if packet__check_oversize context remaining_length \<noteq> 0 then Ok (MOSQ_ERR_OVERSIZE_PACKET, context)
               else
                 res_bind (packet__alloc (packet_zero\<lparr>pk_command := 0x20, pk_remaining_length := remaining_length\<rparr>))
                   (\<lambda>(rc, packet).
                 if rc \<noteq> 0 then Ok (rc, context)
                 else
                   res_bind (packet__write_byte packet ack) (\<lambda>packet.
                   res_bind (packet__write_byte packet reason_code) (\<lambda>packet.
                   res_bind (if mq_protocol context = mosq_p_mqtt5
                       then res_bind (property__write_all packet connack_props True) (\<lambda>(packet, _). Ok packet)
                       else Ok packet) (\<lambda>packet.
                     packet__queue d context packet))))))"

text \<open>
  A CONNACK without properties of its own: it is added to the stream, or refused as too large for
  the client. The properties of the broker are short.
\<close>

definition short_props :: "nat \<Rightarrow> mosquitto_property list \<Rightarrow> bool" where
  "short_props n l \<longleftrightarrow> (\<forall>pr \<in> set l. writable_prop pr) \<and> length (enc_property_list l) \<le> n"

lemma connack_add_short:
  assumes "short_props n l" and "add (Some l) = (0, Some (l @ [p]))" and "writable_prop p" "length (enc_property p) \<le> 5"
  shows "\<exists>l'. connack_add wanted add (Inr l) = Inr l' \<and> short_props (n + 5) l'"
  using assms by (auto simp: connack_add_def short_props_def)

lemma connack_properties_short: "\<exists>l. connack_properties cf max_qos reason [] = Inr l \<and> short_props 20 l"
proof -
  have b: "\<exists>l'. connack_add w (\<lambda>l. mosquitto_property_add_byte l i v) (Inr l) = Inr l' \<and> short_props (n + 5) l'"
    if "short_props n l" "prop_class i = PC_byte" for w i v l n
    using that by (intro connack_add_short [of _ _ _ "(new_prop i)\<lparr>pr_i8 := v\<rparr>"])
      (simp_all add: mosquitto_property_add_byte_def property__add_def new_prop_def writable_prop_def enc_property_def enc_prop_value_def)
  have h: "\<exists>l'. connack_add w (\<lambda>l. mosquitto_property_add_int16 l i v) (Inr l) = Inr l' \<and> short_props (n + 5) l'"
    if "short_props n l" "prop_class i = PC_uint16" for w i v l n
    using that by (intro connack_add_short [of _ _ _ "(new_prop i)\<lparr>pr_i16 := v\<rparr>"])
      (simp_all add: mosquitto_property_add_int16_def property__add_def new_prop_def writable_prop_def enc_property_def enc_prop_value_def)
  have i: "\<exists>l'. connack_add w (\<lambda>l. mosquitto_property_add_int32 l i v) (Inr l) = Inr l' \<and> short_props (n + 5) l'"
    if "short_props n l" "prop_class i = PC_uint32" for w i v l n
    using that by (intro connack_add_short [of _ _ _ "(new_prop i)\<lparr>pr_i32 := v\<rparr>"])
      (simp_all add: mosquitto_property_add_int32_def property__add_def new_prop_def writable_prop_def enc_property_def enc_prop_value_def enc_u32_def)
  have "short_props 0 []" by (simp add: short_props_def)
  then obtain l1 where l1: "connack_add (reason < 128 \<and> \<not> cf_retain_available cf)
      (\<lambda>l. mosquitto_property_add_byte l MQTT_PROP_RETAIN_AVAILABLE 0) (Inr []) = Inr l1" "short_props 5 l1"
    using b [of 0 "[]" MQTT_PROP_RETAIN_AVAILABLE] by (auto simp: prop_class_def)
  then obtain l2 where l2: "connack_add (reason < 128 \<and> cf_max_packet_size cf > 0)
      (\<lambda>l. mosquitto_property_add_int32 l MQTT_PROP_MAXIMUM_PACKET_SIZE (cf_max_packet_size cf)) (Inr l1) = Inr l2" "short_props 10 l2"
    using i [of 5 l1 MQTT_PROP_MAXIMUM_PACKET_SIZE] by (auto simp: prop_class_def)
  then obtain l3 where l3: "connack_add (reason < 128 \<and> cf_max_inflight_messages cf > 0)
      (\<lambda>l. mosquitto_property_add_int16 l MQTT_PROP_RECEIVE_MAXIMUM (cf_max_inflight_messages cf)) (Inr l2) = Inr l3" "short_props 15 l3"
    using h [of 10 l2 MQTT_PROP_RECEIVE_MAXIMUM] by (auto simp: prop_class_def)
  then obtain l4 where "connack_add (max_qos \<noteq> 2) (\<lambda>l. mosquitto_property_add_byte l MQTT_PROP_MAXIMUM_QOS max_qos) (Inr l3) = Inr l4"
    "short_props 20 l4"
    using b [of 15 l3 MQTT_PROP_MAXIMUM_QOS] by (auto simp: prop_class_def)
  then show ?thesis using l1 l2 l3 by (simp add: connack_properties_def Let_def)
qed

lemma send__connack_stream:
  assumes "out_wf d m" "mq_listener m \<noteq> None"
  shows "\<exists>rc m'. send__connack d m ack reason [] = Ok (rc, m') \<and> out_frame m m' \<and> out_wf d m'"
proof -
  obtain li where li: "mq_listener m = Some li" using assms(2) by blast
  define v5 where "v5 = (mq_protocol m = mosq_p_mqtt5)"
  obtain l where l: "connack_properties (db_config d) (li_max_qos li) reason [] = Inr l" "short_props 20 l"
    using connack_properties_short by blast
  define ps where "ps = (if v5 then l else [])"
  have w: "\<forall>pr \<in> set ps. writable_prop pr" "length (enc_property_list ps) \<le> 20"
    using l(2) by (simp_all add: short_props_def ps_def)
  let ?n = "if v5 then 2 + property__get_remaining_length ps else 2" and ?e = "if v5 then enc_properties ps else []"
  have "length (enc_varint (length (enc_property_list ps))) = 1" using w(2) by (simp add: enc_varint.simps)
  then have len: "length (enc_properties ps) \<le> 21" using w(2) by (simp add: enc_properties_def)
  have n: "unat ?n = length ([ack] @ [reason] @ ?e)"
    using unat_remaining_length [OF w(1)] w(2) len by (auto simp: unat_word_ariths)
  have "emits_rc (\<lambda>p. property__write_all p ps True) (enc_properties ps)" using w by (intro property__write_all_emits(1)) auto
  then have "emits (\<lambda>p. if v5 then res_bind (property__write_all p ps True) (\<lambda>(p, _). Ok p) else Ok p) ?e"
    by (simp add: emits_def emits_rc_def)
  from packet_sent [OF assms(1) emits_bind [OF byte_wr.wr_emits [OF TrueI] emits_bind [OF byte_wr.wr_emits [OF TrueI] this]] n, of "0x20"]
  have sent: "\<exists>rc m'. res_bind (packet__alloc (packet_zero\<lparr>pk_command := 0x20, pk_remaining_length := ?n\<rparr>))
      (\<lambda>(rc, packet). if rc \<noteq> 0 then Ok (rc, m) else res_bind (res_bind (packet__write_byte packet ack) (\<lambda>p.
         res_bind (packet__write_byte p reason) (\<lambda>p. if v5 then res_bind (property__write_all p ps True) (\<lambda>(p, _). Ok p) else Ok p)))
        (packet__queue d m)) = Ok (rc, m') \<and> out_frame m m' \<and> out_wf d m'"
    using len by auto
  have "send__connack d m ack reason [] =
    (if packet__check_oversize m ?n \<noteq> 0 then Ok (MOSQ_ERR_OVERSIZE_PACKET, m)
     else res_bind (packet__alloc (packet_zero\<lparr>pk_command := 0x20, pk_remaining_length := ?n\<rparr>))
      (\<lambda>(rc, packet). if rc \<noteq> 0 then Ok (rc, m) else res_bind (res_bind (packet__write_byte packet ack) (\<lambda>p.
         res_bind (packet__write_byte p reason) (\<lambda>p. if v5 then res_bind (property__write_all p ps True) (\<lambda>(p, _). Ok p) else Ok p)))
        (packet__queue d m)))"
    using l(1) by (cases v5)
      (simp_all add: send__connack_def mosquitto_property_copy_all_def v5_def ps_def li res_bind_assoc Let_def cong: if_cong)
  then show ?thesis using sent assms(1) by auto
qed

section \<open>AUTH\<close>

definition send__auth :: "db \<Rightarrow> mosquitto \<Rightarrow> u8 \<Rightarrow> bytes \<Rightarrow> u16 \<Rightarrow> (rc \<times> mosquitto) res" where
  "send__auth d context reason_code auth_data auth_data_len =
    (if mq_auth_method context = None then Ok (MOSQ_ERR_INVAL, context)
     else if mq_protocol context \<noteq> mosq_p_mqtt5 then Ok (MOSQ_ERR_PROTOCOL, context)
     else
       res_bind (mosquitto_property_add_string (Some []) MQTT_PROP_AUTHENTICATION_METHOD (mq_auth_method context))
         (\<lambda>(rc, properties).
       if rc \<noteq> 0 then Ok (rc, context)
       else
         res_bind (if auth_data_len > 0
             then mosquitto_property_add_binary properties MQTT_PROP_AUTHENTICATION_DATA auth_data auth_data_len
             else Ok (MOSQ_ERR_SUCCESS, properties)) (\<lambda>(rc, properties).
         if rc \<noteq> 0 then Ok (rc, context)
         else
           let properties = (case properties of None \<Rightarrow> [] | Some l \<Rightarrow> l);
               remaining_length = 1 + property__get_remaining_length properties
           in if packet__check_oversize context remaining_length \<noteq> 0 then Ok (MOSQ_ERR_OVERSIZE_PACKET, context)
              else
                res_bind (packet__alloc (packet_zero\<lparr>pk_command := 0xF0, pk_remaining_length := remaining_length\<rparr>))
                  (\<lambda>(rc, packet).
                if rc \<noteq> 0 then Ok (rc, context)
                else
                  res_bind (packet__write_byte packet reason_code) (\<lambda>packet.
                  res_bind (property__write_all packet properties True) (\<lambda>(packet, _).
                    packet__queue d context packet))))))"

end
