(* ===== verification/Packet_Read.thy ===== *)
theory Packet_Read
  imports Send_Control
begin

text \<open>
  \<open>packet__read\<close> of \<^verbatim>\<open>lib/packet_mosq.c\<close> up to the call of the handler: it collects the
  command, the remaining length and the body of a packet over as many calls as the socket needs,
  and keeps what it has so far in \<open>in_packet\<close>. Each part ends with \<open>Some rc\<close> for a return and
  with \<^const>\<open>None\<close> when the function goes on. Statistics counters are not modelled;
  \<open>malloc\<close> gives memory of zeroes.
\<close>

section \<open>The socket\<close>

text \<open>
  \<open>net__read\<close>: at most \<open>count\<close> bytes of what has arrived. The end of the stream is the answer 0
  with \<open>errno\<close> 0.
\<close>

fun net__read :: "net_read list \<Rightarrow> nat \<Rightarrow> net_read \<times> net_read list" where
  "net__read [] count = (Failed EAGAIN, [])"
| "net__read (Chunk bs # reads) count =
    (if length bs \<le> count then (Chunk bs, reads) else (Chunk (take count bs), Chunk (drop count bs) # reads))"
| "net__read (r # reads) count = (r, reads)"

definition read_size :: "net_read list \<Rightarrow> nat" where
  "read_size reads = (\<Sum>r\<leftarrow>reads. case r of Chunk bs \<Rightarrow> Suc (length bs) | _ \<Rightarrow> 1)"

lemma read_size_simps [simp]:
  "read_size [] = 0"
  "read_size (Chunk bs # reads) = Suc (length bs) + read_size reads"
  "read_size (Closed # reads) = Suc (read_size reads)"
  "read_size (Failed e # reads) = Suc (read_size reads)"
  by (simp_all add: read_size_def)

lemma net__read_size:
  "net__read reads count = (Chunk (b # bs), reads') \<Longrightarrow> 0 < count \<Longrightarrow> read_size reads' < read_size reads"
  by (cases "(reads, count)" rule: net__read.cases) (auto split: if_splits)

abbreviation set_in :: "mosquitto \<Rightarrow> (packet \<Rightarrow> packet) \<Rightarrow> mosquitto" where
  "set_in mosq f \<equiv> mosq\<lparr>mq_in_packet := f (mq_in_packet mosq)\<rparr>"

section \<open>The command\<close>

definition packet_read_command :: "mosquitto \<Rightarrow> rc option \<times> mosquitto" where
  "packet_read_command mosq =
    (if pk_command (mq_in_packet mosq) = 0 then
       (case net__read (mq_sock_reads mosq) 1 of
          (Chunk (byte # _), reads) \<Rightarrow>
            let mosq = set_in (mosq\<lparr>mq_sock_reads := reads\<rparr>) (\<lambda>p. p\<lparr>pk_command := byte\<rparr>)
            in if mq_bridge mosq = None \<and> mosquitto__get_state mosq = mosq_cs_connected \<and>
                  byte AND 0xF0 \<noteq> 0x10
               then (Some MOSQ_ERR_PROTOCOL, mosq) else (None, mosq)
        | (Failed e, reads) \<Rightarrow> (Some (write_error e), mosq\<lparr>mq_sock_reads := reads\<rparr>)
        | (_, reads) \<Rightarrow> (Some MOSQ_ERR_CONN_LOST, mosq\<lparr>mq_sock_reads := reads\<rparr>))
     else (None, mosq))"

section \<open>The remaining length\<close>

text \<open>\<open>remaining_count\<close> goes down with each byte while the length is being read.\<close>

function packet_length_loop :: "net_read list \<Rightarrow> packet \<Rightarrow> rc option \<times> net_read list \<times> packet" where
  "packet_length_loop reads p =
    (case net__read reads 1 of
       (Chunk (byte # _), reads) \<Rightarrow>
         let p = p\<lparr>pk_remaining_count := pk_remaining_count p - 1\<rparr> in
         if pk_remaining_count p < -4 then (Some MOSQ_ERR_MALFORMED_PACKET, reads, p)
         else
           let p = p\<lparr>pk_remaining_length := pk_remaining_length p + ucast (byte AND 127) * pk_remaining_mult p,
                     pk_remaining_mult := pk_remaining_mult p * 128\<rparr>
           in if byte AND 128 \<noteq> 0 then packet_length_loop reads p
              else (None, reads, p\<lparr>pk_remaining_count := - pk_remaining_count p\<rparr>)
     | (Failed e, reads) \<Rightarrow> (Some (write_error e), reads, p)
     | (_, reads) \<Rightarrow> (Some MOSQ_ERR_CONN_LOST, reads, p))"
  by pat_completeness auto
termination
  by (relation "measure (\<lambda>(reads, p). read_size reads)") (auto dest: net__read_size [OF sym])

declare packet_length_loop.simps [simp del]

text \<open>The limits for the length that depend on the command and on the configuration.\<close>

definition length_refused :: "mosquitto \<Rightarrow> u8 \<Rightarrow> u32 \<Rightarrow> bool" where
  "length_refused mosq command remaining_length =
    (let c = command AND 0xF0; v5 = (mq_protocol mosq = mosq_p_mqtt5) in
     if c = 0x10 then remaining_length > 100000
     else if c = 0x40 \<or> c = 0x50 \<or> c = 0x60 \<or> c = 0x70 \<or> c = 0xB0 then \<not> v5 \<and> remaining_length \<noteq> 2
     else if c = 0xC0 \<or> c = 0xD0 then remaining_length \<noteq> 0
     else if c = 0xE0 then \<not> v5 \<and> remaining_length \<noteq> 0
     else False)"

definition length_oversize :: "config \<Rightarrow> u32 \<Rightarrow> bool" where
  "length_oversize cf remaining_length \<longleftrightarrow>
     cf_max_packet_size cf > 0 \<and> remaining_length + 1 > cf_max_packet_size cf"

definition packet_read_length :: "db \<Rightarrow> mosquitto \<Rightarrow> (rc option \<times> mosquitto) res" where
  "packet_read_length d mosq =
    (if pk_remaining_count (mq_in_packet mosq) \<le> 0 then
       (case packet_length_loop (mq_sock_reads mosq) (mq_in_packet mosq) of
          (Some rc, reads, p) \<Rightarrow> Ok (Some rc, mosq\<lparr>mq_sock_reads := reads, mq_in_packet := p\<rparr>)
        | (None, reads, p) \<Rightarrow>
            let mosq = mosq\<lparr>mq_sock_reads := reads, mq_in_packet := p\<rparr> in
            if length_refused mosq (pk_command p) (pk_remaining_length p)
            then Ok (Some MOSQ_ERR_MALFORMED_PACKET, mosq)
            else if length_oversize (db_config d) (pk_remaining_length p) then
              res_bind (if mq_protocol mosq = mosq_p_mqtt5 then send__disconnect d mosq MQTT_RC_PACKET_TOO_LARGE []
                        else Ok (0, mosq)) (\<lambda>(_, mosq). Ok (Some MOSQ_ERR_OVERSIZE_PACKET, mosq))
            else if pk_remaining_length p > 0 then
              Ok (None, set_in mosq (\<lambda>p. p\<lparr>pk_payload := replicate (unat (pk_remaining_length p)) 0,
                                          pk_to_process := pk_remaining_length p\<rparr>))
            else Ok (None, mosq))
     else Ok (None, mosq))"

section \<open>The body\<close>

function packet_payload_loop :: "net_read list \<Rightarrow> packet \<Rightarrow> (net_read option \<times> net_read list \<times> packet) res" where
  "packet_payload_loop reads p =
    (if pk_to_process p > 0 then
       (if unat (pk_pos p) + unat (pk_to_process p) > length (pk_payload p) then Fault
        else case net__read reads (unat (pk_to_process p)) of
          (Chunk (b # bs), reads) \<Rightarrow>
            packet_payload_loop reads
              (p\<lparr>pk_payload := blit (pk_payload p) (unat (pk_pos p)) (b # bs),
                 pk_to_process := pk_to_process p - of_nat (length (b # bs)),
                 pk_pos := pk_pos p + of_nat (length (b # bs))\<rparr>)
        | (r, reads) \<Rightarrow> Ok (Some r, reads, p))
     else Ok (None, reads, p))"
  by pat_completeness auto
termination
  by (relation "measure (\<lambda>(reads, p). read_size reads)")
    (auto dest: net__read_size [OF sym] simp: word_less_nat_alt)

declare packet_payload_loop.simps [simp del]

definition keepalive__update :: "db \<Rightarrow> mosquitto \<Rightarrow> mosquitto" where
  "keepalive__update d context = context\<lparr>mq_last_msg_in := db_now_s d\<rparr>"

text \<open>
  What stopped the loop: with more than 1000 bytes missing a client that would block is still alive.
\<close>

definition packet_read_payload :: "db \<Rightarrow> mosquitto \<Rightarrow> (rc option \<times> mosquitto) res" where
  "packet_read_payload d mosq =
    res_bind (packet_payload_loop (mq_sock_reads mosq) (mq_in_packet mosq)) (\<lambda>(stopped, reads, p).
      let mosq = mosq\<lparr>mq_sock_reads := reads, mq_in_packet := p\<rparr> in
      case stopped of
        None \<Rightarrow> Ok (None, set_in mosq (\<lambda>p. p\<lparr>pk_pos := 0\<rparr>))
      | Some (Failed e) \<Rightarrow>
          if e = EAGAIN \<or> e = COMPAT_EWOULDBLOCK then
            Ok (Some MOSQ_ERR_SUCCESS, if pk_to_process p > 1000 then keepalive__update d mosq else mosq)
          else Ok (Some (write_error e), mosq)
      | Some _ \<Rightarrow> Ok (Some MOSQ_ERR_ERRNO, mosq))"

definition packet_fetch :: "db \<Rightarrow> mosquitto \<Rightarrow> (rc option \<times> mosquitto) res" where
  "packet_fetch d mosq =
    (if mq_sock mosq = INVALID_SOCKET then Ok (Some MOSQ_ERR_NO_CONN, mosq)
     else if mosquitto__get_state mosq = mosq_cs_connect_pending then Ok (Some MOSQ_ERR_SUCCESS, mosq)
     else case packet_read_command mosq of
       (Some rc, mosq) \<Rightarrow> Ok (Some rc, mosq)
     | (None, mosq) \<Rightarrow> res_bind (packet_read_length d mosq) (\<lambda>(r, mosq).
         case r of Some rc \<Rightarrow> Ok (Some rc, mosq)
         | None \<Rightarrow> packet_read_payload d mosq))"

section \<open>Memory safety\<close>

text \<open>
  What \<open>in_packet\<close> looks like between calls: while the length is being read there is no body, and
  after that the body has the announced length and the missing bytes fit behind those read.
\<close>

definition read_ok :: "packet \<Rightarrow> bool" where
  "read_ok p \<longleftrightarrow>
    (if pk_remaining_count p \<le> 0
     then -4 \<le> pk_remaining_count p \<and> unat (pk_remaining_length p) < 128 ^ nat (- pk_remaining_count p) \<and>
          pk_remaining_mult p = 128 ^ nat (- pk_remaining_count p) \<and>
          pk_payload p = [] \<and> pk_to_process p = 0 \<and> pk_pos p = 0
     else unat (pk_remaining_length p) < 268435456 \<and> length (pk_payload p) = unat (pk_remaining_length p) \<and>
          unat (pk_pos p) + unat (pk_to_process p) = unat (pk_remaining_length p))"

text \<open>One more byte of the length.\<close>

lemma unat_of_nat_u32: "n < 2 ^ 32 \<Longrightarrow> unat (of_nat n :: u32) = n"
  by (simp add: unat_of_nat take_bit_nat_eq_self)

lemma length_digit:
  fixes l :: u32 and b :: u8
  assumes "k < 4" and "unat l < 128 ^ k"
  shows "unat (l + ucast (b AND 127) * 128 ^ k) = unat l + (unat b mod 128) * 128 ^ k"
    and "unat l + (unat b mod 128) * 128 ^ k < 128 ^ Suc k"
proof -
  have le: "(unat b mod 128) * 128 ^ k \<le> 127 * 128 ^ k" by (intro mult_le_mono) auto
  then show s: "unat l + (unat b mod 128) * 128 ^ k < 128 ^ Suc k" using assms(2) unfolding power_Suc by linarith
  have "(128 :: nat) ^ Suc k \<le> 128 ^ 4" using assms(1) by (intro power_increasing) auto
  with s have lim: "unat l + (unat b mod 128) * 128 ^ k < 2 ^ 32" by simp
  have "l + ucast (b AND 127) * 128 ^ k = of_nat (unat l + (unat b mod 128) * 128 ^ k)"
    by (simp only: ucast_and_127 of_nat_add of_nat_mult of_nat_power of_nat_numeral of_nat_unat ucast_id)
  then show "unat (l + ucast (b AND 127) * 128 ^ k) = unat l + (unat b mod 128) * 128 ^ k"
    using lim by (simp only: unat_of_nat_u32)
qed

text \<open>The loop of the length over one byte of what the socket has.\<close>

lemma read_ok_digit:
  fixes b :: u8
  assumes "read_ok p" and "pk_remaining_count p \<le> 0" and "\<not> pk_remaining_count p - 1 < -4"
    and q: "q = p\<lparr>pk_remaining_count := pk_remaining_count p - 1,
       pk_remaining_length := pk_remaining_length p + ucast (b AND 127) * pk_remaining_mult p,
       pk_remaining_mult := pk_remaining_mult p * 128\<rparr>"
  shows "read_ok q"
    and "unat (pk_remaining_length q) =
      unat (pk_remaining_length p) + (unat b mod 128) * 128 ^ nat (- pk_remaining_count p)"
    and "unat (pk_remaining_length q) < 268435456"
proof -
  define k where "k = nat (- pk_remaining_count p)"
  have k: "k < 4" "nat (1 - pk_remaining_count p) = Suc k" using assms(2,3) by (simp_all add: k_def)
  have p: "unat (pk_remaining_length p) < 128 ^ k" "pk_remaining_mult p = 128 ^ k"
    using assms(1,2) by (simp_all add: read_ok_def k_def)
  note digit = length_digit [OF k(1) p(1), of b]
  show eq: "unat (pk_remaining_length q) =
      unat (pk_remaining_length p) + (unat b mod 128) * 128 ^ nat (- pk_remaining_count p)"
    using digit(1) p(2) by (simp add: q k_def)
  show "read_ok q"
    using digit p(2) k assms(1-3) by (simp add: q read_ok_def)
  have "(128 :: nat) ^ Suc k \<le> 128 ^ 4" using k(1) by (intro power_increasing) auto
  then show "unat (pk_remaining_length q) < 268435456" using eq digit(2) by (simp add: k_def)
qed

lemma read_cases:
  obtains (byte) b bs where "x = Chunk (b # bs)" | (failed) e where "x = Failed e" | (closed) "x = Chunk [] \<or> x = Closed"
  by (cases x) (auto intro: list.exhaust)

definition add_digit :: "packet \<Rightarrow> u8 \<Rightarrow> packet" where
  "add_digit p b = p\<lparr>pk_remaining_count := pk_remaining_count p - 1,
       pk_remaining_length := pk_remaining_length p + ucast (b AND 127) * pk_remaining_mult p,
       pk_remaining_mult := pk_remaining_mult p * 128\<rparr>"

lemma packet_length_loop_byte:
  assumes "net__read reads 1 = (Chunk (b # bs), rs)"
  shows "packet_length_loop reads p =
    (if pk_remaining_count p - 1 < -4
     then (Some MOSQ_ERR_MALFORMED_PACKET, rs, p\<lparr>pk_remaining_count := pk_remaining_count p - 1\<rparr>)
     else if unat b < 128 then (None, rs, (add_digit p b)\<lparr>pk_remaining_count := 1 - pk_remaining_count p\<rparr>)
     else packet_length_loop rs (add_digit p b))"
  unfolding packet_length_loop.simps [of reads p] assms
  by (simp add: Let_def and_128_eq_0 add_digit_def)

lemma packet_length_loop_stop:
  "net__read reads 1 = (Failed e, rs) \<Longrightarrow> packet_length_loop reads p = (Some (write_error e), rs, p)"
  "net__read reads 1 = (x, rs) \<Longrightarrow> x = Chunk [] \<or> x = Closed \<Longrightarrow>
    packet_length_loop reads p = (Some MOSQ_ERR_CONN_LOST, rs, p)"
  unfolding packet_length_loop.simps [of reads p] by auto

lemma packet_length_loop_safe:
  assumes "read_ok p" and "pk_remaining_count p \<le> 0" and "packet_length_loop reads p = (r, reads', p')"
  shows "(case r of Some rc \<Rightarrow> rc = MOSQ_ERR_MALFORMED_PACKET \<or> read_ok p' \<and> pk_remaining_count p' \<le> 0
     | None \<Rightarrow> 0 < pk_remaining_count p' \<and> unat (pk_remaining_length p') < 268435456 \<and>
         pk_payload p' = [] \<and> pk_to_process p' = 0 \<and> pk_pos p' = 0)"
  using assms
proof (induction "read_size reads" arbitrary: reads p rule: less_induct)
  case less
  obtain x rs where n: "net__read reads 1 = (x, rs)" by (cases "net__read reads 1")
  show ?case
  proof (cases x rule: read_cases)
    case (byte b bs)
    note n = n [unfolded byte]
    note loop = less.prems(3) [unfolded packet_length_loop_byte [OF n]]
    show ?thesis
    proof (cases "pk_remaining_count p - 1 < -4")
      case True
      then show ?thesis using loop by auto
    next
      case False
      note digit = read_ok_digit [OF less.prems(1,2) False add_digit_def, of b]
      show ?thesis
      proof (cases "unat b < 128")
        case True
        with loop False digit(3) less.prems(1,2) show ?thesis by (auto simp: add_digit_def read_ok_def)
      next
        case high: False
        have "read_size rs < read_size reads" using net__read_size [OF n] by simp
        from less.hyps [OF this digit(1)] show ?thesis
          using loop False high less.prems(2) by (simp add: add_digit_def)
      qed
    qed
  next
    case (failed e)
    then show ?thesis using less.prems n packet_length_loop_stop(1) by auto
  next
    case closed
    then show ?thesis using less.prems packet_length_loop_stop(2) [OF n] by auto
  qed
qed

text \<open>The loop of the body.\<close>

definition fill :: "packet \<Rightarrow> bytes \<Rightarrow> packet" where
  "fill p bs = p\<lparr>pk_payload := blit (pk_payload p) (unat (pk_pos p)) bs,
     pk_to_process := pk_to_process p - of_nat (length bs), pk_pos := pk_pos p + of_nat (length bs)\<rparr>"

lemma fill_fields:
  assumes "unat (pk_pos p) + unat (pk_to_process p) = length (pk_payload p)" "length (pk_payload p) < 268435456"
    and "length bs \<le> unat (pk_to_process p)"
  shows "unat (pk_to_process (fill p bs)) = unat (pk_to_process p) - length bs"
    and "unat (pk_pos (fill p bs)) = unat (pk_pos p) + length bs"
    and "length (pk_payload (fill p bs)) = length (pk_payload p)"
    and "take (unat (pk_pos p) + length bs) (pk_payload (fill p bs)) = take (unat (pk_pos p)) (pk_payload p) @ bs"
  using assms by (simp_all add: fill_def unat_sub word_le_nat_alt unat_of_nat take_bit_nat_eq_self unat_word_ariths blit_def)

lemma net__read_length: "net__read reads count = (Chunk bs, rs) \<Longrightarrow> length bs \<le> count"
  by (cases "(reads, count)" rule: net__read.cases) (auto split: if_splits)

lemma packet_payload_loop_chunk:
  assumes "net__read reads (unat (pk_to_process p)) = (Chunk (b # bs), rs)" "pk_to_process p > 0"
    and "unat (pk_pos p) + unat (pk_to_process p) \<le> length (pk_payload p)"
  shows "packet_payload_loop reads p = packet_payload_loop rs (fill p (b # bs))"
  using assms by (simp add: packet_payload_loop.simps [of reads p] fill_def)

lemma packet_payload_loop_stop:
  assumes "net__read reads (unat (pk_to_process p)) = (x, rs)" "\<And>b bs. x \<noteq> Chunk (b # bs)" "pk_to_process p > 0"
    and "unat (pk_pos p) + unat (pk_to_process p) \<le> length (pk_payload p)"
  shows "packet_payload_loop reads p = Ok (Some x, rs, p)"
  using assms by (cases x rule: read_cases) (auto simp: packet_payload_loop.simps [of reads p])

lemma packet_payload_loop_safe:
  assumes "read_ok p" and "pk_remaining_count p > 0"
  shows "\<exists>stopped reads' p'. packet_payload_loop reads p = Ok (stopped, reads', p') \<and> read_ok p' \<and>
     pk_remaining_count p' = pk_remaining_count p \<and> pk_remaining_length p' = pk_remaining_length p \<and>
     (stopped = None \<longrightarrow> pk_to_process p' = 0)"
  using assms
proof (induction "read_size reads" arbitrary: reads p rule: less_induct)
  case less
  have p: "unat (pk_pos p) + unat (pk_to_process p) = length (pk_payload p)" "length (pk_payload p) < 268435456"
    "length (pk_payload p) = unat (pk_remaining_length p)"
    using less.prems by (auto simp: read_ok_def)
  show ?case
  proof (cases "pk_to_process p > 0")
    case False
    then show ?thesis using less.prems by (auto simp: packet_payload_loop.simps [of reads p] word_gt_0)
  next
    case True
    then have pos: "0 < unat (pk_to_process p)" by (simp add: word_less_nat_alt)
    obtain x rs where n: "net__read reads (unat (pk_to_process p)) = (x, rs)"
      by (cases "net__read reads (unat (pk_to_process p))")
    show ?thesis
    proof (cases "\<exists>b bs. x = Chunk (b # bs)")
      case True
      then obtain b bs where x: "x = Chunk (b # bs)" by blast
      note n = n [unfolded x]
      note f = fill_fields [OF p(1,2) net__read_length [OF n]]
      have "read_ok (fill p (b # bs))"
        using f(1-3) p net__read_length [OF n] less.prems(2) by (simp add: read_ok_def fill_def)
      from less.hyps [OF net__read_size [OF n pos] this]
      show ?thesis using packet_payload_loop_chunk [OF n] \<open>pk_to_process p > 0\<close> p(1) less.prems(2)
        by (simp add: fill_def)
    next
      case False
      then show ?thesis using packet_payload_loop_stop [OF n] \<open>pk_to_process p > 0\<close> p(1) less.prems by auto
    qed
  qed
qed

text \<open>Reading changes only the packet in progress and the input of the socket.\<close>

definition read_strip :: "mosquitto \<Rightarrow> mosquitto" where
  "read_strip m = m\<lparr>mq_in_packet := packet_zero, mq_sock_reads := [], mq_last_msg_in := 0\<rparr>"

definition read_frame :: "mosquitto \<Rightarrow> mosquitto \<Rightarrow> bool" where
  "read_frame m m' \<longleftrightarrow> read_strip m' = read_strip m"

lemma read_frame_simps [simp]:
  "read_frame m m"
  "read_frame m (m'\<lparr>mq_sock_reads := reads\<rparr>) = read_frame m m'"
  "read_frame m (m'\<lparr>mq_in_packet := p\<rparr>) = read_frame m m'"
  "read_frame m (m'\<lparr>mq_last_msg_in := t\<rparr>) = read_frame m m'"
  by (simp_all add: read_frame_def read_strip_def)

lemma read_frame_trans: "read_frame a b \<Longrightarrow> read_frame b c \<Longrightarrow> read_frame a c"
  by (simp add: read_frame_def)

lemma read_frame_fields:
  assumes "read_frame m m'"
  shows "mq_current_out_packet m' = mq_current_out_packet m" "mq_out_packet m' = mq_out_packet m"
    "mq_wire m' = mq_wire m" "mq_sock m' = mq_sock m" "mq_state m' = mq_state m" "mq_bridge m' = mq_bridge m"
    "mq_protocol m' = mq_protocol m"
  using assms unfolding read_frame_def read_strip_def by (cases m; cases m'; simp)+

lemma read_frame_out:
  assumes "read_frame m m'"
  shows "out_wf d m' = out_wf d m" "out_stream d m' = out_stream d m"
  using read_frame_fields [OF assms] by (simp_all add: out_wf_def out_stream_def out_packets_def)

lemma packet_read_command_fields:
  assumes "packet_read_command m = (r, m')"
  shows "mq_in_packet m' = (mq_in_packet m)\<lparr>pk_command := pk_command (mq_in_packet m')\<rparr> \<and> read_frame m m'"
proof (cases "pk_command (mq_in_packet m) = 0")
  case True
  obtain x rs where n: "net__read (mq_sock_reads m) 1 = (x, rs)" by (cases "net__read (mq_sock_reads m) 1")
  show ?thesis
    using assms unfolding packet_read_command_def n Let_def
    by (cases x rule: read_cases) (auto simp: True split: if_splits)
next
  case False
  with assms show ?thesis by (auto simp: packet_read_command_def)
qed

lemma read_ok_command: "read_ok p = read_ok (p\<lparr>pk_command := c\<rparr>)"
  by (simp add: read_ok_def)

lemma packet_read_length_safe:
  assumes wf: "out_wf d m" and ok: "read_ok (mq_in_packet m)"
  shows "\<exists>r m'. packet_read_length d m = Ok (r, m') \<and> out_wf d m' \<and>
    (r = None \<longrightarrow> read_ok (mq_in_packet m') \<and> pk_remaining_count (mq_in_packet m') > 0) \<and>
    (r = Some MOSQ_ERR_SUCCESS \<longrightarrow> read_ok (mq_in_packet m'))"
proof (cases "pk_remaining_count (mq_in_packet m) \<le> 0")
  case False
  then show ?thesis using wf ok by (simp add: packet_read_length_def)
next
  case True
  obtain r reads p where l: "packet_length_loop (mq_sock_reads m) (mq_in_packet m) = (r, reads, p)"
    by (cases "packet_length_loop (mq_sock_reads m) (mq_in_packet m)")
  note safe = packet_length_loop_safe [OF ok True l]
  let ?m = "m\<lparr>mq_sock_reads := reads, mq_in_packet := p\<rparr>"
  have wf': "out_wf d ?m" using wf read_frame_out(1) [of m ?m] by simp
  show ?thesis
  proof (cases r)
    case None
    have p: "0 < pk_remaining_count p" "unat (pk_remaining_length p) < 268435456" "pk_payload p = []"
      "pk_to_process p = 0" "pk_pos p = 0"
      using safe None by auto
    obtain rc m2 where s: "(if mq_protocol ?m = mosq_p_mqtt5 then send__disconnect d ?m MQTT_RC_PACKET_TOO_LARGE []
        else Ok (0, ?m)) = Ok (rc, m2)" "out_wf d m2"
      using send__disconnect_stream [OF wf', of MQTT_RC_PACKET_TOO_LARGE] wf' by (auto split: if_splits)
    define m3 where "m3 = set_in ?m (\<lambda>p. p\<lparr>pk_payload := replicate (unat (pk_remaining_length p)) 0,
        pk_to_process := pk_remaining_length p\<rparr>)"
    have "out_wf d m3" using wf' by (simp add: m3_def out_wf_def out_packets_def)
    moreover have "read_ok (mq_in_packet m3)" "pk_remaining_count (mq_in_packet m3) > 0"
      using p by (simp_all add: m3_def read_ok_def)
    moreover have "pk_remaining_length p = 0 \<Longrightarrow> read_ok p" using p by (simp add: read_ok_def)
    ultimately show ?thesis
      unfolding packet_read_length_def l None prod.case option.case Let_def m3_def [symmetric] s(1)
      using True wf' s(2) p(1) by (auto simp: word_gt_0)
  next
    case (Some rc)
    then show ?thesis using safe wf' True l by (auto simp: packet_read_length_def)
  qed
qed

lemma packet_read_payload_safe:
  assumes wf: "out_wf d m" and ok: "read_ok (mq_in_packet m)" "pk_remaining_count (mq_in_packet m) > 0"
  shows "\<exists>r m'. packet_read_payload d m = Ok (r, m') \<and> out_wf d m' \<and>
    (r = None \<longrightarrow> in_wf (mq_in_packet m') \<and> pk_pos (mq_in_packet m') = 0) \<and>
    (r = Some MOSQ_ERR_SUCCESS \<longrightarrow> read_ok (mq_in_packet m'))"
proof -
  from packet_payload_loop_safe [OF ok] obtain x reads p where
    l: "packet_payload_loop (mq_sock_reads m) (mq_in_packet m) = Ok (x, reads, p)" "read_ok p"
      "pk_remaining_count p > 0" "pk_remaining_length p = pk_remaining_length (mq_in_packet m)"
      "x = None \<Longrightarrow> pk_to_process p = 0" using ok(2) by metis
  have wf': "read_frame m m' \<Longrightarrow> out_wf d m'" for m' using wf read_frame_out(1) by blast
  show ?thesis
  proof (cases x)
    case None
    then show ?thesis using l wf' by (simp add: packet_read_payload_def in_wf_def read_ok_def)
  next
    case (Some y)
    then show ?thesis
      using l wf' by (cases y) (simp_all add: packet_read_payload_def keepalive__update_def Let_def)
  qed
qed

section \<open>Reassembly\<close>

text \<open>
  A peer whose connection lasts: the socket delivers its bytes in pieces of any size, and in between
  only interrupts or has nothing.
\<close>

definition stream :: "net_read list \<Rightarrow> bytes" where
  "stream reads = concat (map (\<lambda>r. case r of Chunk bs \<Rightarrow> bs | _ \<Rightarrow> []) reads)"

definition quiet :: "net_read list \<Rightarrow> bool" where
  "quiet reads \<longleftrightarrow> list_all (\<lambda>r. case r of Chunk bs \<Rightarrow> bs \<noteq> [] | Closed \<Rightarrow> False
     | Failed e \<Rightarrow> write_error e = MOSQ_ERR_SUCCESS) reads"

lemma stream_simps [simp]:
  "stream [] = []" "stream (Chunk bs # reads) = bs @ stream reads" "stream (Failed e # reads) = stream reads"
  by (simp_all add: stream_def)

lemma quiet_simps [simp]:
  "quiet []" "quiet (Chunk bs # reads) \<longleftrightarrow> bs \<noteq> [] \<and> quiet reads"
  "quiet (Failed e # reads) \<longleftrightarrow> write_error e = MOSQ_ERR_SUCCESS \<and> quiet reads" "\<not> quiet (Closed # reads)"
  by (simp_all add: quiet_def)

text \<open>What one call of \<open>net__read\<close> leaves.\<close>

lemma quiet_read:
  assumes "quiet reads" and "0 < count"
  obtains (some) b bs rs where "net__read reads count = (Chunk (b # bs), rs)" "quiet rs"
      "stream reads = b # bs @ stream rs" "read_size rs < read_size reads" "Suc (length bs) \<le> count"
    | (none) e rs where "net__read reads count = (Failed e, rs)" "write_error e = MOSQ_ERR_SUCCESS" "quiet rs"
      "stream rs = stream reads" "read_size rs < read_size reads \<or> reads = [] \<and> rs = []"
proof (cases reads)
  case Nil
  then show thesis by (intro none [of EAGAIN "[]"]) (auto simp: write_error_def)
next
  case (Cons r rs)
  show thesis
  proof (cases r)
    case (Chunk bs)
    then obtain b bs' where bs: "bs = b # bs'" using assms(1) Cons by (cases bs) auto
    have q: "quiet rs" using assms(1) Cons Chunk by auto
    show thesis
    proof (cases "length bs \<le> count")
      case True
      then show thesis using q Cons Chunk bs by (intro some [of b bs' rs]) auto
    next
      case False
      then obtain n where n: "count = Suc n" using assms(2) by (cases count) auto
      show thesis using q Cons Chunk bs False n
        by (intro some [of b "take n bs'" "Chunk (drop n bs') # rs"]) auto
    qed
  next
    case Closed
    then show thesis using assms(1) Cons by simp
  next
    case (Failed e)
    then show thesis using assms(1) Cons by (intro none [of e rs]) auto
  qed
qed

text \<open>The digits of the length, least significant first, and where they end.\<close>

fun digits :: "bytes \<Rightarrow> nat" where
  "digits [] = 0"
| "digits (b # bs) = unat b mod 128 + 128 * digits bs"

fun ends :: "bytes \<Rightarrow> bool" where
  "ends [] = False"
| "ends (b # bs) = (if unat b < 128 then bs = [] else ends bs)"

lemma digits_append: "digits (ds @ [b]) = digits ds + (unat b mod 128) * 128 ^ length ds"
  by (induction ds) (auto simp: algebra_simps)

lemma enc_varint_digits: "digits (enc_varint n) = n \<and> ends (enc_varint n)"
proof (induction n rule: enc_varint.induct)
  case (1 n)
  have u: "unat (of_nat (n mod 128 + 128) :: u8) = n mod 128 + 128" by (rule unat_of_nat_u8) simp
  show ?case
  proof (cases "n < 128")
    case True
    then show ?thesis by (simp add: enc_varint_small unat_of_nat_u8)
  next
    case False
    then show ?thesis using 1 u by (simp add: enc_varint_big del: of_nat_add)
  qed
qed

text \<open>
  The packet in progress, of which \<open>ds\<close> are the bytes of the length read so far, and
  \<open>b1\<close> the bytes of the body.
\<close>

definition fresh_packet :: "packet \<Rightarrow> bool" where
  "fresh_packet p \<longleftrightarrow> read_ok p \<and> pk_command p = 0 \<and> pk_remaining_count p = 0"

definition in_length :: "u8 \<Rightarrow> bytes \<Rightarrow> packet \<Rightarrow> bool" where
  "in_length c ds p \<longleftrightarrow> read_ok p \<and> pk_command p = c \<and> pk_remaining_count p = - int (length ds) \<and>
     unat (pk_remaining_length p) = digits ds"

definition in_body :: "u8 \<Rightarrow> bytes \<Rightarrow> bytes \<Rightarrow> packet \<Rightarrow> bool" where
  "in_body c b1 b2 p \<longleftrightarrow> read_ok p \<and> pk_command p = c \<and> pk_remaining_count p > 0 \<and>
     unat (pk_remaining_length p) = length (b1 @ b2) \<and> unat (pk_pos p) = length b1 \<and>
     take (length b1) (pk_payload p) = b1"

lemma packet_length_loop_reads:
  assumes "in_length c ds p" "quiet reads" "ends rs" "length ds + length rs \<le> 4" "stream reads = rs @ behind"
  shows "\<exists>r reads' p'. packet_length_loop reads p = (r, reads', p') \<and> quiet reads' \<and>
    (r = Some MOSQ_ERR_SUCCESS \<and> (\<exists>ds' rs'. ds @ rs = ds' @ rs' \<and> ends rs' \<and> in_length c ds' p' \<and>
       stream reads' = rs' @ behind) \<and> (read_size reads' < read_size reads \<or> reads' = []) \<or>
     r = None \<and> stream reads' = behind \<and> read_size reads' < read_size reads \<and>
       0 < pk_remaining_count p' \<and> pk_command p' = c \<and> unat (pk_remaining_length p') = digits (ds @ rs) \<and>
       pk_payload p' = [] \<and> pk_to_process p' = 0 \<and> pk_pos p' = 0)"
  using assms
proof (induction "read_size reads" arbitrary: reads p ds rs rule: less_induct)
  case less
  have p: "read_ok p" "pk_command p = c" "pk_remaining_count p = - int (length ds)"
    "unat (pk_remaining_length p) = digits ds"
    using less.prems(1) by (auto simp: in_length_def)
  from less.prems(2) zero_less_one show ?case
  proof (cases rule: quiet_read)
    case (some b bs rs1)
    have bs: "bs = []" using some(5) by simp
    obtain rs' where rs: "rs = b # rs'" "stream rs1 = rs' @ behind"
      using less.prems(3,5) some(3) bs by (cases rs) auto
    have count: "\<not> pk_remaining_count p - 1 < -4" using p(3) less.prems(4) rs(1) by simp
    note digit = read_ok_digit [OF p(1) _ count add_digit_def, of b]
    have len: "unat (pk_remaining_length (add_digit p b)) = digits (ds @ [b])"
      using digit(2) p(3,4) by (simp add: digits_append)
    show ?thesis
    proof (cases "unat b < 128")
      case True
      then have "rs' = []" using less.prems(3) rs(1) by simp
      then show ?thesis
        using packet_length_loop_byte [OF some(1), of p] count True len rs some(2,4) p
        by (auto simp: add_digit_def read_ok_def)
    next
      case False
      have "in_length c (ds @ [b]) (add_digit p b)"
        using digit(1) len p(2,3) by (simp add: in_length_def add_digit_def)
      from less.hyps [OF some(4) this some(2) _ _ rs(2)]
      obtain r reads' p' where IH: "packet_length_loop rs1 (add_digit p b) = (r, reads', p')" "quiet reads'"
        "r = Some MOSQ_ERR_SUCCESS \<and> (\<exists>ds' rs''. (ds @ [b]) @ rs' = ds' @ rs'' \<and> ends rs'' \<and> in_length c ds' p' \<and>
           stream reads' = rs'' @ behind) \<and> (read_size reads' < read_size rs1 \<or> reads' = []) \<or>
         r = None \<and> stream reads' = behind \<and> read_size reads' < read_size rs1 \<and>
           0 < pk_remaining_count p' \<and> pk_command p' = c \<and> unat (pk_remaining_length p') = digits ((ds @ [b]) @ rs') \<and>
           pk_payload p' = [] \<and> pk_to_process p' = 0 \<and> pk_pos p' = 0"
        using False less.prems(3,4) rs(1) by auto
      moreover have "packet_length_loop reads p = packet_length_loop rs1 (add_digit p b)"
        using packet_length_loop_byte [OF some(1), of p] count False by simp
      ultimately show ?thesis using some(4) rs(1) by auto
    qed
  next
    case (none e rs1)
    then show ?thesis
      using packet_length_loop_stop(1) [OF none(1), of p] less.prems by auto
  qed
qed

lemma append_longer: "xs @ ys = us @ vs \<Longrightarrow> length xs \<le> length us \<Longrightarrow> \<exists>zs. us = xs @ zs \<and> ys = zs @ vs"
proof (induction xs arbitrary: us)
  case (Cons x xs)
  then show ?case by (cases us) auto
qed simp

lemma packet_payload_loop_reads:
  assumes "in_body c b1 b2 p" "quiet reads" "stream reads = b2 @ behind"
  shows "\<exists>x reads' p'. packet_payload_loop reads p = Ok (x, reads', p') \<and> quiet reads' \<and>
    ((\<exists>e b1' b2'. x = Some (Failed e) \<and> write_error e = MOSQ_ERR_SUCCESS \<and> b1 @ b2 = b1' @ b2' \<and> b2' \<noteq> [] \<and>
       in_body c b1' b2' p' \<and> stream reads' = b2' @ behind \<and> (read_size reads' < read_size reads \<or> reads' = [])) \<or>
     x = None \<and> in_body c (b1 @ b2) [] p' \<and> stream reads' = behind \<and>
       (b2 \<noteq> [] \<longrightarrow> read_size reads' < read_size reads) \<and> (b2 = [] \<longrightarrow> reads' = reads))"
  using assms
proof (induction "read_size reads" arbitrary: reads p b1 b2 rule: less_induct)
  case less
  have p: "unat (pk_pos p) + unat (pk_to_process p) = length (pk_payload p)" "length (pk_payload p) < 268435456"
    "pk_command p = c" "unat (pk_pos p) = length b1" "length (pk_payload p) = length b1 + length b2"
    "take (length b1) (pk_payload p) = b1"
    using less.prems(1) by (auto simp: in_body_def read_ok_def)
  then have tp: "unat (pk_to_process p) = length b2" by simp
  show ?case
  proof (cases "b2 = []")
    case True
    then have "pk_to_process p = 0" using tp by (simp add: unat_eq_zero)
    then show ?thesis using True less.prems by (simp add: packet_payload_loop.simps [of reads p])
  next
    case False
    then have pos: "0 < unat (pk_to_process p)" "pk_to_process p > 0" using tp by (simp_all add: word_less_nat_alt)
    have fits: "unat (pk_pos p) + unat (pk_to_process p) \<le> length (pk_payload p)" using p(1) by simp
    from less.prems(2) pos(1) show ?thesis
    proof (cases rule: quiet_read)
      case (some b bs rs)
      have le: "length (b # bs) \<le> unat (pk_to_process p)" using some(5) by simp
      note f = fill_fields [OF p(1,2) le]
      have "b # bs @ stream rs = b2 @ behind" using some(3) less.prems(3) by simp
      then have eq: "(b # bs) @ stream rs = b2 @ behind" by simp
      from append_longer [OF eq] le tp obtain b3 where b3: "b2 = (b # bs) @ b3" "stream rs = b3 @ behind" by auto
      have ib: "in_body c (b1 @ b # bs) b3 (fill p (b # bs))"
      proof -
        have "take (length b1 + length (b # bs)) (pk_payload (fill p (b # bs))) = b1 @ b # bs"
          using f(4) p(4,6) by simp
        moreover have "unat (pk_pos (fill p (b # bs))) + unat (pk_to_process (fill p (b # bs))) = length (b1 @ b2)"
          using f(1,2) le p(1,5) by simp
        moreover have "pk_remaining_count (fill p (b # bs)) = pk_remaining_count p"
          "pk_remaining_length (fill p (b # bs)) = pk_remaining_length p" "pk_command (fill p (b # bs)) = pk_command p"
          by (simp_all add: fill_def)
        ultimately show ?thesis
          using less.prems(1) f(2,3) p b3(1) by (simp add: in_body_def read_ok_def)
      qed
      from less.hyps [OF some(4) ib some(2) b3(2)] show ?thesis
        unfolding packet_payload_loop_chunk [OF some(1) pos(2) fits] using some(4) b3(1) False by fastforce
    next
      case (none e rs)
      have "packet_payload_loop reads p = Ok (Some (Failed e), rs, p)"
        by (rule packet_payload_loop_stop [OF none(1) _ pos(2) fits]) simp
      then show ?thesis using none less.prems False by auto
    qed
  qed
qed

text \<open>The bytes that the packet in progress still waits for.\<close>

definition partway :: "u8 \<Rightarrow> bytes \<Rightarrow> bytes \<Rightarrow> packet \<Rightarrow> bool" where
  "partway c body left p \<longleftrightarrow>
     fresh_packet p \<and> left = packet_of c body \<or>
     (\<exists>ds rs. enc_varint (length body) = ds @ rs \<and> ends rs \<and> in_length c ds p \<and> left = rs @ body) \<or>
     (\<exists>b1 b2. body = b1 @ b2 \<and> b2 \<noteq> [] \<and> in_body c b1 b2 p \<and> left = b2)"

definition in_reading :: "mosquitto \<Rightarrow> bool" where
  "in_reading m \<longleftrightarrow> mq_sock m \<noteq> INVALID_SOCKET \<and> mosquitto__get_state m \<noteq> mosq_cs_connect_pending \<and>
     (mq_bridge m = None \<longrightarrow> mosquitto__get_state m \<noteq> mosq_cs_connected) \<and> quiet (mq_sock_reads m)"

definition acceptable :: "config \<Rightarrow> mosquitto \<Rightarrow> u8 \<times> bytes \<Rightarrow> bool" where
  "acceptable cf m q \<longleftrightarrow> (case q of (c, body) \<Rightarrow> c \<noteq> 0 \<and> length body < 268435456 \<and>
     \<not> length_refused m c (of_nat (length body)) \<and> \<not> length_oversize cf (of_nat (length body)))"

lemma packet_read_command_reads:
  assumes "partway c body left (mq_in_packet m)" "c \<noteq> 0" "in_reading m" "stream (mq_sock_reads m) = left @ behind"
  shows "\<exists>r m'. packet_read_command m = (r, m') \<and> read_frame m m' \<and> quiet (mq_sock_reads m') \<and>
    (r = Some MOSQ_ERR_SUCCESS \<and> mq_in_packet m' = mq_in_packet m \<and> stream (mq_sock_reads m') = left @ behind \<and>
       (read_size (mq_sock_reads m') < read_size (mq_sock_reads m) \<or> mq_sock_reads m' = []) \<or>
     r = None \<and> (\<exists>left'. partway c body left' (mq_in_packet m') \<and> stream (mq_sock_reads m') = left' @ behind \<and>
       \<not> fresh_packet (mq_in_packet m') \<and> read_size (mq_sock_reads m') \<le> read_size (mq_sock_reads m)))"
proof (cases "fresh_packet (mq_in_packet m)")
  case True
  then have l: "left = packet_of c body"
    using assms(1,2) by (auto simp: partway_def fresh_packet_def in_length_def in_body_def)
  have cmd: "pk_command (mq_in_packet m) = 0" using True by (simp add: fresh_packet_def)
  have q: "quiet (mq_sock_reads m)" using assms(3) by (simp add: in_reading_def)
  from q zero_less_one show ?thesis
  proof (cases rule: quiet_read)
    case (some b bs rs)
    then have b: "b = c" "stream rs = enc_varint (length body) @ body @ behind"
      using assms(4) l by (auto simp: packet_of_def)
    let ?m = "set_in (m\<lparr>mq_sock_reads := rs\<rparr>) (\<lambda>p. p\<lparr>pk_command := c\<rparr>)"
    have "packet_read_command m = (None, ?m)"
      unfolding packet_read_command_def some(1) using cmd assms(3) b(1)
      by (auto simp: Let_def in_reading_def mosquitto__get_state_def)
    moreover have "in_length c [] (mq_in_packet ?m)"
      using True by (auto simp: fresh_packet_def in_length_def read_ok_def)
    ultimately show ?thesis
      using b some(2,4) assms(2) enc_varint_digits [of "length body"]
      by (auto simp: partway_def fresh_packet_def intro!: exI [of _ "enc_varint (length body) @ body"])
  next
    case (none e rs)
    have "packet_read_command m = (Some MOSQ_ERR_SUCCESS, m\<lparr>mq_sock_reads := rs\<rparr>)"
      unfolding packet_read_command_def none(1) using cmd none(2) by simp
    then show ?thesis using none assms(4) by auto
  qed
next
  case False
  then have "pk_command (mq_in_packet m) = c"
    using assms(1) by (auto simp: partway_def in_length_def in_body_def)
  then have "packet_read_command m = (None, m)" using assms(2) by (simp add: packet_read_command_def)
  then show ?thesis using False assms by (auto simp: in_reading_def)
qed

text \<open>One call with a packet in progress: either the packet is whole, or it is further on.\<close>

definition progress :: "u8 \<Rightarrow> bytes \<Rightarrow> bytes \<Rightarrow> mosquitto \<Rightarrow> rc option \<Rightarrow> mosquitto \<Rightarrow> bool" where
  "progress c body behind m r m' \<longleftrightarrow> read_frame m m' \<and> quiet (mq_sock_reads m') \<and>
    (r = Some MOSQ_ERR_SUCCESS \<and> (\<exists>left. partway c body left (mq_in_packet m') \<and> stream (mq_sock_reads m') = left @ behind) \<and>
       (read_size (mq_sock_reads m') < read_size (mq_sock_reads m) \<or> mq_sock_reads m' = []) \<or>
     r = None \<and> in_wf (mq_in_packet m') \<and> pk_pos (mq_in_packet m') = 0 \<and> pk_command (mq_in_packet m') = c \<and>
       pk_payload (mq_in_packet m') = body \<and> stream (mq_sock_reads m') = behind \<and>
       read_size (mq_sock_reads m') < read_size (mq_sock_reads m))"

lemma packet_read_payload_reads:
  assumes "in_body c b1 b2 (mq_in_packet m)" "quiet (mq_sock_reads m)" "stream (mq_sock_reads m) = b2 @ behind"
    and "read_size (mq_sock_reads m) < k \<or> b2 \<noteq> [] \<and> read_size (mq_sock_reads m) \<le> k"
  shows "\<exists>r m'. packet_read_payload d m = Ok (r, m') \<and> read_frame m m' \<and> quiet (mq_sock_reads m') \<and>
    (r = Some MOSQ_ERR_SUCCESS \<and> (\<exists>left. partway c (b1 @ b2) left (mq_in_packet m') \<and> stream (mq_sock_reads m') = left @ behind) \<and>
       (read_size (mq_sock_reads m') < k \<or> mq_sock_reads m' = []) \<or>
     r = None \<and> in_wf (mq_in_packet m') \<and> pk_pos (mq_in_packet m') = 0 \<and> pk_command (mq_in_packet m') = c \<and>
       pk_payload (mq_in_packet m') = b1 @ b2 \<and> stream (mq_sock_reads m') = behind \<and> read_size (mq_sock_reads m') < k)"
proof -
  from packet_payload_loop_reads [OF assms(1-3)] obtain x reads p where
    l: "packet_payload_loop (mq_sock_reads m) (mq_in_packet m) = Ok (x, reads, p)" "quiet reads" and
    r: "(\<exists>e b1' b2'. x = Some (Failed e) \<and> write_error e = MOSQ_ERR_SUCCESS \<and> b1 @ b2 = b1' @ b2' \<and> b2' \<noteq> [] \<and>
       in_body c b1' b2' p \<and> stream reads = b2' @ behind \<and> (read_size reads < read_size (mq_sock_reads m) \<or> reads = [])) \<or>
     x = None \<and> in_body c (b1 @ b2) [] p \<and> stream reads = behind \<and>
       (b2 \<noteq> [] \<longrightarrow> read_size reads < read_size (mq_sock_reads m)) \<and> (b2 = [] \<longrightarrow> reads = mq_sock_reads m)"
    by blast
  from r show ?thesis
  proof (rule disjE, goal_cases)
    case 1
    then obtain e b1' b2' where x: "x = Some (Failed e)" "write_error e = MOSQ_ERR_SUCCESS" and b: "b1 @ b2 = b1' @ b2'" "b2' \<noteq> []"
      "in_body c b1' b2' p" "stream reads = b2' @ behind" "read_size reads < read_size (mq_sock_reads m) \<or> reads = []"
      by blast
    have "partway c (b1 @ b2) b2' p" using b by (auto simp: partway_def)
    moreover have "read_size reads < k \<or> reads = []" using b(5) assms(4) by auto
    ultimately show ?thesis using l x b(4)
      by (auto simp: packet_read_payload_def keepalive__update_def Let_def)
  next
    case 2
    then have x: "x = None" "in_body c (b1 @ b2) [] p" "stream reads = behind"
      "b2 \<noteq> [] \<longrightarrow> read_size reads < read_size (mq_sock_reads m)" "b2 = [] \<longrightarrow> reads = mq_sock_reads m"
      by blast+
    have "length (pk_payload p) = length (b1 @ b2)" "pk_command p = c" "take (length (b1 @ b2)) (pk_payload p) = b1 @ b2"
      using x(2) by (auto simp: in_body_def read_ok_def)
    moreover have "in_wf (p\<lparr>pk_pos := 0\<rparr>)" using x(2) by (auto simp: in_wf_def in_body_def read_ok_def)
    moreover have "read_size reads < k" using x(4,5) assms(4) by (cases "b2 = []") auto
    ultimately show ?thesis using l x(1,3) by (simp add: packet_read_payload_def)
  qed
qed

lemma packet_read_length_reads:
  assumes "in_length c ds (mq_in_packet m)" "enc_varint (length body) = ds @ rs" "ends rs"
    and "quiet (mq_sock_reads m)" "stream (mq_sock_reads m) = rs @ body @ behind" "acceptable (db_config d) m (c, body)"
  shows "\<exists>r m'. packet_read_length d m = Ok (r, m') \<and> read_frame m m' \<and> quiet (mq_sock_reads m') \<and>
    (r = Some MOSQ_ERR_SUCCESS \<and> (\<exists>left. partway c body left (mq_in_packet m') \<and> stream (mq_sock_reads m') = left @ behind) \<and>
       (read_size (mq_sock_reads m') < read_size (mq_sock_reads m) \<or> mq_sock_reads m' = []) \<or>
     r = None \<and> in_body c [] body (mq_in_packet m') \<and> stream (mq_sock_reads m') = body @ behind \<and>
       read_size (mq_sock_reads m') < read_size (mq_sock_reads m))"
proof -
  have small: "length body < 268435456" using assms(6) by (simp add: acceptable_def)
  then have "length ds + length rs \<le> 4" using length_enc_varint_le [OF small] assms(2) by simp
  from packet_length_loop_reads [OF assms(1,4,3) this assms(5)] obtain r reads p where
    l: "packet_length_loop (mq_sock_reads m) (mq_in_packet m) = (r, reads, p)" "quiet reads" and
    r: "r = Some MOSQ_ERR_SUCCESS \<and> (\<exists>ds' rs'. ds @ rs = ds' @ rs' \<and> ends rs' \<and> in_length c ds' p \<and>
       stream reads = rs' @ body @ behind) \<and> (read_size reads < read_size (mq_sock_reads m) \<or> reads = []) \<or>
     r = None \<and> stream reads = body @ behind \<and> read_size reads < read_size (mq_sock_reads m) \<and>
       0 < pk_remaining_count p \<and> pk_command p = c \<and> unat (pk_remaining_length p) = digits (ds @ rs) \<and>
       pk_payload p = [] \<and> pk_to_process p = 0 \<and> pk_pos p = 0"
    by blast
  have count: "pk_remaining_count (mq_in_packet m) \<le> 0" using assms(1) by (simp add: in_length_def)
  from r show ?thesis
  proof (rule disjE, goal_cases)
    case 1
    then have "\<exists>left. partway c body left p \<and> stream reads = left @ behind"
      using assms(2) by (auto simp: partway_def)
    then show ?thesis using 1 l count by (auto simp: packet_read_length_def)
  next
    case 2
    then have p: "0 < pk_remaining_count p" "pk_command p = c" "unat (pk_remaining_length p) = length body"
      "pk_payload p = []" "pk_to_process p = 0" "pk_pos p = 0"
      using assms(2) enc_varint_digits [of "length body"] by auto
    then have len: "pk_remaining_length p = of_nat (length body)" using small
      by (simp add: word_unat_eq_iff unat_of_nat_u32)
    define m2 where "m2 = m\<lparr>mq_sock_reads := reads, mq_in_packet := p\<rparr>"
    have ok: "\<not> length_refused m2 c (pk_remaining_length p)" "\<not> length_oversize (db_config d) (pk_remaining_length p)"
      using assms(6) by (simp_all add: acceptable_def m2_def len length_refused_def Let_def)
    have "r = None" using 2 by blast
    have "packet_read_length d m = Ok (None, if pk_remaining_length p > 0 then
        set_in m2 (\<lambda>p. p\<lparr>pk_payload := replicate (unat (pk_remaining_length p)) 0, pk_to_process := pk_remaining_length p\<rparr>)
        else m2)"
      unfolding packet_read_length_def l(1) \<open>r = None\<close> prod.case option.case Let_def m2_def [symmetric]
      using ok p(2) count by simp
    moreover have "in_body c [] body (p\<lparr>pk_payload := replicate (unat (pk_remaining_length p)) 0,
        pk_to_process := pk_remaining_length p\<rparr>)"
      using p small by (simp add: in_body_def read_ok_def)
    moreover have "pk_remaining_length p = 0 \<Longrightarrow> in_body c [] body p"
      using p by (simp add: in_body_def read_ok_def)
    ultimately show ?thesis using l(2) 2 by (auto simp: m2_def word_gt_0)
  qed
qed

lemma packet_fetch_reads:
  assumes p: "partway c body left (mq_in_packet m)" and m: "in_reading m" "stream (mq_sock_reads m) = left @ behind"
    and ok: "acceptable (db_config d) m (c, body)"
  shows "\<exists>r m'. packet_fetch d m = Ok (r, m') \<and> progress c body behind m r m'"
proof -
  have c: "c \<noteq> 0" using ok by (simp add: acceptable_def)
  from packet_read_command_reads [OF p c m] obtain r1 m1 where c1: "packet_read_command m = (r1, m1)"
    and f1: "read_frame m m1" "quiet (mq_sock_reads m1)" and
    r1: "r1 = Some MOSQ_ERR_SUCCESS \<and> mq_in_packet m1 = mq_in_packet m \<and> stream (mq_sock_reads m1) = left @ behind \<and>
       (read_size (mq_sock_reads m1) < read_size (mq_sock_reads m) \<or> mq_sock_reads m1 = []) \<or>
     r1 = None \<and> (\<exists>left'. partway c body left' (mq_in_packet m1) \<and> stream (mq_sock_reads m1) = left' @ behind \<and>
       \<not> fresh_packet (mq_in_packet m1) \<and> read_size (mq_sock_reads m1) \<le> read_size (mq_sock_reads m))"
    by blast
  have ok1: "acceptable (db_config d) m1 (c, body)"
    using ok read_frame_fields(7) [OF f1(1)] by (simp add: acceptable_def length_refused_def)
  have fetch: "packet_fetch d m = (case r1 of Some rc \<Rightarrow> Ok (Some rc, m1)
     | None \<Rightarrow> res_bind (packet_read_length d m1) (\<lambda>(r, m). case r of Some rc \<Rightarrow> Ok (Some rc, m) | None \<Rightarrow> packet_read_payload d m))"
    using m(1) c1 by (simp add: packet_fetch_def in_reading_def split: option.split)
  show ?thesis
  proof (cases r1)
    case (Some rc)
    then show ?thesis using r1 f1 p fetch by (auto simp: progress_def)
  next
    case None
    then obtain left' where l: "partway c body left' (mq_in_packet m1)" "stream (mq_sock_reads m1) = left' @ behind"
      "\<not> fresh_packet (mq_in_packet m1)" "read_size (mq_sock_reads m1) \<le> read_size (mq_sock_reads m)" using r1 by blast
    from l(1,3) consider (len) ds rs where "enc_varint (length body) = ds @ rs" "ends rs" "in_length c ds (mq_in_packet m1)" "left' = rs @ body"
      | (bod) b1 b2 where "body = b1 @ b2" "b2 \<noteq> []" "in_body c b1 b2 (mq_in_packet m1)" "left' = b2"
      by (auto simp: partway_def)
    then show ?thesis
    proof cases
      case len
      have "stream (mq_sock_reads m1) = rs @ body @ behind" using l(2) len(4) by simp
      from packet_read_length_reads [OF len(3,1,2) f1(2) this ok1] obtain r2 m2 where
        l2: "packet_read_length d m1 = Ok (r2, m2)" "read_frame m1 m2" "quiet (mq_sock_reads m2)" and
        r2: "r2 = Some MOSQ_ERR_SUCCESS \<and> (\<exists>left. partway c body left (mq_in_packet m2) \<and> stream (mq_sock_reads m2) = left @ behind) \<and>
           (read_size (mq_sock_reads m2) < read_size (mq_sock_reads m1) \<or> mq_sock_reads m2 = []) \<or>
         r2 = None \<and> in_body c [] body (mq_in_packet m2) \<and> stream (mq_sock_reads m2) = body @ behind \<and>
           read_size (mq_sock_reads m2) < read_size (mq_sock_reads m1)" by blast
      have f2: "read_frame m m2" using read_frame_trans f1(1) l2(2) .
      show ?thesis
      proof (cases r2)
        case (Some rc)
        then show ?thesis using r2 f2 l2 l(4) None fetch by (auto simp: progress_def)
      next
        case None2: None
        then have b: "in_body c [] body (mq_in_packet m2)" "stream (mq_sock_reads m2) = body @ behind"
          "read_size (mq_sock_reads m2) < read_size (mq_sock_reads m)" using r2 l(4) by auto
        from packet_read_payload_reads [OF b(1) l2(3) b(2) disjI1 [OF b(3)], of d] show ?thesis
          using fetch None None2 l2(1) read_frame_trans [OF f2] by (fastforce simp: progress_def)
      qed
    next
      case bod
      have count: "pk_remaining_count (mq_in_packet m1) > 0" using bod(3) by (simp add: in_body_def)
      then have "packet_read_length d m1 = Ok (None, m1)" by (simp add: packet_read_length_def)
      with packet_read_payload_reads [OF bod(3) f1(2) _ disjI2, of behind "read_size (mq_sock_reads m)" d] show ?thesis
        using fetch None l(2,4) bod read_frame_trans [OF f1(1)] by (fastforce simp: progress_def)
    qed
  qed
qed

text \<open>
  The event loop calls \<open>packet__read\<close> as long as the socket has something. \<open>read_run\<close> is the list
  of packets that reach the handler, without what the handlers do; \<open>fuel\<close> bounds the number of
  calls, and running out of it is a fault.
\<close>

fun read_run :: "nat \<Rightarrow> db \<Rightarrow> mosquitto \<Rightarrow> (packet list \<times> mosquitto) res" where
  "read_run 0 d m = Fault"
| "read_run (Suc fuel) d m =
    res_bind (packet_fetch d m) (\<lambda>(r, m).
      case r of
        None \<Rightarrow> res_bind (read_run fuel d (set_in m packet__cleanup)) (\<lambda>(ps, m'). Ok (mq_in_packet m # ps, m'))
      | Some rc \<Rightarrow> if rc \<noteq> MOSQ_ERR_SUCCESS then Err rc
          else if mq_sock_reads m = [] then Ok ([], m) else read_run fuel d m)"

lemma fresh_cleanup: "fresh_packet (packet__cleanup p)"
  by (simp add: fresh_packet_def packet__cleanup_def read_ok_def)

lemma in_reading_frame: "read_frame m m' \<Longrightarrow> in_reading m \<Longrightarrow> quiet (mq_sock_reads m') \<Longrightarrow> in_reading m'"
  using read_frame_fields [of m m'] by (simp add: in_reading_def mosquitto__get_state_def)

lemma acceptable_frame: "read_frame m m' \<Longrightarrow> acceptable cf m' = acceptable cf m"
  using read_frame_fields(7) [of m m'] by (simp add: fun_eq_iff acceptable_def length_refused_def split: prod.split)

text \<open>Nothing has arrived of the next packet.\<close>

lemma packet_fetch_idle:
  assumes "fresh_packet (mq_in_packet m)" "in_reading m" "stream (mq_sock_reads m) = []"
  shows "\<exists>m'. packet_fetch d m = Ok (Some MOSQ_ERR_SUCCESS, m') \<and> read_frame m m' \<and> mq_in_packet m' = mq_in_packet m \<and>
    quiet (mq_sock_reads m') \<and> stream (mq_sock_reads m') = [] \<and>
    (read_size (mq_sock_reads m') < read_size (mq_sock_reads m) \<or> mq_sock_reads m' = [])"
proof -
  have q: "quiet (mq_sock_reads m)" using assms(2) by (simp add: in_reading_def)
  from q zero_less_one show ?thesis
  proof (cases rule: quiet_read)
    case (none e rs)
    have "packet_read_command m = (Some MOSQ_ERR_SUCCESS, m\<lparr>mq_sock_reads := rs\<rparr>)"
      unfolding packet_read_command_def none(1) using assms(1) none(2) by (simp add: fresh_packet_def)
    then show ?thesis using assms none by (auto simp: packet_fetch_def in_reading_def)
  qed (use assms(3) in simp)
qed

definition packets_of :: "(u8 \<times> bytes) list \<Rightarrow> bytes" where
  "packets_of ps = concat (map (\<lambda>(c, body). packet_of c body) ps)"

definition awaits :: "(u8 \<times> bytes) list \<Rightarrow> mosquitto \<Rightarrow> bool" where
  "awaits ps m \<longleftrightarrow> fresh_packet (mq_in_packet m) \<and> stream (mq_sock_reads m) = packets_of ps \<or>
     (\<exists>c body qs left. ps = (c, body) # qs \<and> partway c body left (mq_in_packet m) \<and>
        stream (mq_sock_reads m) = left @ packets_of qs)"

lemma packets_of_simps [simp]:
  "packets_of [] = []" "packets_of ((c, body) # ps) = packet_of c body @ packets_of ps"
  by (simp_all add: packets_of_def)

lemma awaits_Cons:
  assumes "awaits ((c, body) # ps) m"
  obtains left where "partway c body left (mq_in_packet m)" "stream (mq_sock_reads m) = left @ packets_of ps"
  using assms by (auto simp: awaits_def partway_def)

lemma awaits_none: "awaits ps m \<Longrightarrow> mq_sock_reads m = [] \<Longrightarrow> ps = [] \<and> fresh_packet (mq_in_packet m)"
proof -
  assume a: "awaits ps m" "mq_sock_reads m = []"
  have "partway c body left p \<Longrightarrow> left \<noteq> []" for c body left p
    by (auto simp: partway_def packet_of_def)
  then show ?thesis using a by (cases ps) (auto simp: awaits_def packet_of_def)
qed

lemma read_run_all:
  assumes "awaits ps m" "in_reading m" "list_all (acceptable (db_config d) m) ps" "read_size (mq_sock_reads m) < fuel"
  shows "\<exists>qs m'. read_run fuel d m = Ok (qs, m') \<and> map (\<lambda>q. (pk_command q, pk_payload q)) qs = ps \<and>
    list_all (\<lambda>q. in_wf q \<and> pk_pos q = 0) qs \<and> mq_sock_reads m' = [] \<and> fresh_packet (mq_in_packet m') \<and> read_frame m m'"
  using assms
proof (induction fuel arbitrary: ps m)
  case (Suc fuel)
  show ?case
  proof (cases ps)
    case Nil
    then have "fresh_packet (mq_in_packet m)" "stream (mq_sock_reads m) = []" using Suc.prems(1) by (auto simp: awaits_def)
    from packet_fetch_idle [OF this(1) Suc.prems(2) this(2), of d] obtain m1 where
      f: "packet_fetch d m = Ok (Some MOSQ_ERR_SUCCESS, m1)" "read_frame m m1" "mq_in_packet m1 = mq_in_packet m"
        "quiet (mq_sock_reads m1)" "stream (mq_sock_reads m1) = []"
        "read_size (mq_sock_reads m1) < read_size (mq_sock_reads m) \<or> mq_sock_reads m1 = []" by blast
    have "awaits [] m1" using f \<open>fresh_packet (mq_in_packet m)\<close> by (simp add: awaits_def)
    note IH = Suc.IH [OF this in_reading_frame [OF f(2) Suc.prems(2) f(4)]]
    show ?thesis
    proof (cases "mq_sock_reads m1 = []")
      case True
      then show ?thesis using f \<open>fresh_packet (mq_in_packet m)\<close> by (simp add: Nil)
    next
      case False
      then show ?thesis using IH f(1,6) Suc.prems(4) read_frame_trans [OF f(2)] by (fastforce simp: Nil)
    qed
  next
    case (Cons q qs)
    obtain c body where q: "q = (c, body)" by (cases q)
    from awaits_Cons Suc.prems(1) obtain left where
      l: "partway c body left (mq_in_packet m)" "stream (mq_sock_reads m) = left @ packets_of qs" unfolding Cons q by metis
    have "acceptable (db_config d) m (c, body)" using Suc.prems(3) Cons q by simp
    from packet_fetch_reads [OF l(1) Suc.prems(2) l(2) this] obtain r m1 where
      f: "packet_fetch d m = Ok (r, m1)" and pr: "progress c body (packets_of qs) m r m1" by blast
    have fr: "read_frame m m1" "quiet (mq_sock_reads m1)" using pr by (auto simp: progress_def)
    note rd = in_reading_frame [OF fr(1) Suc.prems(2) fr(2)]
    have acc: "list_all (acceptable (db_config d) m1) (q # qs)"
      using Suc.prems(3) acceptable_frame [OF fr(1), of "db_config d"] by (simp add: Cons)
    show ?thesis
    proof (cases r)
      case None
      let ?m = "set_in m1 packet__cleanup"
      have p: "in_wf (mq_in_packet m1)" "pk_pos (mq_in_packet m1) = 0" "pk_command (mq_in_packet m1) = c"
        "pk_payload (mq_in_packet m1) = body" "stream (mq_sock_reads m1) = packets_of qs"
        "read_size (mq_sock_reads m1) < read_size (mq_sock_reads m)"
        using pr None by (auto simp: progress_def)
      have "awaits qs ?m" using p(5) fresh_cleanup by (simp add: awaits_def)
      moreover have "in_reading ?m" "list_all (acceptable (db_config d) ?m) qs"
        using rd acc acceptable_frame [of m1 ?m] in_reading_frame [of m1 ?m] fr(2) by simp_all
      ultimately obtain qs' m' where run: "read_run fuel d ?m = Ok (qs', m')" "map (\<lambda>q. (pk_command q, pk_payload q)) qs' = qs"
        "list_all (\<lambda>q. in_wf q \<and> pk_pos q = 0) qs'" "mq_sock_reads m' = []" "fresh_packet (mq_in_packet m')" "read_frame ?m m'"
        using Suc.IH [of qs ?m] p(6) Suc.prems(4) by auto
      have "read_frame m m'" using read_frame_trans [OF _ run(6)] fr(1) by simp
      then show ?thesis using f p None run by (auto simp: Cons q)
    next
      case (Some rc)
      then have p: "rc = MOSQ_ERR_SUCCESS" "awaits (q # qs) m1"
        "read_size (mq_sock_reads m1) < read_size (mq_sock_reads m) \<or> mq_sock_reads m1 = []"
        using pr by (auto simp: progress_def awaits_def q)
      then have ne: "mq_sock_reads m1 \<noteq> []" using awaits_none by fastforce
      from Suc.IH [OF p(2) rd acc] p(1,3) ne Suc.prems(4) f Some read_frame_trans [OF fr(1)] show ?thesis
        by (fastforce simp: Cons)
    qed
  qed
qed simp

section \<open>Properties\<close>

text \<open>
  C31: whatever the peer sends and however the socket fails, \<open>packet__read\<close> stays inside the buffer
  of the packet: from a packet in progress that is in order it always returns, a packet that it
  hands on is whole (the buffer has the announced length, which four length bytes can say, and the
  position is at its start), and when it returns success with the packet unfinished the packet in
  progress is in order again. The outgoing packets stay well formed on every path, the refusal of an
  oversize packet included.
\<close>

theorem packet_fetch_safe:
  assumes "out_wf d m" and "read_ok (mq_in_packet m)"
  shows "\<exists>r m'. packet_fetch d m = Ok (r, m') \<and> out_wf d m' \<and>
    (r = None \<longrightarrow> in_wf (mq_in_packet m') \<and> pk_pos (mq_in_packet m') = 0) \<and>
    (r = Some MOSQ_ERR_SUCCESS \<longrightarrow> read_ok (mq_in_packet m'))"
proof (cases "mq_sock m = INVALID_SOCKET \<or> mosquitto__get_state m = mosq_cs_connect_pending")
  case True
  then show ?thesis using assms by (auto simp: packet_fetch_def)
next
  case False
  obtain r1 m1 where c: "packet_read_command m = (r1, m1)" by (cases "packet_read_command m")
  have f: "read_frame m m1" "mq_in_packet m1 = (mq_in_packet m)\<lparr>pk_command := pk_command (mq_in_packet m1)\<rparr>"
    using packet_read_command_fields [OF c] by auto
  have m1: "out_wf d m1" "read_ok (mq_in_packet m1)"
    using assms read_frame_out(1) [OF f(1)] read_ok_command [of "mq_in_packet m"] f(2) by metis+
  from packet_read_length_safe [OF m1] obtain r2 m2 where l: "packet_read_length d m1 = Ok (r2, m2)" "out_wf d m2"
    "r2 = None \<Longrightarrow> read_ok (mq_in_packet m2) \<and> pk_remaining_count (mq_in_packet m2) > 0"
    "r2 = Some MOSQ_ERR_SUCCESS \<Longrightarrow> read_ok (mq_in_packet m2)" by blast
  show ?thesis
    using False c l m1 packet_read_payload_safe [OF l(2)]
    by (cases r1; cases r2) (auto simp: packet_fetch_def)
qed

text \<open>A client with MQTT v5 announces more than the broker takes: the broker answers and refuses.\<close>

theorem packet_fetch_safe_witness:
  "let d = db_zero\<lparr>db_config := config_zero\<lparr>cf_max_packet_size := 100\<rparr>\<rparr>;
       m = mosquitto_zero\<lparr>mq_sock := 3, mq_protocol := mosq_p_mqtt5, mq_state := mosq_cs_active,
             mq_in_packet := packet__cleanup packet_zero, mq_sock_reads := [Chunk [0x30, 0xFF], Chunk [1]]\<rparr>
   in out_wf d m \<and> read_ok (mq_in_packet m) \<and>
     (\<exists>m'. packet_fetch d m = Ok (Some MOSQ_ERR_OVERSIZE_PACKET, m') \<and> out_wf d m')"
proof -
  let ?d = "db_zero\<lparr>db_config := config_zero\<lparr>cf_max_packet_size := 100\<rparr>\<rparr>"
  let ?m = "mosquitto_zero\<lparr>mq_sock := 3, mq_protocol := mosq_p_mqtt5, mq_state := mosq_cs_active,
             mq_in_packet := packet__cleanup packet_zero, mq_sock_reads := [Chunk [0x30, 0xFF], Chunk [1]]\<rparr>"
  have wf: "out_wf ?d ?m" by (simp add: out_wf_def out_packets_def mosquitto_zero_def)
  have ok: "read_ok (mq_in_packet ?m)" by (simp add: read_ok_def packet__cleanup_def)
  obtain r m' where f: "packet_fetch ?d ?m = Ok (r, m')" "out_wf ?d m'"
    using packet_fetch_safe [OF wf ok] by blast
  have "r = Some MOSQ_ERR_OVERSIZE_PACKET"
    using f(1)
    by (auto simp: packet_fetch_def packet_read_command_def packet_read_length_def packet_length_loop.simps
        mosquitto__get_state_def packet__cleanup_def Let_def length_refused_def length_oversize_def db_zero_def config_zero_def
        res_bind_Ok_iff mosquitto_zero_def)
  then show ?thesis using wf ok f by (simp add: Let_def)
qed

text \<open>
  C30: however the bytes of a connection arrive, in pieces of any size, cut anywhere, with
  interruptions and waits in between, repeated calls of \<open>packet__read\<close> hand exactly the packets
  that the peer has sent to the handler, each once, whole and in order, and then wait for a new
  packet. The packets are those that the senders of this program make: a command, the length of the
  body as a variable byte integer, and the body. The number of calls is bounded by the number of
  pieces and bytes.
\<close>

theorem packet_stream_reassembled:
  assumes "mq_sock m \<noteq> INVALID_SOCKET" and "mq_state m \<noteq> mosq_cs_connect_pending"
    and "mq_bridge m = None \<longrightarrow> mq_state m \<noteq> mosq_cs_connected"
    and "mq_in_packet m = packet__cleanup p"
    and "quiet (mq_sock_reads m)" and "stream (mq_sock_reads m) = packets_of ps"
    and "list_all (acceptable (db_config d) m) ps" and "read_size (mq_sock_reads m) < fuel"
  shows "\<exists>qs m'. read_run fuel d m = Ok (qs, m') \<and> map (\<lambda>q. (pk_command q, pk_payload q)) qs = ps \<and>
    list_all (\<lambda>q. in_wf q \<and> pk_pos q = 0) qs \<and> mq_sock_reads m' = [] \<and> fresh_packet (mq_in_packet m')"
proof -
  have "awaits ps m" using assms(4,6) fresh_cleanup by (simp add: awaits_def)
  moreover have "in_reading m" using assms(1-3,5) by (auto simp: in_reading_def mosquitto__get_state_def)
  ultimately show ?thesis using read_run_all [OF _ _ assms(7,8)] by blast
qed

text \<open>A PINGREQ and a PUBLISH that arrive in four pieces.\<close>

theorem packet_stream_reassembled_witness:
  "let m = mosquitto_zero\<lparr>mq_sock := 3, mq_state := mosq_cs_active, mq_in_packet := packet__cleanup packet_zero,
             mq_sock_reads := [Chunk [0xC0], Failed EAGAIN, Chunk [0, 0x30], Failed COMPAT_EINTR, Chunk [3, 0], Chunk [1, 97]]\<rparr>
   in stream (mq_sock_reads m) = packets_of [(0xC0, []), (0x30, [0, 1, 97])] \<and>
     (\<exists>qs m'. read_run 20 db_zero m = Ok (qs, m') \<and>
        map (\<lambda>q. (pk_command q, pk_payload q)) qs = [(0xC0, []), (0x30, [0, 1, 97])])"
proof -
  let ?m = "mosquitto_zero\<lparr>mq_sock := 3, mq_state := mosq_cs_active, mq_in_packet := packet__cleanup packet_zero,
       mq_sock_reads := [Chunk [0xC0], Failed EAGAIN, Chunk [0, 0x30], Failed COMPAT_EINTR, Chunk [3, 0], Chunk [1, 97]]\<rparr>"
  let ?ps = "[(0xC0, []), (0x30, [0, 1, 97])] :: (u8 \<times> bytes) list"
  have s: "stream (mq_sock_reads ?m) = packets_of ?ps" by (simp add: packet_of_def enc_varint_small)
  have a: "list_all (acceptable (db_config db_zero) ?m) ?ps"
    by (simp add: acceptable_def length_refused_def length_oversize_def db_zero_def config_zero_def)
  from packet_stream_reassembled [of ?m packet_zero ?ps db_zero 20] s a show ?thesis
    by (auto simp: Let_def write_error_def)
qed

end
