(* ===== verification/Sessions.thy ===== *)
theory Sessions
  imports Handle_Subscribe Packet_Read
begin

text \<open>
  The life of a session after its connection: the lists of sessions that expire
  (\<^verbatim>\<open>src/session_expiry.c\<close>) and of wills that are delayed (\<^verbatim>\<open>src/will_delay.c\<close>), the
  check of the keep alive intervals (\<^verbatim>\<open>src/keepalive.c\<close>), and how a client is disconnected,
  put aside and freed (\<^verbatim>\<open>src/context.c\<close>, \<^verbatim>\<open>src/loop.c\<close>, \<^verbatim>\<open>lib/will_mosq.c\<close>,
  \<^verbatim>\<open>lib/net_mosq.c\<close>). The state is a \<open>server\<close>: the broker with the tables and lists
  that are global variables of these files. A client in one of the lists is there at most once, so
  the pointer to its list item is whether it has one. Freeing a client takes it out of the broker,
  and a later access is a fault. TLS, logging and statistics are not modelled, and the disconnect
  callbacks of plugins, which cannot answer, have no effect.
\<close>

section \<open>The server\<close>

text \<open>
  The two hash tables list their entries with the latest in front; \<open>HASH_FIND\<close> returns the first
  with the key.
\<close>

record server =
  sv_broker :: broker
  sv_by_id :: "(string \<times> client) list"
  sv_by_sock :: "(int \<times> client) list"
  sv_expiry_list :: "client list"
  sv_expiry_check :: int
  sv_delay_list :: "client list"
  sv_delay_check :: int
  sv_keepalive_check :: int
  sv_for_free :: "client list"

abbreviation sv_client :: "server \<Rightarrow> client \<Rightarrow> mosquitto option" where
  "sv_client s c \<equiv> bk_clients (sv_broker s) c"

abbreviation sv_db :: "server \<Rightarrow> db" where
  "sv_db s \<equiv> bk_db (sv_broker s)"

definition sv_put :: "server \<Rightarrow> client \<Rightarrow> mosquitto \<Rightarrow> server" where
  "sv_put s c context = s\<lparr>sv_broker := put_client (sv_broker s) c context\<rparr>"

definition the_client :: "server \<Rightarrow> client \<Rightarrow> mosquitto res" where
  "the_client s c = (case sv_client s c of None \<Rightarrow> Fault | Some context \<Rightarrow> Ok context)"

definition change :: "server \<Rightarrow> client \<Rightarrow> (mosquitto \<Rightarrow> mosquitto) \<Rightarrow> server res" where
  "change s c f = res_bind (the_client s c) (\<lambda>context. Ok (sv_put s c (f context)))"

definition on_broker :: "server \<Rightarrow> (broker \<Rightarrow> ('a \<times> broker) res) \<Rightarrow> ('a \<times> server) res" where
  "on_broker s f = res_bind (f (sv_broker s)) (\<lambda>(x, b). Ok (x, s\<lparr>sv_broker := b\<rparr>))"

text \<open>
  \<open>DL_INSERT_INORDER\<close>: in front of the first item that the comparison does not put before the new
  one.
\<close>

definition insert_inorder :: "('a \<Rightarrow> 'a \<Rightarrow> int) \<Rightarrow> 'a \<Rightarrow> 'a list \<Rightarrow> 'a list" where
  "insert_inorder cmp add l = takeWhile (\<lambda>x. cmp x add < 0) l @ add # dropWhile (\<lambda>x. cmp x add < 0) l"

definition client_of :: "server \<Rightarrow> client \<Rightarrow> mosquitto" where
  "client_of s c = (case sv_client s c of None \<Rightarrow> mosquitto_zero | Some context \<Rightarrow> context)"

definition all_clients :: "server \<Rightarrow> client list \<Rightarrow> bool" where
  "all_clients s l \<longleftrightarrow> list_all (\<lambda>c. sv_client s c \<noteq> None) l"

section \<open>Sessions that expire\<close>

definition session_expiry__cmp :: "server \<Rightarrow> client \<Rightarrow> client \<Rightarrow> int" where
  "session_expiry__cmp s i1 i2 =
    (let t1 = mq_session_expiry_time (client_of s i1); t2 = mq_session_expiry_time (client_of s i2) in
     if t1 = t2 then 0 else if t1 > t2 then 1 else -1)"

definition session_expiry__add :: "server \<Rightarrow> client \<Rightarrow> (rc \<times> server) res" where
  "session_expiry__add s c =
    res_bind (the_client s c) (\<lambda>context.
      let global = cf_persistent_client_expiration (db_config (sv_db s));
          interval = uint (mq_session_expiry_interval context)
      in if global = 0 \<and> mq_session_expiry_interval context = 0xFFFFFFFF then Ok (MOSQ_ERR_SUCCESS, s)
         else if \<not> all_clients s (sv_expiry_list s) then Fault
         else
           let time = db_now_real_s (sv_db s) +
                 (if global = 0 then interval else if global < interval then global else interval);
               s = sv_put s c (context\<lparr>mq_session_expiry_time := time, mq_expiry_list_item := True\<rparr>)
           in Ok (MOSQ_ERR_SUCCESS, s\<lparr>sv_expiry_list := insert_inorder (session_expiry__cmp s) c (sv_expiry_list s)\<rparr>))"

definition session_expiry__remove :: "server \<Rightarrow> client \<Rightarrow> server res" where
  "session_expiry__remove s c =
    res_bind (the_client s c) (\<lambda>context.
      if mq_expiry_list_item context then
        Ok (sv_put (s\<lparr>sv_expiry_list := remove1 c (sv_expiry_list s)\<rparr>) c (context\<lparr>mq_expiry_list_item := False\<rparr>))
      else Ok s)"

section \<open>Wills that are delayed\<close>

text \<open>The difference of two unsigned intervals, as a signed integer.\<close>

definition will_delay__cmp :: "server \<Rightarrow> client \<Rightarrow> client \<Rightarrow> int" where
  "will_delay__cmp s i1 i2 =
     sint (mq_will_delay_interval (client_of s i1) - mq_will_delay_interval (client_of s i2))"

definition will_delay__add :: "server \<Rightarrow> client \<Rightarrow> (rc \<times> server) res" where
  "will_delay__add s c =
    res_bind (the_client s c) (\<lambda>context.
      if mq_will_delay_entry context then Ok (MOSQ_ERR_SUCCESS, s)
      else if \<not> all_clients s (sv_delay_list s) then Fault
      else
        let s = sv_put s c (context\<lparr>mq_will_delay_entry := True,
                  mq_will_delay_time := db_now_real_s (sv_db s) + uint (mq_will_delay_interval context)\<rparr>)
        in Ok (MOSQ_ERR_SUCCESS, s\<lparr>sv_delay_list := insert_inorder (will_delay__cmp s) c (sv_delay_list s)\<rparr>))"

definition will_delay__remove :: "server \<Rightarrow> client \<Rightarrow> server res" where
  "will_delay__remove s c =
    res_bind (the_client s c) (\<lambda>mosq.
      if mq_will_delay_entry mosq then
        Ok (sv_put (s\<lparr>sv_delay_list := remove1 c (sv_delay_list s)\<rparr>) c (mosq\<lparr>mq_will_delay_entry := False\<rparr>))
      else Ok s)"

section \<open>The will\<close>

definition will__clear :: "mosquitto \<Rightarrow> mosquitto" where
  "will__clear mosq =
    (if mq_will mosq = None then mosq else mosq\<lparr>mq_will := None, mq_will_delay_interval := 0\<rparr>)"

definition context__send_will :: "acl_env \<Rightarrow> server \<Rightarrow> client \<Rightarrow> server res" where
  "context__send_will env s c =
    res_bind (the_client s c) (\<lambda>ctxt.
      case (if mq_state ctxt \<noteq> mosq_cs_disconnecting then mq_will ctxt else None) of
        None \<Rightarrow> change s c will__clear
      | Some will \<Rightarrow>
          if mq_will_delay_interval ctxt > 0 then
            res_bind (will_delay__add s c) (\<lambda>(_, s). Ok s)
          else
            case wm_topic will of None \<Rightarrow> Fault
            | Some topic \<Rightarrow>
                let payloadlen = word_of_int (wm_payloadlen will) in
                res_bind
                  (if mosquitto_acl_check env (db_config (sv_db s)) ctxt topic payloadlen (wm_payload will)
                        (wm_qos will) (wm_retain will) MOSQ_ACL_WRITE = MOSQ_ERR_SUCCESS
                   then on_broker s (\<lambda>b. db__messages_easy_queue env b (Some ctxt) (Some topic) (wm_qos will) payloadlen
                          (wm_payload will) (wm_retain will) (wm_expiry_interval will) (wm_properties will))
                   else Ok (MOSQ_ERR_SUCCESS, s)) (\<lambda>(_, s).
                change s c will__clear))"

section \<open>The end of a connection\<close>

text \<open>\<open>HASH_DELETE\<close> of the entry that \<open>HASH_FIND\<close> finds for a key, whatever client it has.\<close>

fun delete_first :: "'k \<Rightarrow> ('k \<times> 'v) list \<Rightarrow> ('k \<times> 'v) list" where
  "delete_first k [] = []"
| "delete_first k ((k', v) # l) = (if k = k' then l else (k', v) # delete_first k l)"

definition net__socket_close :: "server \<Rightarrow> client \<Rightarrow> server res" where
  "net__socket_close s c =
    res_bind (the_client s c) (\<lambda>mosq.
      let (s, mosq) = (if mq_sock mosq \<noteq> INVALID_SOCKET
            then (s\<lparr>sv_by_sock := delete_first (mq_sock mosq) (sv_by_sock s)\<rparr>, mosq\<lparr>mq_sock := INVALID_SOCKET\<rparr>)
            else (s, mosq))
      in Ok (sv_put s c (mosq\<lparr>mq_listener := None, mq_mount_point := None, mq_max_topic_alias := None\<rparr>)))"

definition context__remove_from_by_id :: "server \<Rightarrow> client \<Rightarrow> server res" where
  "context__remove_from_by_id s c =
    res_bind (the_client s c) (\<lambda>context.
      case mq_id context of
        Some i \<Rightarrow>
          if \<not> mq_removed_from_by_id context then
            Ok (sv_put (s\<lparr>sv_by_id := delete_first i (sv_by_id s)\<rparr>) c (context\<lparr>mq_removed_from_by_id := True\<rparr>))
          else Ok s
      | None \<Rightarrow> Ok s)"

definition context__add_to_disused :: "server \<Rightarrow> client \<Rightarrow> server res" where
  "context__add_to_disused s c =
    res_bind (the_client s c) (\<lambda>context.
      if mq_state context = mosq_cs_disused then Ok s
      else
        let s = sv_put s c (mosquitto__set_state context mosq_cs_disused) in
        res_bind (if mq_id context \<noteq> None then
            res_bind (context__remove_from_by_id s c) (\<lambda>s. change s c (\<lambda>context. context\<lparr>mq_id := None\<rparr>))
          else Ok s) (\<lambda>s.
        Ok (s\<lparr>sv_for_free := c # sv_for_free s\<rparr>)))"

definition keepalive__remove :: "server \<Rightarrow> client \<Rightarrow> server" where
  "keepalive__remove s c = s"

definition context__disconnect :: "acl_env \<Rightarrow> server \<Rightarrow> client \<Rightarrow> server res" where
  "context__disconnect env s c =
    res_bind (the_client s c) (\<lambda>context.
      if mosquitto__get_state context = mosq_cs_disconnected then Ok s
      else
        res_bind (net__socket_close s c) (\<lambda>s.
        res_bind (context__send_will env s c) (\<lambda>s.
        res_bind (the_client s c) (\<lambda>context.
        res_bind
          (if mq_session_expiry_interval context = 0 then
             (if mq_bridge context = None \<and> mq_will_delay_interval context = 0
              then context__add_to_disused s c else Ok s)
           else res_bind (session_expiry__add s c) (\<lambda>(_, s). Ok s)) (\<lambda>s.
        change (keepalive__remove s c) c (\<lambda>context. mosquitto__set_state context mosq_cs_disconnected))))))"

text \<open>The reason is only logged; \<open>mux__delete\<close> takes the socket out of the poll loop.\<close>

definition do_disconnect :: "acl_env \<Rightarrow> server \<Rightarrow> client \<Rightarrow> rc \<Rightarrow> server res" where
  "do_disconnect env s c reason =
    res_bind (the_client s c) (\<lambda>context.
      if mq_state context = mosq_cs_disconnected then Ok s else context__disconnect env s c)"

section \<open>Freeing clients\<close>

definition context__cleanup :: "acl_env \<Rightarrow> server \<Rightarrow> client \<Rightarrow> bool \<Rightarrow> server res" where
  "context__cleanup env s c force_free =
    res_bind (change s c (\<lambda>context.
      alias__free_all (if force_free then context\<lparr>mq_clean_start := True\<rparr> else context))) (\<lambda>s.
    res_bind (change s c (\<lambda>context.
      context\<lparr>mq_auth_method := None, mq_username := None, mq_password := None\<rparr>)) (\<lambda>s.
    res_bind (net__socket_close s c) (\<lambda>s.
    res_bind (if force_free then on_broker s (\<lambda>b. sub__clean_session b c) else Ok (MOSQ_ERR_SUCCESS, s)) (\<lambda>(_, s).
    res_bind (on_broker s (\<lambda>b. on_client b c (\<lambda>d context. db__messages_delete d context force_free))) (\<lambda>(_, s).
    res_bind (context__send_will env s c) (\<lambda>s.
    res_bind (the_client s c) (\<lambda>context.
    res_bind (if mq_id context \<noteq> None then
        res_bind (context__remove_from_by_id s c) (\<lambda>s. change s c (\<lambda>context. context\<lparr>mq_id := None\<rparr>))
      else Ok s) (\<lambda>s.
    res_bind (change s c packet__cleanup_all) (\<lambda>s.
      if force_free
      then Ok (s\<lparr>sv_broker := (sv_broker s)\<lparr>bk_clients := (bk_clients (sv_broker s))(c := None)\<rparr>\<rparr>)
      else Ok s)))))))))"

fun free_disused_loop :: "acl_env \<Rightarrow> client list \<Rightarrow> server \<Rightarrow> server res" where
  "free_disused_loop env [] s = Ok s"
| "free_disused_loop env (c # cs) s = res_bind (context__cleanup env s c True) (free_disused_loop env cs)"

definition context__free_disused :: "acl_env \<Rightarrow> server \<Rightarrow> server res" where
  "context__free_disused env s = free_disused_loop env (sv_for_free s) (s\<lparr>sv_for_free := []\<rparr>)"

section \<open>The periodic checks\<close>

fun session_expiry_loop :: "acl_env \<Rightarrow> client list \<Rightarrow> server \<Rightarrow> server res" where
  "session_expiry_loop env [] s = Ok s"
| "session_expiry_loop env (c # cs) s =
    res_bind (the_client s c) (\<lambda>context.
      if mq_session_expiry_time context < db_now_real_s (sv_db s) then
        res_bind (session_expiry__remove s c) (\<lambda>s.
        res_bind (change s c (\<lambda>context. context\<lparr>mq_session_expiry_interval := 0, mq_will_delay_interval := 0\<rparr>)) (\<lambda>s.
        res_bind (will_delay__remove s c) (\<lambda>s.
        res_bind (context__send_will env s c) (\<lambda>s.
        res_bind (context__add_to_disused s c) (session_expiry_loop env cs)))))
      else Ok s)"

definition session_expiry__check :: "acl_env \<Rightarrow> server \<Rightarrow> server res" where
  "session_expiry__check env s =
    (let now = db_now_real_s (sv_db s) in
     if now \<le> sv_expiry_check s then Ok s
     else session_expiry_loop env (sv_expiry_list s) (s\<lparr>sv_expiry_check := now\<rparr>))"

fun expiry_remove_loop :: "acl_env \<Rightarrow> client list \<Rightarrow> server \<Rightarrow> server res" where
  "expiry_remove_loop env [] s = Ok s"
| "expiry_remove_loop env (c # cs) s =
    res_bind (session_expiry__remove s c) (\<lambda>s.
    res_bind (change s c (\<lambda>context. context\<lparr>mq_session_expiry_interval := 0, mq_will_delay_interval := 0\<rparr>)) (\<lambda>s.
    res_bind (will_delay__remove s c) (\<lambda>s.
    res_bind (context__disconnect env s c) (expiry_remove_loop env cs))))"

definition session_expiry__remove_all :: "acl_env \<Rightarrow> server \<Rightarrow> server res" where
  "session_expiry__remove_all env s = expiry_remove_loop env (sv_expiry_list s) s"

text \<open>One delayed will: its entry is deleted and the will sent.\<close>

definition will_delay_send :: "acl_env \<Rightarrow> server \<Rightarrow> client \<Rightarrow> server res" where
  "will_delay_send env s c =
    res_bind (change (s\<lparr>sv_delay_list := remove1 c (sv_delay_list s)\<rparr>) c
      (\<lambda>context. context\<lparr>mq_will_delay_interval := 0, mq_will_delay_entry := False\<rparr>)) (\<lambda>s.
    context__send_will env s c)"

fun will_delay_loop :: "acl_env \<Rightarrow> client list \<Rightarrow> server \<Rightarrow> server res" where
  "will_delay_loop env [] s = Ok s"
| "will_delay_loop env (c # cs) s =
    res_bind (the_client s c) (\<lambda>context.
      if mq_will_delay_time context < db_now_real_s (sv_db s) then
        res_bind (will_delay_send env s c) (\<lambda>s.
        res_bind (the_client s c) (\<lambda>context.
        res_bind (if mq_session_expiry_interval context = 0 then context__add_to_disused s c else Ok s)
          (will_delay_loop env cs)))
      else Ok s)"

definition will_delay__check :: "acl_env \<Rightarrow> server \<Rightarrow> server res" where
  "will_delay__check env s =
    (let now = db_now_real_s (sv_db s) in
     if now \<le> sv_delay_check s then Ok s
     else will_delay_loop env (sv_delay_list s) (s\<lparr>sv_delay_check := now\<rparr>))"

fun send_all_loop :: "acl_env \<Rightarrow> client list \<Rightarrow> server \<Rightarrow> server res" where
  "send_all_loop env [] s = Ok s"
| "send_all_loop env (c # cs) s = res_bind (will_delay_send env s c) (send_all_loop env cs)"

definition will_delay__send_all :: "acl_env \<Rightarrow> server \<Rightarrow> server res" where
  "will_delay__send_all env s = send_all_loop env (sv_delay_list s) s"

fun keepalive_loop :: "acl_env \<Rightarrow> client list \<Rightarrow> server \<Rightarrow> server res" where
  "keepalive_loop env [] s = Ok s"
| "keepalive_loop env (c # cs) s =
    res_bind (the_client s c) (\<lambda>context.
    res_bind
      (if mq_sock context \<noteq> INVALID_SOCKET \<and>
          \<not> (mq_keepalive context = 0 \<or> mq_bridge context \<noteq> None \<or>
             db_now_s (sv_db s) - mq_last_msg_in context \<le> uint (mq_keepalive context) * 3 div 2)
       then do_disconnect env s c MOSQ_ERR_KEEPALIVE else Ok s)
      (keepalive_loop env cs))"

definition keepalive__check :: "acl_env \<Rightarrow> server \<Rightarrow> server res" where
  "keepalive__check env s =
    (let now = db_now_s (sv_db s) in
     if sv_keepalive_check s + 5 < now
     then keepalive_loop env (rev (map snd (sv_by_sock s))) (s\<lparr>sv_keepalive_check := now\<rparr>)
     else Ok s)"

end
