(* ===== verification/Session_Lists.thy ===== *)
theory Session_Lists
  imports Sessions Broker_Handlers
begin

text \<open>
  The life of a client, from its disconnection to its memory being freed. Each client is in the list
  of sessions that expire, in the list of delayed wills and in the list of clients to be freed
  exactly when its record says so, in none of them twice, and no list has a client that has been
  freed. The sessions that expire are in the order of their times, and the check expires exactly
  those whose time has come.
\<close>

section \<open>Operations on one client\<close>

text \<open>A list to which only \<open>c\<close> was added, or from which only \<open>c\<close> was removed.\<close>

definition touch :: "client \<Rightarrow> client list \<Rightarrow> client list \<Rightarrow> bool" where
  "touch c l l' \<longleftrightarrow> filter (\<lambda>x. x \<noteq> c) l' = filter (\<lambda>x. x \<noteq> c) l"

lemma touch_refl [simp]: "touch c l l"
  by (simp add: touch_def)

lemma touch_trans: "touch c l l1 \<Longrightarrow> touch c l1 l2 \<Longrightarrow> touch c l l2"
  by (simp add: touch_def)

lemma touch_member: "touch c l l' \<Longrightarrow> c' \<noteq> c \<Longrightarrow> c' \<in> set l' \<longleftrightarrow> c' \<in> set l"
  unfolding touch_def by (drule arg_cong [of _ _ set]) auto

lemma filter_remove1_same: "filter (\<lambda>x. x \<noteq> c) (remove1 c l) = filter (\<lambda>x. x \<noteq> c) l"
  by (induction l) auto

lemma touch_remove1: "touch c l (remove1 c l)"
  by (simp add: touch_def filter_remove1_same)

lemma touch_Cons: "touch c l (c # l)"
  by (simp add: touch_def)

lemma touch_insert: "touch c l (insert_inorder cmp c l)"
proof -
  have "filter (\<lambda>x. x \<noteq> c) l = filter (\<lambda>x. x \<noteq> c) (takeWhile P l) @ filter (\<lambda>x. x \<noteq> c) (dropWhile P l)" for P
    by (metis filter_append takeWhile_dropWhile_id)
  then show ?thesis unfolding touch_def insert_inorder_def by (simp del: takeWhile_dropWhile_id)
qed

lemma insert_inorder_set [simp]: "set (insert_inorder cmp c l) = insert c (set l)"
proof -
  have "set (takeWhile P l) \<union> set (dropWhile P l) = set l" for P
    by (metis set_append takeWhile_dropWhile_id)
  then show ?thesis by (auto simp: insert_inorder_def)
qed

lemma insert_inorder_distinct: "distinct (insert_inorder cmp c l) \<longleftrightarrow> distinct l \<and> c \<notin> set l"
proof -
  have "mset (insert_inorder cmp c l) = mset (c # l)"
    by (simp add: insert_inorder_def) (metis mset_append takeWhile_dropWhile_id)
  then show ?thesis by (metis distinct.simps(2) mset_eq_imp_distinct_iff)
qed

text \<open>The order of the list of sessions.\<close>

definition expiry_time :: "server \<Rightarrow> client \<Rightarrow> int" where
  "expiry_time s c = mq_session_expiry_time (client_of s c)"

definition expiry_sorted :: "server \<Rightarrow> bool" where
  "expiry_sorted s \<longleftrightarrow> sorted (map (expiry_time s) (sv_expiry_list s))"

definition acts :: "client \<Rightarrow> server \<Rightarrow> mosquitto \<Rightarrow> server \<Rightarrow> mosquitto \<Rightarrow> bool" where
  "acts c s m s' m' \<longleftrightarrow> sv_client s c = Some m \<and> sv_client s' c = Some m' \<and>
     (\<forall>c'. c' \<noteq> c \<longrightarrow> map_option session (sv_client s' c') = map_option session (sv_client s c')) \<and>
     (broker_fine (sv_broker s) \<longrightarrow> broker_fine (sv_broker s')) \<and>
     db_now_real_s (sv_db s') = db_now_real_s (sv_db s) \<and>
     touch c (sv_expiry_list s) (sv_expiry_list s') \<and> touch c (sv_delay_list s) (sv_delay_list s') \<and>
     touch c (sv_for_free s) (sv_for_free s') \<and>
     (expiry_sorted s \<longrightarrow> expiry_sorted s')"

lemma acts_trans: "acts c s m s1 m1 \<Longrightarrow> acts c s1 m1' s2 m2 \<Longrightarrow> acts c s m s2 m2 \<and> m1' = m1"
  unfolding acts_def by (auto intro: touch_trans)

lemma session_fields:
  assumes "session m' = session m"
  shows "mq_id m' = mq_id m" "mq_state m' = mq_state m" "mq_sock m' = mq_sock m" "mq_clean_start m' = mq_clean_start m"
    "(mq_bridge m' = None) = (mq_bridge m = None)"
    "mq_will m' = mq_will m" "mq_will_delay_interval m' = mq_will_delay_interval m"
    "mq_will_delay_time m' = mq_will_delay_time m" "mq_will_delay_entry m' = mq_will_delay_entry m"
    "mq_session_expiry_interval m' = mq_session_expiry_interval m"
    "mq_session_expiry_time m' = mq_session_expiry_time m" "mq_expiry_list_item m' = mq_expiry_list_item m"
    "mq_removed_from_by_id m' = mq_removed_from_by_id m"
  using assms by (auto simp: session_def)

lemma client_of_simps: "sv_client s c = Some m \<Longrightarrow> client_of s c = m"
  by (simp add: client_of_def)

lemma sv_put_sel [simp]:
  "sv_client (sv_put s c m) c' = (if c' = c then Some m else sv_client s c')" "sv_db (sv_put s c m) = sv_db s"
  "sv_expiry_list (sv_put s c m) = sv_expiry_list s" "sv_delay_list (sv_put s c m) = sv_delay_list s"
  "sv_for_free (sv_put s c m) = sv_for_free s" "sv_by_id (sv_put s c m) = sv_by_id s"
  by (simp_all add: sv_put_def put_client_def)

lemma expiry_time_cong:
  "map_option session (sv_client s' c) = map_option session (sv_client s c) \<Longrightarrow> expiry_time s' c = expiry_time s c"
  by (cases "sv_client s c"; cases "sv_client s' c") (auto simp: expiry_time_def client_of_def session_def)

lemma put_client_session_fine:
  assumes "broker_fine b" "bk_clients b c = Some m" "mq_msgs_out m' = mq_msgs_out m" "mq_msgs_in m' = mq_msgs_in m"
    and "mq_mount_point m' = mq_mount_point m \<or> mq_mount_point m' = None"
  shows "broker_fine (put_client b c m')"
proof -
  let ?m = "m'\<lparr>mq_mount_point := mq_mount_point m\<rparr>"
  have "client_effect (bk_db b) m (bk_db b) ?m" by (rule client_effect_moved) (simp_all add: assms)
  then have f: "broker_fine (put_client b c ?m)" by (rule put_client_same_fine [OF assms(1,2)])
  have "client_effect (bk_db b) ?m (bk_db b) m'"
    unfolding client_effect_def
  proof (intro allI impI, elim conjE)
    fix X cs c'
    assume ok: "send_ok X (bk_db b) cs" and m: "cs c' = Some ?m"
    note okD = send_okD [OF ok]
    have "refs m' = refs ?m" by (simp add: refs_def fun_eq_iff)
    then have "all_refs (cs(c' \<mapsto> m')) p = all_refs cs p" for p
      using all_refs_update [OF okD(1) m, of m' p] by simp
    moreover have "client_fine (bk_db b) m'"
      using okD(4) [OF m] assms(5) by (auto simp: client_fine_def mount_ok_def)
    ultimately show "send_ok X (bk_db b) (cs(c' \<mapsto> m'))"
      using okD by (auto simp: send_ok_def)
  qed
  with put_client_same_fine [OF f, of c ?m m'] show ?thesis by (simp add: put_client_def)
qed

lemma sorted_remove1_map: "sorted (map f l) \<Longrightarrow> sorted (map f (remove1 c l))"
proof (induction l)
  case (Cons a l)
  then show ?case using set_remove1_subset [of c l] by auto
qed simp

lemma acts_put:
  assumes m: "sv_client s c = Some m" and keep: "mq_msgs_out m' = mq_msgs_out m" "mq_msgs_in m' = mq_msgs_in m"
      "mq_mount_point m' = mq_mount_point m \<or> mq_mount_point m' = None"
      "mq_session_expiry_time m' = mq_session_expiry_time m"
    and s1: "sv_broker s1 = sv_broker s"
      "sv_expiry_list s1 = sv_expiry_list s \<or> sv_expiry_list s1 = remove1 c (sv_expiry_list s)"
      "touch c (sv_delay_list s) (sv_delay_list s1)" "touch c (sv_for_free s) (sv_for_free s1)"
  shows "acts c s m (sv_put s1 c m') m'"
proof -
  have time: "expiry_time (sv_put s1 c m') = expiry_time s"
    using m keep(4) s1(1) by (auto simp: fun_eq_iff expiry_time_def client_of_def)
  have "broker_fine (sv_broker s) \<Longrightarrow> broker_fine (sv_broker (sv_put s1 c m'))"
    using put_client_session_fine [OF _ m keep(1-3)] s1(1) by (simp add: sv_put_def)
  then show ?thesis
    using m s1 sorted_remove1_map [of "expiry_time s"] touch_remove1
    by (auto simp: acts_def expiry_sorted_def time)
qed

text \<open>The operations that only change the record of the client and its place in the lists.\<close>

lemma the_client_Ok: "the_client s c = Ok m \<longleftrightarrow> sv_client s c = Some m"
  by (simp add: the_client_def split: option.split)

lemma change_Ok: "change s c f = Ok s' \<longleftrightarrow> (\<exists>m. sv_client s c = Some m \<and> s' = sv_put s c (f m))"
  by (auto simp: change_def res_bind_Ok_iff the_client_Ok)

lemma acts_change:
  assumes "change s c f = Ok s'"
    and "\<And>m. mq_msgs_out (f m) = mq_msgs_out m \<and> mq_msgs_in (f m) = mq_msgs_in m \<and>
      (mq_mount_point (f m) = mq_mount_point m \<or> mq_mount_point (f m) = None) \<and>
      mq_session_expiry_time (f m) = mq_session_expiry_time m"
  obtains m where "acts c s m s' (f m)" "s' = sv_put s c (f m)"
proof -
  obtain m where m: "sv_client s c = Some m" "s' = sv_put s c (f m)" using assms(1) by (auto simp: change_Ok)
  show thesis by (rule that [OF _ m(2)], unfold m(2), rule acts_put [OF m(1)]) (simp_all add: assms(2))
qed

lemma acts_session_remove:
  assumes "session_expiry__remove s c = Ok s'"
  obtains m where "acts c s m s' (m\<lparr>mq_expiry_list_item := False\<rparr>)"
    "sv_expiry_list s' = (if mq_expiry_list_item m then remove1 c (sv_expiry_list s) else sv_expiry_list s)"
    "sv_delay_list s' = sv_delay_list s" "sv_for_free s' = sv_for_free s"
proof -
  from assms obtain m where m: "sv_client s c = Some m" and s': "s' = (if mq_expiry_list_item m then
      sv_put (s\<lparr>sv_expiry_list := remove1 c (sv_expiry_list s)\<rparr>) c (m\<lparr>mq_expiry_list_item := False\<rparr>) else s)"
    by (auto simp: session_expiry__remove_def res_bind_Ok_iff the_client_Ok split: if_splits)
  show thesis
  proof (cases "mq_expiry_list_item m")
    case True
    then show thesis using s' acts_put [OF m, of "m\<lparr>mq_expiry_list_item := False\<rparr>" "s\<lparr>sv_expiry_list := remove1 c (sv_expiry_list s)\<rparr>"]
      by (intro that [of m]) auto
  next
    case False
    then have same: "m\<lparr>mq_expiry_list_item := False\<rparr> = m" by (cases m) simp
    have "acts c s m s (m\<lparr>mq_expiry_list_item := False\<rparr>)" unfolding same using m by (simp add: acts_def)
    then show thesis using s' False by (intro that [of m]) auto
  qed
qed

lemma acts_delay_remove:
  assumes "will_delay__remove s c = Ok s'"
  obtains m where "acts c s m s' (m\<lparr>mq_will_delay_entry := False\<rparr>)"
    "sv_delay_list s' = (if mq_will_delay_entry m then remove1 c (sv_delay_list s) else sv_delay_list s)"
    "sv_expiry_list s' = sv_expiry_list s" "sv_for_free s' = sv_for_free s"
proof -
  from assms obtain m where m: "sv_client s c = Some m" and s': "s' = (if mq_will_delay_entry m then
      sv_put (s\<lparr>sv_delay_list := remove1 c (sv_delay_list s)\<rparr>) c (m\<lparr>mq_will_delay_entry := False\<rparr>) else s)"
    by (auto simp: will_delay__remove_def res_bind_Ok_iff the_client_Ok split: if_splits)
  show thesis
  proof (cases "mq_will_delay_entry m")
    case True
    then show thesis
      using s' acts_put [OF m, of "m\<lparr>mq_will_delay_entry := False\<rparr>" "s\<lparr>sv_delay_list := remove1 c (sv_delay_list s)\<rparr>"] touch_remove1
      by (intro that [of m]) auto
  next
    case False
    then have same: "m\<lparr>mq_will_delay_entry := False\<rparr> = m" by (cases m) simp
    have "acts c s m s (m\<lparr>mq_will_delay_entry := False\<rparr>)" unfolding same using m by (simp add: acts_def)
    then show thesis using s' False by (intro that [of m]) auto
  qed
qed

lemma acts_delay_add:
  assumes "will_delay__add s c = Ok (rc, s')"
  obtains m m' where "acts c s m s' m'" "mq_will_delay_entry m'"
    "session (m'\<lparr>mq_will_delay_entry := False, mq_will_delay_time := 0\<rparr>) =
     session (m\<lparr>mq_will_delay_entry := False, mq_will_delay_time := 0\<rparr>)"
    "if mq_will_delay_entry m then sv_delay_list s' = sv_delay_list s
     else \<exists>cmp. sv_delay_list s' = insert_inorder cmp c (sv_delay_list s)"
    "sv_expiry_list s' = sv_expiry_list s" "sv_for_free s' = sv_for_free s"
proof -
  obtain m where m: "sv_client s c = Some m"
    using assms by (auto simp: will_delay__add_def res_bind_Ok_iff the_client_Ok)
  show thesis
  proof (cases "mq_will_delay_entry m")
    case True
    have "acts c s m s m" using m by (simp add: acts_def)
    then show thesis using assms m True
      by (intro that [of m m]) (auto simp: will_delay__add_def res_bind_Ok_iff the_client_Ok)
  next
    case False
    let ?m = "m\<lparr>mq_will_delay_entry := True,
                  mq_will_delay_time := db_now_real_s (sv_db s) + uint (mq_will_delay_interval m)\<rparr>"
    let ?s = "s\<lparr>sv_delay_list := insert_inorder (will_delay__cmp (sv_put s c ?m)) c (sv_delay_list s)\<rparr>"
    have s': "s' = sv_put ?s c ?m"
      using assms m False
      by (auto simp: will_delay__add_def res_bind_Ok_iff the_client_Ok Let_def sv_put_def split: if_splits)
    have "acts c s m s' ?m" unfolding s' using m by (intro acts_put) (simp_all add: touch_insert)
    then show thesis using False by (intro that [of m ?m]) (auto simp: s' session_def)
  qed
qed

text \<open>A session is added to the list behind those that expire before it.\<close>

lemma insert_inorder_sorted:
  fixes f :: "'a \<Rightarrow> int"
  assumes "sorted (map f l)" and "\<And>x. cmp x c < 0 \<longleftrightarrow> f x < f c"
  shows "sorted (map f (insert_inorder cmp c l))"
proof -
  have "sorted (map f (takeWhile (\<lambda>x. f x < f c) l @ c # dropWhile (\<lambda>x. f x < f c) l))"
    using assms(1)
  proof (induction l)
    case (Cons a l)
    then show ?case
    proof (cases "f a < f c")
      case True
      have sub: "set (takeWhile (\<lambda>x. f x < f c) l) \<union> set (dropWhile (\<lambda>x. f x < f c) l) = set l"
        by (metis set_append takeWhile_dropWhile_id)
      then show ?thesis using Cons True by (auto simp del: sorted_wrt.simps simp: sorted_simps)
    qed auto
  qed simp
  then show ?thesis by (simp add: insert_inorder_def assms(2))
qed

lemma acts_session_add:
  assumes "session_expiry__add s c = Ok (rc, s')" and "\<And>m. sv_client s c = Some m \<Longrightarrow> c \<notin> set (sv_expiry_list s)"
  obtains m m' where "acts c s m s' m'"
    "session (m'\<lparr>mq_expiry_list_item := False, mq_session_expiry_time := 0\<rparr>) =
     session (m\<lparr>mq_expiry_list_item := False, mq_session_expiry_time := 0\<rparr>)"
    "(mq_expiry_list_item m' \<and> (\<exists>cmp. sv_expiry_list s' = insert_inorder cmp c (sv_expiry_list s))) \<or> m' = m \<and> s' = s"
    "sv_delay_list s' = sv_delay_list s" "sv_for_free s' = sv_for_free s"
proof -
  obtain m where m: "sv_client s c = Some m"
    using assms by (auto simp: session_expiry__add_def res_bind_Ok_iff the_client_Ok)
  show thesis
  proof (cases "s' = s")
    case True
    have "acts c s m s m" using m by (simp add: acts_def)
    then show thesis using True by (intro that [of m m]) auto
  next
    case False
    define t where "t = db_now_real_s (sv_db s) + (let global = cf_persistent_client_expiration (db_config (sv_db s));
        interval = uint (mq_session_expiry_interval m) in if global = 0 then interval else if global < interval then global else interval)"
    let ?m = "m\<lparr>mq_session_expiry_time := t, mq_expiry_list_item := True\<rparr>"
    let ?cmp = "session_expiry__cmp (sv_put s c ?m)"
    let ?s = "s\<lparr>sv_expiry_list := insert_inorder ?cmp c (sv_expiry_list s)\<rparr>"
    have s': "s' = sv_put ?s c ?m"
      using assms(1) m False
      by (auto simp: session_expiry__add_def res_bind_Ok_iff the_client_Ok Let_def sv_put_def t_def split: if_splits)
    have l: "sv_expiry_list s' = insert_inorder ?cmp c (sv_expiry_list s)" by (simp add: s')
    have time: "expiry_time s' x = (if x = c then t else expiry_time s x)" for x
      by (simp add: s' expiry_time_def client_of_def)
    have "sorted (map (expiry_time s') (sv_expiry_list s'))" if "expiry_sorted s"
      unfolding l
    proof (rule insert_inorder_sorted)
      have "map (expiry_time s') (sv_expiry_list s) = map (expiry_time s) (sv_expiry_list s)"
        using assms(2) [OF m] by (intro map_cong refl) (auto simp: time)
      then show "sorted (map (expiry_time s') (sv_expiry_list s))" using that by (simp only: expiry_sorted_def)
      show "?cmp x c < 0 \<longleftrightarrow> expiry_time s' x < expiry_time s' c" for x
        by (simp add: session_expiry__cmp_def Let_def s' expiry_time_def client_of_def)
    qed
    then have "acts c s m s' ?m"
      using m put_client_session_fine [OF _ m, of ?m]
      by (auto simp: acts_def expiry_sorted_def s' sv_put_def touch_insert put_client_def)
    then show thesis by (intro that [of m ?m]) (auto simp: s' session_def)
  qed
qed

lemma socket_close_acts:
  assumes "net__socket_close s c = Ok s'"
  obtains m m' where "acts c s m s' m'" "session (m'\<lparr>mq_sock := 0\<rparr>) = session (m\<lparr>mq_sock := 0\<rparr>)"
    "sv_expiry_list s' = sv_expiry_list s" "sv_delay_list s' = sv_delay_list s" "sv_for_free s' = sv_for_free s"
proof -
  obtain m where m: "sv_client s c = Some m"
    using assms by (auto simp: net__socket_close_def res_bind_Ok_iff the_client_Ok)
  define s1 where "s1 = (if mq_sock m \<noteq> INVALID_SOCKET then s\<lparr>sv_by_sock := delete_first (mq_sock m) (sv_by_sock s)\<rparr> else s)"
  define m1 where "m1 = (if mq_sock m \<noteq> INVALID_SOCKET then m\<lparr>mq_sock := INVALID_SOCKET\<rparr> else m)
    \<lparr>mq_listener := None, mq_mount_point := None, mq_max_topic_alias := None\<rparr>"
  have s': "s' = sv_put s1 c m1"
    using assms m by (auto simp: net__socket_close_def res_bind_Ok_iff the_client_Ok s1_def m1_def split: if_splits)
  have "acts c s m s' m1" unfolding s' by (rule acts_put [OF m]) (simp_all add: m1_def s1_def)
  then show thesis by (intro that [of m m1]) (auto simp: s' s1_def m1_def session_def)
qed

definition will_fine :: "mosquitto \<Rightarrow> bool" where
  "will_fine m \<longleftrightarrow> (\<forall>w. mq_will m = Some w \<longrightarrow> wm_qos w \<le> 2)"

lemma will__clear_fields [simp]:
  "mq_msgs_out (will__clear m) = mq_msgs_out m" "mq_msgs_in (will__clear m) = mq_msgs_in m"
  "mq_mount_point (will__clear m) = mq_mount_point m" "mq_session_expiry_time (will__clear m) = mq_session_expiry_time m"
  "mq_will (will__clear m) = None" "mq_state (will__clear m) = mq_state m" "mq_bridge (will__clear m) = mq_bridge m"
  "mq_will_delay_entry (will__clear m) = mq_will_delay_entry m" "mq_expiry_list_item (will__clear m) = mq_expiry_list_item m"
  "mq_session_expiry_interval (will__clear m) = mq_session_expiry_interval m" "mq_id (will__clear m) = mq_id m"
  "mq_will_delay_interval (will__clear m) = (if mq_will m = None then mq_will_delay_interval m else 0)"
  "mq_removed_from_by_id (will__clear m) = mq_removed_from_by_id m" "mq_sock (will__clear m) = mq_sock m"
  by (simp_all add: will__clear_def)

lemma session_will__clear: "session m' = session m \<Longrightarrow> session (will__clear m') = session (will__clear m)"
  by (auto simp: session_def will__clear_def)

lemma easy_queue_same:
  assumes "db__messages_easy_queue env b context topic qos payloadlen payload retain expiry properties = Ok (rc, b')"
    and "broker_fine b" "qos \<le> 2"
  shows "broker_fine b' \<and> same_in (bk_clients b) (bk_clients b') \<and> db_now_real_s (bk_db b') = db_now_real_s (bk_db b)"
proof (cases topic)
  case None
  then show ?thesis using assms by (simp add: db__messages_easy_queue_def)
next
  case (Some t)
  define stored where "stored = msg_store_zero\<lparr>ms_topic := Some t, ms_qos := qos,
    ms_retain := (if cf_retain_available (db_config (bk_db b)) then retain else False),
    ms_payloadlen := payloadlen, ms_payload := take (unat payloadlen) payload, ms_properties := properties\<rparr>"
  obtain p d where st: "db__message_store (bk_db b) context stored expiry 0
      (if context = None then mosq_mo_broker else mosq_mo_client) = (p, d)" by fastforce
  obtain source where q: "sub__messages_queue env (b\<lparr>bk_db := d\<rparr>) (Some source) t qos (ms_retain stored) p = Ok (rc, b')"
    using assms(1) st unfolding db__messages_easy_queue_def Some option.case stored_def [symmetric]
    by (auto simp: Let_def split: if_splits)
  have "broker_fine (b\<lparr>bk_db := d\<rparr>)"
    by (rule store_fine [OF assms(2) st]) (simp add: stored_def msg_store_zero_def)
  moreover have "db_now_real_s d = db_now_real_s (bk_db b)" using message_store_fields [OF st] by metis
  ultimately show ?thesis using sub__messages_queue_keeps [OF q _ assms(3)] by simp
qed

lemma same_in_acts:
  assumes "sv_client s c = Some m" "same_in (bk_clients (sv_broker s)) (bk_clients b')"
    and "broker_fine b'" "db_now_real_s (bk_db b') = db_now_real_s (sv_db s)"
  obtains m' where "acts c s m (s\<lparr>sv_broker := b'\<rparr>) m'" "session m' = session m"
proof -
  let ?s = "s\<lparr>sv_broker := b'\<rparr>"
  obtain m' where m': "sv_client ?s c = Some m'" "session m' = session m" using same_inD [OF assms(2,1)] by auto
  have all: "map_option session (sv_client ?s c') = map_option session (sv_client s c')" for c'
    using assms(2) by (cases "sv_client s c'"; cases "bk_clients b' c'") (auto simp: same_in_def dest: spec [of _ c'])
  have "expiry_time ?s = expiry_time s" using expiry_time_cong [OF all] by (simp add: fun_eq_iff)
  then have "acts c s m ?s m'" using assms m' all by (simp add: acts_def expiry_sorted_def)
  then show thesis using that m'(2) by blast
qed

text \<open>
  A will is put off, or it is sent if it may be, and forgotten.
\<close>

lemma send_will_acts:
  assumes "context__send_will env s c = Ok s'" "broker_fine (sv_broker s)" "\<And>m. sv_client s c = Some m \<Longrightarrow> will_fine m"
  obtains (later) m m' where "acts c s m s' m'" "mq_state m \<noteq> mosq_cs_disconnecting" "mq_will m \<noteq> None"
      "0 < mq_will_delay_interval m" "mq_will_delay_entry m'"
      "session (m'\<lparr>mq_will_delay_entry := False, mq_will_delay_time := 0\<rparr>) =
       session (m\<lparr>mq_will_delay_entry := False, mq_will_delay_time := 0\<rparr>)"
      "if mq_will_delay_entry m then sv_delay_list s' = sv_delay_list s
       else \<exists>cmp. sv_delay_list s' = insert_inorder cmp c (sv_delay_list s)"
      "sv_expiry_list s' = sv_expiry_list s" "sv_for_free s' = sv_for_free s"
    | (now) m m' where "acts c s m s' m'" "session m' = session (will__clear m)"
      "mq_will_delay_interval m = 0 \<or> mq_state m = mosq_cs_disconnecting \<or> mq_will m = None"
      "sv_delay_list s' = sv_delay_list s" "sv_expiry_list s' = sv_expiry_list s" "sv_for_free s' = sv_for_free s"
proof -
  obtain m where m: "sv_client s c = Some m"
    using assms(1) by (auto simp: context__send_will_def res_bind_Ok_iff the_client_Ok)
  have clear: thesis if ch: "change s1 c will__clear = Ok s'" and a1: "acts c s m s1 m1" "session m1 = session m"
      and l: "sv_delay_list s1 = sv_delay_list s" "sv_expiry_list s1 = sv_expiry_list s" "sv_for_free s1 = sv_for_free s"
      and c: "mq_will_delay_interval m = 0 \<or> mq_state m = mosq_cs_disconnecting \<or> mq_will m = None" for s1 m1
  proof (rule acts_change [OF ch])
    fix m2 assume a2: "acts c s1 m2 s' (will__clear m2)" and s': "s' = sv_put s1 c (will__clear m2)"
    have a: "acts c s m s' (will__clear m2)" and "m2 = m1" using acts_trans [OF a1(1) a2] by auto
    then have "session (will__clear m2) = session (will__clear m)" using session_will__clear [OF a1(2)] by simp
    then show thesis using a c l s' by (intro now [of m "will__clear m2"]) simp_all
  qed simp
  show thesis
  proof (cases "if mq_state m \<noteq> mosq_cs_disconnecting then mq_will m else None")
    case None
    have "acts c s m s m" using m by (simp add: acts_def)
    moreover have "change s c will__clear = Ok s'" using assms(1) m None
      by (simp add: context__send_will_def the_client_def)
    ultimately show thesis using None by (intro clear) (auto split: if_splits)
  next
    case (Some w)
    then have w: "mq_state m \<noteq> mosq_cs_disconnecting" "mq_will m = Some w" by (auto split: if_splits)
    show thesis
    proof (cases "mq_will_delay_interval m > 0")
      case True
      then obtain rc where "will_delay__add s c = Ok (rc, s')"
        using assms(1) m w by (auto simp: context__send_will_def the_client_def res_bind_Ok_iff)
      then show thesis
      proof (rule acts_delay_add)
        fix m1 m' assume a: "acts c s m1 s' m'"
        then have "m1 = m" using m by (simp add: acts_def)
        moreover assume "mq_will_delay_entry m'" "session (m'\<lparr>mq_will_delay_entry := False, mq_will_delay_time := 0\<rparr>) =
            session (m1\<lparr>mq_will_delay_entry := False, mq_will_delay_time := 0\<rparr>)"
          "if mq_will_delay_entry m1 then sv_delay_list s' = sv_delay_list s
           else \<exists>cmp. sv_delay_list s' = insert_inorder cmp c (sv_delay_list s)"
          "sv_expiry_list s' = sv_expiry_list s" "sv_for_free s' = sv_for_free s"
        ultimately show thesis using a w True by (intro later [of m m']) simp_all
      qed
    next
      case False
      have q: "wm_qos w \<le> 2" using assms(3) [OF m] w by (simp add: will_fine_def)
      obtain s1 rc where s1: "s1 = s \<or> (\<exists>b'. s1 = s\<lparr>sv_broker := b'\<rparr> \<and> db__messages_easy_queue env (sv_broker s) (Some m) (wm_topic w) (wm_qos w)
            (word_of_int (wm_payloadlen w)) (wm_payload w) (wm_retain w) (wm_expiry_interval w) (wm_properties w) = Ok (rc, b'))"
        and ch: "change s1 c will__clear = Ok s'"
        using assms(1) m w False
        by (auto simp: context__send_will_def the_client_def res_bind_Ok_iff Let_def on_broker_def
            split: option.splits if_splits)
      have d: "mq_will_delay_interval m = 0" using False by (simp add: word_gt_0)
      show thesis
      proof (cases "s1 = s")
        case True
        have "acts c s m s m" using m by (simp add: acts_def)
        then show thesis using ch d True by (intro clear) simp_all
      next
        case ne: False
        then obtain b' where b': "s1 = s\<lparr>sv_broker := b'\<rparr>" "db__messages_easy_queue env (sv_broker s) (Some m) (wm_topic w) (wm_qos w)
            (word_of_int (wm_payloadlen w)) (wm_payload w) (wm_retain w) (wm_expiry_interval w) (wm_properties w) = Ok (rc, b')"
          using s1 by blast
        from easy_queue_same [OF b'(2) assms(2) q] same_in_acts [OF m]
        obtain m1 where "acts c s m s1 m1" "session m1 = session m" unfolding b'(1) by metis
        then show thesis using ch d b'(1) by (intro clear [of s1 m1]) simp_all
      qed
    qed
  qed
qed

text \<open>A client is put aside to be freed.\<close>

lemma remove_from_by_id_acts:
  assumes "context__remove_from_by_id s c = Ok s'"
  obtains m m' where "acts c s m s' m'" "session (m'\<lparr>mq_removed_from_by_id := False\<rparr>) = session (m\<lparr>mq_removed_from_by_id := False\<rparr>)"
    "sv_delay_list s' = sv_delay_list s" "sv_expiry_list s' = sv_expiry_list s" "sv_for_free s' = sv_for_free s"
proof -
  obtain m where m: "sv_client s c = Some m"
    using assms by (auto simp: context__remove_from_by_id_def res_bind_Ok_iff the_client_Ok)
  consider "s' = s" | i where "s' = sv_put (s\<lparr>sv_by_id := delete_first i (sv_by_id s)\<rparr>) c (m\<lparr>mq_removed_from_by_id := True\<rparr>)"
    using assms m by (auto simp: context__remove_from_by_id_def the_client_def split: option.splits if_splits)
  then show thesis
  proof cases
    case 1
    have "acts c s m s m" using m by (simp add: acts_def)
    then show thesis using 1 by (intro that) simp_all
  next
    case (2 i)
    have "acts c s m s' (m\<lparr>mq_removed_from_by_id := True\<rparr>)" unfolding 2 by (rule acts_put [OF m]) simp_all
    then show thesis using 2 by (intro that [of m "m\<lparr>mq_removed_from_by_id := True\<rparr>"]) (simp_all add: session_def)
  qed
qed

lemma forget_id_acts:
  assumes "(if mq_id x \<noteq> None then res_bind (context__remove_from_by_id s c) (\<lambda>s. change s c (\<lambda>context. context\<lparr>mq_id := None\<rparr>))
    else Ok s) = Ok s'" "sv_client s c = Some m"
  obtains m' where "acts c s m s' m'"
    "session (m'\<lparr>mq_removed_from_by_id := False, mq_id := None\<rparr>) = session (m\<lparr>mq_removed_from_by_id := False, mq_id := None\<rparr>)"
    "sv_delay_list s' = sv_delay_list s" "sv_expiry_list s' = sv_expiry_list s" "sv_for_free s' = sv_for_free s"
proof (cases "mq_id x = None")
  case True
  have "acts c s m s m" using assms(2) by (simp add: acts_def)
  then show thesis using assms True by (intro that) simp_all
next
  case False
  then obtain s1 where s1: "context__remove_from_by_id s c = Ok s1" "change s1 c (\<lambda>context. context\<lparr>mq_id := None\<rparr>) = Ok s'"
    using assms(1) by (auto simp: res_bind_Ok_iff)
  from s1(1) show thesis
  proof (rule remove_from_by_id_acts)
    fix m0 m1
    assume a1: "acts c s m0 s1 m1" "session (m1\<lparr>mq_removed_from_by_id := False\<rparr>) = session (m0\<lparr>mq_removed_from_by_id := False\<rparr>)"
      "sv_delay_list s1 = sv_delay_list s" "sv_expiry_list s1 = sv_expiry_list s" "sv_for_free s1 = sv_for_free s"
    have m0: "m0 = m" using a1(1) assms(2) by (simp add: acts_def)
    from s1(2) show thesis
    proof (rule acts_change)
      fix m2 assume a2: "acts c s1 m2 s' (m2\<lparr>mq_id := None\<rparr>)" and s': "s' = sv_put s1 c (m2\<lparr>mq_id := None\<rparr>)"
      have "acts c s m s' (m2\<lparr>mq_id := None\<rparr>)" "m2 = m1" using acts_trans [OF a1(1) a2] m0 by auto
      then show thesis using a1(2-) m0 s' by (intro that [of "m2\<lparr>mq_id := None\<rparr>"]) (auto simp: session_def)
    qed simp
  qed
qed

lemma expiry_sorted_for_free [simp]: "expiry_sorted (s\<lparr>sv_for_free := l\<rparr>) = expiry_sorted s"
  by (simp add: expiry_sorted_def expiry_time_def [abs_def] client_of_def)

lemma add_to_disused_acts:
  assumes "context__add_to_disused s c = Ok s'" "sv_client s c = Some m"
  obtains m' where "acts c s m s' m'"
    "session (m'\<lparr>mq_removed_from_by_id := False, mq_id := None\<rparr>) =
     session (m\<lparr>mq_removed_from_by_id := False, mq_id := None, mq_state := mosq_cs_disused\<rparr>)"
    "sv_for_free s' = (if mq_state m = mosq_cs_disused then sv_for_free s else c # sv_for_free s)"
    "sv_delay_list s' = sv_delay_list s" "sv_expiry_list s' = sv_expiry_list s"
proof (cases "mq_state m = mosq_cs_disused")
  case True
  have "acts c s m s m" using assms(2) by (simp add: acts_def)
  then show thesis using assms True
    by (intro that [of m]) (auto simp: context__add_to_disused_def the_client_def session_def)
next
  case False
  let ?m = "m\<lparr>mq_state := mosq_cs_disused\<rparr>" and ?s = "sv_put s c (m\<lparr>mq_state := mosq_cs_disused\<rparr>)"
  obtain s1 where s1: "(if mq_id m \<noteq> None then res_bind (context__remove_from_by_id ?s c) (\<lambda>s. change s c (\<lambda>context. context\<lparr>mq_id := None\<rparr>))
    else Ok ?s) = Ok s1" "s' = s1\<lparr>sv_for_free := c # sv_for_free s1\<rparr>"
    using assms False by (auto simp: context__add_to_disused_def the_client_def Let_def res_bind_Ok_iff mosquitto__set_state_def)
  have a0: "acts c s m ?s ?m" by (rule acts_put [OF assms(2)]) simp_all
  have "sv_client ?s c = Some ?m" by simp
  with s1(1) show thesis
  proof (rule forget_id_acts)
    fix m' assume a1: "acts c ?s ?m s1 m'"
      and m': "session (m'\<lparr>mq_removed_from_by_id := False, mq_id := None\<rparr>) = session (?m\<lparr>mq_removed_from_by_id := False, mq_id := None\<rparr>)"
      and l: "sv_delay_list s1 = sv_delay_list ?s" "sv_expiry_list s1 = sv_expiry_list ?s" "sv_for_free s1 = sv_for_free ?s"
    have "acts c s m s1 m'" using acts_trans [OF a0 a1] by simp
    moreover have "acts c s1 m' s' m'" using a1 touch_Cons by (simp add: acts_def s1(2) expiry_sorted_for_free)
    ultimately have "acts c s m s' m'" using acts_trans by blast
    then show thesis using m' l False by (intro that [of m']) (auto simp: s1(2) session_def)
  qed
qed

section \<open>The lists agree with the clients\<close>

text \<open>
  What the fields of a client say of its place in the lists. A client that is to be freed has given
  up its session and its will, so that nothing can put it into the other two lists any more.
\<close>

definition life_rules :: "mosquitto \<Rightarrow> bool" where
  "life_rules m \<longleftrightarrow>
    (mq_expiry_list_item m \<longrightarrow> mq_state m = mosq_cs_disconnected \<and> mq_session_expiry_interval m \<noteq> 0) \<and>
    (mq_will_delay_entry m \<longrightarrow> mq_state m = mosq_cs_disconnected) \<and>
    (mq_state m = mosq_cs_disused \<longrightarrow> mq_session_expiry_interval m = 0 \<and> mq_will_delay_interval m = 0) \<and>
    will_fine m"

definition on_lists :: "server \<Rightarrow> client \<Rightarrow> mosquitto \<Rightarrow> bool" where
  "on_lists s c m \<longleftrightarrow>
    count_list (sv_expiry_list s) c = of_bool (mq_expiry_list_item m) \<and>
    count_list (sv_delay_list s) c = of_bool (mq_will_delay_entry m) \<and>
    count_list (sv_for_free s) c = of_bool (mq_state m = mosq_cs_disused)"

lemma on_lists_member:
  assumes "on_lists s c m"
  shows "(c \<in> set (sv_expiry_list s)) = mq_expiry_list_item m" "(c \<in> set (sv_delay_list s)) = mq_will_delay_entry m"
    "(c \<in> set (sv_for_free s)) = (mq_state m = mosq_cs_disused)"
  using assms count_list_0_iff [of "sv_expiry_list s" c] count_list_0_iff [of "sv_delay_list s" c]
    count_list_0_iff [of "sv_for_free s" c]
  by (auto simp: on_lists_def of_bool_def split: if_splits)

definition life_ok :: "server \<Rightarrow> bool" where
  "life_ok s \<longleftrightarrow> broker_fine (sv_broker s) \<and> expiry_sorted s \<and>
    (\<forall>c. case sv_client s c of
       None \<Rightarrow> c \<notin> set (sv_expiry_list s) \<union> set (sv_delay_list s) \<union> set (sv_for_free s)
     | Some m \<Rightarrow> on_lists s c m \<and> life_rules m)"

lemma life_okD:
  assumes "life_ok s"
  shows "broker_fine (sv_broker s)" "expiry_sorted s"
    and "sv_client s c = Some m \<Longrightarrow> on_lists s c m" "sv_client s c = Some m \<Longrightarrow> life_rules m"
    and "sv_client s c = Some m \<Longrightarrow> will_fine m"
    and "sv_client s c = None \<Longrightarrow> c \<notin> set (sv_expiry_list s) \<and> c \<notin> set (sv_delay_list s) \<and> c \<notin> set (sv_for_free s)"
proof -
  show "broker_fine (sv_broker s)" "expiry_sorted s" using assms by (simp_all add: life_ok_def)
  have c: "case sv_client s c of
       None \<Rightarrow> c \<notin> set (sv_expiry_list s) \<union> set (sv_delay_list s) \<union> set (sv_for_free s)
     | Some m \<Rightarrow> on_lists s c m \<and> life_rules m" using assms by (simp add: life_ok_def)
  show "sv_client s c = Some m \<Longrightarrow> on_lists s c m" "sv_client s c = Some m \<Longrightarrow> life_rules m"
    "sv_client s c = None \<Longrightarrow> c \<notin> set (sv_expiry_list s) \<and> c \<notin> set (sv_delay_list s) \<and> c \<notin> set (sv_for_free s)"
    using c by simp_all
  then show "sv_client s c = Some m \<Longrightarrow> will_fine m" by (simp add: life_rules_def)
qed

lemma touch_count: "touch c l l' \<Longrightarrow> c' \<noteq> c \<Longrightarrow> count_list l' c' = count_list l c'"
proof -
  have "count_list (filter (\<lambda>x. x \<noteq> c) xs) c' = count_list xs c'" if "c' \<noteq> c" for xs
    using that by (induction xs) auto
  then show "touch c l l' \<Longrightarrow> c' \<noteq> c \<Longrightarrow> count_list l' c' = count_list l c'" unfolding touch_def by metis
qed

lemma count_remove1: "count_list (remove1 c l) c = count_list l c - 1"
  by (induction l) auto

lemma count_insert: "count_list (insert_inorder cmp c l) c = Suc (count_list l c)"
proof -
  have "mset (insert_inorder cmp c l) = mset (c # l)"
    by (simp add: insert_inorder_def) (metis mset_append takeWhile_dropWhile_id)
  then have "count (mset (insert_inorder cmp c l)) c = count (mset (c # l)) c" by simp
  then show ?thesis by (simp add: count_mset)
qed

text \<open>An operation on one client has to be looked at for that client alone.\<close>

lemma life_acts:
  assumes "acts c s m s' m'" "life_ok s" and me: "on_lists s' c m'" "life_rules m'"
  shows "life_ok s'"
proof -
  have *: "case sv_client s' c' of
       None \<Rightarrow> c' \<notin> set (sv_expiry_list s') \<union> set (sv_delay_list s') \<union> set (sv_for_free s')
     | Some m \<Rightarrow> on_lists s' c' m \<and> life_rules m" for c'
  proof (cases "c' = c")
    case True
    then show ?thesis using assms by (simp add: acts_def)
  next
    case False
    have same: "map_option session (sv_client s' c') = map_option session (sv_client s c')"
      and t: "touch c (sv_expiry_list s) (sv_expiry_list s')" "touch c (sv_delay_list s) (sv_delay_list s')"
        "touch c (sv_for_free s) (sv_for_free s')"
      using assms(1) False by (simp_all add: acts_def)
    show ?thesis
    proof (cases "sv_client s c'")
      case None
      then show ?thesis using same life_okD(6) [OF assms(2) None] t [THEN touch_member [OF _ False]] by simp
    next
      case (Some n)
      then obtain n' where n': "sv_client s' c' = Some n'" "session n' = session n" using same by auto
      have "on_lists s c' n" "life_rules n" using life_okD(3,4) [OF assms(2) Some] by simp_all
      then show ?thesis using t [THEN touch_count [OF _ False]] session_fields [OF n'(2)]
        by (simp add: n'(1) on_lists_def life_rules_def will_fine_def)
    qed
  qed
  have "broker_fine (sv_broker s')" "expiry_sorted s'"
    using assms(1) life_okD(1,2) [OF assms(2)] by (simp_all add: acts_def)
  then show ?thesis using * by (simp add: life_ok_def)
qed

lemma life_acts_same:
  assumes "acts c s m s' m'" "life_ok s" "life_rules m'" "mq_expiry_list_item m' = mq_expiry_list_item m"
    "mq_will_delay_entry m' = mq_will_delay_entry m" "(mq_state m' = mosq_cs_disused) = (mq_state m = mosq_cs_disused)"
    "sv_delay_list s' = sv_delay_list s" "sv_expiry_list s' = sv_expiry_list s" "sv_for_free s' = sv_for_free s"
  shows "life_ok s'"
proof (rule life_acts [OF assms(1,2) _ assms(3)])
  have "on_lists s c m" using life_okD(3) [OF assms(2)] assms(1) by (simp add: acts_def)
  then show "on_lists s' c m'" using assms(4-) by (simp add: on_lists_def)
qed

section \<open>The end of a connection\<close>

text \<open>The rules while the state of the client is still that of its connection.\<close>

definition closing_rules :: "mosquitto \<Rightarrow> bool" where
  "closing_rules m \<longleftrightarrow>
    (mq_expiry_list_item m \<longrightarrow> mq_state m \<noteq> mosq_cs_disused \<and> mq_session_expiry_interval m \<noteq> 0) \<and>
    (mq_will_delay_entry m \<longrightarrow> mq_state m \<noteq> mosq_cs_disused) \<and>
    (mq_state m = mosq_cs_disused \<longrightarrow> mq_session_expiry_interval m = 0 \<and> mq_will_delay_interval m = 0) \<and>
    will_fine m"

lemma settle_life:
  assumes "change s c (\<lambda>context. mosquitto__set_state context mosq_cs_disconnected) = Ok s'"
    and "acts c s0 m0 s m" "life_ok s0" "on_lists s c m" "closing_rules m"
  shows "life_ok s'" "\<exists>m'. acts c s0 m0 s' m'" "sv_for_free s' = sv_for_free s" "sv_expiry_list s' = sv_expiry_list s"
proof -
  from assms(1) obtain m1 where a: "acts c s m1 s' (mosquitto__set_state m1 mosq_cs_disconnected)"
    and s': "s' = sv_put s c (mosquitto__set_state m1 mosq_cs_disconnected)"
    by (rule acts_change) (simp add: mosquitto__set_state_def)
  have t: "acts c s0 m0 s' (mosquitto__set_state m mosq_cs_disconnected)" and m1: "m1 = m"
    using acts_trans [OF assms(2) a] by auto
  have "on_lists s' c (mosquitto__set_state m mosq_cs_disconnected)" "life_rules (mosquitto__set_state m mosq_cs_disconnected)"
    using assms(4,5) by (auto simp: s' on_lists_def life_rules_def closing_rules_def mosquitto__set_state_def will_fine_def)
  then show "life_ok s'" by (rule life_acts [OF t assms(3)])
  show "\<exists>m'. acts c s0 m0 s' m'" using t by blast
  show "sv_for_free s' = sv_for_free s" "sv_expiry_list s' = sv_expiry_list s" by (simp_all add: s')
qed

lemma add_to_disused_on_lists:
  assumes "context__add_to_disused s c = Ok s'" "sv_client s c = Some m" "on_lists s c m"
    and "\<not> mq_expiry_list_item m" "\<not> mq_will_delay_entry m" "mq_session_expiry_interval m = 0"
      "mq_will_delay_interval m = 0" "will_fine m"
  obtains m' where "acts c s m s' m'" "on_lists s' c m'" "mq_state m' = mosq_cs_disused" "life_rules m'"
    "sv_for_free s' = (if mq_state m = mosq_cs_disused then sv_for_free s else c # sv_for_free s)"
    "sv_delay_list s' = sv_delay_list s" "sv_expiry_list s' = sv_expiry_list s"
proof (rule add_to_disused_acts [OF assms(1,2)])
  fix m'
  assume a: "acts c s m s' m'"
    and m': "session (m'\<lparr>mq_removed_from_by_id := False, mq_id := None\<rparr>) =
     session (m\<lparr>mq_removed_from_by_id := False, mq_id := None, mq_state := mosq_cs_disused\<rparr>)"
    and l: "sv_for_free s' = (if mq_state m = mosq_cs_disused then sv_for_free s else c # sv_for_free s)"
      "sv_delay_list s' = sv_delay_list s" "sv_expiry_list s' = sv_expiry_list s"
  note f = session_fields [OF m', simplified]
  show thesis
    by (rule that [OF a _ _ _ l])
       (use assms(3-) f l in \<open>simp_all add: on_lists_def life_rules_def will_fine_def split: if_splits\<close>)
qed

definition disconnect_tail :: "acl_env \<Rightarrow> server \<Rightarrow> client \<Rightarrow> server res" where
  "disconnect_tail env s c =
    res_bind (the_client s c) (\<lambda>context.
        res_bind
          (if mq_session_expiry_interval context = 0 then
             (if mq_bridge context = None \<and> mq_will_delay_interval context = 0
              then context__add_to_disused s c else Ok s)
           else res_bind (session_expiry__add s c) (\<lambda>(_, s). Ok s)) (\<lambda>s.
        change (keepalive__remove s c) c (\<lambda>context. mosquitto__set_state context mosq_cs_disconnected)))"

lemma context__disconnect_tail:
  "context__disconnect env s c =
    res_bind (the_client s c) (\<lambda>context.
      if mosquitto__get_state context = mosq_cs_disconnected then Ok s
      else res_bind (net__socket_close s c) (\<lambda>s. res_bind (context__send_will env s c) (\<lambda>s. disconnect_tail env s c)))"
  unfolding context__disconnect_def disconnect_tail_def by (rule refl)

lemma disconnect_tail_life:
  assumes "disconnect_tail env s c = Ok s'" "acts c s0 m0 s m" "life_ok s0" "on_lists s c m"
    and "\<not> mq_expiry_list_item m" "mq_will_delay_entry m \<longrightarrow> mq_will_delay_interval m > 0"
      "mq_state m = mosq_cs_disused \<longrightarrow> mq_session_expiry_interval m = 0 \<and> mq_will_delay_interval m = 0" "will_fine m"
  shows "life_ok s' \<and> (\<exists>m'. acts c s0 m0 s' m')"
proof -
  have m: "sv_client s c = Some m" using assms(2) by (simp add: acts_def)
  obtain s1 where s1: "(if mq_session_expiry_interval m = 0 then
             (if mq_bridge m = None \<and> mq_will_delay_interval m = 0 then context__add_to_disused s c else Ok s)
           else res_bind (session_expiry__add s c) (\<lambda>(_, s). Ok s)) = Ok s1"
    and set: "change s1 c (\<lambda>context. mosquitto__set_state context mosq_cs_disconnected) = Ok s'"
    using assms(1) m by (auto simp: disconnect_tail_def the_client_def keepalive__remove_def res_bind_Ok_iff)
  have settle: ?thesis if "acts c s m s1 m1" "on_lists s1 c m1" "closing_rules m1" for m1
    using settle_life [OF set _ assms(3) that(2,3)] acts_trans [OF assms(2) that(1)] by blast
  show ?thesis
  proof (cases "mq_session_expiry_interval m = 0")
    case zero: True
    show ?thesis
    proof (cases "mq_bridge m = None \<and> mq_will_delay_interval m = 0")
      case True
      then have d: "context__add_to_disused s c = Ok s1" using s1 zero by simp
      show ?thesis
        by (rule add_to_disused_on_lists [OF d m assms(4,5) _ zero _ assms(8)], use True assms(6) in simp,
            use True in simp, rule settle)
           (use zero in \<open>auto simp: life_rules_def closing_rules_def\<close>)
    next
      case False
      have "acts c s m s m" using m by (simp add: acts_def)
      moreover have "s1 = s" using s1 zero False by (auto split: if_splits)
      moreover have "closing_rules m" using assms(5-) by (auto simp: closing_rules_def)
      ultimately show ?thesis using assms(4) by (intro settle [of m]) simp_all
    qed
  next
    case False
    then obtain rc where add: "session_expiry__add s c = Ok (rc, s1)" using s1 by (auto simp: res_bind_Ok_iff)
    have "c \<notin> set (sv_expiry_list s)" using assms(4,5) by (simp add: on_lists_def count_list_0_iff)
    show ?thesis
    proof (rule acts_session_add [OF add])
      fix m1 m'
      assume a: "acts c s m1 s1 m'" and m': "session (m'\<lparr>mq_expiry_list_item := False, mq_session_expiry_time := 0\<rparr>) =
         session (m1\<lparr>mq_expiry_list_item := False, mq_session_expiry_time := 0\<rparr>)"
        and l: "(mq_expiry_list_item m' \<and> (\<exists>cmp. sv_expiry_list s1 = insert_inorder cmp c (sv_expiry_list s))) \<or> m' = m1 \<and> s1 = s"
          "sv_delay_list s1 = sv_delay_list s" "sv_for_free s1 = sv_for_free s"
      have "m1 = m" using a m by (simp add: acts_def)
      note f = session_fields [OF m', unfolded this, simplified]
      have "on_lists s1 c m'" using assms(4,5) f l \<open>m1 = m\<close> by (auto simp: on_lists_def count_insert)
      moreover have "closing_rules m'" using f assms(5-) False by (auto simp: closing_rules_def will_fine_def)
      ultimately show ?thesis using a \<open>m1 = m\<close> by (intro settle) auto
    qed (use \<open>c \<notin> set (sv_expiry_list s)\<close> in simp)
  qed
qed

text \<open>What the operations on the sessions leave alone: the clock, and the sessions of other clients.\<close>

definition frame :: "client \<Rightarrow> server \<Rightarrow> server \<Rightarrow> bool" where
  "frame c s s' \<longleftrightarrow> db_now_real_s (sv_db s') = db_now_real_s (sv_db s) \<and>
    (\<forall>c'. c' \<noteq> c \<longrightarrow> map_option session (sv_client s' c') = map_option session (sv_client s c')) \<and>
    (sv_client s' c = None) = (sv_client s c = None)"

lemma acts_frame: "acts c s m s' m' \<Longrightarrow> frame c s s'"
  by (simp add: acts_def frame_def)

lemma context__disconnect_life:
  assumes "context__disconnect env s c = Ok s'" "life_ok s"
  shows "life_ok s' \<and> frame c s s'"
proof -
  obtain m where m: "sv_client s c = Some m"
    using assms by (auto simp: context__disconnect_def res_bind_Ok_iff the_client_Ok)
  show ?thesis
  proof (cases "mq_state m = mosq_cs_disconnected")
    case True
    then show ?thesis using assms m
      by (simp add: context__disconnect_def the_client_def mosquitto__get_state_def frame_def)
  next
    case False
    then obtain s1 s2 where s1: "net__socket_close s c = Ok s1" and s2: "context__send_will env s1 c = Ok s2"
      and tail: "disconnect_tail env s2 c = Ok s'"
      using assms(1) m unfolding context__disconnect_tail
      by (auto simp: the_client_def mosquitto__get_state_def res_bind_Ok_iff)
    from s1 show ?thesis
    proof (rule socket_close_acts)
      fix m0 m1
      assume a1: "acts c s m0 s1 m1" and m1: "session (m1\<lparr>mq_sock := 0\<rparr>) = session (m0\<lparr>mq_sock := 0\<rparr>)"
        and l1: "sv_expiry_list s1 = sv_expiry_list s" "sv_delay_list s1 = sv_delay_list s" "sv_for_free s1 = sv_for_free s"
      have m0: "m0 = m" using a1 m by (simp add: acts_def)
      note f1 = session_fields [OF m1, unfolded m0, simplified]
      have r: "life_rules m" "on_lists s c m" using life_okD(3,4) [OF assms(2) m] by simp_all
      have r1: "life_rules m1" using r(1) f1 by (simp add: life_rules_def will_fine_def)
      have no: "\<not> mq_expiry_list_item m1" "\<not> mq_will_delay_entry m1" using r(1) f1 False by (auto simp: life_rules_def)
      have on1: "on_lists s1 c m1" using r(2) f1 l1 by (simp add: on_lists_def)
      have ok1: "life_ok s1" by (rule life_acts [OF a1 assms(2) on1 r1])
      have c1: "sv_client s1 c = Some m1" using a1 by (simp add: acts_def)
      have fin: ?thesis if "acts c s1 m1 s2 m2" "on_lists s2 c m2" "\<not> mq_expiry_list_item m2"
          "mq_will_delay_entry m2 \<longrightarrow> mq_will_delay_interval m2 > 0"
          "mq_state m2 = mosq_cs_disused \<longrightarrow> mq_session_expiry_interval m2 = 0 \<and> mq_will_delay_interval m2 = 0" "will_fine m2" for m2
        using disconnect_tail_life [OF tail that(1) ok1 that(2-)] a1 acts_trans [OF a1] by (blast intro: acts_frame)
      from s2 life_okD(1) [OF ok1] show ?thesis
      proof (rule send_will_acts, goal_cases will later now)
        case (will n)
        then show ?case by (rule life_okD(5) [OF ok1])
      next
        case (later n m2)
        then have n: "n = m1" using c1 by (simp add: acts_def)
        note f2 = session_fields [OF later(6) [unfolded n], simplified]
        show ?thesis
          by (rule fin [of m2])
             (use later n f2 no on1 r1 in \<open>auto simp: on_lists_def count_insert life_rules_def will_fine_def\<close>)
      next
        case (now n m2)
        then have n: "n = m1" using c1 by (simp add: acts_def)
        note f2 = session_fields [OF now(2) [unfolded n], simplified]
        show ?thesis
          by (rule fin [of m2])
             (use now n f2 no on1 r1 in \<open>auto simp: on_lists_def life_rules_def will_fine_def\<close>)
      qed
    qed
  qed
qed

lemma do_disconnect_life:
  assumes "do_disconnect env s c reason = Ok s'" "life_ok s"
  shows "life_ok s' \<and> frame c s s'"
  using assms context__disconnect_life [of env s c s']
  by (auto simp: do_disconnect_def res_bind_Ok_iff the_client_Ok frame_def split: if_splits)

section \<open>The periodic checks\<close>

text \<open>A will without a delay, and one of a client in any list but that of the delayed wills.\<close>

lemma send_will_now:
  assumes "context__send_will env s c = Ok s'" "broker_fine (sv_broker s)" "sv_client s c = Some m" "will_fine m"
    and "mq_will_delay_interval m = 0"
  obtains m' where "acts c s m s' m'" "session m' = session (will__clear m)" "sv_delay_list s' = sv_delay_list s"
    "sv_expiry_list s' = sv_expiry_list s" "sv_for_free s' = sv_for_free s"
proof (rule send_will_acts [OF assms(1,2)], goal_cases will later now)
  case (will n)
  then show ?case using assms(3,4) by simp
next
  case (later n m')
  then show ?case using assms(3,5) by (simp add: acts_def)
next
  case (now n m')
  then have "n = m" using assms(3) by (simp add: acts_def)
  then show ?case using now by (intro that [of m']) simp_all
qed

lemma expire_one:
  assumes steps: "session_expiry__remove s c = Ok s1"
      "change s1 c (\<lambda>context. context\<lparr>mq_session_expiry_interval := 0, mq_will_delay_interval := 0\<rparr>) = Ok s2"
      "will_delay__remove s2 c = Ok s3" "context__send_will env s3 c = Ok s4" "context__add_to_disused s4 c = Ok s5"
    and ok: "life_ok s" and l: "sv_expiry_list s = c # cs"
  shows "life_ok s5 \<and> frame c s s5 \<and> sv_expiry_list s5 = cs \<and> sv_for_free s5 = c # sv_for_free s"
proof -
  obtain m where a1: "acts c s m s1 (m\<lparr>mq_expiry_list_item := False\<rparr>)"
    and l1: "sv_expiry_list s1 = (if mq_expiry_list_item m then remove1 c (sv_expiry_list s) else sv_expiry_list s)"
      "sv_delay_list s1 = sv_delay_list s" "sv_for_free s1 = sv_for_free s"
    using acts_session_remove [OF steps(1)] by metis
  have m: "sv_client s c = Some m" using a1 by (simp add: acts_def)
  have on: "on_lists s c m" "life_rules m" using life_okD(3,4) [OF ok m] by simp_all
  have item: "mq_expiry_list_item m" "c \<notin> set cs" using on(1) l by (auto simp: on_lists_def of_bool_def count_list_0_iff split: if_splits)
  then have st: "mq_state m = mosq_cs_disconnected" using on(2) by (simp add: life_rules_def)
  let ?m1 = "m\<lparr>mq_expiry_list_item := False\<rparr>"
  let ?m2 = "?m1\<lparr>mq_session_expiry_interval := 0, mq_will_delay_interval := 0\<rparr>"
  let ?m3 = "?m2\<lparr>mq_will_delay_entry := False\<rparr>"
  from steps(2) obtain n where n: "acts c s1 n s2 (n\<lparr>mq_session_expiry_interval := 0, mq_will_delay_interval := 0\<rparr>)"
    and s2: "s2 = sv_put s1 c (n\<lparr>mq_session_expiry_interval := 0, mq_will_delay_interval := 0\<rparr>)"
    by (rule acts_change) simp
  have a2: "acts c s m s2 ?m2" "n = ?m1" using acts_trans [OF a1 n] by auto
  obtain n3 where n3: "acts c s2 n3 s3 (n3\<lparr>mq_will_delay_entry := False\<rparr>)"
    and l3: "sv_delay_list s3 = (if mq_will_delay_entry n3 then remove1 c (sv_delay_list s2) else sv_delay_list s2)"
      "sv_expiry_list s3 = sv_expiry_list s2" "sv_for_free s3 = sv_for_free s2"
    using acts_delay_remove [OF steps(3)] by metis
  have a3: "acts c s m s3 ?m3" "n3 = ?m2" using acts_trans [OF a2(1) n3] by auto
  have fine3: "broker_fine (sv_broker s3)" using a3(1) life_okD(1) [OF ok] by (simp add: acts_def)
  have m3: "sv_client s3 c = Some ?m3" using a3(1) by (simp add: acts_def)
  have wf: "will_fine ?m3" using on(2) by (simp add: life_rules_def will_fine_def)
  obtain m4 where a4: "acts c s3 ?m3 s4 m4" "session m4 = session (will__clear ?m3)" "sv_delay_list s4 = sv_delay_list s3"
    "sv_expiry_list s4 = sv_expiry_list s3" "sv_for_free s4 = sv_for_free s3"
    using send_will_now [OF steps(4) fine3 m3 wf] by auto
  note f4 = session_fields [OF a4(2), simplified]
  have ex: "sv_expiry_list s4 = cs" using a4 l3 s2 l1 l item by simp
  have on4: "on_lists s4 c m4"
    using on(1) item(2) st by (auto simp: on_lists_def ex a4(3-) l3 a3(2) s2 l1 f4 count_remove1 of_bool_def)
  have m4: "sv_client s4 c = Some m4" using a4(1) by (simp add: acts_def)
  obtain m5 where a5: "acts c s4 m4 s5 m5" "on_lists s5 c m5" "life_rules m5"
    "sv_for_free s5 = (if mq_state m4 = mosq_cs_disused then sv_for_free s4 else c # sv_for_free s4)"
    "sv_delay_list s5 = sv_delay_list s4" "sv_expiry_list s5 = sv_expiry_list s4"
    by (rule add_to_disused_on_lists [OF steps(5) m4 on4]) (simp_all add: f4 will_fine_def)
  have "acts c s m s5 m5" using acts_trans [OF a3(1) a4(1)] acts_trans [OF _ a5(1)] by blast
  then show ?thesis using life_acts [OF _ ok a5(2,3)] acts_frame a5(4,6) ex f4 st a4(5) l3(3) l1(3) s2 by auto
qed

lemma will_delay_send_one:
  assumes "will_delay_send env s c = Ok s'" and ok: "life_ok s" and l: "sv_delay_list s = c # cs"
  obtains m m' where "acts c s m s' m'" "on_lists s' c m'" "life_rules m'" "sv_delay_list s' = cs"
    "\<not> mq_will_delay_entry m'" "mq_will_delay_interval m' = 0" "mq_state m' = mosq_cs_disconnected"
    "sv_for_free s' = sv_for_free s" "sv_expiry_list s' = sv_expiry_list s"
proof -
  let ?f = "\<lambda>context. context\<lparr>mq_will_delay_interval := 0, mq_will_delay_entry := False\<rparr>"
  let ?s = "s\<lparr>sv_delay_list := remove1 c (sv_delay_list s)\<rparr>"
  obtain m s1 where m: "sv_client s c = Some m" and s1: "s1 = sv_put ?s c (?f m)" and s': "context__send_will env s1 c = Ok s'"
    using assms(1) by (auto simp: will_delay_send_def res_bind_Ok_iff change_Ok)
  have on: "on_lists s c m" "life_rules m" using life_okD(3,4) [OF ok m] by simp_all
  have entry: "mq_will_delay_entry m" "c \<notin> set cs" using on(1) l by (auto simp: on_lists_def of_bool_def count_list_0_iff split: if_splits)
  then have st: "mq_state m = mosq_cs_disconnected" using on(2) by (simp add: life_rules_def)
  have a1: "acts c s m s1 (?f m)" unfolding s1 by (rule acts_put [OF m]) (simp_all add: touch_remove1)
  have fine1: "broker_fine (sv_broker s1)" using a1 life_okD(1) [OF ok] by (simp add: acts_def)
  have m1: "sv_client s1 c = Some (?f m)" using a1 by (simp add: acts_def)
  have wf: "will_fine (?f m)" using on(2) by (simp add: life_rules_def will_fine_def)
  obtain m' where a2: "acts c s1 (?f m) s' m'" "session m' = session (will__clear (?f m))" "sv_delay_list s' = sv_delay_list s1"
    "sv_expiry_list s' = sv_expiry_list s1" "sv_for_free s' = sv_for_free s1"
    using send_will_now [OF s' fine1 m1 wf] by auto
  note f = session_fields [OF a2(2), simplified]
  have "on_lists s' c m'" "life_rules m'" using on entry(2) st
    by (auto simp: on_lists_def life_rules_def will_fine_def a2(3-) s1 f l of_bool_def)
  then show thesis
    using acts_trans [OF a1 a2(1)] by (intro that [of m m']) (auto simp: f st s1 l a2(3-))
qed

lemma will_one:
  assumes s1: "will_delay_send env s c = Ok s1" "sv_client s1 c = Some n"
    and s2: "(if mq_session_expiry_interval n = 0 then context__add_to_disused s1 c else Ok s1) = Ok s2"
    and ok: "life_ok s" and l: "sv_delay_list s = c # cs"
  shows "life_ok s2 \<and> frame c s s2 \<and> sv_delay_list s2 = cs"
  using s1(1) ok l
proof (rule will_delay_send_one)
  fix m m'
  assume a: "acts c s m s1 m'" "on_lists s1 c m'" "life_rules m'" "sv_delay_list s1 = cs"
    "\<not> mq_will_delay_entry m'" "mq_will_delay_interval m' = 0" "mq_state m' = mosq_cs_disconnected"
    "sv_for_free s1 = sv_for_free s" "sv_expiry_list s1 = sv_expiry_list s"
  have n: "n = m'" using a(1) s1(2) by (simp add: acts_def)
  show ?thesis
  proof (cases "mq_session_expiry_interval m' = 0")
    case True
    then have d: "context__add_to_disused s1 c = Ok s2" using s2 n by simp
    have "\<not> mq_expiry_list_item m'" "will_fine m'" using a(3) True by (auto simp: life_rules_def)
    then obtain m2 where a2: "acts c s1 m' s2 m2" "on_lists s2 c m2" "life_rules m2" "sv_delay_list s2 = sv_delay_list s1"
      using add_to_disused_on_lists [OF d s1(2) [unfolded n] a(2) _ a(5) True a(6)] by metis
    have "acts c s m s2 m2" using acts_trans [OF a(1) a2(1)] by simp
    then show ?thesis using life_acts [OF _ ok a2(2,3)] acts_frame a2(4) a(4) by auto
  next
    case False
    then show ?thesis using s2 n life_acts [OF a(1) ok a(2,3)] acts_frame [OF a(1)] a(4) by simp
  qed
qed

text \<open>The clients that were not touched keep their times.\<close>

lemma frame_time:
  assumes "frame c s s'" "c' \<noteq> c"
  shows "mq_will_delay_time (client_of s' c') = mq_will_delay_time (client_of s c')" "expiry_time s' c' = expiry_time s c'"
    "(sv_client s' c' = None) = (sv_client s c' = None)"
proof -
  have e: "map_option session (sv_client s' c') = map_option session (sv_client s c')" using assms by (simp add: frame_def)
  show "expiry_time s' c' = expiry_time s c'" by (rule expiry_time_cong [OF e])
  show "mq_will_delay_time (client_of s' c') = mq_will_delay_time (client_of s c')"
    using e by (cases "sv_client s c'"; cases "sv_client s' c'") (auto simp: client_of_def session_def)
  show "(sv_client s' c' = None) = (sv_client s c' = None)" using e by (metis map_option_is_None)
qed

lemma count_le_distinct: "(\<And>x. count_list l x \<le> 1) \<Longrightarrow> distinct l"
proof (induction l)
  case (Cons a l)
  have le: "count_list l x \<le> count_list (a # l) x" for x by simp
  have "count_list l a = 0" using Cons.prems [of a] by simp
  moreover have "distinct l" by (rule Cons.IH) (rule order_trans [OF le Cons.prems])
  ultimately show ?case by (simp add: count_list_0_iff)
qed simp

lemma life_distinct:
  assumes "life_ok s"
  shows "distinct (sv_expiry_list s)" "distinct (sv_delay_list s)" "distinct (sv_for_free s)"
proof -
  have "count_list (sv_expiry_list s) c \<le> 1 \<and> count_list (sv_delay_list s) c \<le> 1 \<and> count_list (sv_for_free s) c \<le> 1" for c
    using life_okD(3,6) [OF assms, of c] by (cases "sv_client s c") (auto simp: on_lists_def)
  then show "distinct (sv_expiry_list s)" "distinct (sv_delay_list s)" "distinct (sv_for_free s)"
    by (auto intro: count_le_distinct)
qed

text \<open>The loops, from the client at the head of its list.\<close>

lemma dropWhile_cong_on: "(\<And>x. x \<in> set l \<Longrightarrow> P x = Q x) \<Longrightarrow> dropWhile P l = dropWhile Q l \<and> takeWhile P l = takeWhile Q l"
  by (induction l) auto

lemma session_expiry_loop_life:
  assumes "session_expiry_loop env (sv_expiry_list s) s = Ok s'" "life_ok s"
  defines "due \<equiv> \<lambda>c. expiry_time s c < db_now_real_s (sv_db s)"
  shows "life_ok s' \<and> sv_expiry_list s' = dropWhile due (sv_expiry_list s) \<and>
    sv_for_free s' = rev (takeWhile due (sv_expiry_list s)) @ sv_for_free s \<and> db_now_real_s (sv_db s') = db_now_real_s (sv_db s)"
proof -
  define l where "l = sv_expiry_list s"
  have "life_ok s' \<and> sv_expiry_list s' = dropWhile (\<lambda>c. expiry_time s c < db_now_real_s (sv_db s)) l \<and>
      sv_for_free s' = rev (takeWhile (\<lambda>c. expiry_time s c < db_now_real_s (sv_db s)) l) @ sv_for_free s \<and>
      db_now_real_s (sv_db s') = db_now_real_s (sv_db s)"
    if "session_expiry_loop env l s = Ok s'" "sv_expiry_list s = l" "life_ok s" for s
    using that
  proof (induction l arbitrary: s)
    case (Cons c cs)
    obtain m where m: "sv_client s c = Some m" using Cons.prems(1) by (auto simp: res_bind_Ok_iff the_client_Ok)
    then have t: "expiry_time s c = mq_session_expiry_time m" by (simp add: expiry_time_def client_of_def)
    show ?case
    proof (cases "expiry_time s c < db_now_real_s (sv_db s)")
      case True
      obtain s1 s2 s3 s4 s5 where steps: "session_expiry__remove s c = Ok s1"
          "change s1 c (\<lambda>context. context\<lparr>mq_session_expiry_interval := 0, mq_will_delay_interval := 0\<rparr>) = Ok s2"
          "will_delay__remove s2 c = Ok s3" "context__send_will env s3 c = Ok s4" "context__add_to_disused s4 c = Ok s5"
        and rest: "session_expiry_loop env cs s5 = Ok s'"
        using Cons.prems(1) m True t by (auto simp: the_client_def res_bind_Ok_iff)
      have one: "life_ok s5" "frame c s s5" "sv_expiry_list s5 = cs" "sv_for_free s5 = c # sv_for_free s"
        using expire_one [OF steps Cons.prems(3,2)] by auto
      have "c \<notin> set cs" using life_distinct(1) [OF Cons.prems(3)] Cons.prems(2) by simp
      then have "expiry_time s5 x = expiry_time s x" if "x \<in> set cs" for x using frame_time(2) [OF one(2)] that by metis
      moreover have "db_now_real_s (sv_db s5) = db_now_real_s (sv_db s)" using one(2) by (simp add: frame_def)
      ultimately show ?thesis
        using Cons.IH [OF rest one(3,1)] one(4) True
          dropWhile_cong_on [of cs "\<lambda>x. expiry_time s5 x < db_now_real_s (sv_db s)" "\<lambda>x. expiry_time s x < db_now_real_s (sv_db s)"]
        by simp
    next
      case False
      then have "s' = s" using Cons.prems(1) m t by (simp add: the_client_def)
      then show ?thesis using False Cons.prems(2,3) by simp
    qed
  qed simp
  then show ?thesis using assms(1,2) unfolding l_def due_def by blast
qed

lemma will_delay_loop_life:
  assumes "will_delay_loop env l s = Ok s'" "sv_delay_list s = l" "life_ok s"
  shows "life_ok s' \<and> sv_delay_list s' = dropWhile (\<lambda>c. mq_will_delay_time (client_of s c) < db_now_real_s (sv_db s)) l"
  using assms
proof (induction l arbitrary: s)
  case (Cons c cs)
  obtain m where m: "sv_client s c = Some m" using Cons.prems(1) by (auto simp: res_bind_Ok_iff the_client_Ok)
  show ?case
  proof (cases "mq_will_delay_time m < db_now_real_s (sv_db s)")
    case True
    obtain s1 n s2 where steps: "will_delay_send env s c = Ok s1" "sv_client s1 c = Some n"
        "(if mq_session_expiry_interval n = 0 then context__add_to_disused s1 c else Ok s1) = Ok s2"
      and rest: "will_delay_loop env cs s2 = Ok s'"
      using Cons.prems(1) m True by (auto simp: the_client_Ok res_bind_Ok_iff)
    have one: "life_ok s2" "frame c s s2" "sv_delay_list s2 = cs" using will_one [OF steps Cons.prems(3,2)] by auto
    have "c \<notin> set cs" using life_distinct(2) [OF Cons.prems(3)] Cons.prems(2) by simp
    then have "mq_will_delay_time (client_of s2 x) = mq_will_delay_time (client_of s x)" if "x \<in> set cs" for x
      using frame_time(1) [OF one(2)] that by metis
    moreover have "db_now_real_s (sv_db s2) = db_now_real_s (sv_db s)" using one(2) by (simp add: frame_def)
    ultimately show ?thesis
      using Cons.IH [OF rest one(3,1)] True m
        dropWhile_cong_on [of cs "\<lambda>x. mq_will_delay_time (client_of s2 x) < db_now_real_s (sv_db s)"
          "\<lambda>x. mq_will_delay_time (client_of s x) < db_now_real_s (sv_db s)"]
      by (simp add: client_of_def)
  next
    case False
    then have "s' = s" using Cons.prems(1) m by (simp add: the_client_def)
    then show ?thesis using False Cons.prems(2,3) m by (simp add: client_of_def)
  qed
qed simp

lemma keepalive_loop_life:
  assumes "keepalive_loop env l s = Ok s'" "life_ok s"
  shows "life_ok s'"
  using assms
proof (induction l arbitrary: s)
  case (Cons c cs)
  then obtain s1 where "s1 = s \<or> do_disconnect env s c MOSQ_ERR_KEEPALIVE = Ok s1" "keepalive_loop env cs s1 = Ok s'"
    by (auto simp: res_bind_Ok_iff split: if_splits)
  then show ?case using Cons.IH [of s1] do_disconnect_life [of env s c MOSQ_ERR_KEEPALIVE s1] Cons.prems(2) by blast
qed simp

text \<open>The two loops that the broker runs when it shuts down.\<close>

lemma send_all_loop_life:
  assumes "send_all_loop env l s = Ok s'" "sv_delay_list s = l" "life_ok s"
  shows "life_ok s'"
  using assms
proof (induction l arbitrary: s)
  case (Cons c cs)
  then obtain s1 where s1: "will_delay_send env s c = Ok s1" "send_all_loop env cs s1 = Ok s'" by (auto simp: res_bind_Ok_iff)
  from s1(1) Cons.prems(3,2) show ?case
    by (rule will_delay_send_one) (use Cons.IH [OF s1(2)] life_acts Cons.prems(3) in blast)
qed simp

lemma expiry_remove_loop_life:
  assumes "expiry_remove_loop env l s = Ok s'" "sv_expiry_list s = l" "life_ok s"
  shows "life_ok s'"
  using assms
proof (induction l arbitrary: s)
  case (Cons c cs)
  let ?f = "\<lambda>context. context\<lparr>mq_session_expiry_interval := 0, mq_will_delay_interval := 0\<rparr>"
  obtain s1 s2 s3 s4 where steps: "session_expiry__remove s c = Ok s1" "change s1 c ?f = Ok s2" "will_delay__remove s2 c = Ok s3"
      "context__disconnect env s3 c = Ok s4" and rest: "expiry_remove_loop env cs s4 = Ok s'"
    using Cons.prems(1) by (auto simp: res_bind_Ok_iff)
  obtain m where a1: "acts c s m s1 (m\<lparr>mq_expiry_list_item := False\<rparr>)"
    and l1: "sv_expiry_list s1 = (if mq_expiry_list_item m then remove1 c (sv_expiry_list s) else sv_expiry_list s)"
      "sv_delay_list s1 = sv_delay_list s" "sv_for_free s1 = sv_for_free s"
    using acts_session_remove [OF steps(1)] by metis
  have m: "sv_client s c = Some m" using a1 by (simp add: acts_def)
  have on: "on_lists s c m" "life_rules m" using life_okD(3,4) [OF Cons.prems(3) m] by simp_all
  have item: "mq_expiry_list_item m" "c \<notin> set cs"
    using on(1) Cons.prems(2) by (auto simp: on_lists_def of_bool_def count_list_0_iff split: if_splits)
  then have st: "mq_state m = mosq_cs_disconnected" using on(2) by (simp add: life_rules_def)
  let ?m3 = "?f (m\<lparr>mq_expiry_list_item := False\<rparr>)\<lparr>mq_will_delay_entry := False\<rparr>"
  from steps(2) obtain n where n: "acts c s1 n s2 (?f n)" and s2: "s2 = sv_put s1 c (?f n)" by (rule acts_change) simp
  have a2: "acts c s m s2 (?f (m\<lparr>mq_expiry_list_item := False\<rparr>))" using acts_trans [OF a1 n] by auto
  obtain n3 where n3: "acts c s2 n3 s3 (n3\<lparr>mq_will_delay_entry := False\<rparr>)"
    and l3: "sv_delay_list s3 = (if mq_will_delay_entry n3 then remove1 c (sv_delay_list s2) else sv_delay_list s2)"
      "sv_expiry_list s3 = sv_expiry_list s2" "sv_for_free s3 = sv_for_free s2"
    using acts_delay_remove [OF steps(3)] by metis
  have a3: "acts c s m s3 ?m3" "n3 = ?f (m\<lparr>mq_expiry_list_item := False\<rparr>)" using acts_trans [OF a2(1) n3] by auto
  have "on_lists s3 c ?m3" "life_rules ?m3"
    using on item st Cons.prems(2)
    by (auto simp: on_lists_def life_rules_def will_fine_def l3 a3(2) s2 l1 count_remove1 of_bool_def)
  then have ok3: "life_ok s3" by (rule life_acts [OF a3(1) Cons.prems(3)])
  have "sv_client s3 c = Some ?m3" using a3(1) by (simp add: acts_def)
  then have "s4 = s3" using steps(4) st by (simp add: context__disconnect_def the_client_def mosquitto__get_state_def)
  then show ?case using Cons.IH [of s4] rest ok3 l3(2) s2 l1(1) item(1) Cons.prems(2) by simp
qed simp

section \<open>The lists of a running server\<close>

text \<open>
  What can happen to the sessions of a server. Other steps of the broker leave the session of a
  client alone, or set it up for a client that has just connected.
\<close>

definition set_up :: "mosquitto option \<Rightarrow> mosquitto option \<Rightarrow> bool" where
  "set_up old new \<longleftrightarrow> map_option session new = map_option session old \<or>
    (\<exists>m'. new = Some m' \<and> \<not> mq_expiry_list_item m' \<and> \<not> mq_will_delay_entry m' \<and> mq_state m' \<noteq> mosq_cs_disused \<and> will_fine m' \<and>
      (\<forall>m. old = Some m \<longrightarrow> \<not> mq_expiry_list_item m \<and> \<not> mq_will_delay_entry m \<and> mq_state m \<noteq> mosq_cs_disused))"

inductive life_step :: "server \<Rightarrow> server \<Rightarrow> bool" where
  traffic: "broker_step (sv_broker s) b \<Longrightarrow> (\<And>c. set_up (sv_client s c) (bk_clients b c)) \<Longrightarrow> life_step s (s\<lparr>sv_broker := b\<rparr>)"
| disconnect: "context__disconnect env s c = Ok s' \<Longrightarrow> life_step s s'"
| lost: "do_disconnect env s c reason = Ok s' \<Longrightarrow> life_step s s'"
| expire: "session_expiry__check env s = Ok s' \<Longrightarrow> life_step s s'"
| delayed: "will_delay__check env s = Ok s' \<Longrightarrow> life_step s s'"
| keepalive: "keepalive__check env s = Ok s' \<Longrightarrow> life_step s s'"
| send_all: "will_delay__send_all env s = Ok s' \<Longrightarrow> life_step s s'"
| remove_all: "session_expiry__remove_all env s = Ok s' \<Longrightarrow> life_step s s'"

lemma set_up_life:
  assumes ok: "life_ok s" and b: "broker_fine b" and up: "\<And>c. set_up (sv_client s c) (bk_clients b c)"
  shows "life_ok (s\<lparr>sv_broker := b\<rparr>)"
proof -
  let ?s = "s\<lparr>sv_broker := b\<rparr>"
  have *: "case bk_clients b c of
       None \<Rightarrow> c \<notin> set (sv_expiry_list s) \<union> set (sv_delay_list s) \<union> set (sv_for_free s)
     | Some m \<Rightarrow> on_lists s c m \<and> life_rules m" for c
  proof -
    consider (same) "map_option session (bk_clients b c) = map_option session (sv_client s c)"
      | (new) m' where "bk_clients b c = Some m'" "\<not> mq_expiry_list_item m'" "\<not> mq_will_delay_entry m'"
          "mq_state m' \<noteq> mosq_cs_disused" "will_fine m'"
          "\<forall>m. sv_client s c = Some m \<longrightarrow> \<not> mq_expiry_list_item m \<and> \<not> mq_will_delay_entry m \<and> mq_state m \<noteq> mosq_cs_disused"
      using up [of c] unfolding set_up_def by blast
    then show ?thesis
    proof cases
      case same
      show ?thesis
      proof (cases "sv_client s c")
        case None
        then show ?thesis using same life_okD(6) [OF ok None] by simp
      next
        case (Some m)
        then obtain m' where m': "bk_clients b c = Some m'" "session m' = session m" using same by auto
        then show ?thesis using life_okD(3,4) [OF ok Some] session_fields [OF m'(2)]
          by (simp add: on_lists_def life_rules_def will_fine_def)
      qed
    next
      case new
      then show ?thesis using life_okD(3,6) [OF ok, of c]
        by (cases "sv_client s c") (auto simp: on_lists_def life_rules_def count_list_0_iff)
    qed
  qed
  have "expiry_time ?s c = expiry_time s c" if c: "c \<in> set (sv_expiry_list s)" for c
  proof -
    obtain m where m: "sv_client s c = Some m" using life_okD(6) [OF ok, of c] c by (cases "sv_client s c") auto
    have "mq_expiry_list_item m" using on_lists_member(1) [OF life_okD(3) [OF ok m]] c by simp
    then have "map_option session (sv_client ?s c) = map_option session (sv_client s c)"
      using up [of c] m by (auto simp: set_up_def)
    then show ?thesis by (rule expiry_time_cong)
  qed
  then have "map (expiry_time ?s) (sv_expiry_list s) = map (expiry_time s) (sv_expiry_list s)" by simp
  then have "expiry_sorted ?s" using life_okD(2) [OF ok] by (simp add: expiry_sorted_def del: map_eq_conv)
  then show ?thesis using b * by (simp add: life_ok_def on_lists_def cong: option.case_cong)
qed

lemma checks_start [simp]:
  "life_ok (s\<lparr>sv_expiry_check := t\<rparr>) = life_ok s" "life_ok (s\<lparr>sv_delay_check := t\<rparr>) = life_ok s"
  "life_ok (s\<lparr>sv_keepalive_check := t\<rparr>) = life_ok s" "expiry_time (s\<lparr>sv_expiry_check := t\<rparr>) = expiry_time s"
  by (simp_all add: life_ok_def expiry_sorted_def expiry_time_def [abs_def] client_of_def [abs_def] on_lists_def cong: option.case_cong)

lemma life_step_ok: "life_step s s' \<Longrightarrow> life_ok s \<Longrightarrow> life_ok s'"
proof (induction rule: life_step.induct)
  case (traffic s b)
  show ?case by (rule set_up_life [OF traffic(3) broker_step_fine [OF traffic(1)] traffic(2)]) (rule life_okD(1) [OF traffic(3)])
next
  case (expire env s s')
  let ?s = "s\<lparr>sv_expiry_check := db_now_real_s (sv_db s)\<rparr>"
  have "s' = s \<or> session_expiry_loop env (sv_expiry_list ?s) ?s = Ok s'"
    using expire(1) by (auto simp: session_expiry__check_def Let_def split: if_splits)
  then show ?case using session_expiry_loop_life [of env ?s s', THEN conjunct1] expire(2) by (elim disjE) simp_all
next
  case (delayed env s s')
  then show ?case using will_delay_loop_life [of env "sv_delay_list s" "s\<lparr>sv_delay_check := db_now_real_s (sv_db s)\<rparr>" s']
    by (auto simp: will_delay__check_def Let_def split: if_splits)
next
  case (keepalive env s s')
  then show ?case using keepalive_loop_life [of env _ "s\<lparr>sv_keepalive_check := db_now_s (sv_db s)\<rparr>" s']
    by (auto simp: keepalive__check_def Let_def split: if_splits)
next
  case (send_all env s s')
  then show ?case using send_all_loop_life by (auto simp: will_delay__send_all_def)
next
  case (remove_all env s s')
  then show ?case using expiry_remove_loop_life by (auto simp: session_expiry__remove_all_def)
qed (auto dest: context__disconnect_life do_disconnect_life)

definition new_server :: "db \<Rightarrow> server" where
  "new_server d = \<lparr> sv_broker = new_broker d, sv_by_id = [], sv_by_sock = [], sv_expiry_list = [], sv_expiry_check = 0,
     sv_delay_list = [], sv_delay_check = 0, sv_keepalive_check = 0, sv_for_free = [] \<rparr>"

lemma new_server_ok: "life_ok (new_server d)"
  by (simp add: life_ok_def new_server_def new_broker_fine expiry_sorted_def) (simp add: new_broker_def)


text \<open>A client with a session of ten seconds and a will that is delayed by three seconds.\<close>

definition life_db :: db where
  "life_db = db_zero\<lparr>db_config := config_zero, db_now_real_s := 100\<rparr>"

definition life_will :: will_message where
  "life_will = \<lparr> wm_topic = Some ''w'', wm_payload = [], wm_payloadlen = 0, wm_qos = 1, wm_retain = False,
     wm_properties = [], wm_expiry_interval = 0 \<rparr>"

definition life_new :: mosquitto where
  "life_new = the (context__init life_db 5 True)"

definition life_client :: "will_message option \<Rightarrow> mosquitto" where
  "life_client w = life_new\<lparr>mq_state := mosq_cs_active, mq_session_expiry_interval := 10, mq_will := w,
     mq_will_delay_interval := 3\<rparr>"

definition life_server :: "will_message option \<Rightarrow> server" where
  "life_server w = sv_put (sv_put (new_server life_db) 0 life_new) 0 (life_client w)"

lemma life_server_reached:
  assumes "w = None \<or> w = Some life_will"
  shows "life_step\<^sup>*\<^sup>* (new_server life_db) (life_server w)"
proof (rule rtranclp.rtrancl_into_rtrancl [OF r_into_rtranclp])
  have init: "context__init life_db 5 True = Some life_new" by (simp add: life_new_def context__init_def Let_def)
  have mp: "life_new\<lparr>mq_mount_point := None\<rparr> = life_new"
    by (simp add: life_new_def context__init_def Let_def mosquitto_zero_def mosquitto__set_state_def mosquitto__set_mode_def)
  have d: "bk_db (new_broker life_db) = life_db" by (simp add: new_broker_def life_db_def db_zero_def)
  have "broker_step (new_broker life_db) (put_client (new_broker life_db) 0 (life_new\<lparr>mq_mount_point := None\<rparr>))"
    by (rule broker_step.accept [of _ _ 5 True]) (simp_all only: d init, simp_all add: new_broker_def mount_ok_def)
  then have acc: "broker_step (sv_broker (new_server life_db)) (put_client (new_broker life_db) 0 life_new)"
    unfolding mp by (simp add: new_server_def)
  show "life_step (new_server life_db) (sv_put (new_server life_db) 0 life_new)"
    unfolding sv_put_def
    by (rule life_step.traffic, use acc in \<open>simp add: new_server_def\<close>)
       (simp add: set_up_def new_server_def put_client_def new_broker_def life_new_def context__init_def Let_def
         mosquitto_zero_def mosquitto__set_state_def mosquitto__set_mode_def will_fine_def)
  show "life_step (sv_put (new_server life_db) 0 life_new) (life_server w)"
    unfolding life_server_def sv_put_def [of _ 0 "life_client w"]
  proof (rule life_step.traffic)
    show "broker_step (sv_broker (sv_put (new_server life_db) 0 life_new))
        (put_client (sv_broker (sv_put (new_server life_db) 0 life_new)) 0 (life_client w))"
      by (rule broker_step.other [of _ _ life_new]) (simp_all add: sets_up_def life_client_def)
    show "set_up (sv_client (sv_put (new_server life_db) 0 life_new) c)
        (bk_clients (put_client (sv_broker (sv_put (new_server life_db) 0 life_new)) 0 (life_client w)) c)" for c
      using assms by (auto simp: set_up_def put_client_def life_client_def life_new_def context__init_def Let_def
         mosquitto_zero_def mosquitto__set_state_def mosquitto__set_mode_def will_fine_def life_will_def)
  qed
qed


section \<open>Sessions expire when they are due\<close>

text \<open>Nothing keeps a session without a will from being given up.\<close>

lemma expire_one_runs:
  assumes "sv_client s c = Some m" "mq_will m = None"
  shows "\<exists>s5. res_bind (session_expiry__remove s c) (\<lambda>s.
        res_bind (change s c (\<lambda>context. context\<lparr>mq_session_expiry_interval := 0, mq_will_delay_interval := 0\<rparr>)) (\<lambda>s.
        res_bind (will_delay__remove s c) (\<lambda>s.
        res_bind (context__send_will env s c) (\<lambda>s. context__add_to_disused s c)))) = Ok s5"
proof -
  have disused: "\<exists>s'. context__add_to_disused s c = Ok s'" if "sv_client s c = Some m" for s m
    using that by (simp add: context__add_to_disused_def the_client_def context__remove_from_by_id_def Let_def change_def
        mosquitto__set_state_def split: option.split)
  have send: "\<exists>s'. context__send_will env s c = Ok s' \<and> sv_client s' c = Some (will__clear m)"
    if "sv_client s c = Some m" "mq_will m = None" for s m
    using that by (simp add: context__send_will_def the_client_def change_def)
  have delay: "\<exists>s'. will_delay__remove s c = Ok s' \<and> sv_client s' c = Some (m\<lparr>mq_will_delay_entry := False\<rparr>)"
    if "sv_client s c = Some m" for s m
    using that by (cases "mq_will_delay_entry m") (simp_all add: will_delay__remove_def the_client_def)
  have remove: "\<exists>s'. session_expiry__remove s c = Ok s' \<and> sv_client s' c = Some (m\<lparr>mq_expiry_list_item := False\<rparr>)"
    using assms by (cases "mq_expiry_list_item m") (simp_all add: session_expiry__remove_def the_client_def)
  obtain s1 where s1: "session_expiry__remove s c = Ok s1" "sv_client s1 c = Some (m\<lparr>mq_expiry_list_item := False\<rparr>)"
    using remove by blast
  let ?f = "\<lambda>context. context\<lparr>mq_session_expiry_interval := 0, mq_will_delay_interval := 0\<rparr>"
  let ?m = "?f (m\<lparr>mq_expiry_list_item := False\<rparr>)"
  obtain s2 where s2: "change s1 c ?f = Ok s2" "sv_client s2 c = Some ?m" using s1(2) by (simp add: change_def the_client_def)
  obtain s3 where s3: "will_delay__remove s2 c = Ok s3" "sv_client s3 c = Some (?m\<lparr>mq_will_delay_entry := False\<rparr>)"
    using delay [OF s2(2)] by blast
  obtain s4 where s4: "context__send_will env s3 c = Ok s4" "sv_client s4 c \<noteq> None" using send [OF s3(2)] assms(2) by auto
  then show ?thesis using disused s1(1) s2(1) s3(1) by auto
qed

lemma session_expiry_loop_runs:
  assumes "sv_expiry_list s = l" "life_ok s" "\<forall>c \<in> set l. mq_will (client_of s c) = None"
  shows "\<exists>s'. session_expiry_loop env l s = Ok s'"
  using assms
proof (induction l arbitrary: s)
  case (Cons c cs)
  obtain m where m: "sv_client s c = Some m"
    using life_okD(6) [OF Cons.prems(2), of c] Cons.prems(1) by (cases "sv_client s c") auto
  have w: "mq_will m = None" using Cons.prems(3) m by (simp add: client_of_def)
  obtain s5 where s5: "res_bind (session_expiry__remove s c) (\<lambda>s.
        res_bind (change s c (\<lambda>context. context\<lparr>mq_session_expiry_interval := 0, mq_will_delay_interval := 0\<rparr>)) (\<lambda>s.
        res_bind (will_delay__remove s c) (\<lambda>s.
        res_bind (context__send_will env s c) (\<lambda>s. context__add_to_disused s c)))) = Ok s5"
    using expire_one_runs [OF m w] by blast
  then obtain s1 s2 s3 s4 where steps: "session_expiry__remove s c = Ok s1"
      "change s1 c (\<lambda>context. context\<lparr>mq_session_expiry_interval := 0, mq_will_delay_interval := 0\<rparr>) = Ok s2"
      "will_delay__remove s2 c = Ok s3" "context__send_will env s3 c = Ok s4" "context__add_to_disused s4 c = Ok s5"
    by (auto simp: res_bind_Ok_iff)
  have one: "life_ok s5" "frame c s s5" "sv_expiry_list s5 = cs" using expire_one [OF steps Cons.prems(2,1)] by auto
  have "c \<notin> set cs" using life_distinct(1) [OF Cons.prems(2)] Cons.prems(1) by simp
  then have "mq_will (client_of s5 x) = None" if "x \<in> set cs" for x
  proof -
    have "map_option session (sv_client s5 x) = map_option session (sv_client s x)"
      using one(2) that \<open>c \<notin> set cs\<close> by (auto simp: frame_def)
    then have "mq_will (client_of s5 x) = mq_will (client_of s x)"
      by (cases "sv_client s x"; cases "sv_client s5 x") (auto simp: client_of_def session_def)
    then show ?thesis using Cons.prems(3) that by simp
  qed
  then obtain s' where "session_expiry_loop env cs s5 = Ok s'" using Cons.IH [OF one(3,1)] by blast
  then show ?case using m steps by (simp add: the_client_def)
qed simp

lemma sorted_dropWhile_filter:
  fixes f :: "'a \<Rightarrow> int"
  shows "sorted (map f l) \<Longrightarrow> dropWhile (\<lambda>x. f x < t) l = filter (\<lambda>x. t \<le> f x) l \<and>
    takeWhile (\<lambda>x. f x < t) l = filter (\<lambda>x. f x < t) l"
proof (induction l)
  case (Cons a l)
  show ?case
  proof (cases "f a < t")
    case False
    then have "\<forall>x \<in> set l. t \<le> f x" using Cons.prems by auto
    then have "filter (\<lambda>x. t \<le> f x) l = l" "filter (\<lambda>x. f x < t) l = []" by (auto simp: filter_empty_conv not_less)
    then show ?thesis using False by simp
  qed (use Cons in auto)
qed simp

text \<open>
  C27: a check of the sessions of a server, once its clock has moved on, gives up exactly the sessions
  whose time is over: they leave the list, are put aside to be freed, each once, and the others stay
  in their order. The check is not kept from it by anything but the sending of a will.
\<close>

theorem session_expiry__check_exact:
  assumes "life_step\<^sup>*\<^sup>* (new_server d) s" and "sv_expiry_check s < db_now_real_s (sv_db s)"
  shows "(\<forall>s'. session_expiry__check env s = Ok s' \<longrightarrow>
      sv_expiry_list s' = filter (\<lambda>c. db_now_real_s (sv_db s) \<le> mq_session_expiry_time (client_of s c)) (sv_expiry_list s) \<and>
      sv_for_free s' = rev (filter (\<lambda>c. mq_session_expiry_time (client_of s c) < db_now_real_s (sv_db s)) (sv_expiry_list s))
        @ sv_for_free s) \<and>
    ((\<forall>c \<in> set (sv_expiry_list s). mq_will (client_of s c) = None) \<longrightarrow> (\<exists>s'. session_expiry__check env s = Ok s'))"
proof -
  have ok: "life_ok s" using assms(1) by (induction) (auto intro: new_server_ok life_step_ok)
  let ?s = "s\<lparr>sv_expiry_check := db_now_real_s (sv_db s)\<rparr>"
  have check: "session_expiry__check env s = session_expiry_loop env (sv_expiry_list ?s) ?s"
    using assms(2) by (simp add: session_expiry__check_def Let_def)
  have ok': "life_ok ?s" using ok by simp
  have srt: "sorted (map (expiry_time s) (sv_expiry_list s))" using life_okD(2) [OF ok] by (simp add: expiry_sorted_def)
  have "sv_expiry_list s' = filter (\<lambda>c. db_now_real_s (sv_db s) \<le> expiry_time s c) (sv_expiry_list s) \<and>
      sv_for_free s' = rev (filter (\<lambda>c. expiry_time s c < db_now_real_s (sv_db s)) (sv_expiry_list s)) @ sv_for_free s"
    if "session_expiry__check env s = Ok s'" for s'
    using session_expiry_loop_life [OF that [unfolded check] ok'] sorted_dropWhile_filter [OF srt] by simp
  moreover have "\<exists>s'. session_expiry__check env s = Ok s'" if "\<forall>c \<in> set (sv_expiry_list s). mq_will (client_of s c) = None"
    unfolding check by (rule session_expiry_loop_runs [OF refl ok']) (use that in \<open>simp add: client_of_def\<close>)
  ultimately show ?thesis unfolding expiry_time_def by blast
qed

theorem session_expiry__check_exact_witness:
  "\<exists>s s'. life_step\<^sup>*\<^sup>* (new_server life_db) s \<and> sv_expiry_list s = [0] \<and>
     session_expiry__check undefined s = Ok s' \<and> sv_expiry_list s' = [] \<and> sv_for_free s' = [0]"
proof -
  have "case context__disconnect undefined (life_server None) 0 of Ok s \<Rightarrow>
      sv_expiry_list s = [0] \<and> sv_for_free s = [] \<and> sv_expiry_check s = 0 \<and>
      mq_session_expiry_time (client_of s 0) = 110 \<and> mq_will (client_of s 0) = None | _ \<Rightarrow> False"
    by code_simp
  then obtain s where s: "context__disconnect undefined (life_server None) 0 = Ok s"
      "sv_expiry_list s = [0]" "sv_for_free s = []" "sv_expiry_check s = 0"
      "mq_session_expiry_time (client_of s 0) = 110" "mq_will (client_of s 0) = None"
    by (auto split: res.splits)
  let ?d = "(sv_db s)\<lparr>db_monotonic := db_monotonic (sv_db s), db_now_s := 200, db_now_real_s := 200,
    db_realtime := db_realtime (sv_db s)\<rparr>"
  let ?s = "s\<lparr>sv_broker := (sv_broker s)\<lparr>bk_db := ?d\<rparr>\<rparr>"
  have "life_step s ?s"
    by (rule life_step.traffic, rule broker_step.clock) (simp_all add: set_up_def)
  then have r: "life_step\<^sup>*\<^sup>* (new_server life_db) ?s"
    using rtranclp.rtrancl_into_rtrancl [OF rtranclp.rtrancl_into_rtrancl
      [OF life_server_reached life_step.disconnect [OF s(1)]]] by simp
  have c: "client_of ?s 0 = client_of s 0" by (simp add: client_of_def)
  have t: "sv_expiry_check ?s < db_now_real_s (sv_db ?s)" using s(4) by simp
  note claim = session_expiry__check_exact [OF r t, of undefined]
  have "\<forall>c \<in> set (sv_expiry_list ?s). mq_will (client_of ?s c) = None" using s(2,6) c by simp
  then obtain s' where s': "session_expiry__check undefined ?s = Ok s'" using claim by blast
  then have "sv_expiry_list s' = [] \<and> sv_for_free s' = [0]" using claim s(2,3,5) c by simp
  then show ?thesis using r s(2) s' by (intro exI [of _ ?s] exI [of _ s']) simp
qed

section \<open>Delayed wills\<close>


definition at_time :: "server \<Rightarrow> int \<Rightarrow> server" where
  "at_time s t = s\<lparr>sv_broker := (sv_broker s)\<lparr>bk_db := (sv_db s)\<lparr>db_monotonic := db_monotonic (sv_db s), db_now_s := t,
    db_now_real_s := t, db_realtime := db_realtime (sv_db s)\<rparr>\<rparr>\<rparr>"

lemma at_time_step: "life_step s (at_time s t)"
  unfolding at_time_def by (rule life_step.traffic, rule broker_step.clock) (simp_all add: set_up_def)


text \<open>Two clients with wills that are delayed by ten and by five seconds.\<close>

definition two_clients :: server where
  "two_clients = sv_put (sv_put (new_server life_db) 0 ((life_client (Some life_will))\<lparr>mq_will_delay_interval := 10\<rparr>))
     1 ((life_client (Some life_will))\<lparr>mq_will_delay_interval := 5\<rparr>)"


end
