(* ===== verification/Authentication.thy ===== *)
theory Authentication
  imports Security
begin

text \<open>
  The check of user names and passwords, and extended authentication (\<^verbatim>\<open>src/security.c\<close>).
  The plugins that are asked are arguments, as in the theory of the access checks: functions of
  the client, which has its user name and password, to a return code. The checks of the password file
  are one of the callbacks.
\<close>

section \<open>The plugins of a listener or of the broker\<close>

text \<open>
  A plugin of an old interface version, with its check of user names: one of version 4 may have none.
  The functions of extended authentication may be missing in any version; they get the data of the
  client and whether it authenticates again, and give data for the client.
\<close>

type_synonym auth_answer = "rc \<times> bytes"

record login_plugin =
  lp_version :: int
  lp_unpwd_check_v4 :: "(mosquitto \<Rightarrow> rc) option"
  lp_unpwd_check :: "mosquitto \<Rightarrow> rc"
  lp_auth_start_v4 :: "(mosquitto \<Rightarrow> bool \<Rightarrow> bytes \<Rightarrow> auth_answer) option"
  lp_auth_continue_v4 :: "(mosquitto \<Rightarrow> bytes \<Rightarrow> auth_answer) option"

record login_options =
  lo_basic_auth :: "(mosquitto \<Rightarrow> rc) list"
  lo_ext_auth_start :: "(mosquitto \<Rightarrow> bytes \<Rightarrow> auth_answer) list"
  lo_ext_auth_continue :: "(mosquitto \<Rightarrow> bytes \<Rightarrow> auth_answer) list"
  lo_plugins :: "login_plugin list"

record login_env =
  le_options :: login_options
  le_listener_options :: "mosquitto \<Rightarrow> login_options"

definition login_options_of :: "login_env \<Rightarrow> config \<Rightarrow> mosquitto \<Rightarrow> login_options" where
  "login_options_of env cf context =
    (if cf_per_listener_settings cf then le_listener_options env context else le_options env)"

section \<open>User names and passwords\<close>

definition allow_anonymous :: "config \<Rightarrow> mosquitto \<Rightarrow> bool res" where
  "allow_anonymous cf context =
    (if cf_per_listener_settings cf
     then (case mq_listener context of None \<Rightarrow> Fault | Some listener \<Rightarrow> Ok (li_allow_anonymous listener))
     else Ok (cf_allow_anonymous cf))"

text \<open>The loop over the plugins: the answer of each replaces that of the one before.\<close>

fun unpwd_loop :: "login_plugin list \<Rightarrow> mosquitto \<Rightarrow> rc \<times> bool \<Rightarrow> rc \<times> bool" where
  "unpwd_loop [] context (rc, plugin_used) = (rc, plugin_used)"
| "unpwd_loop (p # ps) context (rc, plugin_used) =
    unpwd_loop ps context
      (if lp_version p = 4 \<and> lp_unpwd_check_v4 p \<noteq> None then (the (lp_unpwd_check_v4 p) context, True)
       else if lp_version p = 3 \<or> lp_version p = 2 then (lp_unpwd_check p context, True)
       else (rc, plugin_used))"

definition mosquitto_unpwd_check :: "login_env \<Rightarrow> config \<Rightarrow> mosquitto \<Rightarrow> rc res" where
  "mosquitto_unpwd_check env cf context =
    (if cf_per_listener_settings cf \<and> mq_listener context = None then Ok MOSQ_ERR_AUTH
     else
       let opts = login_options_of env cf context in
       case ask_plugins (map (\<lambda>cb _. cb context) (lo_basic_auth opts)) MOSQ_ERR_PLUGIN_DEFER of
         Inl rc \<Rightarrow> Ok rc
       | Inr rc \<Rightarrow>
           case unpwd_loop (lo_plugins opts) context (rc, lo_basic_auth opts \<noteq> []) of (rc, plugin_used) \<Rightarrow>
             res_bind (allow_anonymous cf context) (\<lambda>anonymous.
               if \<not> plugin_used then Ok (if anonymous then MOSQ_ERR_SUCCESS else MOSQ_ERR_AUTH)
               else if rc = MOSQ_ERR_PLUGIN_DEFER then
                 Ok (if mq_username context = None \<and> anonymous then MOSQ_ERR_SUCCESS else MOSQ_ERR_AUTH)
               else Ok rc))"

section \<open>Extended authentication\<close>

text \<open>The callbacks, until one does not defer.\<close>

fun ask_auth :: "(mosquitto \<Rightarrow> bytes \<Rightarrow> auth_answer) list \<Rightarrow> mosquitto \<Rightarrow> bytes \<Rightarrow> auth_answer option" where
  "ask_auth [] context data_in = None"
| "ask_auth (cb # cbs) context data_in =
    (case cb context data_in of (rc, data_out) \<Rightarrow>
       if rc \<noteq> MOSQ_ERR_PLUGIN_DEFER then Some (rc, data_out) else ask_auth cbs context data_in)"

text \<open>The plugins, until one supports the method. The data of the last that was asked stays.\<close>

fun auth_plugins :: "(mosquitto \<Rightarrow> bytes \<Rightarrow> auth_answer) option list \<Rightarrow> mosquitto \<Rightarrow> bytes \<Rightarrow> bytes \<Rightarrow> auth_answer" where
  "auth_plugins [] context data_in data_out = (MOSQ_ERR_NOT_SUPPORTED, data_out)"
| "auth_plugins (None # ps) context data_in data_out = auth_plugins ps context data_in data_out"
| "auth_plugins (Some p # ps) context data_in data_out =
    (case p context data_in of (rc, data_out) \<Rightarrow>
       if rc \<noteq> MOSQ_ERR_NOT_SUPPORTED then (rc, data_out) else auth_plugins ps context data_in data_out)"

definition mosquitto_security_auth_start ::
    "login_env \<Rightarrow> config \<Rightarrow> mosquitto \<Rightarrow> bool \<Rightarrow> bytes \<Rightarrow> auth_answer" where
  "mosquitto_security_auth_start env cf context reauth data_in =
    (if mq_listener context = None \<or> mq_auth_method context = None then (MOSQ_ERR_INVAL, [])
     else
       let opts = login_options_of env cf context in
       case ask_auth (lo_ext_auth_start opts) context data_in of
         Some answer \<Rightarrow> answer
       | None \<Rightarrow>
           auth_plugins (map (\<lambda>p. map_option (\<lambda>f m. f m reauth) (lp_auth_start_v4 p)) (lo_plugins opts)) context data_in [])"

definition mosquitto_security_auth_continue ::
    "login_env \<Rightarrow> config \<Rightarrow> mosquitto \<Rightarrow> bytes \<Rightarrow> auth_answer" where
  "mosquitto_security_auth_continue env cf context data_in =
    (if mq_listener context = None \<or> mq_auth_method context = None then (MOSQ_ERR_INVAL, [])
     else
       let opts = login_options_of env cf context in
       case ask_auth (lo_ext_auth_continue opts) context data_in of
         Some answer \<Rightarrow> answer
       | None \<Rightarrow> auth_plugins (map lp_auth_continue_v4 (lo_plugins opts)) context data_in [])"

section \<open>Who decides\<close>

text \<open>The answers of the plugins that have a check, in their order.\<close>

definition plugin_answers :: "login_plugin list \<Rightarrow> mosquitto \<Rightarrow> rc list" where
  "plugin_answers ps context =
    map (\<lambda>p. if lp_version p = 4 then the (lp_unpwd_check_v4 p) context else lp_unpwd_check p context)
      (filter (\<lambda>p. lp_version p = 4 \<and> lp_unpwd_check_v4 p \<noteq> None \<or> lp_version p = 3 \<or> lp_version p = 2) ps)"

lemma unpwd_loop_answers:
  "unpwd_loop ps context (rc, used) =
     (if plugin_answers ps context = [] then (rc, used) else (last (plugin_answers ps context), True))"
  by (induction ps arbitrary: rc used) (auto simp: plugin_answers_def)


text \<open>Two plugins, of which the first refuses the client and the second lets it in.\<close>

definition two_plugins :: login_env where
  "two_plugins = (let p = \<lambda>rc. \<lparr> lp_version = 4, lp_unpwd_check_v4 = Some (\<lambda>_. rc), lp_unpwd_check = \<lambda>_. rc,
       lp_auth_start_v4 = None, lp_auth_continue_v4 = None \<rparr>;
     opts = \<lparr> lo_basic_auth = [], lo_ext_auth_start = [], lo_ext_auth_continue = [],
       lo_plugins = [p MOSQ_ERR_AUTH, p MOSQ_ERR_SUCCESS] \<rparr>
   in \<lparr> le_options = opts, le_listener_options = \<lambda>_. opts \<rparr>)"


end
