(* ===== verification/Handle_Connect.thy ===== *)
theory Handle_Connect
  imports Sessions Authentication Property_Lists
begin

text \<open>
  CONNECT (\<^verbatim>\<open>src/handle_connect.c\<close>, \<^verbatim>\<open>src/property_broker.c\<close>): reading the packet, with the
  bit of its flags that this program uses for a \<open>threshold_l\<close> behind the payload, the
  authentication, and the session that a client takes over from its earlier connection. Clients
  whose name comes from a TLS certificate are not modelled; random bytes and plugins are arguments.
\<close>

section \<open>Steps that may end the handler\<close>

text \<open>
  A step of the handler works on the client and gives a value, or ends the handler at its label
  \<open>handle_connect_error\<close> with a return code.
\<close>

type_synonym 'a conn = "mosquitto \<Rightarrow> ((rc + 'a) \<times> mosquitto) res"

definition conn_bind :: "'a conn \<Rightarrow> ('a \<Rightarrow> 'b conn) \<Rightarrow> 'b conn" where
  "conn_bind m f context =
    (res_bind (m context) (\<lambda>(r, context).
     case r of Inl rc \<Rightarrow> Ok (Inl rc, context) | Inr x \<Rightarrow> f x context))"

definition conn_ok :: "'a \<Rightarrow> 'a conn" where
  "conn_ok x context =
    (Ok (Inr x, context))"

definition conn_fail :: "rc \<Rightarrow> 'a conn" where
  "conn_fail rc context =
    (Ok (Inl rc, context))"

definition conn_get :: "(mosquitto \<Rightarrow> 'a conn) \<Rightarrow> 'a conn" where
  "conn_get f context =
    (f context context)"

definition conn_put :: "(mosquitto \<Rightarrow> mosquitto) \<Rightarrow> unit conn" where
  "conn_put f context =
    (Ok (Inr (), f context))"

text \<open>A CONNACK that refuses the client.\<close>

definition conn_refuse :: "db \<Rightarrow> u8 \<Rightarrow> rc \<Rightarrow> 'a conn" where
  "conn_refuse d reason rc context =
    (res_bind (send__connack d context 0 reason []) (\<lambda>(_, context). Ok (Inl rc, context)))"

text \<open>Reading from the packet, with the return code that an error becomes.\<close>

definition conn_read :: "(packet \<Rightarrow> ('a \<times> packet) res) \<Rightarrow> (rc \<Rightarrow> rc) \<Rightarrow> 'a conn" where
  "conn_read read err context =
    (case read (mq_in_packet context) of
     Ok (x, p) \<Rightarrow> Ok (Inr x, context\<lparr>mq_in_packet := p\<rparr>) | Err rc \<Rightarrow> Ok (Inl (err rc), context) | Fault \<Rightarrow> Fault)"

abbreviation protocol_error :: "rc \<Rightarrow> rc" where
  "protocol_error \<equiv> \<lambda>_. MOSQ_ERR_PROTOCOL"

text \<open>The listener of the client, which the handler has checked to be there.\<close>

definition conn_listener :: "(listener \<Rightarrow> 'a conn) \<Rightarrow> 'a conn" where
  "conn_listener f context =
    (case mq_listener context of None \<Rightarrow> Fault | Some listener \<Rightarrow> f listener context)"

section \<open>Properties\<close>

fun property__process_connect :: "mosquitto_property list \<Rightarrow> mosquitto \<Rightarrow> rc \<times> mosquitto" where
  "property__process_connect [] context = (MOSQ_ERR_SUCCESS, context)"
| "property__process_connect (p # ps) context =
    (if pr_identifier p = MQTT_PROP_SESSION_EXPIRY_INTERVAL then
       property__process_connect ps (context\<lparr>mq_session_expiry_interval := pr_i32 p\<rparr>)
     else if pr_identifier p = MQTT_PROP_RECEIVE_MAXIMUM then
       (if pr_i16 p = 0 then (MOSQ_ERR_PROTOCOL, context)
        else property__process_connect ps (context\<lparr>mq_msgs_out := (mq_msgs_out context)
               \<lparr>md_inflight_maximum := pr_i16 p, md_inflight_quota := uint (pr_i16 p)\<rparr>\<rparr>))
     else if pr_identifier p = MQTT_PROP_MAXIMUM_PACKET_SIZE then
       (if pr_i32 p = 0 then (MOSQ_ERR_PROTOCOL, context)
        else property__process_connect ps (context\<lparr>mq_maximum_packet_size := pr_i32 p\<rparr>))
     else property__process_connect ps context)"

text \<open>The properties of a will: those that are sent with it, its delay and its expiry.\<close>

fun will_props_loop ::
    "mosquitto_property list \<Rightarrow> mosquitto \<Rightarrow> u32 \<Rightarrow> mosquitto_property list \<Rightarrow> rc \<times> mosquitto \<times> u32 \<times> mosquitto_property list" where
  "will_props_loop [] context expiry props = (MOSQ_ERR_SUCCESS, context, expiry, props)"
| "will_props_loop (p # ps) context expiry props =
    (if pr_identifier p \<in> {MQTT_PROP_CONTENT_TYPE, MQTT_PROP_CORRELATION_DATA, MQTT_PROP_PAYLOAD_FORMAT_INDICATOR,
          MQTT_PROP_RESPONSE_TOPIC, MQTT_PROP_USER_PROPERTY}
     then will_props_loop ps context expiry (props @ [p])
     else if pr_identifier p = MQTT_PROP_WILL_DELAY_INTERVAL
     then will_props_loop ps (context\<lparr>mq_will_delay_interval := pr_i32 p\<rparr>) expiry props
     else if pr_identifier p = MQTT_PROP_MESSAGE_EXPIRY_INTERVAL then will_props_loop ps context (pr_i32 p) props
     else (MOSQ_ERR_PROTOCOL, context, expiry, props))"

definition property__process_will :: "mosquitto_property list \<Rightarrow> will_message \<Rightarrow> will_message conn" where
  "property__process_will props msg context =
    (case will_props_loop props context (wm_expiry_interval msg) [] of (rc, context, expiry, msg_properties) \<Rightarrow>
      if rc \<noteq> 0 then Ok (Inl rc, context)
      else Ok (Inr (msg\<lparr>wm_expiry_interval := expiry, wm_properties := msg_properties\<rparr>), context))"

section \<open>The will\<close>

definition will_zero :: will_message where
  "will_zero = \<lparr> wm_topic = None, wm_payload = [], wm_payloadlen = 0, wm_qos = 0, wm_retain = False,
     wm_properties = [], wm_expiry_interval = 0 \<rparr>"

definition will__read :: "db \<Rightarrow> u8 \<Rightarrow> bool \<Rightarrow> will_message conn" where
  "will__read d will_qos will_retain context =
    conn_bind (conn_get (\<lambda>context. if mq_protocol context = mosq_p_mqtt5
      then conn_bind (conn_read (property__read_all CMD_WILL) (\<lambda>rc. rc)) (\<lambda>properties. property__process_will properties will_zero)
      else conn_ok will_zero)) (\<lambda>will.
    conn_bind (conn_read packet__read_string (\<lambda>rc. rc)) (\<lambda>topic.
    if topic = [] then conn_fail MOSQ_ERR_PROTOCOL
    else conn_get (\<lambda>context.
      let topic = (case mq_mount_point context of None \<Rightarrow> [] | Some mp \<Rightarrow> mp) @ string_of_bytes topic;
          rc = mosquitto_pub_topic_check (Some topic)
      in if rc \<noteq> 0 then conn_fail rc
      else
        conn_bind (conn_read packet__read_uint16 (\<lambda>rc. rc)) (\<lambda>payloadlen.
        let limit = cf_message_size_limit (db_config d) in
        if payloadlen > 0 \<and> limit \<noteq> 0 \<and> uint payloadlen > sint limit then
          conn_get (\<lambda>context. conn_refuse d
            (if mq_protocol context = mosq_p_mqtt5 then MQTT_RC_PACKET_TOO_LARGE else CONNACK_REFUSED_NOT_AUTHORIZED)
            MOSQ_ERR_PAYLOAD_SIZE)
        else
          conn_bind (if payloadlen > 0 then conn_read (\<lambda>p. packet__read_bytes p (ucast payloadlen)) (\<lambda>rc. rc) else conn_ok [])
            (\<lambda>payload.
          conn_ok (will\<lparr>wm_topic := Some topic, wm_payload := payload, wm_payloadlen := uint payloadlen,
            wm_qos := will_qos, wm_retain := will_retain\<rparr>)))))) context"

section \<open>Reading the packet\<close>

text \<open>The name and version of the protocol. The name is compared as a string that ends at its first NUL.\<close>

definition connect_protocol :: "db \<Rightarrow> u8 conn" where
  "connect_protocol d context =
    conn_bind (conn_read packet__read_uint16 protocol_error) (\<lambda>slen.
    if slen \<noteq> 4 \<and> slen \<noteq> 6 then conn_fail MOSQ_ERR_PROTOCOL
    else
      conn_bind (conn_read (\<lambda>p. packet__read_bytes p (ucast slen)) protocol_error) (\<lambda>name.
      conn_bind (conn_read packet__read_byte protocol_error) (\<lambda>version.
      let protocol_name = string_of_bytes (takeWhile (\<lambda>b. b \<noteq> 0) name);
          set_bridge = (\<lambda>context. if version AND 0x80 = 0x80 then context\<lparr>mq_is_bridge := True\<rparr> else context)
      in
        if protocol_name = ''MQIsdp'' then
          (if version AND 0x7F \<noteq> 3 then conn_refuse d CONNACK_REFUSED_PROTOCOL_VERSION MOSQ_ERR_PROTOCOL
           else conn_bind (conn_put (\<lambda>context. set_bridge (context\<lparr>mq_protocol := mosq_p_mqtt31\<rparr>))) (\<lambda>_. conn_ok version))
        else if protocol_name = ''MQTT'' then
          conn_bind
            (if version AND 0x7F = 4 then conn_put (\<lambda>context. set_bridge (context\<lparr>mq_protocol := mosq_p_mqtt311\<rparr>))
             else if version AND 0x7F = 5 then conn_put (\<lambda>context. context\<lparr>mq_protocol := mosq_p_mqtt5\<rparr>)
             else conn_refuse d CONNACK_REFUSED_PROTOCOL_VERSION MOSQ_ERR_PROTOCOL) (\<lambda>_.
          conn_get (\<lambda>context. if pk_command (mq_in_packet context) AND 0x0F \<noteq> 0 then conn_fail MOSQ_ERR_PROTOCOL
            else conn_ok version))
        else conn_fail MOSQ_ERR_PROTOCOL))) context"

text \<open>
  The flags, the keep alive interval and the properties. The test of the reserved bit, which is
  the flag of the threshold in this program, has a mask that is always 0.
\<close>

record connect_flags =
  fl_clean_start :: bool
  fl_threshold_l :: bool
  fl_will :: bool
  fl_will_qos :: u8
  fl_will_retain :: bool
  fl_password :: bool
  fl_username :: bool

definition flags_of :: "u8 \<Rightarrow> connect_flags" where
  "flags_of flags = \<lparr> fl_clean_start = (drop_bit 1 (flags AND 0x02) \<noteq> 0), fl_threshold_l = (flags AND 0x01 \<noteq> 0),
     fl_will = (flags AND 0x04 \<noteq> 0), fl_will_qos = drop_bit 3 (flags AND 0x18), fl_will_retain = (flags AND 0x20 = 0x20),
     fl_password = (flags AND 0x40 \<noteq> 0), fl_username = (flags AND 0x80 \<noteq> 0) \<rparr>"

definition connect_header :: "db \<Rightarrow> u8 \<Rightarrow> connect_flags conn" where
  "connect_header d version context =
    conn_bind (conn_read packet__read_byte protocol_error) (\<lambda>flags.
    conn_get (\<lambda>context.
    if (mq_protocol context = mosq_p_mqtt311 \<or> mq_protocol context = mosq_p_mqtt5) \<and> flags AND 0x00 \<noteq> 0x00
    then conn_fail MOSQ_ERR_PROTOCOL
    else
      let fl = flags_of flags in
      conn_bind (conn_put (\<lambda>context. context\<lparr>mq_session_expiry_interval :=
        (if \<not> fl_clean_start fl \<and> version \<noteq> 5 then 0xFFFFFFFF else 0)\<rparr>)) (\<lambda>_.
      if fl_will_qos fl = 3 then conn_fail MOSQ_ERR_PROTOCOL
      else if fl_will fl \<and> fl_will_retain fl \<and> \<not> cf_retain_available (db_config d) then
        (if version = 5 then conn_refuse d MQTT_RC_RETAIN_NOT_SUPPORTED MOSQ_ERR_NOT_SUPPORTED
         else conn_fail MOSQ_ERR_NOT_SUPPORTED)
      else
        conn_bind (conn_read packet__read_uint16 protocol_error) (\<lambda>keepalive.
        conn_bind (conn_put (\<lambda>context. context\<lparr>mq_keepalive := keepalive\<rparr>)) (\<lambda>_. conn_ok fl))))) context"

definition connect_properties :: "db \<Rightarrow> u8 \<Rightarrow> connect_flags \<Rightarrow> bytes conn" where
  "connect_properties d version fl context =
    conn_bind (if version = 5 then conn_read (property__read_all 0x10) (\<lambda>rc. rc) else conn_ok []) (\<lambda>properties.
    conn_bind (conn_put (\<lambda>context. snd (property__process_connect properties context))) (\<lambda>_.
    conn_listener (\<lambda>listener.
    if fl_will fl \<and> fl_will_qos fl > li_max_qos listener then
      (if version = 5 then conn_refuse d MQTT_RC_QOS_NOT_SUPPORTED MOSQ_ERR_NOT_SUPPORTED
       else conn_fail MOSQ_ERR_NOT_SUPPORTED)
    else
      case mosquitto_property_read_string properties MQTT_PROP_AUTHENTICATION_METHOD False of
        None \<Rightarrow> conn_ok []
      | Some (_, auth_method) \<Rightarrow>
          conn_bind (conn_put (\<lambda>context. context\<lparr>mq_auth_method := Some (string_of_bytes auth_method)\<rparr>)) (\<lambda>_.
          conn_ok (case mosquitto_property_read_binary properties MQTT_PROP_AUTHENTICATION_DATA False of
              None \<Rightarrow> [] | Some (_, auth_data, _) \<Rightarrow> auth_data))))) context"

text \<open>Names for clients that have none: sixteen random bytes in hexadecimal, low digit first.\<close>

definition nibble_to_hex :: "u8 \<Rightarrow> char" where
  "nibble_to_hex v = (if v < 0x0A then char_of_byte (48 + v) else char_of_byte (65 + v - 10))"

fun id_gen_loop :: "nat \<Rightarrow> bytes \<Rightarrow> string" where
  "id_gen_loop pos [] = []"
| "id_gen_loop pos (r # rnd) =
    nibble_to_hex (r AND 0x0F) # nibble_to_hex (drop_bit 4 r AND 0x0F) #
    (if pos + 2 \<in> {8, 13, 18, 23} then CHR ''-'' # id_gen_loop (pos + 3) rnd else id_gen_loop (pos + 2) rnd)"

definition client_id_gen :: "bytes option \<Rightarrow> string option \<Rightarrow> string option" where
  "client_id_gen rnd auto_id_prefix =
    map_option (\<lambda>rnd. (case auto_id_prefix of None \<Rightarrow> [] | Some pre \<Rightarrow> pre) @ id_gen_loop 0 (take 16 rnd)) rnd"

definition connect_id :: "db \<Rightarrow> bytes option \<Rightarrow> bool \<Rightarrow> string conn" where
  "connect_id d rnd clean_start context =
    conn_bind (conn_read packet__read_string protocol_error) (\<lambda>clid.
    conn_get (\<lambda>context.
    if clid \<noteq> [] then conn_ok (string_of_bytes clid)
    else if mq_protocol context = mosq_p_mqtt31 then conn_refuse d CONNACK_REFUSED_IDENTIFIER_REJECTED MOSQ_ERR_PROTOCOL
    else conn_listener (\<lambda>listener.
      let cf = db_config d;
          allow = (if cf_per_listener_settings cf then li_allow_zero_length_clientid listener
                   else cf_allow_zero_length_clientid cf)
      in if mq_protocol context = mosq_p_mqtt311 \<and> \<not> clean_start \<or> \<not> allow then
           conn_refuse d (if mq_protocol context = mosq_p_mqtt311 then CONNACK_REFUSED_IDENTIFIER_REJECTED
             else MQTT_RC_UNSPECIFIED) MOSQ_ERR_PROTOCOL
         else
           case client_id_gen rnd (if cf_per_listener_settings cf then li_auto_id_prefix listener else cf_auto_id_prefix cf) of
             None \<Rightarrow> conn_fail MOSQ_ERR_NOMEM
           | Some gen_id \<Rightarrow>
               conn_bind (conn_put (\<lambda>context. context\<lparr>mq_assigned_id := True\<rparr>)) (\<lambda>_. conn_ok gen_id)))) context"

definition connect_prefix :: "db \<Rightarrow> string \<Rightarrow> unit conn" where
  "connect_prefix d clid context =
    (case cf_clientid_prefixes (db_config d) of None \<Rightarrow> conn_ok ()
     | Some pre \<Rightarrow>
         if take (length pre) clid \<noteq> pre then
           conn_get (\<lambda>context. conn_refuse d
             (if mq_protocol context = mosq_p_mqtt5 then MQTT_RC_NOT_AUTHORIZED else CONNACK_REFUSED_NOT_AUTHORIZED) MOSQ_ERR_AUTH)
         else conn_ok ()) context"

definition connect_will :: "db \<Rightarrow> connect_flags \<Rightarrow> will_message option conn" where
  "connect_will d fl context =
    (if fl_will fl then conn_bind (will__read d (fl_will_qos fl) (fl_will_retain fl)) (\<lambda>will. conn_ok (Some will))
     else conn_get (\<lambda>context.
       if (mq_protocol context = mosq_p_mqtt311 \<or> mq_protocol context = mosq_p_mqtt5) \<and>
          (fl_will_qos fl \<noteq> 0 \<or> fl_will_retain fl)
       then conn_fail MOSQ_ERR_PROTOCOL else conn_ok None)) context"

text \<open>
  Where a failed read leaves the packet, which matters only with MQTT 3.1: there the handler goes on
  without the user name or password.
\<close>

definition after_failed_read :: "packet \<Rightarrow> packet" where
  "after_failed_read p =
    (case packet__read_uint16 p of
       Ok (slen, p) \<Rightarrow> if pk_pos p + ucast slen > pk_remaining_length p then p else p\<lparr>pk_pos := pk_pos p + ucast slen\<rparr>
     | _ \<Rightarrow> p)"

definition connect_optional :: "(packet \<Rightarrow> (bytes \<times> packet) res) \<Rightarrow> bytes conn" where
  "connect_optional read context =
    (case read (mq_in_packet context) of
      Ok (x, p) \<Rightarrow> Ok (Inr x, context\<lparr>mq_in_packet := p\<rparr>)
    | Fault \<Rightarrow> Fault
    | Err rc \<Rightarrow>
        if mq_protocol context = mosq_p_mqtt31
        then Ok (Inr [], context\<lparr>mq_in_packet := after_failed_read (mq_in_packet context)\<rparr>)
        else Ok (Inl MOSQ_ERR_PROTOCOL, context))"

definition connect_username :: "connect_flags \<Rightarrow> string option conn" where
  "connect_username fl context =
    (if fl_username fl then conn_bind (connect_optional packet__read_string)
       (\<lambda>username. conn_ok (if username = [] then None else Some (string_of_bytes username)))
     else conn_get (\<lambda>context.
       if (mq_protocol context = mosq_p_mqtt311 \<or> mq_protocol context = mosq_p_mqtt31) \<and> fl_password fl
       then conn_fail MOSQ_ERR_PROTOCOL else conn_ok None)) context"

definition connect_password :: "connect_flags \<Rightarrow> bytes option conn" where
  "connect_password fl context =
    (if fl_password fl then conn_bind (connect_optional packet__read_binary)
       (\<lambda>password. conn_ok (if password = [] then None else Some password))
     else conn_ok None) context"

definition connect_threshold :: "connect_flags \<Rightarrow> unit conn" where
  "connect_threshold fl context =
    (if fl_threshold_l fl then
       conn_bind (conn_read packet__read_uint32 protocol_error) (\<lambda>threshold_l.
       conn_put (\<lambda>context. context\<lparr>mq_threshold_l := threshold_l\<rparr>))
     else conn_ok ()) context"

text \<open>All of the packet, up to the point where the client gets its name.\<close>

record connect_data =
  cd_clean_start :: bool
  cd_id :: string
  cd_will :: "will_message option"
  cd_username :: "string option"
  cd_password :: "bytes option"
  cd_auth_data :: bytes

definition connect_read :: "db \<Rightarrow> bytes option \<Rightarrow> connect_data conn" where
  "connect_read d rnd context =
    conn_bind (connect_protocol d) (\<lambda>version.
    conn_bind (connect_header d version) (\<lambda>fl.
    conn_bind (connect_properties d version fl) (\<lambda>auth_data.
    conn_bind (connect_id d rnd (fl_clean_start fl)) (\<lambda>clid.
    conn_bind (connect_prefix d clid) (\<lambda>_.
    conn_bind (connect_will d fl) (\<lambda>will.
    conn_bind (connect_username fl) (\<lambda>username.
    conn_bind (connect_password fl) (\<lambda>password.
    conn_bind (connect_threshold fl) (\<lambda>_.
    conn_get (\<lambda>context.
    if pk_pos (mq_in_packet context) \<noteq> pk_remaining_length (mq_in_packet context) then conn_fail MOSQ_ERR_PROTOCOL
    else conn_ok \<lparr> cd_clean_start = fl_clean_start fl, cd_id = clid, cd_will = will, cd_username = username,
      cd_password = password, cd_auth_data = auth_data \<rparr>)))))))))) context"

section \<open>Taking a session over\<close>

text \<open>
  Messages that the client may no longer get or send are dropped from a list, whose other messages
  are \<open>kept\<close> so far; \<open>set_list\<close> puts a list into the client. The counters of the client stay.
\<close>

fun check_acl_loop ::
    "acl_env \<Rightarrow> (mosquitto_client_msg list \<Rightarrow> mosquitto) \<Rightarrow> db \<Rightarrow> mosquitto_client_msg list \<Rightarrow> mosquitto_client_msg list \<Rightarrow>
     (db \<times> mosquitto_client_msg list) res" where
  "check_acl_loop env set_list d kept [] = Ok (d, kept)"
| "check_acl_loop env set_list d kept (msg # msgs) =
    (case store_at d (cm_store msg) of None \<Rightarrow> Fault
     | Some st \<Rightarrow>
         (case ms_topic st of None \<Rightarrow> Fault
          | Some topic \<Rightarrow>
              if mosquitto_acl_check env (db_config d) (set_list (kept @ msg # msgs)) topic (ms_payloadlen st) (ms_payload st)
                   (ms_qos st) (ms_retain st) (if cm_direction msg = mosq_md_out then MOSQ_ACL_READ else MOSQ_ACL_WRITE)
                 \<noteq> MOSQ_ERR_SUCCESS
              then res_bind (db__msg_store_ref_dec d (cm_store msg)) (\<lambda>d. check_acl_loop env set_list d kept msgs)
              else check_acl_loop env set_list d (kept @ [msg]) msgs))"

definition connection_check_acl ::
    "acl_env \<Rightarrow> (mosquitto \<Rightarrow> mosquitto_client_msg list) \<Rightarrow> (mosquitto \<Rightarrow> mosquitto_client_msg list \<Rightarrow> mosquitto) \<Rightarrow>
     db \<Rightarrow> mosquitto \<Rightarrow> (unit \<times> db \<times> mosquitto) res" where
  "connection_check_acl env get_list set_list d context =
    res_bind (check_acl_loop env (set_list context) d [] (get_list context)) (\<lambda>(d, msgs). Ok ((), d, set_list context msgs))"

text \<open>The four lists that are checked.\<close>

definition check_all_acls :: "acl_env \<Rightarrow> server \<Rightarrow> client \<Rightarrow> server res" where
  "check_all_acls env s c =
    res_bind (on_broker s (\<lambda>b. on_client b c (connection_check_acl env (\<lambda>m. md_inflight (mq_msgs_in m))
      (\<lambda>m l. m\<lparr>mq_msgs_in := (mq_msgs_in m)\<lparr>md_inflight := l\<rparr>\<rparr>)))) (\<lambda>(_, s).
    res_bind (on_broker s (\<lambda>b. on_client b c (connection_check_acl env (\<lambda>m. md_queued (mq_msgs_in m))
      (\<lambda>m l. m\<lparr>mq_msgs_in := (mq_msgs_in m)\<lparr>md_queued := l\<rparr>\<rparr>)))) (\<lambda>(_, s).
    res_bind (on_broker s (\<lambda>b. on_client b c (connection_check_acl env (\<lambda>m. md_inflight (mq_msgs_out m))
      (\<lambda>m l. m\<lparr>mq_msgs_out := (mq_msgs_out m)\<lparr>md_inflight := l\<rparr>\<rparr>)))) (\<lambda>(_, s).
    res_bind (on_broker s (\<lambda>b. on_client b c (connection_check_acl env (\<lambda>m. md_queued (mq_msgs_out m))
      (\<lambda>m l. m\<lparr>mq_msgs_out := (mq_msgs_out m)\<lparr>md_queued := l\<rparr>\<rparr>)))) (\<lambda>(_, s). Ok s))))"

text \<open>The subscriptions of a session get the address of its new client.\<close>

definition rename_leaf :: "client \<Rightarrow> client \<Rightarrow> subleaf list \<Rightarrow> subleaf list" where
  "rename_leaf old new = map (\<lambda>leaf. if sl_context leaf = old then leaf\<lparr>sl_context := new\<rparr> else leaf)"

fun relink_walk :: "client \<Rightarrow> client \<Rightarrow> string option \<Rightarrow> string list \<Rightarrow> subhier \<Rightarrow> subhier res" where
  "relink_walk old new shared [] hier =
    (let hier = Subhier (sh_children hier) (rename_leaf old new (sh_subs hier)) (sh_shared hier) in
     case shared of None \<Rightarrow> Ok hier
     | Some name \<Rightarrow>
         (case map_of (sh_shared hier) name of None \<Rightarrow> Fault
          | Some subs \<Rightarrow> Ok (Subhier (sh_children hier) (sh_subs hier)
              (AList.update name (rename_leaf old new subs) (sh_shared hier)))))"
| "relink_walk old new shared (t # ts) hier =
    (case map_of (sh_children hier) t of None \<Rightarrow> Fault
     | Some branch \<Rightarrow> res_bind (relink_walk old new shared ts branch) (\<lambda>branch. Ok (set_child hier t branch)))"

fun relink_loop :: "client \<Rightarrow> client \<Rightarrow> client_sub option list \<Rightarrow> broker \<Rightarrow> broker res" where
  "relink_loop old new [] b = Ok b"
| "relink_loop old new (None # subs) b = relink_loop old new subs b"
| "relink_loop old new (Some csub # subs) b =
    (case cs_hier csub of [] \<Rightarrow> Fault
     | first # path \<Rightarrow>
       (case map_of (bk_subs b) first of None \<Rightarrow> Fault
        | Some hier \<Rightarrow>
            res_bind (relink_walk old new (cs_shared csub) path hier) (\<lambda>hier.
            relink_loop old new subs (b\<lparr>bk_subs := AList.update first hier (bk_subs b)\<rparr>))))"

definition move_msgs :: "mosquitto_msg_data \<Rightarrow> mosquitto_msg_data \<Rightarrow> mosquitto_msg_data" where
  "move_msgs own found = found\<lparr>md_inflight_quota := md_inflight_quota own, md_inflight_maximum := md_inflight_maximum own\<rparr>"

text \<open>The messages and subscriptions of the session; nothing is moved for a session with only stored messages.\<close>

definition take_messages :: "server \<Rightarrow> client \<Rightarrow> client \<Rightarrow> server res" where
  "take_messages s c found =
    res_bind (the_client s c) (\<lambda>context.
    res_bind (the_client s found) (\<lambda>found_context.
      if md_inflight (mq_msgs_in found_context) \<noteq> [] \<or> md_queued (mq_msgs_in found_context) \<noteq> [] \<or>
         md_inflight (mq_msgs_out found_context) \<noteq> [] \<or> md_queued (mq_msgs_out found_context) \<noteq> [] then
        let s = sv_put s c (context\<lparr>mq_msgs_in := move_msgs (mq_msgs_in context) (mq_msgs_in found_context),
                  mq_msgs_out := move_msgs (mq_msgs_out context) (mq_msgs_out found_context)\<rparr>);
            s = sv_put s found (found_context\<lparr>mq_msgs_in := msg_data_zero, mq_msgs_out := msg_data_zero\<rparr>)
        in res_bind (on_broker s (\<lambda>b. on_client b c db__message_reconnect_reset)) (\<lambda>(_, s). Ok s)
      else Ok s))"

definition take_subs :: "server \<Rightarrow> client \<Rightarrow> client \<Rightarrow> server res" where
  "take_subs s c found =
    res_bind (the_client s c) (\<lambda>context.
    res_bind (the_client s found) (\<lambda>found_context.
      let s = sv_put s c (context\<lparr>mq_subs := mq_subs found_context, mq_last_mid := mq_last_mid found_context\<rparr>);
          s = sv_put s found (found_context\<lparr>mq_subs := []\<rparr>)
      in res_bind (relink_loop found c (mq_subs found_context) (sv_broker s)) (\<lambda>b. Ok (s\<lparr>sv_broker := b\<rparr>))))"

text \<open>The end of the earlier connection.\<close>

definition end_found :: "acl_env \<Rightarrow> server \<Rightarrow> client \<Rightarrow> client \<Rightarrow> server res" where
  "end_found env s c found =
    res_bind (the_client s c) (\<lambda>context.
    res_bind (if mq_clean_start context then on_broker s (\<lambda>b. sub__clean_session b found) else Ok (MOSQ_ERR_SUCCESS, s)) (\<lambda>(_, s).
    res_bind (the_client s found) (\<lambda>found_context.
    res_bind
      (if mq_protocol found_context = mosq_p_mqtt5 \<and> mq_session_expiry_interval found_context = 0 \<or>
          mq_protocol found_context \<noteq> mosq_p_mqtt5 \<and> mq_clean_start found_context \<or> mq_clean_start context
       then context__send_will env s found else Ok s) (\<lambda>s.
    res_bind (session_expiry__remove s found) (\<lambda>s.
    res_bind (will_delay__remove s found) (\<lambda>s.
    res_bind (change s found (\<lambda>found_context. mosquitto__set_state
        ((will__clear found_context)\<lparr>mq_clean_start := True, mq_session_expiry_interval := 0\<rparr>) mosq_cs_duplicate)) (\<lambda>s.
    do_disconnect env s found MOSQ_ERR_SUCCESS)))))))"

definition take_over :: "acl_env \<Rightarrow> server \<Rightarrow> client \<Rightarrow> client \<Rightarrow> (u8 \<times> server) res" where
  "take_over env s c found =
    res_bind (the_client s c) (\<lambda>context.
    res_bind (the_client s found) (\<lambda>found_context.
    res_bind
      (if \<not> mq_clean_start context \<and> mq_session_expiry_interval found_context > 0 then
         res_bind (take_messages s c found) (\<lambda>s. res_bind (take_subs s c found) (\<lambda>s.
           Ok (if mq_protocol context = mosq_p_mqtt311 \<or> mq_protocol context = mosq_p_mqtt5 then 1 else 0, s)))
       else Ok (0, s)) (\<lambda>(connect_ack, s).
    res_bind (end_found env s c found) (\<lambda>s. Ok (connect_ack, s)))))"

text \<open>What \<^verbatim>\<open>acl__find_acls\<close> returns; the list it looks up is part of the access checks.\<close>

definition acl__find_acls :: "config \<Rightarrow> mosquitto \<Rightarrow> rc" where
  "acl__find_acls cf context =
    (if cf_per_listener_settings cf \<and> mq_listener context = None then MOSQ_ERR_INVAL else MOSQ_ERR_SUCCESS)"

text \<open>
  The properties of the CONNACK. An addition that fails ends the function with
  \<open>MOSQ_ERR_NOMEM\<close>, whatever the reason.
\<close>

definition authorised_add ::
    "bool \<Rightarrow> (mosquitto_property list option \<Rightarrow> (rc \<times> mosquitto_property list option) res) \<Rightarrow>
     (rc + mosquitto_property list) res \<Rightarrow> (rc + mosquitto_property list) res" where
  "authorised_add wanted add props = res_bind props (\<lambda>props. case props of Inl rc \<Rightarrow> Ok (Inl rc)
     | Inr l \<Rightarrow> if wanted then
         res_bind (add (Some l)) (\<lambda>(rc, l').
           Ok (if rc \<noteq> 0 then Inl MOSQ_ERR_NOMEM else Inr (case l' of None \<Rightarrow> [] | Some l \<Rightarrow> l)))
       else Ok (Inr l))"

definition authorised_properties :: "mosquitto \<Rightarrow> bytes \<Rightarrow> mosquitto_property list \<Rightarrow> (rc + mosquitto_property list) res" where
  "authorised_properties context auth_data_out props =
    (let alias_maximum = (case mq_max_topic_alias context of None \<Rightarrow> 0 | Some n \<Rightarrow> n);
         props = authorised_add (alias_maximum > 0)
           (\<lambda>l. Ok (mosquitto_property_add_int16 l MQTT_PROP_TOPIC_ALIAS_MAXIMUM alias_maximum)) (Ok (Inr props));
         props = authorised_add (mq_assigned_id context)
           (\<lambda>l. mosquitto_property_add_string l MQTT_PROP_ASSIGNED_CLIENT_IDENTIFIER (mq_id context)) props;
         props = authorised_add (mq_auth_method context \<noteq> None)
           (\<lambda>l. mosquitto_property_add_string l MQTT_PROP_AUTHENTICATION_METHOD (mq_auth_method context)) props
     in authorised_add (mq_auth_method context \<noteq> None \<and> auth_data_out \<noteq> [])
          (\<lambda>l. mosquitto_property_add_binary l MQTT_PROP_AUTHENTICATION_DATA auth_data_out (of_nat (length auth_data_out))) props)"

text \<open>
  The keep alive interval of the broker, if that of the client is longer or infinite: a client
  with MQTT v5 is told, another is refused.
\<close>

definition limit_keepalive :: "db \<Rightarrow> u8 \<Rightarrow> mosquitto_property list conn" where
  "limit_keepalive d connect_ack context =
    conn_get (\<lambda>context.
    let limit = cf_max_keepalive (db_config d) in
    if limit \<noteq> 0 \<and> (mq_keepalive context > limit \<or> mq_keepalive context = 0) then
      conn_bind (conn_put (\<lambda>context. context\<lparr>mq_keepalive := limit\<rparr>)) (\<lambda>_.
      if mq_protocol context = mosq_p_mqtt5 then
        (\<lambda>context. res_bind (authorised_add True
             (\<lambda>l. Ok (mosquitto_property_add_int16 l MQTT_PROP_SERVER_KEEP_ALIVE limit)) (Ok (Inr []))) (\<lambda>r. Ok (r, context)))
      else
        (\<lambda>context. res_bind (send__connack d context connect_ack CONNACK_REFUSED_IDENTIFIER_REJECTED [])
           (\<lambda>(_, context). Ok (Inl MOSQ_ERR_INVAL, context))))
    else conn_ok []) context"

text \<open>From the registration of the client to its CONNACK.\<close>

definition accept_client :: "db \<Rightarrow> u8 \<Rightarrow> bytes \<Rightarrow> rc conn" where
  "accept_client d connect_ack auth_data_out context =
    conn_bind (conn_listener (\<lambda>listener. conn_put (\<lambda>context. context\<lparr>mq_max_qos := li_max_qos listener\<rparr>))) (\<lambda>_.
    conn_bind (limit_keepalive d connect_ack) (\<lambda>props.
    conn_bind (\<lambda>context. res_bind (if mq_protocol context = mosq_p_mqtt5
        then authorised_properties context auth_data_out props else Ok (Inr props)) (\<lambda>r. Ok (r, context))) (\<lambda>props.
    conn_bind (conn_put (\<lambda>context. mosquitto__set_state context mosq_cs_active)) (\<lambda>_.
    (\<lambda>context. res_bind (send__connack d context connect_ack CONNACK_ACCEPTED props) (\<lambda>(rc, context).
      Ok (if rc \<noteq> 0 then Inl rc else Inr rc, context))))))) context"

definition connect__on_authorised :: "acl_env \<Rightarrow> server \<Rightarrow> client \<Rightarrow> bytes \<Rightarrow> (rc \<times> server) res" where
  "connect__on_authorised env s c auth_data_out =
    res_bind (the_client s c) (\<lambda>context.
    case mq_id context of None \<Rightarrow> Fault
    | Some i \<Rightarrow>
        res_bind (case map_of (sv_by_id s) i of None \<Rightarrow> Ok (0, s) | Some found \<Rightarrow> take_over env s c found) (\<lambda>(connect_ack, s).
        res_bind (the_client s c) (\<lambda>context.
        let rc = acl__find_acls (db_config (sv_db s)) context in
        if rc \<noteq> 0 then Ok (rc, s)
        else
          res_bind (change s c (\<lambda>context. context\<lparr>mq_ping_t := 0, mq_is_dropping := False\<rparr>)) (\<lambda>s.
          res_bind (check_all_acls env s c) (\<lambda>s.
          let s = s\<lparr>sv_by_id := (i, c) # sv_by_id s\<rparr>;
              s = (if mq_clean_start context then s else s\<lparr>sv_broker := (sv_broker s)\<lparr>bk_db := (sv_db s)
                     \<lparr>db_persistence_changes := db_persistence_changes (sv_db s) + 1\<rparr>\<rparr>\<rparr>)
          in
          res_bind (the_client s c) (\<lambda>context.
          res_bind (accept_client (sv_db s) connect_ack auth_data_out context) (\<lambda>(r, context).
          let s = sv_put s c context in
          case r of Inl rc \<Rightarrow> Ok (rc, s)
          | Inr _ \<Rightarrow>
              res_bind (on_broker s (\<lambda>b. on_client b c (\<lambda>d context. with_db d (db__message_write_queued_out context)))) (\<lambda>(rc, s).
              if rc \<noteq> 0 then Ok (rc, s)
              else on_broker s (\<lambda>b. on_client b c db__message_write_inflight_out_all)))))))))"

section \<open>The handler\<close>

text \<open>The end of the handler with an error: the client is freed later.\<close>

definition connect_error :: "mosquitto \<Rightarrow> mosquitto" where
  "connect_error context = context\<lparr>mq_will := None, mq_clean_start := True, mq_session_expiry_interval := 0,
     mq_will_delay_interval := 0\<rparr>"

text \<open>
  The client gets its name, and possibly its user name as its name. A client that has no user name
  then is refused, but keeps the name it came with.
\<close>

definition connect_names :: "db \<Rightarrow> connect_data \<Rightarrow> unit conn" where
  "connect_names d cd context =
    conn_bind (conn_put (\<lambda>context. context\<lparr>mq_id := Some (cd_id cd), mq_username := cd_username cd,
      mq_password := cd_password cd\<rparr>)) (\<lambda>_.
    conn_listener (\<lambda>listener. conn_get (\<lambda>context.
    if li_use_username_as_clientid listener then
      (case mq_username context of
         Some username \<Rightarrow> conn_put (\<lambda>context. context\<lparr>mq_id := Some username\<rparr>)
       | None \<Rightarrow> conn_refuse d
           (if mq_protocol context = mosq_p_mqtt5 then MQTT_RC_NOT_AUTHORIZED else CONNACK_REFUSED_NOT_AUTHORIZED) MOSQ_ERR_AUTH)
    else conn_ok ()))) context"

text \<open>
  The authentication: the client is let in, has to send more data (then with the return code of the answer that
  was sent), or is refused.
\<close>

definition connect_extended :: "login_env \<Rightarrow> db \<Rightarrow> bytes \<Rightarrow> (rc option \<times> bytes) conn" where
  "connect_extended env d auth_data context =
    conn_get (\<lambda>context.
    case mosquitto_security_auth_start env (db_config d) context False auth_data of (rc, auth_data_out) \<Rightarrow>
      if rc = MOSQ_ERR_SUCCESS then conn_ok (None, auth_data_out)
      else if rc = MOSQ_ERR_AUTH_CONTINUE then
        conn_bind (conn_put (\<lambda>context. mosquitto__set_state context mosq_cs_authenticating)) (\<lambda>_.
        (\<lambda>context. res_bind (send__auth d context MQTT_RC_CONTINUE_AUTHENTICATION auth_data_out (of_nat (length auth_data_out)))
           (\<lambda>(rc, context). Ok (Inr (Some rc, []), context))))
      else
        conn_bind (conn_put will__clear) (\<lambda>_.
        (\<lambda>context. res_bind
           (if rc = MOSQ_ERR_AUTH then send__connack d context 0 MQTT_RC_NOT_AUTHORIZED []
            else if rc = MOSQ_ERR_NOT_SUPPORTED then send__connack d context 0 MQTT_RC_BAD_AUTHENTICATION_METHOD []
            else Ok (rc, context)) (\<lambda>(_, context). Ok (Inl rc, context\<lparr>mq_id := None\<rparr>))))) context"

definition connect_password_check :: "login_env \<Rightarrow> db \<Rightarrow> (rc option \<times> bytes) conn" where
  "connect_password_check env d context =
    (res_bind (mosquitto_unpwd_check env (db_config d) context) (\<lambda>rc.
      if rc = MOSQ_ERR_SUCCESS then Ok (Inr (None, []), context)
      else
        let context = context\<lparr>mq_id := None\<rparr> in
        if rc = MOSQ_ERR_AUTH then conn_refuse d
          (if mq_protocol context = mosq_p_mqtt5 then MQTT_RC_NOT_AUTHORIZED else CONNACK_REFUSED_NOT_AUTHORIZED) MOSQ_ERR_AUTH context
        else Ok (Inl MOSQ_ERR_UNKNOWN, context)))"

definition connect_steps :: "login_env \<Rightarrow> db \<Rightarrow> bytes option \<Rightarrow> (rc option \<times> bytes) conn" where
  "connect_steps env d rnd context =
    conn_bind (connect_read d rnd) (\<lambda>cd.
    conn_bind (connect_names d cd) (\<lambda>_.
    conn_bind (conn_put (\<lambda>context. context\<lparr>mq_clean_start := cd_clean_start cd, mq_will := cd_will cd\<rparr>)) (\<lambda>_.
    conn_get (\<lambda>context.
    if mq_auth_method context \<noteq> None then connect_extended env d (cd_auth_data cd) else connect_password_check env d)))) context"

definition handle__connect :: "acl_env \<Rightarrow> login_env \<Rightarrow> bytes option \<Rightarrow> server \<Rightarrow> client \<Rightarrow> (rc \<times> server) res" where
  "handle__connect aenv env rnd s c =
    res_bind (the_client s c) (\<lambda>context.
      if mq_listener context = None then Ok (MOSQ_ERR_INVAL, s)
      else if mq_state context \<noteq> mosq_cs_new then Ok (MOSQ_ERR_PROTOCOL, sv_put s c (connect_error context))
      else if pk_command (mq_in_packet context) \<noteq> 0x10 then Ok (MOSQ_ERR_MALFORMED_PACKET, s)
      else
        res_bind (connect_steps env (sv_db s) rnd context) (\<lambda>(r, context).
          case r of
            Inl rc \<Rightarrow> Ok (rc, sv_put s c (connect_error context))
          | Inr (Some rc, _) \<Rightarrow> Ok (rc, sv_put s c context)
          | Inr (None, auth_data_out) \<Rightarrow> connect__on_authorised aenv (sv_put s c context) c auth_data_out))"

end
