(* ===== verification/Read_Handle.thy ===== *)
theory Read_Handle
  imports Handle_Connect
begin

text \<open>
  From the bytes of a packet to its handler: DISCONNECT and AUTH (\<^verbatim>\<open>src/handle_disconnect.c\<close>,
  \<^verbatim>\<open>src/handle_auth.c\<close>), the acknowledgements that a bridge gets (\<^verbatim>\<open>lib/handle_suback.c\<close>,
  \<^verbatim>\<open>lib/handle_unsuback.c\<close>), the dispatch on the type of a packet
  (\<^verbatim>\<open>src/read_handle.c\<close>) and the whole of \<open>packet__read\<close>. The handler of a CONNACK,
  which starts a bridge, is an argument.
\<close>

section \<open>DISCONNECT\<close>

fun property__process_disconnect :: "mosquitto_property list \<Rightarrow> mosquitto \<Rightarrow> rc \<times> mosquitto" where
  "property__process_disconnect [] context = (MOSQ_ERR_SUCCESS, context)"
| "property__process_disconnect (p # ps) context =
    (if pr_identifier p = MQTT_PROP_SESSION_EXPIRY_INTERVAL then
       (if mq_session_expiry_interval context = 0 \<and> pr_i32 p \<noteq> 0 then (MOSQ_ERR_PROTOCOL, context)
        else property__process_disconnect ps (context\<lparr>mq_session_expiry_interval := pr_i32 p\<rparr>))
     else property__process_disconnect ps context)"

definition disconnect_read :: "u8 conn" where
  "disconnect_read context =
    conn_bind (conn_get (\<lambda>context.
      if mq_protocol context = mosq_p_mqtt5 \<and> pk_remaining_length (mq_in_packet context) > 0 then
        conn_bind (conn_read packet__read_byte (\<lambda>rc. rc)) (\<lambda>reason_code.
        conn_bind (if pk_remaining_length (mq_in_packet context) > 1 then conn_read (property__read_all 0xE0) (\<lambda>rc. rc) else conn_ok [])
          (\<lambda>properties. conn_ok (reason_code, properties)))
      else conn_ok (0, []))) (\<lambda>(reason_code, properties).
    conn_bind (\<lambda>context. case property__process_disconnect properties context of (rc, context) \<Rightarrow>
      Ok (if rc \<noteq> 0 then Inl rc else Inr (), context)) (\<lambda>_.
    conn_get (\<lambda>context.
      if pk_pos (mq_in_packet context) \<noteq> pk_remaining_length (mq_in_packet context) then conn_fail MOSQ_ERR_PROTOCOL
      else conn_ok reason_code))) context"

definition handle__disconnect :: "acl_env \<Rightarrow> server \<Rightarrow> client \<Rightarrow> (rc \<times> server) res" where
  "handle__disconnect env s c =
    res_bind (the_client s c) (\<lambda>context.
      if pk_command (mq_in_packet context) \<noteq> 0xE0 then Ok (MOSQ_ERR_MALFORMED_PACKET, s)
      else
        res_bind (disconnect_read context) (\<lambda>(r, context).
          let s = sv_put s c context in
          case r of Inl rc \<Rightarrow> Ok (rc, s)
          | Inr reason_code \<Rightarrow>
              if (mq_protocol context = mosq_p_mqtt311 \<or> mq_protocol context = mosq_p_mqtt5) \<and>
                 pk_command (mq_in_packet context) AND 0x0F \<noteq> 0
              then res_bind (do_disconnect env s c MOSQ_ERR_PROTOCOL) (\<lambda>s. Ok (MOSQ_ERR_PROTOCOL, s))
              else
                let s = sv_put s c (if reason_code = MQTT_RC_DISCONNECT_WITH_WILL_MSG
                      then mosquitto__set_state context mosq_cs_disconnect_with_will
                      else mosquitto__set_state (will__clear context) mosq_cs_disconnecting)
                in res_bind (do_disconnect env s c MOSQ_ERR_SUCCESS) (\<lambda>s. Ok (MOSQ_ERR_SUCCESS, s))))"

section \<open>AUTH\<close>

abbreviation MQTT_RC_REAUTHENTICATE :: u8 where "MQTT_RC_REAUTHENTICATE \<equiv> 25"

text \<open>A DISCONNECT with a reason, and the return code of the handler.\<close>

definition conn_disconnect :: "db \<Rightarrow> u8 \<Rightarrow> rc \<Rightarrow> 'a conn" where
  "conn_disconnect d reason rc context =
    (res_bind (send__disconnect d context reason []) (\<lambda>(_, context). Ok (Inl rc, context)))"

text \<open>The reason code and the data of the packet.\<close>

definition auth_read :: "db \<Rightarrow> (u8 \<times> bytes) conn" where
  "auth_read d context =
    conn_get (\<lambda>context.
    if pk_remaining_length (mq_in_packet context) > 0 then
      conn_bind (conn_read packet__read_byte (\<lambda>_. MOSQ_ERR_MALFORMED_PACKET)) (\<lambda>reason_code.
      if reason_code \<noteq> MQTT_RC_CONTINUE_AUTHENTICATION \<and> reason_code \<noteq> MQTT_RC_REAUTHENTICATE
      then conn_disconnect d MQTT_RC_PROTOCOL_ERROR MOSQ_ERR_PROTOCOL
      else if reason_code = MQTT_RC_REAUTHENTICATE \<and> mq_state context \<noteq> mosq_cs_active \<or>
         reason_code = MQTT_RC_CONTINUE_AUTHENTICATION \<and> mq_state context \<noteq> mosq_cs_authenticating \<and>
           mq_state context \<noteq> mosq_cs_reauthenticating
      then conn_disconnect d MQTT_RC_PROTOCOL_ERROR MOSQ_ERR_PROTOCOL
      else (\<lambda>context. case property__read_all 0xF0 (mq_in_packet context) of
          Fault \<Rightarrow> Fault
        | Err rc \<Rightarrow> conn_disconnect d MQTT_RC_UNSPECIFIED rc context
        | Ok (properties, p) \<Rightarrow>
            (case mosquitto_property_read_string properties MQTT_PROP_AUTHENTICATION_METHOD False of
               None \<Rightarrow> conn_disconnect d MQTT_RC_UNSPECIFIED MOSQ_ERR_PROTOCOL
             | Some (_, auth_method) \<Rightarrow>
                 if mq_auth_method context \<noteq> Some (string_of_bytes auth_method)
                 then conn_disconnect d MQTT_RC_PROTOCOL_ERROR MOSQ_ERR_PROTOCOL
                 else conn_ok (reason_code,
                   case mosquitto_property_read_binary properties MQTT_PROP_AUTHENTICATION_DATA False of
                     None \<Rightarrow> [] | Some (_, auth_data, _) \<Rightarrow> auth_data)) (context\<lparr>mq_in_packet := p\<rparr>)))
    else conn_ok (0, [])) context"

definition auth_refused :: "db \<Rightarrow> rc \<Rightarrow> mosquitto \<Rightarrow> (rc \<times> mosquitto) res" where
  "auth_refused d rc context =
    (let first = mq_state context = mosq_cs_authenticating;
         context = (if first then will__clear context else context);
         forget = (\<lambda>context. if first then context\<lparr>mq_id := None\<rparr> else context)
     in if rc = MOSQ_ERR_AUTH then
          res_bind (send__connack d context 0 MQTT_RC_NOT_AUTHORIZED []) (\<lambda>(_, context). Ok (MOSQ_ERR_PROTOCOL, forget context))
        else if rc = MOSQ_ERR_NOT_SUPPORTED then
          res_bind (send__connack d context 0 MQTT_RC_BAD_AUTHENTICATION_METHOD []) (\<lambda>(_, context). Ok (MOSQ_ERR_PROTOCOL, forget context))
        else Ok (rc, forget context))"

definition handle__auth :: "acl_env \<Rightarrow> login_env \<Rightarrow> server \<Rightarrow> client \<Rightarrow> (rc \<times> server) res" where
  "handle__auth aenv env s c =
    res_bind (the_client s c) (\<lambda>context.
      let d = sv_db s in
      if mq_protocol context \<noteq> mosq_p_mqtt5 \<or> mq_auth_method context = None then Ok (MOSQ_ERR_PROTOCOL, s)
      else if pk_command (mq_in_packet context) \<noteq> 0xF0 then Ok (MOSQ_ERR_MALFORMED_PACKET, s)
      else
        res_bind (auth_read d context) (\<lambda>(r, context).
          case r of Inl rc \<Rightarrow> Ok (rc, sv_put s c context)
          | Inr (reason_code, auth_data) \<Rightarrow>
              let again = reason_code = MQTT_RC_REAUTHENTICATE;
                  context = (if again then mosquitto__set_state context mosq_cs_reauthenticating
                             else if mq_state context \<noteq> mosq_cs_reauthenticating
                             then mosquitto__set_state context mosq_cs_authenticating else context)
              in case (if again then mosquitto_security_auth_start env (db_config d) context True auth_data
                       else mosquitto_security_auth_continue env (db_config d) context auth_data) of (rc, auth_data_out) \<Rightarrow>
                if rc = MOSQ_ERR_SUCCESS then
                  (if mq_state context = mosq_cs_authenticating
                   then connect__on_authorised aenv (sv_put s c context) c auth_data_out
                   else res_bind (send__auth d (mosquitto__set_state context mosq_cs_active) 0 auth_data_out
                       (of_nat (length auth_data_out))) (\<lambda>(rc, context). Ok (rc, sv_put s c context)))
                else if rc = MOSQ_ERR_AUTH_CONTINUE then
                  res_bind (send__auth d context MQTT_RC_CONTINUE_AUTHENTICATION auth_data_out (of_nat (length auth_data_out)))
                    (\<lambda>(rc, context). Ok (rc, sv_put s c context))
                else res_bind (auth_refused d rc context) (\<lambda>(rc, context). Ok (rc, sv_put s c context))))"

section \<open>SUBACK and UNSUBACK of a bridge\<close>

text \<open>The return codes are read and forgotten.\<close>

lemma unat_inc_less: "a < b \<Longrightarrow> unat (a + 1) = Suc (unat a)" for a b :: u32
proof -
  assume "a < b"
  moreover have "unat b < 2 ^ 32" using unsigned_less [of b, where ?'a = nat] by simp
  ultimately show ?thesis by (simp add: word_less_nat_alt unat_word_ariths)
qed

function read_codes :: "packet \<Rightarrow> packet res" where
  "read_codes p =
    (if pk_pos p < pk_remaining_length p then
       (case packet__read_byte p of Ok (_, p) \<Rightarrow> read_codes p | Err rc \<Rightarrow> Err rc | Fault \<Rightarrow> Fault)
     else Ok p)"
  by pat_completeness auto
termination
  by (relation "measure (\<lambda>p. unat (pk_remaining_length p) - unat (pk_pos p))")
     (auto simp: packet__read_byte_def pk_fetch_def unat_inc_less word_less_nat_alt [of "pk_pos _"] split: if_splits)

definition ack_read :: "int \<Rightarrow> u8 \<Rightarrow> bool \<Rightarrow> mosquitto \<Rightarrow> (rc \<times> mosquitto) res" where
  "ack_read command byte codes mosq =
    (if mosquitto__get_state mosq \<noteq> mosq_cs_active then Ok (MOSQ_ERR_PROTOCOL, mosq)
     else if pk_command (mq_in_packet mosq) \<noteq> byte then Ok (MOSQ_ERR_MALFORMED_PACKET, mosq)
     else if mq_bridge mosq = None then Ok (MOSQ_ERR_PROTOCOL, mosq)
     else
       res_bind (conn_bind (conn_read packet__read_uint16 (\<lambda>rc. rc)) (\<lambda>mid.
         if mid = 0 then conn_fail MOSQ_ERR_PROTOCOL
         else
           conn_bind (if mq_protocol mosq = mosq_p_mqtt5 then conn_read (property__read_all command) (\<lambda>rc. rc) else conn_ok [])
             (\<lambda>_. if codes then conn_read (\<lambda>p. res_bind (read_codes p) (\<lambda>p. Ok ((), p))) (\<lambda>rc. rc) else conn_ok ())) mosq)
         (\<lambda>(r, mosq). Ok (case r of Inl rc \<Rightarrow> rc | Inr _ \<Rightarrow> MOSQ_ERR_SUCCESS, mosq)))"

definition handle__suback :: "mosquitto \<Rightarrow> (rc \<times> mosquitto) res" where
  "handle__suback = ack_read 0x90 0x90 True"

definition handle__unsuback :: "mosquitto \<Rightarrow> (rc \<times> mosquitto) res" where
  "handle__unsuback = ack_read 0xB0 0xB0 False"

declare read_codes.simps [simp del]

section \<open>The dispatch\<close>

record packet_env =
  pe_plugins :: plugin_env
  pe_acl :: acl_env
  pe_login :: login_env
  pe_random :: "bytes option"
  pe_connack :: "server \<Rightarrow> client \<Rightarrow> (rc \<times> server) res"

definition at_client :: "server \<Rightarrow> client \<Rightarrow> (db \<Rightarrow> mosquitto \<Rightarrow> (rc \<times> mosquitto) res) \<Rightarrow> (rc \<times> server) res" where
  "at_client s c f = on_broker s (\<lambda>b. on_client b c (\<lambda>d mosq. with_db d (f d mosq)))"

definition dispatch :: "packet_env \<Rightarrow> server \<Rightarrow> client \<Rightarrow> u8 \<Rightarrow> (rc \<times> server) res" where
  "dispatch env s c type =
    (if type = 0xC0 then at_client s c handle__pingreq
     else if type = 0xD0 then at_client s c (\<lambda>_ mosq. Ok (handle__pingresp mosq))
     else if type = 0x40 then on_broker s (\<lambda>b. on_client b c (\<lambda>d mosq. handle__pubackcomp d mosq ''PUBACK''))
     else if type = 0x70 then on_broker s (\<lambda>b. on_client b c (\<lambda>d mosq. handle__pubackcomp d mosq ''PUBCOMP''))
     else if type = 0x30 then on_broker s (\<lambda>b. handle__publish (pe_plugins env) b c)
     else if type = 0x50 then on_broker s (\<lambda>b. on_client b c handle__pubrec)
     else if type = 0x60 then on_broker s (\<lambda>b. handle__pubrel (pe_acl env) b c)
     else if type = 0xE0 then handle__disconnect (pe_acl env) s c
     else if type = 0x80 then on_broker s (\<lambda>b. handle__subscribe (pe_acl env) b c)
     else if type = 0xA0 then on_broker s (\<lambda>b. handle__unsubscribe (pe_acl env) b c)
     else if type = 0x20 then pe_connack env s c
     else if type = 0x90 then at_client s c (\<lambda>_. handle__suback)
     else if type = 0xB0 then at_client s c (\<lambda>_. handle__unsuback)
     else if type = 0xF0 then handle__auth (pe_acl env) (pe_login env) s c
     else Ok (MOSQ_ERR_PROTOCOL, s))"

text \<open>The reason of the DISCONNECT that a client with MQTT v5 gets for an error.\<close>

definition error_reason :: "rc \<Rightarrow> u8 option" where
  "error_reason rc =
    (if rc = MOSQ_ERR_PROTOCOL \<or> rc = MOSQ_ERR_DUPLICATE_PROPERTY then Some MQTT_RC_PROTOCOL_ERROR
     else if rc = MOSQ_ERR_MALFORMED_PACKET then Some MQTT_RC_MALFORMED_PACKET
     else if rc = MOSQ_ERR_QOS_NOT_SUPPORTED then Some MQTT_RC_QOS_NOT_SUPPORTED
     else if rc = MOSQ_ERR_RETAIN_NOT_SUPPORTED then Some MQTT_RC_RETAIN_NOT_SUPPORTED
     else if rc = MOSQ_ERR_TOPIC_ALIAS_INVALID then Some MQTT_RC_TOPIC_ALIAS_INVALID
     else if rc = MOSQ_ERR_UNKNOWN \<or> rc = MOSQ_ERR_NOMEM then Some MQTT_RC_UNSPECIFIED
     else None)"

definition handle__packet :: "packet_env \<Rightarrow> server \<Rightarrow> client \<Rightarrow> (rc \<times> server) res" where
  "handle__packet env s c =
    res_bind (the_client s c) (\<lambda>context.
      let type = pk_command (mq_in_packet context) AND 0xF0 in
      if type = 0x10 then handle__connect (pe_acl env) (pe_login env) (pe_random env) s c
      else
        res_bind (dispatch env s c type) (\<lambda>(rc, s).
        res_bind (the_client s c) (\<lambda>context.
          case (if mq_protocol context = mosq_p_mqtt5 then error_reason rc else None) of
            None \<Rightarrow> Ok (rc, s)
          | Some reason \<Rightarrow>
              res_bind (send__disconnect (sv_db s) context reason []) (\<lambda>(_, context). Ok (rc, sv_put s c context)))))"

text \<open>
  \<open>packet__read\<close>: the part that fetches a packet, its handler, and the reset of the packet.
\<close>

definition packet__read :: "packet_env \<Rightarrow> server \<Rightarrow> client \<Rightarrow> (rc \<times> server) res" where
  "packet__read env s c =
    res_bind (the_client s c) (\<lambda>mosq.
    res_bind (packet_fetch (sv_db s) mosq) (\<lambda>(r, mosq).
      let s = sv_put s c mosq in
      case r of Some rc \<Rightarrow> Ok (rc, s)
      | None \<Rightarrow>
          res_bind (handle__packet env s c) (\<lambda>(rc, s).
          res_bind (change s c (\<lambda>mosq. keepalive__update (sv_db s)
            (mosq\<lparr>mq_in_packet := packet__cleanup (mq_in_packet mosq)\<rparr>))) (\<lambda>s.
          Ok (rc, s)))))"

end
