(* ===== verification/Connect_Packet.thy ===== *)
theory Connect_Packet
  imports Handle_Connect
begin

text \<open>
  The CONNECT packet: whatever bytes a client sends, reading them stays inside the packet and
  ends with all of them read or with an error.
\<close>

section \<open>Every step ends\<close>

text \<open>
  What the steps of the handler rely on: a client whose packet has arrived, that has a listener, and
  that a CONNACK can be sent to.
\<close>

definition conn_post :: "(mosquitto \<Rightarrow> bool) \<Rightarrow> 'a conn \<Rightarrow> ('a \<Rightarrow> bool) \<Rightarrow> bool" where
  "conn_post fine f Q \<longleftrightarrow> (\<forall>m. fine m \<longrightarrow> (\<exists>r m'. f m = Ok (r, m') \<and> fine m' \<and> (\<forall>x. r = Inr x \<longrightarrow> Q x)))"

lemma conn_postI: "(\<And>m. fine m \<Longrightarrow> \<exists>r m'. f m = Ok (r, m') \<and> fine m' \<and> (\<forall>x. r = Inr x \<longrightarrow> Q x)) \<Longrightarrow> conn_post fine f Q"
  by (simp add: conn_post_def)

definition safe_read :: "(packet \<Rightarrow> ('a \<times> packet) res) \<Rightarrow> bool" where
  "safe_read rd \<longleftrightarrow> (\<forall>p. in_wf p \<longrightarrow> rd p \<noteq> Fault \<and> (\<forall>x p'. rd p = Ok (x, p') \<longrightarrow> in_wf p'))"

locale conn_contract =
  fixes d :: db and fine :: "mosquitto \<Rightarrow> bool"
  assumes arrived: "fine m \<Longrightarrow> in_wf (mq_in_packet m)"
    and moved: "fine m \<Longrightarrow> in_wf p \<Longrightarrow> fine (m\<lparr>mq_in_packet := p\<rparr>)"
    and listens: "fine m \<Longrightarrow> mq_listener m \<noteq> None"
    and connack: "fine m \<Longrightarrow> \<exists>rc m'. send__connack d m ack reason [] = Ok (rc, m') \<and> fine m'"
begin

lemma post_bind:
  assumes "conn_post fine m P" and "\<And>x. P x \<Longrightarrow> conn_post fine (f x) Q"
  shows "conn_post fine (conn_bind m f) Q"
proof (rule conn_postI)
  fix c assume "fine c"
  then obtain r c' where r: "m c = Ok (r, c')" "fine c'" "\<forall>x. r = Inr x \<longrightarrow> P x" using assms(1) by (auto simp: conn_post_def)
  show "\<exists>r m'. conn_bind m f c = Ok (r, m') \<and> fine m' \<and> (\<forall>x. r = Inr x \<longrightarrow> Q x)"
  proof (cases r)
    case (Inl e)
    then show ?thesis using r by (simp add: conn_bind_def)
  next
    case (Inr x)
    then have "conn_post fine (f x) Q" using r(3) assms(2) by blast
    then show ?thesis using r Inr by (simp add: conn_post_def conn_bind_def)
  qed
qed

lemma post_ok: "Q x \<Longrightarrow> conn_post fine (conn_ok x) Q"
  by (simp add: conn_post_def conn_ok_def)

lemma post_fail: "conn_post fine (conn_fail rc) Q"
  by (simp add: conn_post_def conn_fail_def)

lemma post_get: "(\<And>m. conn_post fine (f m) Q) \<Longrightarrow> conn_post fine (conn_get f) Q"
  by (simp add: conn_post_def conn_get_def)

lemma post_put: "(\<And>m. fine m \<Longrightarrow> fine (f m)) \<Longrightarrow> Q () \<Longrightarrow> conn_post fine (conn_put f) Q"
  by (simp add: conn_post_def conn_put_def)

lemma post_refuse: "conn_post fine (conn_refuse d reason rc) Q"
proof (rule conn_postI)
  fix m assume "fine m"
  then obtain rc' m' where "send__connack d m 0 reason [] = Ok (rc', m')" "fine m'" using connack by blast
  then show "\<exists>r m'. conn_refuse d reason rc m = Ok (r, m') \<and> fine m' \<and> (\<forall>x. r = Inr x \<longrightarrow> Q x)"
    by (simp add: conn_refuse_def)
qed

lemma post_listener: "(\<And>li. conn_post fine (f li) Q) \<Longrightarrow> conn_post fine (conn_listener f) Q"
proof (rule conn_postI)
  fix m assume f: "\<And>li. conn_post fine (f li) Q" and m: "fine m"
  obtain li where "mq_listener m = Some li" using listens [OF m] by blast
  then show "\<exists>r m'. conn_listener f m = Ok (r, m') \<and> fine m' \<and> (\<forall>x. r = Inr x \<longrightarrow> Q x)"
    using f [of li] m by (simp add: conn_listener_def conn_post_def)
qed

lemma post_read:
  assumes "safe_read rd" and "\<And>x. Q x"
  shows "conn_post fine (conn_read rd err) Q"
proof (rule conn_postI)
  fix m assume fine: "fine m"
  note s = assms(1) [unfolded safe_read_def, rule_format, OF arrived [OF fine]]
  then show "\<exists>r m'. conn_read rd err m = Ok (r, m') \<and> fine m' \<and> (\<forall>x. r = Inr x \<longrightarrow> Q x)"
    using assms(2) fine moved [OF fine] by (cases "rd (mq_in_packet m)") (auto simp: conn_read_def)
qed

lemma post_if: "(b \<Longrightarrow> conn_post fine f Q) \<Longrightarrow> (\<not> b \<Longrightarrow> conn_post fine g Q) \<Longrightarrow> conn_post fine (if b then f else g) Q"
  by simp

lemma post_option:
  "(x = None \<Longrightarrow> conn_post fine f Q) \<Longrightarrow> (\<And>y. x = Some y \<Longrightarrow> conn_post fine (g y) Q) \<Longrightarrow>
   conn_post fine (case x of None \<Rightarrow> f | Some y \<Rightarrow> g y) Q"
  by (cases x) simp_all

lemma post_prod: "(\<And>a b. x = (a, b) \<Longrightarrow> conn_post fine (f a b) Q) \<Longrightarrow> conn_post fine (case x of (a, b) \<Rightarrow> f a b) Q"
  by (cases x) simp

lemma post_let: "conn_post fine (f x) Q \<Longrightarrow> conn_post fine (let y = x in f y) Q"
  by simp

end

section \<open>Readers\<close>

lemma safe_readers:
  "safe_read packet__read_byte" "safe_read packet__read_uint16" "safe_read packet__read_uint32"
  "safe_read packet__read_binary" "safe_read packet__read_string" "safe_read (property__read_all command)"
proof -
  show "safe_read packet__read_byte" using byte_rd.no_fault byte_rd.keeps_wf by (auto simp: safe_read_def)
  show "safe_read packet__read_uint16" using u16_rd.no_fault u16_rd.keeps_wf by (auto simp: safe_read_def)
  show "safe_read packet__read_uint32" using u32_rd.no_fault u32_rd.keeps_wf by (auto simp: safe_read_def)
  show "safe_read packet__read_binary" using binary_rd.no_fault binary_rd.keeps_wf by (auto simp: safe_read_def)
  show "safe_read packet__read_string" using string_codec.no_fault string_codec.keeps_wf by (auto simp: safe_read_def)
  show "safe_read (property__read_all command)"
    using property__read_all_no_fault property__read_all_wf by (auto simp: safe_read_def)
qed

lemma read_bytes_rest:
  assumes "in_wf p"
  shows "packet__read_bytes p (ucast (n :: u16)) = (if unat n \<le> length (rest p)
    then Ok (take (unat n) (rest p), adv p (unat n)) else Err MOSQ_ERR_MALFORMED_PACKET)"
proof -
  have u: "unat (ucast n :: u32) = unat n" by (rule unat_ucast_u16_u32)
  have "unat n \<le> 65537" using unat_u16_less [of n] by simp
  from pos_check [OF assms this] have "pk_pos p + ucast n > pk_remaining_length p \<longleftrightarrow> length (rest p) < unat n" by simp
  then show ?thesis using pk_copy_out_rest [OF assms, of "ucast n"] by (auto simp: packet__read_bytes_def u not_le)
qed

lemma safe_read_bytes: "safe_read (\<lambda>p. packet__read_bytes p (ucast (n :: u16)))"
  by (auto simp: safe_read_def read_bytes_rest in_wf_adv split: if_splits)

lemma after_failed_read_wf:
  assumes "in_wf p"
  shows "in_wf (after_failed_read p)"
proof (cases "packet__read_uint16 p")
  case (Ok x)
  then obtain n q where x: "packet__read_uint16 p = Ok (n, q)" by (cases x) simp
  have q: "in_wf q" by (rule u16_rd.keeps_wf [OF assms x])
  have u: "unat (ucast n :: u32) = unat n" by (rule unat_ucast_u16_u32)
  have "unat n \<le> 65537" using unat_u16_less [of n] by simp
  from pos_check [OF q this] have "pk_pos q + ucast n > pk_remaining_length q \<longleftrightarrow> length (rest q) < unat n" by simp
  moreover have "q\<lparr>pk_pos := pk_pos q + ucast n\<rparr> = adv q (unat n)" by (simp add: adv_def)
  ultimately show ?thesis using in_wf_adv(1) [OF q, of "unat n"] q by (auto simp: after_failed_read_def x)
qed (simp_all add: after_failed_read_def assms)

section \<open>The packet of a CONNECT\<close>

definition conn_fine :: "db \<Rightarrow> mosquitto \<Rightarrow> bool" where
  "conn_fine d m \<longleftrightarrow> in_wf (mq_in_packet m) \<and> out_wf d m \<and> mq_listener m \<noteq> None"

lemma conn_fine_updates [simp]:
  "conn_fine d (m\<lparr>mq_protocol := x1\<rparr>) = conn_fine d m" "conn_fine d (m\<lparr>mq_is_bridge := x2\<rparr>) = conn_fine d m"
  "conn_fine d (m\<lparr>mq_session_expiry_interval := x3\<rparr>) = conn_fine d m" "conn_fine d (m\<lparr>mq_keepalive := x4\<rparr>) = conn_fine d m"
  "conn_fine d (m\<lparr>mq_auth_method := x5\<rparr>) = conn_fine d m" "conn_fine d (m\<lparr>mq_assigned_id := x6\<rparr>) = conn_fine d m"
  "conn_fine d (m\<lparr>mq_threshold_l := x7\<rparr>) = conn_fine d m" "conn_fine d (m\<lparr>mq_will_delay_interval := x8\<rparr>) = conn_fine d m"
  "conn_fine d (m\<lparr>mq_msgs_out := x9\<rparr>) = conn_fine d m" "conn_fine d (m\<lparr>mq_maximum_packet_size := x10\<rparr>) = conn_fine d m"
  by (simp_all add: conn_fine_def out_wf_def out_packets_def)

interpretation cf: conn_contract d "conn_fine d" for d
proof
  fix m ack reason
  assume m: "conn_fine d m"
  then obtain rc m' where m': "send__connack d m ack reason [] = Ok (rc, m')" "out_frame m m'" "out_wf d m'"
    using send__connack_stream [of d m ack reason] by (auto simp: conn_fine_def)
  have "mq_in_packet m' = mq_in_packet m" "mq_listener m' = mq_listener m"
    using arg_cong [OF m'(2) [unfolded out_frame_def out_strip_def], of mq_in_packet]
      arg_cong [OF m'(2) [unfolded out_frame_def out_strip_def], of mq_listener] by simp_all
  then show "\<exists>rc m'. send__connack d m ack reason [] = Ok (rc, m') \<and> conn_fine d m'"
    using m' m by (auto simp: conn_fine_def)
qed (auto simp: conn_fine_def out_wf_def out_packets_def)

lemmas conn_rules = cf.post_ok cf.post_fail cf.post_get cf.post_put cf.post_refuse cf.post_listener cf.post_if
  cf.post_option cf.post_prod cf.post_let cf.post_read safe_readers safe_read_bytes

lemma connect_protocol_post: "conn_post (conn_fine d) (connect_protocol d) (\<lambda>_. True)"
  unfolding connect_protocol_def [abs_def]
  by (intro cf.post_bind [where P = "\<lambda>_. True"] conn_rules TrueI) (simp_all split: if_split)

lemma flags_qos: "fl_will_qos (flags_of flags) \<le> 3"
proof -
  have "flags AND 0x18 \<le> 0x18" by (rule word_and_le1)
  then have "unat (flags AND 0x18) div 8 \<le> 3" by (simp add: word_le_nat_alt)
  then show ?thesis by (simp add: flags_of_def word_le_nat_alt drop_bit_eq_div unat_div)
qed

lemma connect_header_post: "conn_post (conn_fine d) (connect_header d version) (\<lambda>fl. fl_will_qos fl \<le> 2)"
proof -
  have q: "fl_will_qos (flags_of flags) \<le> 2" if "fl_will_qos (flags_of flags) \<noteq> 3" for flags
    using flags_qos [of flags] that by (simp add: word_le_nat_alt word_unat_eq_iff)
  show ?thesis
    unfolding connect_header_def [abs_def]
    by (intro cf.post_bind [where P = "\<lambda>_. True"] conn_rules TrueI) (simp_all add: q)
qed

lemma process_connect_fine: "conn_fine d (snd (property__process_connect ps m)) = conn_fine d m"
  by (induction ps m rule: property__process_connect.induct) simp_all

lemma connect_properties_post: "conn_post (conn_fine d) (connect_properties d version fl) (\<lambda>_. True)"
  unfolding connect_properties_def [abs_def]
  by (intro cf.post_bind [where P = "\<lambda>_. True"] conn_rules TrueI) (simp_all add: process_connect_fine)

lemma connect_id_post: "conn_post (conn_fine d) (connect_id d rnd clean_start) (\<lambda>_. True)"
  unfolding connect_id_def [abs_def]
  by (intro cf.post_bind [where P = "\<lambda>_. True"] conn_rules TrueI) simp_all

lemma connect_prefix_post: "conn_post (conn_fine d) (connect_prefix d clid) (\<lambda>_. True)"
  unfolding connect_prefix_def [abs_def] by (intro conn_rules TrueI)

lemma will_props_fine: "will_props_loop ps m e l = (rc, m', e', l') \<Longrightarrow> conn_fine d m' = conn_fine d m"
  by (induction ps m e l rule: will_props_loop.induct) (auto split: if_splits)

lemma process_will_post: "conn_post (conn_fine d) (property__process_will ps w) (\<lambda>_. True)"
proof (rule conn_postI)
  fix m assume "conn_fine d m"
  obtain rc m' e l where "will_props_loop ps m (wm_expiry_interval w) [] = (rc, m', e, l)"
    by (cases "will_props_loop ps m (wm_expiry_interval w) []") auto
  then show "\<exists>r m'. property__process_will ps w m = Ok (r, m') \<and> conn_fine d m' \<and> (\<forall>x. r = Inr x \<longrightarrow> True)"
    using will_props_fine [of ps m] \<open>conn_fine d m\<close> by (auto simp: property__process_will_def)
qed

definition will_valid :: "will_message \<Rightarrow> bool" where
  "will_valid w \<longleftrightarrow> wm_qos w \<le> 2 \<and> mosquitto_pub_topic_check (wm_topic w) = MOSQ_ERR_SUCCESS"

lemma will__read_post: "q \<le> 2 \<Longrightarrow> conn_post (conn_fine d) (will__read d q r) will_valid"
  unfolding will__read_def [abs_def]
  by (intro cf.post_bind [where P = "\<lambda>_. True"] conn_rules process_will_post TrueI) (simp_all add: will_valid_def)

lemma connect_will_post:
  "fl_will_qos fl \<le> 2 \<Longrightarrow> conn_post (conn_fine d) (connect_will d fl) (\<lambda>w. \<forall>w'. w = Some w' \<longrightarrow> will_valid w')"
  unfolding connect_will_def [abs_def]
  by (intro cf.post_bind [where P = will_valid] will__read_post conn_rules) simp_all

lemma connect_optional_post:
  assumes "safe_read rd"
  shows "conn_post (conn_fine d) (connect_optional rd) (\<lambda>_. True)"
proof (rule conn_postI)
  fix m assume m: "conn_fine d m"
  note s = assms [unfolded safe_read_def, rule_format, OF cf.arrived [OF m]]
  then show "\<exists>r m'. connect_optional rd m = Ok (r, m') \<and> conn_fine d m' \<and> (\<forall>x. r = Inr x \<longrightarrow> True)"
    using m cf.moved [OF m] after_failed_read_wf [OF cf.arrived [OF m]]
    by (cases "rd (mq_in_packet m)") (auto simp: connect_optional_def)
qed

lemma connect_username_post: "conn_post (conn_fine d) (connect_username fl) (\<lambda>_. True)"
  unfolding connect_username_def [abs_def]
  by (intro cf.post_bind [where P = "\<lambda>_. True"] conn_rules connect_optional_post TrueI)

lemma connect_password_post: "conn_post (conn_fine d) (connect_password fl) (\<lambda>_. True)"
  unfolding connect_password_def [abs_def]
  by (intro cf.post_bind [where P = "\<lambda>_. True"] conn_rules connect_optional_post TrueI)

lemma connect_threshold_post: "conn_post (conn_fine d) (connect_threshold fl) (\<lambda>_. True)"
  unfolding connect_threshold_def [abs_def]
  by (intro cf.post_bind [where P = "\<lambda>_. True"] conn_rules TrueI) simp_all

lemma connect_read_post:
  "conn_post (conn_fine d) (connect_read d rnd) (\<lambda>cd. \<forall>w. cd_will cd = Some w \<longrightarrow> will_valid w)"
  unfolding connect_read_def [abs_def]
  by (rule cf.post_bind [OF connect_protocol_post], rule cf.post_bind [OF connect_header_post],
      rule cf.post_bind [OF connect_properties_post], rule cf.post_bind [OF connect_id_post],
      rule cf.post_bind [OF connect_prefix_post], rule cf.post_bind [OF connect_will_post], assumption,
      rule cf.post_bind [OF connect_username_post], rule cf.post_bind [OF connect_password_post],
      rule cf.post_bind [OF connect_threshold_post]) (intro conn_rules; simp)

lemma conn_bind_Inr:
  "conn_bind m f c = Ok (Inr y, c') \<longleftrightarrow> (\<exists>x c1. m c = Ok (Inr x, c1) \<and> f x c1 = Ok (Inr y, c'))"
  by (cases "m c") (auto simp: conn_bind_def split: sum.splits prod.splits)

lemma connect_read_whole:
  assumes "connect_read d rnd m = Ok (Inr cd, m')"
  shows "pk_pos (mq_in_packet m') = pk_remaining_length (mq_in_packet m')"
  using assms
  by (auto simp: connect_read_def conn_bind_Inr conn_get_def conn_ok_def conn_fail_def split: if_splits)

text \<open>
  C39: whatever bytes a CONNECT packet has, reading it stays inside the packet, and it ends: the packet
  is refused with a return code, possibly with a CONNACK, or all of its bytes have been read. A
  will that is accepted has a quality of service of at most 2 and a topic that may be published to,
  mount point included. The packets that wait to be sent stay well formed.
\<close>

theorem connect_read_safe:
  assumes "in_wf (mq_in_packet m)" "out_wf d m" "mq_listener m \<noteq> None"
  shows "\<exists>r m'. connect_read d rnd m = Ok (r, m') \<and> out_wf d m' \<and> in_wf (mq_in_packet m') \<and>
    (\<forall>cd. r = Inr cd \<longrightarrow> pk_pos (mq_in_packet m') = pk_remaining_length (mq_in_packet m') \<and>
      (\<forall>w. cd_will cd = Some w \<longrightarrow> wm_qos w \<le> 2 \<and> mosquitto_pub_topic_check (wm_topic w) = MOSQ_ERR_SUCCESS))"
proof -
  have "conn_fine d m" using assms by (simp add: conn_fine_def)
  then obtain r m' where r: "connect_read d rnd m = Ok (r, m')" "conn_fine d m'"
      "\<forall>cd. r = Inr cd \<longrightarrow> (\<forall>w. cd_will cd = Some w \<longrightarrow> will_valid w)"
    using connect_read_post [of d rnd] by (auto simp: conn_post_def)
  then show ?thesis using connect_read_whole [of d rnd m _ m'] by (auto simp: conn_fine_def will_valid_def)
qed

text \<open>A packet that ends after the length of its protocol name.\<close>

definition sample_short :: mosquitto where
  "sample_short = mosquitto_zero\<lparr>mq_listener := Some \<lparr> li_max_qos = 2, li_allow_zero_length_clientid = True,
       li_allow_anonymous = True, li_auto_id_prefix = None, li_use_username_as_clientid = False \<rparr>,
     mq_in_packet := packet_zero\<lparr>pk_command := 0x10, pk_remaining_length := 2, pk_payload := [0, 4]\<rparr>\<rparr>"

theorem connect_read_safe_witness:
  "in_wf (mq_in_packet sample_short) \<and> out_wf db_zero sample_short \<and>
   (\<exists>r m'. connect_read db_zero None sample_short = Ok (r, m') \<and> out_wf db_zero m' \<and> in_wf (mq_in_packet m') \<and>
     (\<forall>cd. r = Inr cd \<longrightarrow> pk_pos (mq_in_packet m') = pk_remaining_length (mq_in_packet m')))"
proof -
  have "in_wf (mq_in_packet sample_short)" "out_wf db_zero sample_short" "mq_listener sample_short \<noteq> None"
    by (simp_all add: sample_short_def in_wf_def out_wf_def out_packets_def mosquitto_zero_def packet_zero_def)
  with connect_read_safe [OF this, of None] show ?thesis by blast
qed

end
