(* ===== verification/Connect_Roundtrip.thy ===== *)
theory Connect_Roundtrip
  imports Connect_Packet
begin

text \<open>
  The other side of a connection: the CONNECT packet that the client library builds
  (\<^verbatim>\<open>lib/send_connect.c\<close> in the client build), with the threshold of the client behind its
  payload. The broker reads back what the client wrote.
\<close>

section \<open>The packet of the client library\<close>

text \<open>The flags: bit 0, which MQTT reserves, tells that a threshold follows the payload.\<close>

definition connect_byte :: "mosquitto \<Rightarrow> bool \<Rightarrow> u8" where
  "connect_byte mosq clean_session =
    (let byte = (if clean_session then 2 else 0);
         byte = (case mq_will mosq of None \<Rightarrow> byte
           | Some will \<Rightarrow>
               let byte = byte OR (push_bit 3 (wm_qos will AND 3) OR 4)
               in if mq_retain_available mosq then byte OR (if wm_retain will then 0x20 else 0) else byte);
         byte = (if mq_username mosq \<noteq> None then byte OR 0x80 else byte);
         byte = (if mq_password mosq \<noteq> None then byte OR 0x40 else byte)
     in if mq_threshold_l mosq > 0 then byte OR 1 else byte)"

text \<open>A string of C ends at its first NUL.\<close>

definition c_string :: "bytes \<Rightarrow> bytes" where
  "c_string bs = takeWhile (\<lambda>b. b \<noteq> 0) bs"

definition write_c_string :: "packet \<Rightarrow> bytes \<Rightarrow> packet res" where
  "write_c_string p bs = packet__write_string p (c_string bs) (of_nat (length (c_string bs)))"

definition connect_payload_length :: "mosquitto \<Rightarrow> u32 res" where
  "connect_payload_length mosq =
    res_bind (case mq_will mosq of None \<Rightarrow> Ok 0
      | Some will \<Rightarrow>
          (case wm_topic will of None \<Rightarrow> Fault
           | Some topic \<Rightarrow>
               Ok (2 + of_nat (length topic) + 2 + word_of_int (wm_payloadlen will) +
                 (if mq_protocol mosq = mosq_p_mqtt5 then property__get_remaining_length (wm_properties will) else 0)))) (\<lambda>will_length.
    Ok ((case mq_id mosq of None \<Rightarrow> 2 | Some clid \<Rightarrow> 2 + of_nat (length clid)) + will_length +
      (case mq_username mosq of None \<Rightarrow> 0 | Some username \<Rightarrow> 2 + of_nat (length username)) +
      (case mq_password mosq of None \<Rightarrow> 0 | Some password \<Rightarrow> 2 + of_nat (length (c_string password))) +
      (if mq_threshold_l mosq > 0 then 4 else 0)))"

text \<open>The variable header, from the name of the protocol to the properties.\<close>

definition write_connect_header ::
    "mosquitto \<Rightarrow> u16 \<Rightarrow> bool \<Rightarrow> mosquitto_property list \<Rightarrow> mosquitto_property list \<Rightarrow> packet \<Rightarrow> packet res" where
  "write_connect_header mosq keepalive clean_session properties local_props packet =
    (let name = bytes_of_string (if mq_protocol mosq = mosq_p_mqtt31 then ''MQIsdp'' else ''MQTT'');
         version = (if mq_protocol mosq = mosq_p_mqtt5 then 5 else if mq_protocol mosq = mosq_p_mqtt311 then 4 else 3)
     in
     res_bind (packet__write_string packet name (of_nat (length name))) (\<lambda>packet.
     res_bind (packet__write_byte packet version) (\<lambda>packet.
     res_bind (packet__write_byte packet (connect_byte mosq clean_session)) (\<lambda>packet.
     res_bind (packet__write_uint16 packet keepalive) (\<lambda>packet.
     if mq_protocol mosq = mosq_p_mqtt5 then
       res_bind (packet__write_varint packet (property__get_length_all properties + property__get_length_all local_props)) (\<lambda>(packet, _).
       res_bind (property__write_all packet properties False) (\<lambda>(packet, _).
       res_bind (property__write_all packet local_props False) (\<lambda>(packet, _). Ok packet)))
     else Ok packet)))))"

definition write_connect_payload :: "mosquitto \<Rightarrow> packet \<Rightarrow> packet res" where
  "write_connect_payload mosq packet =
    res_bind (case mq_id mosq of
        Some clid \<Rightarrow> packet__write_string packet (bytes_of_string clid) (of_nat (length clid))
      | None \<Rightarrow> packet__write_uint16 packet 0) (\<lambda>packet.
    res_bind (case mq_will mosq of None \<Rightarrow> Ok packet
      | Some will \<Rightarrow>
          res_bind (if mq_protocol mosq = mosq_p_mqtt5
            then res_bind (property__write_all packet (wm_properties will) True) (\<lambda>(packet, _). Ok packet) else Ok packet) (\<lambda>packet.
          case wm_topic will of None \<Rightarrow> Fault
          | Some topic \<Rightarrow>
              res_bind (packet__write_string packet (bytes_of_string topic) (of_nat (length topic))) (\<lambda>packet.
              packet__write_string packet (wm_payload will) (word_of_int (wm_payloadlen will))))) (\<lambda>packet.
    res_bind (case mq_username mosq of None \<Rightarrow> Ok packet
      | Some username \<Rightarrow> packet__write_string packet (bytes_of_string username) (of_nat (length username))) (\<lambda>packet.
    res_bind (case mq_password mosq of None \<Rightarrow> Ok packet | Some password \<Rightarrow> write_c_string packet password) (\<lambda>packet.
    if mq_threshold_l mosq > 0 then packet__write_uint32 packet (mq_threshold_l mosq) else Ok packet))))"

text \<open>
  The whole function. The packet goes to the queue of the client library, which is the argument
  \<open>queue\<close>; before that the quota for incoming messages is set from the properties, and
  the keep alive interval is set.
\<close>

definition send__connect ::
    "(mosquitto \<Rightarrow> packet \<Rightarrow> (rc \<times> mosquitto) res) \<Rightarrow> mosquitto \<Rightarrow> u16 \<Rightarrow> bool \<Rightarrow> mosquitto_property list \<Rightarrow>
     (rc \<times> mosquitto) res" where
  "send__connect queue mosq keepalive clean_session properties =
    (if mq_protocol mosq = mosq_p_mqtt31 \<and> mq_id mosq = None then Ok (MOSQ_ERR_PROTOCOL, mosq)
     else
       let receive = mosquitto_property_read_int16 properties MQTT_PROP_RECEIVE_MAXIMUM False;
           v5 = mq_protocol mosq = mosq_p_mqtt5;
           (rc, local_props) = (if v5 \<and> receive = None
             then mosquitto_property_add_int16 (Some []) MQTT_PROP_RECEIVE_MAXIMUM (md_inflight_maximum (mq_msgs_in mosq))
             else (MOSQ_ERR_SUCCESS, Some []));
           local_props = (case local_props of None \<Rightarrow> [] | Some l \<Rightarrow> l);
           mosq = (case receive of Some (_, maximum) \<Rightarrow> if v5 then mosq\<lparr>mq_msgs_in := (mq_msgs_in mosq)
               \<lparr>md_inflight_maximum := maximum, md_inflight_quota := uint maximum\<rparr>\<rparr> else mosq | None \<Rightarrow> mosq)
       in
       if rc \<noteq> 0 then Ok (rc, mosq)
       else if \<not> v5 \<and> mq_protocol mosq \<noteq> mosq_p_mqtt311 \<and> mq_protocol mosq \<noteq> mosq_p_mqtt31 then Ok (MOSQ_ERR_INVAL, mosq)
       else
         let proplen = property__get_length_all properties + property__get_length_all local_props;
             headerlen = (if v5 then 10 + (proplen + packet__varint_bytes proplen)
               else if mq_protocol mosq = mosq_p_mqtt311 then 10 else 12)
         in
         res_bind (connect_payload_length mosq) (\<lambda>payloadlen.
         if (mq_protocol mosq = mosq_p_mqtt31 \<or> mq_protocol mosq = mosq_p_mqtt311) \<and> mq_password mosq \<noteq> None \<and> mq_username mosq = None
         then Ok (MOSQ_ERR_INVAL, mosq)
         else
           res_bind (packet__alloc (packet_zero\<lparr>pk_command := 0x10, pk_remaining_length := headerlen + payloadlen\<rparr>)) (\<lambda>(rc, packet).
           if rc \<noteq> 0 then Ok (rc, mosq)
           else
             res_bind (write_connect_header mosq keepalive clean_session properties local_props packet) (\<lambda>packet.
             res_bind (write_connect_payload mosq packet) (\<lambda>packet.
             queue (mosq\<lparr>mq_keepalive := keepalive\<rparr>) packet)))))"

section \<open>The bytes of the packet\<close>

text \<open>A client of MQTT 3.1.1 whose strings can be sent; an empty user name or password would be read as none.\<close>

definition text_ok :: "bytes \<Rightarrow> bool" where
  "text_ok bs \<longleftrightarrow> bs \<noteq> [] \<and> length bs < 65536 \<and> valid_utf8 bs"

definition will_ok :: "will_message \<Rightarrow> bool" where
  "will_ok w \<longleftrightarrow> (\<exists>t. wm_topic w = Some t \<and> text_ok (bytes_of_string t)) \<and> wm_payloadlen w = int (length (wm_payload w)) \<and>
     length (wm_payload w) < 65536 \<and> wm_qos w \<le> 2"

definition connecting_ok :: "mosquitto \<Rightarrow> string \<Rightarrow> bool" where
  "connecting_ok c i \<longleftrightarrow> mq_protocol c = mosq_p_mqtt311 \<and> mq_id c = Some i \<and> text_ok (bytes_of_string i) \<and>
     (\<forall>w. mq_will c = Some w \<longrightarrow> will_ok w) \<and>
     (\<forall>u. mq_username c = Some u \<longrightarrow> text_ok (bytes_of_string u)) \<and>
     (\<forall>pw. mq_password c = Some pw \<longrightarrow> mq_username c \<noteq> None \<and> pw \<noteq> [] \<and> 0 \<notin> set pw \<and> length pw < 65536)"

definition enc_option :: "('a \<Rightarrow> bytes) \<Rightarrow> 'a option \<Rightarrow> bytes" where
  "enc_option enc x = (case x of None \<Rightarrow> [] | Some v \<Rightarrow> enc v)"

definition enc_will :: "will_message \<Rightarrow> bytes" where
  "enc_will w = enc_binary (bytes_of_string (the (wm_topic w))) @ enc_binary (wm_payload w)"

definition enc_connect_payload :: "mosquitto \<Rightarrow> bytes" where
  "enc_connect_payload c = enc_binary (bytes_of_string (the (mq_id c))) @ enc_option enc_will (mq_will c) @
     enc_option (\<lambda>u. enc_binary (bytes_of_string u)) (mq_username c) @ enc_option enc_binary (mq_password c) @
     (if mq_threshold_l c > 0 then enc_u32 (mq_threshold_l c) else [])"

definition enc_connect_header :: "mosquitto \<Rightarrow> u16 \<Rightarrow> bool \<Rightarrow> bytes" where
  "enc_connect_header c keepalive clean_session =
     enc_binary (bytes_of_string ''MQTT'') @ [4] @ [connect_byte c clean_session] @ enc_u16 keepalive"

lemma c_string_id: "0 \<notin> set bs \<Longrightarrow> c_string bs = bs"
  by (simp add: c_string_def takeWhile_eq_all_conv) metis

lemma write_text_emits:
  "length s < 65536 \<Longrightarrow> emits (\<lambda>p. packet__write_string p (bytes_of_string s) (of_nat (length s))) (enc_binary (bytes_of_string s))"
  using string_wr.wr_emits [of "bytes_of_string s"] by simp

lemma emits_option:
  assumes "x = None \<Longrightarrow> emits w []" and "\<And>v. x = Some v \<Longrightarrow> emits (w' v) (enc v)"
  shows "emits (\<lambda>p. case x of None \<Rightarrow> w p | Some v \<Rightarrow> w' v p) (enc_option enc x)"
  using assms by (cases x) (simp_all add: enc_option_def)

lemma connecting_okD:
  assumes "connecting_ok c i"
  shows "mq_protocol c = mosq_p_mqtt311" "mq_id c = Some i" "i \<noteq> []" "length i < 65536" "valid_utf8 (bytes_of_string i)"
    "mq_will c = Some w \<Longrightarrow> will_ok w" "mq_username c = Some u \<Longrightarrow> text_ok (bytes_of_string u)"
    "mq_password c = Some pw \<Longrightarrow> mq_username c \<noteq> None \<and> pw \<noteq> [] \<and> 0 \<notin> set pw \<and> length pw < 65536"
  using assms by (auto simp: connecting_ok_def text_ok_def bytes_of_string_def)

lemma write_connect_payload_emits:
  assumes "connecting_ok c i"
  shows "emits (write_connect_payload c) (enc_connect_payload c)"
proof -
  note okD = connecting_okD [OF assms]
  have will: "emits (\<lambda>p. case mq_will c of None \<Rightarrow> Ok p
      | Some will \<Rightarrow>
          res_bind (if mq_protocol c = mosq_p_mqtt5
            then res_bind (property__write_all p (wm_properties will) True) (\<lambda>(packet, _). Ok packet) else Ok p) (\<lambda>packet.
          case wm_topic will of None \<Rightarrow> Fault
          | Some topic \<Rightarrow>
              res_bind (packet__write_string packet (bytes_of_string topic) (of_nat (length topic))) (\<lambda>packet.
              packet__write_string packet (wm_payload will) (word_of_int (wm_payloadlen will)))))
      (enc_option enc_will (mq_will c))"
  proof (rule emits_option)
    fix w assume "mq_will c = Some w"
    then obtain t where t: "wm_topic w = Some t" "length t < 65536" and pl: "wm_payloadlen w = int (length (wm_payload w))"
      "length (wm_payload w) < 65536" using okD(6) by (auto simp: will_ok_def text_ok_def)
    show "emits (\<lambda>p. res_bind (if mq_protocol c = mosq_p_mqtt5
            then res_bind (property__write_all p (wm_properties w) True) (\<lambda>(packet, _). Ok packet) else Ok p) (\<lambda>packet.
          case wm_topic w of None \<Rightarrow> Fault
          | Some topic \<Rightarrow>
              res_bind (packet__write_string packet (bytes_of_string topic) (of_nat (length topic))) (\<lambda>packet.
              packet__write_string packet (wm_payload w) (word_of_int (wm_payloadlen w))))) (enc_will w)"
      using emits_bind [OF write_text_emits [OF t(2)] string_wr.wr_emits [OF pl(2)]]
      by (simp add: t(1) pl(1) okD(1) enc_will_def)
  qed (rule emits_Ok)
  have id: "emits (\<lambda>p. case mq_id c of
        Some clid \<Rightarrow> packet__write_string p (bytes_of_string clid) (of_nat (length clid))
      | None \<Rightarrow> packet__write_uint16 p 0) (enc_binary (bytes_of_string (the (mq_id c))))"
    using write_text_emits [OF okD(4)] by (simp add: okD(2))
  have user: "emits (\<lambda>p. case mq_username c of None \<Rightarrow> Ok p
      | Some username \<Rightarrow> packet__write_string p (bytes_of_string username) (of_nat (length username)))
      (enc_option (\<lambda>u. enc_binary (bytes_of_string u)) (mq_username c))"
    using okD(7) by (intro emits_option emits_Ok write_text_emits) (auto simp: text_ok_def)
  have pass: "emits (\<lambda>p. case mq_password c of None \<Rightarrow> Ok p | Some password \<Rightarrow> write_c_string p password)
      (enc_option enc_binary (mq_password c))"
  proof (rule emits_option)
    fix pw assume "mq_password c = Some pw"
    then have "0 \<notin> set pw" "length pw < 65536" using okD(8) by auto
    then show "emits (\<lambda>p. write_c_string p pw) (enc_binary pw)"
      using string_wr.wr_emits [of pw] by (simp add: write_c_string_def c_string_id)
  qed (rule emits_Ok)
  have thr: "emits (\<lambda>p. if mq_threshold_l c > 0 then packet__write_uint32 p (mq_threshold_l c) else Ok p)
      (if mq_threshold_l c > 0 then enc_u32 (mq_threshold_l c) else [])"
    by (intro emits_if u32_wr.wr_emits emits_Ok TrueI)
  show ?thesis
    unfolding write_connect_payload_def [abs_def] enc_connect_payload_def
    by (intro emits_bind id will user pass thr)
qed

lemma write_connect_header_emits:
  assumes "connecting_ok c i"
  shows "emits (write_connect_header c keepalive clean_session [] []) (enc_connect_header c keepalive clean_session)"
proof -
  have p: "mq_protocol c = mosq_p_mqtt311" by (rule connecting_okD(1) [OF assms])
  have "emits (\<lambda>p. res_bind (packet__write_string p (bytes_of_string ''MQTT'') (of_nat (length (bytes_of_string ''MQTT'')))) (\<lambda>p.
     res_bind (packet__write_byte p 4) (\<lambda>p. res_bind (packet__write_byte p (connect_byte c clean_session)) (\<lambda>p.
     packet__write_uint16 p keepalive)))) (enc_connect_header c keepalive clean_session)"
    unfolding enc_connect_header_def
    by (intro emits_bind string_wr.wr_emits byte_wr.wr_emits u16_wr.wr_emits TrueI) simp
  moreover have "res_bind r Ok = r" for r :: "packet res" by (cases r) auto
  ultimately show ?thesis by (simp add: write_connect_header_def [abs_def] p Let_def cong: if_cong)
qed

lemma payload_length_ok:
  assumes "connecting_ok c i"
  shows "connect_payload_length c = Ok (of_nat (length (enc_connect_payload c)))"
proof -
  note okD = connecting_okD [OF assms]
  let ?will = "case mq_will c of None \<Rightarrow> Ok 0
      | Some will \<Rightarrow>
          (case wm_topic will of None \<Rightarrow> Fault
           | Some topic \<Rightarrow>
               Ok (2 + of_nat (length topic) + 2 + word_of_int (wm_payloadlen will) +
                 (if mq_protocol c = mosq_p_mqtt5 then property__get_remaining_length (wm_properties will) else 0)))"
  have will: "?will = Ok (of_nat (length (enc_option enc_will (mq_will c))) :: u32)"
  proof (cases "mq_will c")
    case (Some w)
    from okD(6) [OF this] obtain t where "wm_topic w = Some t" "wm_payloadlen w = int (length (wm_payload w))"
      by (auto simp: will_ok_def)
    then show ?thesis using Some okD(1) by (simp add: enc_option_def enc_will_def)
  qed (simp add: enc_option_def)
  have "c_string pw = pw" if "mq_password c = Some pw" for pw using okD(8) [OF that] by (simp add: c_string_id)
  then show ?thesis
    unfolding connect_payload_length_def will
    by (simp add: enc_connect_payload_def okD(2) enc_option_def split: option.split)
qed

lemma enc_connect_length:
  assumes "connecting_ok c i"
  shows "length (enc_connect_header c keepalive clean_session) = 10" "length (enc_connect_payload c) < 400000"
proof -
  note okD = connecting_okD [OF assms]
  show "length (enc_connect_header c keepalive clean_session) = 10" by (simp add: enc_connect_header_def)
  have "length (enc_option enc_will (mq_will c)) < 132000"
    using okD(6) by (cases "mq_will c") (auto simp: enc_option_def enc_will_def will_ok_def text_ok_def)
  moreover have "length (enc_option (\<lambda>u. enc_binary (bytes_of_string u)) (mq_username c)) < 66000"
    using okD(7) by (cases "mq_username c") (auto simp: enc_option_def text_ok_def)
  moreover have "length (enc_option enc_binary (mq_password c)) < 66000"
    using okD(8) by (cases "mq_password c") (auto simp: enc_option_def)
  ultimately show "length (enc_connect_payload c) < 400000" using okD(2,4) by (simp add: enc_connect_payload_def)
qed

lemma send__connect_bytes:
  assumes "connecting_ok c i"
  shows "\<exists>packet. send__connect queue c keepalive clean_session [] = queue (c\<lparr>mq_keepalive := keepalive\<rparr>) packet \<and>
    pk_payload packet = packet_of 0x10 (enc_connect_header c keepalive clean_session @ enc_connect_payload c)"
proof -
  note okD = connecting_okD [OF assms]
  let ?b = "enc_connect_header c keepalive clean_session @ enc_connect_payload c"
  let ?pk = "packet_zero\<lparr>pk_command := 0x10, pk_remaining_length := of_nat (length ?b)\<rparr>"
  have small: "length ?b < 268435456" using enc_connect_length(1) [OF assms, of keepalive clean_session] enc_connect_length(2) [OF assms] by simp
  then have n: "unat (of_nat (length ?b) :: u32) = length ?b" by (simp only: unat_of_nat) (simp add: take_bit_nat_eq_self)
  obtain a where a: "packet__alloc ?pk = Ok (MOSQ_ERR_SUCCESS, a)" "can_write a (length ?b)"
      "pk_payload (put a ?b) = packet_of 0x10 ?b"
    using packet_built [of ?pk ?b] n small by (auto simp: outside_length_def packet_zero_def packet_of_def)
  have "emits (\<lambda>p. res_bind (write_connect_header c keepalive clean_session [] [] p) (write_connect_payload c)) ?b"
    by (intro emits_bind write_connect_header_emits [OF assms] write_connect_payload_emits [OF assms])
  from emitsD [OF this a(2)] have w: "res_bind (write_connect_header c keepalive clean_session [] [] a) (write_connect_payload c) = Ok (put a ?b)" .
  have l: "10 + of_nat (length (enc_connect_payload c)) = (of_nat (length ?b) :: u32)"
    by (simp add: enc_connect_length(1) [OF assms])
  have rd: "mosquitto_property_read_int16 [] MQTT_PROP_RECEIVE_MAXIMUM False = None"
    by (simp add: mosquitto_property_read_int16_def property__get_property_def)
  have "mq_password c = None \<or> mq_username c \<noteq> None" using okD(8) by (cases "mq_password c") auto
  then have "send__connect queue c keepalive clean_session [] =
      res_bind (packet__alloc ?pk) (\<lambda>(rc, packet). if rc \<noteq> 0 then Ok (rc, c)
        else res_bind (res_bind (write_connect_header c keepalive clean_session [] [] packet) (write_connect_payload c))
          (\<lambda>packet. queue (c\<lparr>mq_keepalive := keepalive\<rparr>) packet))"
    unfolding send__connect_def
    using okD(1) l rd by (auto simp: Let_def res_bind_assoc payload_length_ok [OF assms] cong: if_cong)
  then show ?thesis using w a by auto
qed

section \<open>Reading the packet back\<close>

lemma connect_byte_flags:
  assumes "\<And>w. mq_will c = Some w \<Longrightarrow> wm_qos w \<le> 2"
  shows "flags_of (connect_byte c clean_session) = \<lparr> fl_clean_start = clean_session, fl_threshold_l = (mq_threshold_l c > 0),
     fl_will = (mq_will c \<noteq> None), fl_will_qos = (case mq_will c of None \<Rightarrow> 0 | Some w \<Rightarrow> wm_qos w),
     fl_will_retain = (\<exists>w. mq_will c = Some w \<and> wm_retain w \<and> mq_retain_available c),
     fl_password = (mq_password c \<noteq> None), fl_username = (mq_username c \<noteq> None) \<rparr>"
proof (cases "mq_will c")
  case None
  then show ?thesis by (simp add: flags_of_def connect_byte_def)
next
  case (Some w)
  have q: "wm_qos w = 0 \<or> wm_qos w = 1 \<or> wm_qos w = 2"
    using assms [OF Some] word_le_nat_alt [of "wm_qos w" 2] by (auto simp: word_unat_eq_iff)
  show ?thesis
    using q by (elim disjE) (simp_all add: flags_of_def connect_byte_def Some)
qed

text \<open>
  A step that reads the bytes \<open>bs\<close>, which others may follow if \<open>R\<close> holds of them: it gives
  \<open>x\<close> and changes, besides its position in the packet, what \<open>u\<close> changes.
\<close>

definition moved :: "mosquitto \<Rightarrow> nat \<Rightarrow> mosquitto" where
  "moved m n = m\<lparr>mq_in_packet := adv (mq_in_packet m) n\<rparr>"

definition decodes ::
    "(bytes \<Rightarrow> bool) \<Rightarrow> (mosquitto \<Rightarrow> bool) \<Rightarrow> 'a conn \<Rightarrow> bytes \<Rightarrow> 'a \<Rightarrow> (mosquitto \<Rightarrow> mosquitto) \<Rightarrow> bool" where
  "decodes R P f bs x u \<longleftrightarrow> (\<forall>m r. P m \<longrightarrow> R r \<longrightarrow> in_wf (mq_in_packet m) \<longrightarrow> rest (mq_in_packet m) = bs @ r \<longrightarrow>
     f m = Ok (Inr x, u (moved m (length bs))))"

definition leaves_packet :: "(mosquitto \<Rightarrow> mosquitto) \<Rightarrow> bool" where
  "leaves_packet u \<longleftrightarrow> (\<forall>m p. u (m\<lparr>mq_in_packet := p\<rparr>) = (u m)\<lparr>mq_in_packet := p\<rparr>)"

abbreviation anything :: "bytes \<Rightarrow> bool" where
  "anything \<equiv> \<lambda>_. True"

lemma leaves_packet_same: "leaves_packet u \<Longrightarrow> mq_in_packet (u m) = mq_in_packet m"
proof -
  assume q: "leaves_packet u"
  have "u m = u (m\<lparr>mq_in_packet := mq_in_packet m\<rparr>)" by simp
  also have "\<dots> = (u m)\<lparr>mq_in_packet := mq_in_packet m\<rparr>" using q unfolding leaves_packet_def by blast
  finally show ?thesis by (rule arg_cong [of _ _ mq_in_packet, THEN trans]) simp
qed

lemma decodes_bind:
  assumes f: "decodes anything P f xs x u" and g: "decodes R Q (g x) ys y v"
    and u: "leaves_packet u" and PQ: "\<And>m n. P m \<Longrightarrow> Q (u (moved m n))"
  shows "decodes R P (conn_bind f g) (xs @ ys) y (\<lambda>m. v (u m))"
  unfolding decodes_def
proof (intro allI impI)
  fix m r assume m: "P m" "R r" "in_wf (mq_in_packet m)" "rest (mq_in_packet m) = (xs @ ys) @ r"
  let ?m = "u (moved m (length xs))"
  have r: "rest (mq_in_packet m) = xs @ (ys @ r)" using m(4) by simp
  have 1: "f m = Ok (Inr x, ?m)" using f m(1,3) r by (simp add: decodes_def)
  have p: "mq_in_packet ?m = adv (mq_in_packet m) (length xs)" by (simp add: leaves_packet_same [OF u]) (simp add: moved_def)
  have "g x ?m = Ok (Inr y, v (moved ?m (length ys)))"
    using g PQ [OF m(1)] m(2) adv_append [OF m(3) r] by (simp add: decodes_def p)
  moreover have "moved ?m (length ys) = u (moved m (length (xs @ ys)))"
    using u unfolding moved_def [of ?m] p by (simp add: moved_def leaves_packet_def)
  ultimately show "conn_bind f g m = Ok (Inr y, v (u (moved m (length (xs @ ys)))))" using 1 by (simp add: conn_bind_def)
qed

lemma decodes_weaken: "decodes anything P f bs x u \<Longrightarrow> decodes R P f bs x u"
  by (simp add: decodes_def)

lemma decodes_ok: "decodes R P (conn_ok x) [] x (\<lambda>m. m)"
  by (simp add: decodes_def conn_ok_def moved_def)

lemma decodes_put: "decodes R P (conn_put u) [] () u"
  by (simp add: decodes_def conn_put_def moved_def)

lemma decodes_get: "(\<And>m. P m \<Longrightarrow> decodes R P (f m) bs x u) \<Longrightarrow> decodes R P (conn_get f) bs x u"
  by (simp add: decodes_def conn_get_def)

lemma decodes_listener:
  "(\<And>m. P m \<Longrightarrow> mq_listener m = Some li) \<Longrightarrow> decodes R P (f li) bs x u \<Longrightarrow> decodes R P (conn_listener f) bs x u"
  by (simp add: decodes_def conn_listener_def)

lemma decodes_read:
  "(\<And>p r. in_wf p \<Longrightarrow> rest p = bs @ r \<Longrightarrow> rd p = Ok (x, adv p (length bs))) \<Longrightarrow> decodes R P (conn_read rd err) bs x (\<lambda>m. m)"
  by (simp add: decodes_def conn_read_def moved_def)

lemma decodes_optional:
  "(\<And>p r. in_wf p \<Longrightarrow> rest p = bs @ r \<Longrightarrow> rd p = Ok (x, adv p (length bs))) \<Longrightarrow> decodes R P (connect_optional rd) bs x (\<lambda>m. m)"
  by (simp add: decodes_def connect_optional_def moved_def)

lemma decodes_then: "decodes R P f bs x u \<Longrightarrow> g x = conn_ok y \<Longrightarrow> decodes R P (conn_bind f g) bs y u"
  by (simp add: decodes_def conn_bind_def conn_ok_def)

lemma read_bytes_back:
  "in_wf p \<Longrightarrow> rest p = bs @ r \<Longrightarrow> unat n = length bs \<Longrightarrow> packet__read_bytes p (ucast (n :: u16)) = Ok (bs, adv p (length bs))"
  by (simp add: read_bytes_rest)

lemma leaves_packet_id: "leaves_packet (\<lambda>m. m)"
  by (simp add: leaves_packet_def)

lemma leaves_packet_comp: "leaves_packet u \<Longrightarrow> leaves_packet v \<Longrightarrow> leaves_packet (\<lambda>m. v (u m))"
  by (simp add: leaves_packet_def)

text \<open>The listener and the mount point of the client, and, after its first bytes, its protocol.\<close>

definition arrived :: "listener \<Rightarrow> string option \<Rightarrow> bool \<Rightarrow> mosquitto \<Rightarrow> bool" where
  "arrived li mp v m \<longleftrightarrow> mq_listener m = Some li \<and> mq_mount_point m = mp \<and> pk_command (mq_in_packet m) = 0x10 \<and>
     (v \<longrightarrow> mq_protocol m = mosq_p_mqtt311)"

lemma arrived_moved [simp]: "arrived li mp v (moved m n) = arrived li mp v m"
  by (simp add: arrived_def moved_def)

definition set_v311 :: "mosquitto \<Rightarrow> mosquitto" where
  "set_v311 m = m\<lparr>mq_protocol := mosq_p_mqtt311\<rparr>"

definition set_header :: "bool \<Rightarrow> u16 \<Rightarrow> mosquitto \<Rightarrow> mosquitto" where
  "set_header clean_session keepalive m = m\<lparr>mq_session_expiry_interval := (if clean_session then 0 else 0xFFFFFFFF), mq_keepalive := keepalive\<rparr>"

definition set_threshold :: "u32 \<Rightarrow> mosquitto \<Rightarrow> mosquitto" where
  "set_threshold threshold m = (if threshold > 0 then m\<lparr>mq_threshold_l := threshold\<rparr> else m)"

lemma set_leaves_packet: "leaves_packet set_v311" "leaves_packet (set_header clean_session keepalive)" "leaves_packet (set_threshold threshold)"
  by (auto simp: leaves_packet_def set_v311_def set_header_def set_threshold_def)

lemma set_arrived:
  "arrived li mp v m \<Longrightarrow> arrived li mp True (set_v311 m)" "arrived li mp v (set_header clean_session keepalive m) = arrived li mp v m"
  by (auto simp: arrived_def set_v311_def set_header_def)

lemma protocol_back:
  "decodes anything (arrived li mp False) (connect_protocol d) (enc_binary (bytes_of_string ''MQTT'') @ [4]) 4 set_v311"
  unfolding decodes_def
proof (intro allI impI)
  fix m r assume m: "arrived li mp False m" "in_wf (mq_in_packet m)"
      "rest (mq_in_packet m) = (enc_binary (bytes_of_string ''MQTT'') @ [4]) @ r"
  let ?p = "mq_in_packet m" and ?n = "bytes_of_string ''MQTT''"
  have r: "rest ?p = enc_u16 4 @ ?n @ [4] @ r" using m(3) by (simp add: enc_binary_def)
  note w1 = adv_append [OF m(2) r]
  note w2 = adv_append [OF w1]
  have 1: "packet__read_uint16 ?p = Ok (4, adv ?p 2)" using u16_codec.reads_encoding [OF _ m(2) r] by simp
  have 2: "packet__read_bytes (adv ?p 2) 4 = Ok (?n, adv ?p 6)"
    using read_bytes_back [OF w1, of 4] by simp
  have 3: "packet__read_byte (adv ?p 6) = Ok (4, adv ?p 7)"
    using byte_codec.reads_encoding [OF _ w2(1), of 4 r] w2(2) by simp
  have "takeWhile (\<lambda>b. b \<noteq> 0) ?n = ?n" by (simp add: bytes_of_string_def byte_of_char_def)
  then have n: "string_of_bytes (takeWhile (\<lambda>b. b \<noteq> 0) ?n) = ''MQTT''" by (simp only: string_of_bytes_of_string)
  show "connect_protocol d m = Ok (Inr 4, set_v311 (moved m (length (enc_binary ?n @ [4]))))"
    using m(1) by (simp add: connect_protocol_def conn_bind_def conn_read_def 1 2 3 n conn_put_def conn_get_def conn_ok_def
      arrived_def set_v311_def moved_def)
qed

lemma header_back:
  assumes "fl_will_qos (flags_of b) \<noteq> 3" "fl_will (flags_of b) \<Longrightarrow> fl_will_retain (flags_of b) \<Longrightarrow> cf_retain_available (db_config d)"
  shows "decodes anything (arrived li mp True) (connect_header d 4) ([b] @ enc_u16 keepalive) (flags_of b)
    (set_header (fl_clean_start (flags_of b)) keepalive)"
  unfolding decodes_def
proof (intro allI impI)
  fix m r assume m: "arrived li mp True m" "in_wf (mq_in_packet m)" "rest (mq_in_packet m) = ([b] @ enc_u16 keepalive) @ r"
  let ?p = "mq_in_packet m" and ?fl = "flags_of b"
  have r: "rest ?p = [b] @ enc_u16 keepalive @ r" using m(3) by simp
  note w1 = adv_append [OF m(2) r]
  have 1: "packet__read_byte ?p = Ok (b, adv ?p (Suc 0))" using byte_codec.reads_encoding [OF _ m(2), of b] r by simp
  have 2: "packet__read_uint16 (adv ?p (Suc 0)) = Ok (keepalive, adv ?p 3)"
    using u16_codec.reads_encoding [OF _ w1] by (simp add: numeral_3_eq_3)
  have "\<not> (fl_will ?fl \<and> fl_will_retain ?fl \<and> \<not> cf_retain_available (db_config d))" using assms(2) by blast
  then show "connect_header d 4 m = Ok (Inr ?fl, set_header (fl_clean_start ?fl) keepalive (moved m (length ([b] @ enc_u16 keepalive))))"
    using assms(1) by (auto simp: connect_header_def conn_bind_def conn_read_def conn_get_def conn_put_def conn_ok_def Let_def
      1 2 set_header_def moved_def)
qed

lemma properties_back:
  assumes "fl_will fl \<Longrightarrow> fl_will_qos fl \<le> li_max_qos li"
  shows "decodes anything (arrived li mp True) (connect_properties d 4 fl) [] [] (\<lambda>m. m)"
proof -
  have "\<not> (fl_will fl \<and> fl_will_qos fl > li_max_qos li)" using assms by (auto simp: not_less)
  moreover have "mosquitto_property_read_string [] MQTT_PROP_AUTHENTICATION_METHOD False = None"
    by (simp add: mosquitto_property_read_string_def property__get_property_def)
  ultimately show ?thesis
    by (auto simp: decodes_def connect_properties_def conn_bind_def conn_put_def conn_ok_def conn_listener_def arrived_def moved_def)
qed

lemma id_back:
  assumes "i \<noteq> []" "length i < 65536" "valid_utf8 (bytes_of_string i)"
  shows "decodes anything (arrived li mp True) (connect_id d rnd clean_session) (enc_binary (bytes_of_string i)) i (\<lambda>m. m)"
proof -
  have "packet__read_string p = Ok (bytes_of_string i, adv p (length (enc_binary (bytes_of_string i))))"
    if "in_wf p" "rest p = enc_binary (bytes_of_string i) @ r" for p r
    by (rule string_codec.reads_encoding [OF _ that]) (use assms in simp)
  then have 1: "decodes anything P (conn_read packet__read_string protocol_error) (enc_binary (bytes_of_string i)) (bytes_of_string i) (\<lambda>m. m)" for P
    by (rule decodes_read)
  have "bytes_of_string i \<noteq> []" using assms(1) by (simp add: bytes_of_string_def)
  then have "decodes anything (arrived li mp True) (connect_id d rnd clean_session) (enc_binary (bytes_of_string i) @ []) i (\<lambda>m. m)"
    unfolding connect_id_def [abs_def]
    by (intro decodes_bind [OF 1] decodes_get leaves_packet_id) (simp_all add: decodes_ok)
  then show ?thesis by simp
qed

lemma prefix_back:
  "(\<And>pre. cf_clientid_prefixes (db_config d) = Some pre \<Longrightarrow> take (length pre) i = pre) \<Longrightarrow>
   decodes anything P (connect_prefix d i) [] () (\<lambda>m. m)"
  by (cases "cf_clientid_prefixes (db_config d)") (simp_all add: decodes_def connect_prefix_def conn_ok_def moved_def)

lemma username_back:
  assumes "\<And>u. mq_username c = Some u \<Longrightarrow> text_ok (bytes_of_string u)" "fl_username fl = (mq_username c \<noteq> None)"
    "fl_password fl \<Longrightarrow> mq_username c \<noteq> None"
  shows "decodes anything (arrived li mp True) (connect_username fl)
    (enc_option (\<lambda>u. enc_binary (bytes_of_string u)) (mq_username c)) (mq_username c) (\<lambda>m. m)"
proof (cases "mq_username c")
  case None
  then show ?thesis using assms
    by (auto simp: decodes_def connect_username_def enc_option_def conn_get_def conn_ok_def moved_def)
next
  case (Some u)
  then have u: "length u < 65536" "valid_utf8 (bytes_of_string u)" "bytes_of_string u \<noteq> []"
    using assms(1) by (simp_all add: text_ok_def)
  have "packet__read_string p = Ok (bytes_of_string u, adv p (length (enc_binary (bytes_of_string u))))"
    if "in_wf p" "rest p = enc_binary (bytes_of_string u) @ r" for p r
    by (rule string_codec.reads_encoding [OF _ that]) (use u in simp)
  then have 1: "decodes anything P (connect_optional packet__read_string) (enc_binary (bytes_of_string u)) (bytes_of_string u) (\<lambda>m. m)" for P
    by (rule decodes_optional)
  show ?thesis
    unfolding connect_username_def [abs_def] enc_option_def Some option.case
    using assms(2) Some u(3) by (simp add: decodes_then [OF 1])
qed

lemma password_back:
  assumes "\<And>pw. mq_password c = Some pw \<Longrightarrow> pw \<noteq> [] \<and> length pw < 65536" "fl_password fl = (mq_password c \<noteq> None)"
  shows "decodes anything P (connect_password fl) (enc_option enc_binary (mq_password c)) (mq_password c) (\<lambda>m. m)"
proof (cases "mq_password c")
  case None
  then show ?thesis using assms(2)
    by (simp add: decodes_def connect_password_def enc_option_def conn_ok_def moved_def)
next
  case (Some pw)
  then have pw: "length pw < 65536" "pw \<noteq> []" using assms(1) by simp_all
  have "packet__read_binary p = Ok (pw, adv p (length (enc_binary pw)))"
    if "in_wf p" "rest p = enc_binary pw @ r" for p r
    by (rule binary_codec.reads_encoding [OF _ that]) (use pw in simp)
  then have 1: "decodes anything P (connect_optional packet__read_binary) (enc_binary pw) pw (\<lambda>m. m)" for P
    by (rule decodes_optional)
  show ?thesis
    unfolding connect_password_def [abs_def] enc_option_def Some option.case
    using assms(2) Some pw(2) by (simp add: decodes_then [OF 1])
qed

lemma threshold_back:
  assumes "fl_threshold_l fl = (threshold > 0)"
  shows "decodes anything P (connect_threshold fl) (if threshold > 0 then enc_u32 threshold else []) () (set_threshold threshold)"
proof (cases "threshold > 0")
  case True
  have "packet__read_uint32 p = Ok (threshold, adv p 4)" if "in_wf p" "rest p = enc_u32 threshold @ r" for p r
    using u32_codec.reads_encoding [OF _ that] by simp
  then show ?thesis using assms True
    by (simp add: decodes_def connect_threshold_def conn_bind_def conn_read_def conn_put_def moved_def set_threshold_def)
next
  case False
  then show ?thesis using assms by (simp add: decodes_def connect_threshold_def conn_ok_def moved_def set_threshold_def)
qed

text \<open>The will as the broker sees it: under the mount point, and retained only if the client knows that it may be.\<close>

definition mounted :: "string option \<Rightarrow> string \<Rightarrow> string" where
  "mounted mp t = (case mp of None \<Rightarrow> [] | Some p \<Rightarrow> p) @ t"

definition will_seen :: "string option \<Rightarrow> bool \<Rightarrow> will_message \<Rightarrow> will_message" where
  "will_seen mp retain w = will_zero\<lparr>wm_topic := Some (mounted mp (the (wm_topic w))), wm_payload := wm_payload w,
     wm_payloadlen := wm_payloadlen w, wm_qos := wm_qos w, wm_retain := retain\<rparr>"

definition will_taken :: "db \<Rightarrow> listener \<Rightarrow> string option \<Rightarrow> bool \<Rightarrow> will_message \<Rightarrow> bool" where
  "will_taken d li mp retain w \<longleftrightarrow> wm_qos w \<le> li_max_qos li \<and> (retain \<longrightarrow> cf_retain_available (db_config d)) \<and>
     mosquitto_pub_topic_check (Some (mounted mp (the (wm_topic w)))) = MOSQ_ERR_SUCCESS \<and>
     (cf_message_size_limit (db_config d) = 0 \<or> int (length (wm_payload w)) \<le> sint (cf_message_size_limit (db_config d)))"

lemma decodes_next:
  assumes "decodes anything (arrived li mp v) f xs x (\<lambda>m. m)" "decodes R (arrived li mp v) (g x) ys y u"
  shows "decodes R (arrived li mp v) (conn_bind f g) (xs @ ys) y u"
  by (rule decodes_bind [where g = g, OF assms leaves_packet_id]) simp

lemma will_read_back:
  assumes "will_ok w" "will_taken d li mp retain w"
  shows "decodes anything (arrived li mp True) (will__read d (wm_qos w) retain) (enc_will w) (will_seen mp retain w) (\<lambda>m. m)"
proof -
  obtain t where t: "wm_topic w = Some t" "length t < 65536" "valid_utf8 (bytes_of_string t)" "bytes_of_string t \<noteq> []"
    and pl: "wm_payloadlen w = int (length (wm_payload w))" "length (wm_payload w) < 65536"
    using assms(1) by (auto simp: will_ok_def text_ok_def)
  let ?A = "arrived li mp True" and ?tb = "bytes_of_string t" and ?pl = "wm_payload w"
  define n where "n = (of_nat (length ?pl) :: u16)"
  have n: "unat n = length ?pl" unfolding n_def using pl(2) by (simp only: unat_of_nat) (simp add: take_bit_nat_eq_self)
  then have un: "uint n = int (length ?pl)" by (simp only: uint_nat)
  have start: "decodes anything ?A (conn_get (\<lambda>context. if mq_protocol context = mosq_p_mqtt5
      then conn_bind (conn_read (property__read_all CMD_WILL) (\<lambda>rc. rc)) (\<lambda>properties. property__process_will properties will_zero)
      else conn_ok will_zero)) [] will_zero (\<lambda>m. m)"
    by (rule decodes_get) (simp add: arrived_def decodes_ok)
  have topic: "decodes anything ?A (conn_read packet__read_string (\<lambda>rc. rc)) (enc_binary ?tb) ?tb (\<lambda>m. m)"
    by (rule decodes_read, rule string_codec.reads_encoding) (use t in auto)
  have len: "decodes anything ?A (conn_read packet__read_uint16 (\<lambda>rc. rc)) (enc_u16 n) n (\<lambda>m. m)"
    by (rule decodes_read, rule u16_codec.reads_encoding) auto
  have pay: "decodes anything ?A (if n > 0 then conn_read (\<lambda>p. packet__read_bytes p (ucast n)) (\<lambda>rc. rc) else conn_ok []) ?pl ?pl (\<lambda>m. m)"
  proof (cases "n > 0")
    case True
    then show ?thesis by (simp only: if_True) (rule decodes_read, rule read_bytes_back [OF _ _ n])
  next
    case False
    then have "?pl = []" using n by (simp add: word_gt_0)
    then show ?thesis using False by (simp add: decodes_ok)
  qed
  have lim: "(n > 0 \<and> cf_message_size_limit (db_config d) \<noteq> 0 \<and> uint n > sint (cf_message_size_limit (db_config d))) = False"
    using assms(2) by (auto simp: will_taken_def un)
  have mount: "(case mq_mount_point m of None \<Rightarrow> [] | Some mp \<Rightarrow> mp) @ string_of_bytes ?tb = mounted mp t" if "?A m" for m
    using that by (simp add: arrived_def mounted_def)
  have tc: "(mosquitto_pub_topic_check (Some (mounted mp t)) \<noteq> MOSQ_ERR_SUCCESS) = False" "(?tb = []) = False"
    using assms(2) t by (simp_all add: will_taken_def)
  have bytes: "enc_will w = [] @ enc_binary ?tb @ enc_u16 n @ ?pl" by (simp add: enc_will_def t(1) enc_binary_def [of ?pl] n_def)
  show ?thesis
    unfolding will__read_def [abs_def] bytes
    apply (rule decodes_next [OF start], rule decodes_next [OF topic], unfold tc if_False, rule decodes_get)
    apply (simp only: Let_def mount tc if_False, rule decodes_next [OF len], unfold lim if_False)
    apply (rule decodes_then [OF pay])
    apply (simp add: will_seen_def t(1) pl(1) un)
    done
qed

lemma will_back:
  assumes "\<And>w. mq_will c = Some w \<Longrightarrow> will_ok w \<and> will_taken d li mp (wm_retain w \<and> mq_retain_available c) w"
    and fl: "fl_will fl = (mq_will c \<noteq> None)" "fl_will_qos fl = (case mq_will c of None \<Rightarrow> 0 | Some w \<Rightarrow> wm_qos w)"
      "fl_will_retain fl = (\<exists>w. mq_will c = Some w \<and> wm_retain w \<and> mq_retain_available c)"
  shows "decodes anything (arrived li mp True) (connect_will d fl) (enc_option enc_will (mq_will c))
    (map_option (\<lambda>w. will_seen mp (wm_retain w \<and> mq_retain_available c) w) (mq_will c)) (\<lambda>m. m)"
proof (cases "mq_will c")
  case None
  then show ?thesis using fl
    by (simp add: decodes_def connect_will_def conn_get_def conn_ok_def enc_option_def moved_def)
next
  case (Some w)
  note r = will_read_back [of w d li mp "wm_retain w \<and> mq_retain_available c"]
  then show ?thesis
    using assms(1) [OF Some] fl Some by (simp add: connect_will_def [abs_def] enc_option_def decodes_then [OF r])
qed

section \<open>A client and its broker\<close>

text \<open>What the broker has read of the client \<open>c\<close>.\<close>

definition data_seen :: "string option \<Rightarrow> mosquitto \<Rightarrow> bool \<Rightarrow> connect_data" where
  "data_seen mp c clean_session = \<lparr> cd_clean_start = clean_session, cd_id = the (mq_id c),
     cd_will = map_option (\<lambda>w. will_seen mp (wm_retain w \<and> mq_retain_available c) w) (mq_will c),
     cd_username = mq_username c, cd_password = mq_password c, cd_auth_data = [] \<rparr>"

lemma end_back:
  "decodes (\<lambda>r. r = []) P (conn_get (\<lambda>context.
     if pk_pos (mq_in_packet context) \<noteq> pk_remaining_length (mq_in_packet context) then conn_fail MOSQ_ERR_PROTOCOL else conn_ok x)) [] x (\<lambda>m. m)"
proof -
  have "pk_pos p = pk_remaining_length p" if "in_wf p" "rest p = []" for p
    using in_wf_pos [OF that(1)] that(2) by (simp add: word_unat_eq_iff)
  then show ?thesis by (simp add: decodes_def conn_get_def conn_ok_def moved_def)
qed

lemma connect_read_decodes:
  assumes c: "connecting_ok c i"
    and w: "\<And>w. mq_will c = Some w \<Longrightarrow> will_taken d li mp (wm_retain w \<and> mq_retain_available c) w"
    and pre: "\<And>pre. cf_clientid_prefixes (db_config d) = Some pre \<Longrightarrow> take (length pre) i = pre"
  shows "decodes (\<lambda>r. r = []) (arrived li mp False) (connect_read d rnd) (enc_connect_header c keepalive clean_session @ enc_connect_payload c)
    (data_seen mp c clean_session) (\<lambda>m. set_threshold (mq_threshold_l c) (set_header clean_session keepalive (set_v311 m)))"
proof -
  note okD = connecting_okD [OF c]
  let ?b = "connect_byte c clean_session"
  have wq: "wm_qos w \<le> 2" if "mq_will c = Some w" for w using okD(6) [OF that] by (simp add: will_ok_def)
  note fl = connect_byte_flags [of c clean_session, OF wq]
  have q3: "(case mq_will c of None \<Rightarrow> 0 | Some w \<Rightarrow> wm_qos w) \<noteq> 3" using wq by (cases "mq_will c") fastforce+
  have 1: "decodes anything (arrived li mp True) (connect_header d 4) ([?b] @ enc_u16 keepalive) (flags_of ?b) (set_header clean_session keepalive)"
    using header_back [of ?b d li mp keepalive] q3 w by (auto simp: fl will_taken_def)
  have 2: "decodes anything (arrived li mp True) (connect_properties d 4 (flags_of ?b)) [] [] (\<lambda>m. m)"
    by (rule properties_back) (use w in \<open>auto simp: fl will_taken_def\<close>)
  have 3: "decodes anything (arrived li mp True) (connect_id d rnd (fl_clean_start (flags_of ?b))) (enc_binary (bytes_of_string (the (mq_id c)))) i (\<lambda>m. m)"
    using id_back [OF okD(3-5)] okD(2) by simp
  have 4: "decodes anything (arrived li mp True) (connect_prefix d i) [] () (\<lambda>m. m)" by (rule prefix_back) (rule pre)
  have 5: "decodes anything (arrived li mp True) (connect_will d (flags_of ?b)) (enc_option enc_will (mq_will c))
      (map_option (\<lambda>w. will_seen mp (wm_retain w \<and> mq_retain_available c) w) (mq_will c)) (\<lambda>m. m)"
    by (rule will_back) (use okD(6) w in \<open>simp_all add: fl\<close>)
  have 6: "decodes anything (arrived li mp True) (connect_username (flags_of ?b))
      (enc_option (\<lambda>u. enc_binary (bytes_of_string u)) (mq_username c)) (mq_username c) (\<lambda>m. m)"
    by (rule username_back) (use okD(7,8) in \<open>auto simp: fl\<close>)
  have 7: "decodes anything (arrived li mp True) (connect_password (flags_of ?b)) (enc_option enc_binary (mq_password c)) (mq_password c) (\<lambda>m. m)"
    by (rule password_back) (use okD(8) in \<open>auto simp: fl\<close>)
  have 8: "decodes anything (arrived li mp True) (connect_threshold (flags_of ?b))
      (if mq_threshold_l c > 0 then enc_u32 (mq_threshold_l c) else []) () (set_threshold (mq_threshold_l c))"
    by (rule threshold_back) (simp add: fl)
  have bytes: "enc_connect_header c keepalive clean_session @ enc_connect_payload c = (enc_binary (bytes_of_string ''MQTT'') @ [4]) @
      ([?b] @ enc_u16 keepalive) @ [] @ enc_binary (bytes_of_string (the (mq_id c))) @ [] @ enc_option enc_will (mq_will c) @
      enc_option (\<lambda>u. enc_binary (bytes_of_string u)) (mq_username c) @ enc_option enc_binary (mq_password c) @
      (if mq_threshold_l c > 0 then enc_u32 (mq_threshold_l c) else []) @ []"
    by (simp add: enc_connect_header_def enc_connect_payload_def)
  have data: "data_seen mp c clean_session = \<lparr> cd_clean_start = fl_clean_start (flags_of ?b), cd_id = i,
      cd_will = map_option (\<lambda>w. will_seen mp (wm_retain w \<and> mq_retain_available c) w) (mq_will c),
      cd_username = mq_username c, cd_password = mq_password c, cd_auth_data = [] \<rparr>"
    by (simp add: data_seen_def fl okD(2))
  show ?thesis
    unfolding bytes data connect_read_def [abs_def]
    apply (rule decodes_bind [OF protocol_back _ set_leaves_packet(1), where Q = "arrived li mp True"])
    apply (rule decodes_bind [OF 1 _ set_leaves_packet(2), where Q = "arrived li mp True"])
    apply (rule decodes_next [OF 2], rule decodes_next [OF 3], rule decodes_next [OF 4], rule decodes_next [OF 5],
        rule decodes_next [OF 6], rule decodes_next [OF 7])
    apply (rule decodes_bind [OF 8 end_back set_leaves_packet(3), where Q = "\<lambda>_. True"])
    apply (simp_all add: set_arrived)
    done
qed

definition connect_bytes :: "mosquitto \<Rightarrow> u16 \<Rightarrow> bool \<Rightarrow> bytes" where
  "connect_bytes c keepalive clean_session = enc_connect_header c keepalive clean_session @ enc_connect_payload c"

text \<open>
  C38: the broker reads what the client library writes. For a client of MQTT 3.1.1 with a name, and
  perhaps a will, a user name, a password and a threshold, \<open>send__connect\<close> hands one CONNECT
  packet to the queue; and a broker whose listener and configuration take the will and the name,
  given the body of that packet, reads back the name, the will under the mount point, the user name,
  the password and whether to start clean, sets the keep alive interval, the expiry of the session
  and, if the client has one, its threshold, and has then read the whole body.
\<close>

theorem connect_read_back:
  assumes c: "connecting_ok c i"
    and w: "\<And>w. mq_will c = Some w \<Longrightarrow> will_taken d li mp (wm_retain w \<and> mq_retain_available c) w"
    and pre: "\<And>pre. cf_clientid_prefixes (db_config d) = Some pre \<Longrightarrow> take (length pre) i = pre"
  shows "\<exists>packet. send__connect queue c keepalive clean_session [] = queue (c\<lparr>mq_keepalive := keepalive\<rparr>) packet \<and>
    pk_payload packet = packet_of 0x10 (connect_bytes c keepalive clean_session) \<and>
    (\<forall>m. in_wf (mq_in_packet m) \<and> rest (mq_in_packet m) = connect_bytes c keepalive clean_session \<and>
       pk_command (mq_in_packet m) = 0x10 \<and> mq_listener m = Some li \<and> mq_mount_point m = mp \<longrightarrow>
       connect_read d rnd m = Ok (Inr (data_seen mp c clean_session),
         m\<lparr>mq_in_packet := adv (mq_in_packet m) (length (connect_bytes c keepalive clean_session)),
           mq_protocol := mosq_p_mqtt311, mq_session_expiry_interval := (if clean_session then 0 else 0xFFFFFFFF),
           mq_keepalive := keepalive,
           mq_threshold_l := (if mq_threshold_l c > 0 then mq_threshold_l c else mq_threshold_l m)\<rparr>))"
proof -
  let ?b = "connect_bytes c keepalive clean_session"
  have d: "decodes (\<lambda>r. r = []) (arrived li mp False) (connect_read d rnd) ?b (data_seen mp c clean_session)
      (\<lambda>m. set_threshold (mq_threshold_l c) (set_header clean_session keepalive (set_v311 m)))"
    unfolding connect_bytes_def by (rule connect_read_decodes [OF c w pre])
  have r: "connect_read d rnd m = Ok (Inr (data_seen mp c clean_session),
         m\<lparr>mq_in_packet := adv (mq_in_packet m) (length ?b),
           mq_protocol := mosq_p_mqtt311, mq_session_expiry_interval := (if clean_session then 0 else 0xFFFFFFFF),
           mq_keepalive := keepalive,
           mq_threshold_l := (if mq_threshold_l c > 0 then mq_threshold_l c else mq_threshold_l m)\<rparr>)"
    if "in_wf (mq_in_packet m)" "rest (mq_in_packet m) = ?b" "pk_command (mq_in_packet m) = 0x10" "mq_listener m = Some li" "mq_mount_point m = mp"
    for m
    using d that by (simp add: decodes_def arrived_def set_threshold_def set_header_def set_v311_def moved_def)
  from send__connect_bytes [OF c, of queue keepalive clean_session] r show ?thesis unfolding connect_bytes_def by blast
qed

text \<open>A client \<open>c\<close> with the user name \<open>u\<close> and the threshold 7, and its body as the broker gets it.\<close>

definition sample_connecting :: mosquitto where
  "sample_connecting = mosquitto_zero\<lparr>mq_protocol := mosq_p_mqtt311, mq_id := Some ''c'', mq_username := Some ''u'', mq_threshold_l := 7\<rparr>"

definition sample_accepting :: mosquitto where
  "sample_accepting = mosquitto_zero\<lparr>mq_listener := Some \<lparr> li_max_qos = 2, li_allow_zero_length_clientid = True,
       li_allow_anonymous = True, li_auto_id_prefix = None, li_use_username_as_clientid = False \<rparr>,
     mq_in_packet := packet_zero\<lparr>pk_command := 0x10, pk_remaining_length := 20,
       pk_payload := [0, 4, 77, 81, 84, 84, 4, 0x83, 0, 60, 0, 1, 99, 0, 1, 117, 0, 0, 0, 7]\<rparr>\<rparr>"

theorem connect_read_back_witness:
  "(\<exists>packet. send__connect (\<lambda>m p. Ok (0, m\<lparr>mq_out_packet := [p]\<rparr>)) sample_connecting 60 True [] =
       Ok (0, sample_connecting\<lparr>mq_keepalive := 60, mq_out_packet := [packet]\<rparr>) \<and>
     pk_payload packet = [0x10, 20, 0, 4, 77, 81, 84, 84, 4, 0x83, 0, 60, 0, 1, 99, 0, 1, 117, 0, 0, 0, 7]) \<and>
   connect_read db_zero None sample_accepting =
     Ok (Inr \<lparr> cd_clean_start = True, cd_id = ''c'', cd_will = None, cd_username = Some ''u'', cd_password = None, cd_auth_data = [] \<rparr>,
       sample_accepting\<lparr>mq_in_packet := adv (mq_in_packet sample_accepting) 20, mq_protocol := mosq_p_mqtt311,
         mq_session_expiry_interval := 0, mq_keepalive := 60, mq_threshold_l := 7\<rparr>)"
proof -
  let ?c = sample_connecting and ?m = sample_accepting
  have "valid_utf8 (bytes_of_string ''c'')" unfolding valid_utf8_def
    by (rule exI [of _ "[99]"]) (simp add: utf8_allowed_def utf8_encode_def bytes_of_string_def byte_of_char_def)
  moreover have "valid_utf8 (bytes_of_string ''u'')" unfolding valid_utf8_def
    by (rule exI [of _ "[117]"]) (simp add: utf8_allowed_def utf8_encode_def bytes_of_string_def byte_of_char_def)
  ultimately have "text_ok (bytes_of_string ''c'')" "text_ok (bytes_of_string ''u'')"
    by (simp_all add: text_ok_def bytes_of_string_def)
  then have c: "connecting_ok ?c ''c''" by (simp add: connecting_ok_def sample_connecting_def mosquitto_zero_def)
  have b: "connect_bytes ?c 60 True = [0, 4, 77, 81, 84, 84, 4, 0x83, 0, 60, 0, 1, 99, 0, 1, 117, 0, 0, 0, 7]"
    by (simp add: connect_bytes_def enc_connect_header_def enc_connect_payload_def connect_byte_def sample_connecting_def
      mosquitto_zero_def enc_option_def enc_binary_def enc_u16_def enc_u32_def MOSQ_MSB_def MOSQ_LSB_def bytes_of_string_def byte_of_char_def)
  have w: "mq_will ?c = None" "cf_clientid_prefixes (db_config db_zero) = None"
    by (simp_all add: sample_connecting_def mosquitto_zero_def db_zero_def config_zero_def)
  have p: "in_wf (mq_in_packet ?m)" "rest (mq_in_packet ?m) = connect_bytes ?c 60 True" "pk_command (mq_in_packet ?m) = 0x10"
    "mq_mount_point ?m = None" "mq_listener ?m = Some (the (mq_listener ?m))"
    unfolding b by (simp_all add: in_wf_def rest_def sample_accepting_def packet_zero_def mosquitto_zero_def)
  obtain packet where packet: "send__connect (\<lambda>m p. Ok (0, m\<lparr>mq_out_packet := [p]\<rparr>)) ?c 60 True [] =
       Ok (0, ?c\<lparr>mq_keepalive := 60, mq_out_packet := [packet]\<rparr>)" "pk_payload packet = packet_of 0x10 (connect_bytes ?c 60 True)"
    and all: "\<forall>m. in_wf (mq_in_packet m) \<and> rest (mq_in_packet m) = connect_bytes ?c 60 True \<and>
       pk_command (mq_in_packet m) = 0x10 \<and> mq_listener m = Some (the (mq_listener ?m)) \<and> mq_mount_point m = None \<longrightarrow>
       connect_read db_zero None m = Ok (Inr (data_seen None ?c True),
         m\<lparr>mq_in_packet := adv (mq_in_packet m) (length (connect_bytes ?c 60 True)),
           mq_protocol := mosq_p_mqtt311, mq_session_expiry_interval := (if True then 0 else 0xFFFFFFFF), mq_keepalive := 60,
           mq_threshold_l := (if mq_threshold_l ?c > 0 then mq_threshold_l ?c else mq_threshold_l m)\<rparr>)"
    using connect_read_back [OF c, of db_zero "the (mq_listener ?m)" None "\<lambda>m p. Ok (0, m\<lparr>mq_out_packet := [p]\<rparr>)" 60 True None] w
    by force
  have "length (connect_bytes ?c 60 True) = 20" "mq_threshold_l ?c = 7" unfolding b by (simp_all add: sample_connecting_def)
  with all p have r: "connect_read db_zero None ?m = Ok (Inr (data_seen None ?c True), ?m\<lparr>mq_in_packet := adv (mq_in_packet ?m) 20,
       mq_protocol := mosq_p_mqtt311, mq_session_expiry_interval := 0, mq_keepalive := 60, mq_threshold_l := 7\<rparr>)"
    by simp
  have "data_seen None ?c True = \<lparr> cd_clean_start = True, cd_id = ''c'', cd_will = None, cd_username = Some ''u'',
      cd_password = None, cd_auth_data = [] \<rparr>"
    by (simp add: data_seen_def sample_connecting_def mosquitto_zero_def)
  moreover have "pk_payload packet = [0x10, 20, 0, 4, 77, 81, 84, 84, 4, 0x83, 0, 60, 0, 1, 99, 0, 1, 117, 0, 0, 0, 7]"
    unfolding packet(2) b by (simp add: packet_of_def enc_varint.simps)
  ultimately show ?thesis using packet(1) r by auto
qed

end
