(* ===== verification/Spec2Isabelle.thy ===== *)
theory Spec2Isabelle
  imports Handle_Acks Property_Lists Publish_Roundtrip Handler_Loops Payload_Lifetime Session_Lists
    Read_Handle Connect_Roundtrip
begin

text \<open>
  \<^bold>\<open>A verified model of the broker of the adaptive MQTT transmit policy\<close>

  The program is the Mosquitto 2.0 broker with an extension: it measures the time between a PUBLISH
  and its PUBACK or PUBCOMP for every client, puts a client whose times reach its threshold into a
  slow mode, and in slow mode holds large messages back in a third list of messages, the storage,
  until the client is fast again or the messages are old. The theories model the broker build
  (\<^verbatim>\<open>WITH_BROKER\<close>, \<^verbatim>\<open>WITH_BRIDGE\<close>, \<^verbatim>\<open>WITH_PERSISTENCE\<close>, \<^verbatim>\<open>WITH_CONTROL\<close>,
  \<^verbatim>\<open>WITH_A_THRESHOLD\<close>, no websockets) from the bytes of a packet to the lists of messages of
  all clients.

  \<^bold>\<open>Parts of the program and their theories\<close>

  \<^item> \<open>Mosq_Prelude\<close>, \<open>Mosq_Types\<close>: results (a value, a return code, or a fault, which is an
    assertion, an access outside a buffer or to freed memory), words, and the structures of
    \<^verbatim>\<open>lib/mosquitto_internal.h\<close> and \<^verbatim>\<open>src/mosquitto_broker_internal.h\<close> as records.
    Integers that are words in the code are words here; counters that cannot overflow are integers.
    A pointer to a stored message is an address, and the stored messages are a table of addresses.
  \<^item> \<open>Utf8\<close>, \<open>Packet_Datatypes\<close>, \<open>Properties\<close>, \<open>Property_Lists\<close>: the encodings
    (\<^verbatim>\<open>lib/utf8_mosq.c\<close>, \<^verbatim>\<open>lib/packet_datatypes.c\<close>, \<^verbatim>\<open>lib/property_mosq.c\<close>). The readers
    accept exactly the encodings of the standard, what is written is read back, and neither leaves
    the buffer.
  \<^item> \<open>Topic\<close>, \<open>Topic_Tok\<close>: topics and filters (\<^verbatim>\<open>lib/util_topic.c\<close>, \<^verbatim>\<open>src/topic_tok.c\<close>):
    the matcher that walks two pointers is matching by levels, the checks accept exactly the valid
    filters, and the tokens are the levels.
  \<^item> \<open>Util_Mosq\<close>, \<open>Packet_Mosq\<close>, \<open>Send_Mosq\<close>: quotas and identifiers, the queue of outgoing
    packets and the socket, which takes any number of bytes or fails as it likes, and the sending of
    PUBLISH and acknowledgements (\<^verbatim>\<open>lib/util_mosq.c\<close>, \<^verbatim>\<open>lib/packet_mosq.c\<close>,
    \<^verbatim>\<open>lib/send_mosq.c\<close>, \<^verbatim>\<open>lib/send_publish.c\<close>). No byte is lost, repeated or reordered.
  \<^item> \<open>Send_Control\<close>, \<open>Packet_Read\<close>: CONNACK, DISCONNECT and AUTH (\<^verbatim>\<open>src/send_connack.c\<close>,
    \<^verbatim>\<open>lib/send_disconnect.c\<close>, \<^verbatim>\<open>src/send_auth.c\<close>), and the reading of packets from
    a socket that gives its bytes in any pieces or fails (\<^verbatim>\<open>packet__read\<close> of
    \<^verbatim>\<open>lib/packet_mosq.c\<close>). Reading never leaves the buffer, and the packets of a stream are
    put together again whatever the pieces.
  \<^item> \<open>Database\<close>: the message database (\<^verbatim>\<open>src/database.c\<close>) with the storage list.
    \<open>Msg_Steps\<close> is an abstract account of what may happen to the outgoing messages of a client,
    \<open>Msg_Refine\<close> shows that every operation is a sequence of its steps, and
    \<open>Msg_Invariants\<close> that the steps keep counters, references, quota, handshake states and the
    order of the storage. \<open>Transmit_Policy\<close> states the policy: where a message goes, when the
    storage is released, and that large messages for slow clients are held back.
    \<open>Payload_Lifetime\<close> has a run in which a packet outlives the payload it points to.
  \<^item> \<open>Handle_Acks\<close>: the handlers of PUBACK, PUBCOMP and PUBREC (\<^verbatim>\<open>lib/handle_pubackcomp.c\<close>,
    \<^verbatim>\<open>lib/handle_pubrec.c\<close>) with the measurement, and new clients (\<^verbatim>\<open>src/context.c\<close>).
  \<^item> \<open>Security\<close>: access checks over the answers of the plugins (\<^verbatim>\<open>src/security.c\<close>).
  \<^item> \<open>Subs\<close>, \<open>Retain\<close>: the trees of subscriptions and of retained messages (\<^verbatim>\<open>src/subs.c\<close>,
    \<^verbatim>\<open>src/retain.c\<close>). \<open>Subs_Correct\<close> shows that the search visits exactly the nodes whose path
    matches, over locales for trees as tables of paths; \<open>Subs_Match\<close> that a message goes to the
    nodes of the filters that match its topic, and that the trees stay well formed.
  \<^item> \<open>Handle_Publish\<close>, \<open>Handle_Subscribe\<close>: the handlers of PUBLISH, PUBREL, SUBSCRIBE and
    UNSUBSCRIBE with topic aliases, the topic mapping of bridges, message and control plugins
    (\<^verbatim>\<open>src/handle_publish.c\<close>, \<^verbatim>\<open>lib/handle_pubrel.c\<close>, \<^verbatim>\<open>src/handle_subscribe.c\<close>,
    \<^verbatim>\<open>src/handle_unsubscribe.c\<close>, \<^verbatim>\<open>lib/alias_mosq.c\<close>, \<^verbatim>\<open>src/bridge_topic.c\<close>,
    \<^verbatim>\<open>src/plugin.c\<close>, \<^verbatim>\<open>src/control.c\<close>).
  \<^item> \<open>Broker_Refs\<close>, \<open>Broker_Steps\<close>, \<open>Broker_Handlers\<close>: the whole broker. Through any sequence of
    handled packets and other events the reference counts of stored messages are exact.
  \<^item> \<open>Handler_Loops\<close>, \<open>Publish_Roundtrip\<close>: the loops over the filters of a SUBSCRIBE and an
    UNSUBSCRIBE packet end, so the fuel they are given is enough, and the PUBLISH handler reads back
    what the sender of a PUBLISH writes.
  \<^item> \<open>Sessions\<close>: how a client is disconnected, its session expires, its will is delayed or sent,
    and its memory is freed (\<^verbatim>\<open>src/context.c\<close>, \<^verbatim>\<open>src/session_expiry.c\<close>,
    \<^verbatim>\<open>src/will_delay.c\<close>, \<^verbatim>\<open>src/keepalive.c\<close>, \<^verbatim>\<open>lib/will_mosq.c\<close>), over the
    \<open>server\<close>, which is the broker with the lists and tables of clients. \<open>Session_Lists\<close> shows that
    the lists agree with the records of the clients whatever happens, that exactly the sessions that
    are due expire, and that the check of the delayed wills can miss one that is due.
  \<^item> \<open>Authentication\<close>, \<open>Handle_Connect\<close>: logins and extended authentication over the
    answers of the plugins (\<^verbatim>\<open>src/security.c\<close>), and CONNECT with the threshold behind its
    payload, the take-over of a session and the CONNACK (\<^verbatim>\<open>src/handle_connect.c\<close>,
    \<^verbatim>\<open>src/property_broker.c\<close>). The steps of the handler work on the record of the client and
    may end it with a return code; the take-over works on the \<open>server\<close>. \<open>Connect_Packet\<close> shows that
    reading a CONNECT packet is safe whatever its bytes, over a locale of what the steps rely on.
    \<open>Connect_Roundtrip\<close> has the writer of the client library (\<^verbatim>\<open>lib/send_connect.c\<close>) and shows
    that the broker reads back what it writes with MQTT 3.1.1.
  \<^item> \<open>Read_Handle\<close>: DISCONNECT, AUTH, the acknowledgements that bridges get, the dispatch of a
    packet to its handler and the whole of \<^verbatim>\<open>packet__read\<close> (\<^verbatim>\<open>src/handle_disconnect.c\<close>,
    \<^verbatim>\<open>src/handle_auth.c\<close>, \<^verbatim>\<open>lib/handle_suback.c\<close>, \<^verbatim>\<open>lib/handle_unsuback.c\<close>,
    \<^verbatim>\<open>src/read_handle.c\<close>).

  \<^bold>\<open>How the parts interact\<close>

  A packet of a client is in the record of the client (\<open>mq_in_packet\<close>); its handler reads it,
  stores a message, searches the subscriptions and inserts the message for each subscriber, which
  may be the client itself. So the handlers work on the broker (\<open>broker\<close>: the database, the
  clients by address and the trees), and an operation on one client reads the client from the table
  and puts it back. Plugins are arguments of the handlers and may answer anything, but do not change
  the broker.

  \<^bold>\<open>Fuel\<close>

  The loops over the filters of SUBSCRIBE and UNSUBSCRIBE have the length of the packet, and one, as
  fuel; every round reads at least two bytes. All other loops are structural or have a termination
  proof.

  \<^bold>\<open>Not modelled\<close>

  The names of clients from TLS certificates, and the CONNACK and CONNECT packets of bridges. The
  theorems about the lists of sessions take the connection of a client as any change of its record
  that does not touch these lists, and those about messages as one that does not touch its messages.
  Sockets, TLS, the event loop, threads and the configuration file,
  which are input and output; persistence; the
  client library but for its CONNECT packet, and the clients; vendored lists and hash tables, whose documented behaviour the
  lists and tables of the model have. Memory allocation does not fail. Log messages are left out.
\<close>

end
